(* ===== verification/Prelude.thy ===== *)
theory Prelude
  imports Main "HOL-Library.Word"
begin

text \<open>
  Shared vocabulary of the development: the machine integer types of the Rust
  code, fallible results with the error branch as a value (the code's
  \<open>anyhow::Result\<close> and the question-mark operator), checked and saturating arithmetic
  on fixed-width words, byte-order conversions, and the generic list lemmas
  the component theories use.
\<close>

unbundle bit_operations_syntax

section \<open>Machine types\<close>

text \<open>
  Rust's unsigned integers are words of their width: addition and
  subtraction wrap as in a release build, and the code's checked operations
  test the mathematical value. \<open>usize\<close> is the length type of slices and
  vectors; it is a natural number, and the places that guard against its
  overflow compare with \<open>usize_max\<close> (a 64-bit target).
\<close>

type_synonym u8 = "8 word"
type_synonym u16 = "16 word"
type_synonym u32 = "32 word"
type_synonym u64 = "64 word"
type_synonym usize = nat
type_synonym bytes = "8 word list"

definition usize_max :: nat where
  "usize_max = 2 ^ 64 - 1"

named_theorems result_simps \<open>rewrite rules that take a successful computation apart\<close>

section \<open>Results\<close>

text \<open>
  An error is the message of the \<open>ensure!\<close>, \<open>bail!\<close> or \<open>anyhow!\<close> that raised it
  (without its formatted arguments). \<open>Inl\<close> is \<open>Err\<close>, \<open>Inr\<close> is \<open>Ok\<close>.
\<close>

datatype error = Error string

type_synonym 'a result = "error + 'a"

definition and_then :: "'e + 'a \<Rightarrow> ('a \<Rightarrow> 'e + 'b) \<Rightarrow> 'e + 'b" where
  "and_then r f = (case r of Inl e \<Rightarrow> Inl e | Inr x \<Rightarrow> f x)"

definition ensure :: "bool \<Rightarrow> string \<Rightarrow> unit result" where
  "ensure b msg = (if b then Inr () else Inl (Error msg))"

definition ok_or :: "'a option \<Rightarrow> string \<Rightarrow> 'a result" where
  "ok_or x msg = (case x of None \<Rightarrow> Inl (Error msg) | Some y \<Rightarrow> Inr y)"

definition is_ok :: "'e + 'a \<Rightarrow> bool" where
  "is_ok r = (case r of Inl _ \<Rightarrow> False | Inr _ \<Rightarrow> True)"

lemma and_then_Inl [simp]: "and_then (Inl e) f = Inl e"
  and and_then_Inr [simp]: "and_then (Inr x) f = f x"
  by (simp_all add: and_then_def)

lemma and_then_cong [fundef_cong]:
  "r = r' \<Longrightarrow> (\<And>x. r' = Inr x \<Longrightarrow> f x = g x) \<Longrightarrow> and_then r f = and_then r' g"
  by (cases r') simp_all

lemma and_then_eq_Inr [result_simps]:
  "and_then r f = Inr y \<longleftrightarrow> (\<exists>x. r = Inr x \<and> f x = Inr y)"
  by (cases r) simp_all

lemma and_then_eq_Inl:
  "and_then r f = Inl e \<longleftrightarrow> r = Inl e \<or> (\<exists>x. r = Inr x \<and> f x = Inl e)"
  by (cases r) auto

lemma and_then_assoc: "and_then (and_then r f) g = and_then r (\<lambda>x. and_then (f x) g)"
  by (cases r) simp_all

lemma ensure_True [simp]: "ensure True msg = Inr ()"
  and ensure_False [simp]: "ensure False msg = Inl (Error msg)"
  by (simp_all add: ensure_def)

lemma ensure_eq_Inr [result_simps, simp]: "ensure b msg = Inr u \<longleftrightarrow> b"
  by (simp add: ensure_def)

lemma ensure_eq_Inl [simp]: "ensure b msg = Inl e \<longleftrightarrow> \<not> b \<and> e = Error msg"
  by (auto simp add: ensure_def)

lemma ok_or_simps [simp]: "ok_or None msg = Inl (Error msg)" "ok_or (Some x) msg = Inr x"
  by (simp_all add: ok_or_def)

lemma ok_or_eq_Inr [result_simps, simp]: "ok_or x msg = Inr y \<longleftrightarrow> x = Some y"
  by (cases x) simp_all

lemma ok_or_eq_Inl [simp]: "ok_or x msg = Inl e \<longleftrightarrow> x = None \<and> e = Error msg"
  by (cases x) auto

lemma is_ok_simps [simp]: "is_ok (Inl e) = False" "is_ok (Inr x) = True"
  by (simp_all add: is_ok_def)

lemma is_ok_iff: "is_ok r \<longleftrightarrow> (\<exists>x. r = Inr x)"
  by (cases r) simp_all

text \<open>\<open>iter().map(f).collect::<Result<Vec<_>>>()\<close> and \<open>try_fold\<close>.\<close>

fun try_map :: "('a \<Rightarrow> 'e + 'b) \<Rightarrow> 'a list \<Rightarrow> 'e + 'b list" where
  "try_map f [] = Inr []"
| "try_map f (x # xs) = and_then (f x) (\<lambda>y. and_then (try_map f xs) (\<lambda>ys. Inr (y # ys)))"

fun try_fold :: "('a \<Rightarrow> 's \<Rightarrow> 'e + 's) \<Rightarrow> 'a list \<Rightarrow> 's \<Rightarrow> 'e + 's" where
  "try_fold f [] s = Inr s"
| "try_fold f (x # xs) s = and_then (f x s) (try_fold f xs)"

lemma try_fold_append:
  "try_fold f (xs @ ys) s = and_then (try_fold f xs s) (try_fold f ys)"
  by (induction xs arbitrary: s) (simp_all add: and_then_assoc cong: and_then_cong)

lemma try_fold_invariant:
  assumes "try_fold f xs s = Inr t" and "P s"
    and "\<And>x s s'. x \<in> set xs \<Longrightarrow> P s \<Longrightarrow> f x s = Inr s' \<Longrightarrow> P s'"
  shows "P t"
  using assms by (induction xs arbitrary: s) (auto simp: result_simps)

lemma try_map_length: "try_map f xs = Inr ys \<Longrightarrow> length ys = length xs"
  by (induction xs arbitrary: ys) (auto simp: result_simps)

lemma try_map_Inr: "(\<And>x. x \<in> set xs \<Longrightarrow> f x = Inr (g x)) \<Longrightarrow> try_map f xs = Inr (map g xs)"
  by (induction xs) simp_all

lemma try_map_nth: "try_map f xs = Inr ys \<Longrightarrow> i < length xs \<Longrightarrow> f (xs ! i) = Inr (ys ! i)"
proof (induction xs arbitrary: ys i)
  case (Cons x xs)
  then show ?case by (cases i) (auto simp: result_simps)
qed simp

lemma try_map_set: "try_map f xs = Inr ys \<Longrightarrow> y \<in> set ys \<Longrightarrow> \<exists>x \<in> set xs. f x = Inr y"
  by (induction xs arbitrary: ys) (auto simp: result_simps)

section \<open>Checked and saturating arithmetic\<close>

definition checked_add :: "'a::len word \<Rightarrow> 'a word \<Rightarrow> 'a word option" where
  "checked_add a b = (if unat a + unat b < 2 ^ LENGTH('a) then Some (a + b) else None)"

definition checked_sub :: "'a::len word \<Rightarrow> 'a word \<Rightarrow> 'a word option" where
  "checked_sub a b = (if unat b \<le> unat a then Some (a - b) else None)"

definition saturating_add :: "'a::len word \<Rightarrow> 'a word \<Rightarrow> 'a word" where
  "saturating_add a b = (if unat a + unat b < 2 ^ LENGTH('a) then a + b else - 1)"

definition saturating_sub :: "'a::len word \<Rightarrow> 'a word \<Rightarrow> 'a word" where
  "saturating_sub a b = (if unat b \<le> unat a then a - b else 0)"

text \<open>\<open>T::try_from(n)\<close> for a \<open>usize\<close> or a wider word, and the checked \<open>usize\<close> operations.\<close>

definition try_from_nat :: "nat \<Rightarrow> 'a::len word result" where
  "try_from_nat n = (if n < 2 ^ LENGTH('a) then Inr (word_of_nat n)
     else Inl (Error ''out of range integral type conversion attempted''))"

definition usize_checked_add :: "usize \<Rightarrow> usize \<Rightarrow> usize option" where
  "usize_checked_add a b = (if a + b \<le> usize_max then Some (a + b) else None)"

definition usize_checked_mul :: "usize \<Rightarrow> usize \<Rightarrow> usize option" where
  "usize_checked_mul a b = (if a * b \<le> usize_max then Some (a * b) else None)"

lemma unat_checked_add: "checked_add a b = Some c \<Longrightarrow> unat c = unat a + unat b"
  by (auto simp: checked_add_def unat_word_ariths split: if_splits)

lemma unat_checked_sub: "checked_sub a b = Some c \<Longrightarrow> unat c = unat a - unat b \<and> unat b \<le> unat a"
  by (auto simp: checked_sub_def unat_sub word_le_nat_alt split: if_splits)

lemma checked_add_eq_Some:
  fixes a :: "'a::len word"
  shows "checked_add a b = Some c \<longleftrightarrow> unat a + unat b < 2 ^ LENGTH('a) \<and> c = a + b"
  by (auto simp: checked_add_def)

lemma checked_add_1:
  fixes x :: "'a::len word"
  shows "checked_add x 1 = (if x = - 1 then None else Some (x + 1))"
proof -
  have max: "unat (- 1 :: 'a word) = 2 ^ LENGTH('a) - 1"
    by (simp add: unsigned_minus_1_eq_mask mask_eq_exp_minus_1)
  have "unat x + 1 < 2 ^ LENGTH('a) \<longleftrightarrow> x \<noteq> - 1"
  proof
    assume "x \<noteq> - 1"
    then have "unat x \<noteq> 2 ^ LENGTH('a) - 1" using max by (metis word_unat_eq_iff)
    moreover have "unat x < 2 ^ LENGTH('a)" by (rule unsigned_less)
    ultimately show "unat x + 1 < 2 ^ LENGTH('a)" by linarith
  qed (auto simp: max)
  then show ?thesis by (simp add: checked_add_def)
qed

lemma unat_saturating_add:
  fixes a :: "'a::len word"
  shows "unat (saturating_add a b) = min (unat a + unat b) (2 ^ LENGTH('a) - 1)"
  by (auto simp: saturating_add_def unat_word_ariths unsigned_minus_1_eq_mask mask_eq_exp_minus_1 min_def)

lemma unat_saturating_sub: "unat (saturating_sub a b) = unat a - unat b"
  by (auto simp: saturating_sub_def unat_sub word_le_nat_alt)

lemma try_from_nat_eq_Inr [result_simps]:
  "try_from_nat n = Inr (w :: 'a::len word) \<longleftrightarrow> n < 2 ^ LENGTH('a) \<and> w = word_of_nat n"
  by (auto simp: try_from_nat_def)

lemma unat_word_of_nat_small: "n < 2 ^ LENGTH('a::len) \<Longrightarrow> unat (word_of_nat n :: 'a word) = n"
  by (simp add: unat_of_nat take_bit_nat_eq_self)

lemma unat_bounds:
  "unat (a :: u8) < 256" "unat (b :: u16) < 65536" "unat (c :: u32) < 4294967296"
  "unat (d :: u64) < 18446744073709551616"
proof -
  have "unat a < 2 ^ LENGTH(8)" "unat b < 2 ^ LENGTH(16)" "unat c < 2 ^ LENGTH(32)"
    "unat d < 2 ^ LENGTH(64)"
    by (rule unsigned_less)+
  then show "unat a < 256" "unat b < 65536" "unat c < 4294967296" "unat d < 18446744073709551616"
    by simp_all
qed

lemma usize_checked_add_eq_Some [result_simps]:
  "usize_checked_add a b = Some c \<longleftrightarrow> a + b \<le> usize_max \<and> c = a + b"
  by (auto simp: usize_checked_add_def)

lemma usize_checked_mul_eq_Some [result_simps]:
  "usize_checked_mul a b = Some c \<longleftrightarrow> a * b \<le> usize_max \<and> c = a * b"
  by (auto simp: usize_checked_mul_def)

section \<open>Byte order\<close>

text \<open>
  \<open>nat_le_bytes n v\<close> is the \<open>n\<close> low bytes of \<open>v\<close>, least significant first. The
  conversions \<open>to_le_bytes\<close>, \<open>to_be_bytes\<close> and their inverses are the standard
  library's for words of \<open>n\<close> bytes.
\<close>

fun nat_le_bytes :: "nat \<Rightarrow> nat \<Rightarrow> bytes" where
  "nat_le_bytes 0 v = []"
| "nat_le_bytes (Suc n) v = word_of_nat (v mod 256) # nat_le_bytes n (v div 256)"

fun le_bytes_nat :: "bytes \<Rightarrow> nat" where
  "le_bytes_nat [] = 0"
| "le_bytes_nat (b # bs) = unat b + 256 * le_bytes_nat bs"

definition to_le_bytes :: "'a::len word \<Rightarrow> bytes" where
  "to_le_bytes w = nat_le_bytes (LENGTH('a) div 8) (unat w)"

definition from_le_bytes :: "bytes \<Rightarrow> 'a::len word" where
  "from_le_bytes bs = word_of_nat (le_bytes_nat bs)"

definition to_be_bytes :: "'a::len word \<Rightarrow> bytes" where
  "to_be_bytes w = rev (to_le_bytes w)"

definition from_be_bytes :: "bytes \<Rightarrow> 'a::len word" where
  "from_be_bytes bs = from_le_bytes (rev bs)"

lemma length_nat_le_bytes [simp]: "length (nat_le_bytes n v) = n"
  by (induction n arbitrary: v) simp_all

lemma length_to_le_bytes [simp]: "length (to_le_bytes (w :: 'a::len word)) = LENGTH('a) div 8"
  by (simp add: to_le_bytes_def)

lemma length_to_be_bytes [simp]: "length (to_be_bytes (w :: 'a::len word)) = LENGTH('a) div 8"
  by (simp add: to_be_bytes_def)

lemma unat_byte_bound: "unat (b :: u8) < 256"
  using unsigned_less [of b] by simp

lemma unat_byte_of_mod: "unat (word_of_nat (v mod 256) :: u8) = v mod 256"
  by (rule unat_word_of_nat_small) simp

lemma le_bytes_nat_le_bytes: "le_bytes_nat (nat_le_bytes n v) = v mod 256 ^ n"
proof (induction n arbitrary: v)
  case (Suc n)
  then show ?case by (simp add: unat_byte_of_mod mod_mult2_eq)
qed simp

lemma le_bytes_nat_bound: "le_bytes_nat bs < 256 ^ length bs"
proof (induction bs)
  case (Cons b bs)
  have "unat b + 256 * le_bytes_nat bs < 256 * Suc (le_bytes_nat bs)"
    using unat_byte_bound [of b] by simp
  also have "\<dots> \<le> 256 * 256 ^ length bs"
    using Cons.IH by simp
  finally show ?case by simp
qed simp

lemma nat_le_bytes_nat: "nat_le_bytes (length bs) (le_bytes_nat bs) = bs"
proof (induction bs)
  case (Cons b bs)
  have "(unat b + 256 * le_bytes_nat bs) mod 256 = unat b"
    and "(unat b + 256 * le_bytes_nat bs) div 256 = le_bytes_nat bs"
    using unat_byte_bound [of b] by simp_all
  with Cons.IH show ?case by simp
qed simp

lemma byte_width: "8 dvd LENGTH('a::len) \<Longrightarrow> (256::nat) ^ (LENGTH('a) div 8) = 2 ^ LENGTH('a)"
proof -
  assume "8 dvd LENGTH('a)"
  then have "(2::nat) ^ LENGTH('a) = 2 ^ (8 * (LENGTH('a) div 8))"
    by simp
  also have "\<dots> = 256 ^ (LENGTH('a) div 8)"
    by (simp add: power_mult)
  finally show ?thesis by simp
qed

lemma from_to_le_bytes:
  "8 dvd LENGTH('a::len) \<Longrightarrow> from_le_bytes (to_le_bytes (w :: 'a word)) = w"
  by (simp add: from_le_bytes_def to_le_bytes_def le_bytes_nat_le_bytes byte_width)

lemma to_from_le_bytes:
  assumes "8 dvd LENGTH('a::len)" and "length bs = LENGTH('a) div 8"
  shows "to_le_bytes (from_le_bytes bs :: 'a word) = bs"
proof -
  have "le_bytes_nat bs < 2 ^ LENGTH('a)"
    using le_bytes_nat_bound [of bs] assms byte_width [where 'a='a] by simp
  then have "unat (word_of_nat (le_bytes_nat bs) :: 'a word) = le_bytes_nat bs"
    by (rule unat_word_of_nat_small)
  then show ?thesis
    using nat_le_bytes_nat [of bs] assms(2) by (simp add: to_le_bytes_def from_le_bytes_def)
qed

lemma from_to_be_bytes:
  "8 dvd LENGTH('a::len) \<Longrightarrow> from_be_bytes (to_be_bytes (w :: 'a word)) = w"
  by (simp add: from_be_bytes_def to_be_bytes_def from_to_le_bytes)

lemma to_from_be_bytes:
  "8 dvd LENGTH('a::len) \<Longrightarrow> length bs = LENGTH('a) div 8
    \<Longrightarrow> to_be_bytes (from_be_bytes bs :: 'a word) = bs"
  by (simp add: from_be_bytes_def to_be_bytes_def to_from_le_bytes)

lemmas byte_order_simps =
  from_to_le_bytes to_from_le_bytes from_to_be_bytes to_from_be_bytes

section \<open>Slices\<close>

text \<open>\<open>slice xs a b\<close> is \<open>&xs[a..b]\<close> for bounds the code has checked.\<close>

definition slice :: "'a list \<Rightarrow> nat \<Rightarrow> nat \<Rightarrow> 'a list" where
  "slice xs a b = take (b - a) (drop a xs)"

lemma length_slice [simp]: "b \<le> length xs \<Longrightarrow> length (slice xs a b) = b - a"
  by (simp add: slice_def)

lemma slice_append_exact: "length xs = a \<Longrightarrow> length ys = n \<Longrightarrow> slice (xs @ ys @ zs) a (a + n) = ys"
  by (simp add: slice_def)

lemma slice_shift: "length xs = a \<Longrightarrow> slice (xs @ ys) (a + i) (a + j) = slice ys i j"
  by (simp add: slice_def)

end
