(* ===== verification/Leb128.thy ===== *)
theory Leb128
  imports Prelude
begin

text \<open>
  The LEB128 codec of \<^verbatim>\<open>light-server/src/codec/leb128.rs\<close>: seven value bits
  per byte, least significant group first, the high bit set on every byte but
  the last.
\<close>

section \<open>Encoder\<close>

function leb128_encode_one :: "u64 \<Rightarrow> bytes \<Rightarrow> bytes" where
  "leb128_encode_one v out =
     (let low = (ucast (v AND 0x7f) :: u8);
          v' = drop_bit 7 v;
          byte = (if v' \<noteq> 0 then low OR 0x80 else low)
      in if v' = 0 then out @ [byte] else leb128_encode_one v' (out @ [byte]))"
  by pat_completeness auto

lemma unat_drop_7: "unat (drop_bit 7 (v :: u64)) = unat v div 128"
  by (subst unat_drop_bit_eq) (simp add: drop_bit_eq_div)

lemma unat_drop_7_less: "drop_bit 7 (v :: u64) \<noteq> 0 \<Longrightarrow> unat (drop_bit 7 v) < unat v"
proof -
  assume "drop_bit 7 v \<noteq> 0"
  then have "v \<noteq> 0" by auto
  then show ?thesis by (simp add: unat_drop_7 unat_gt_0)
qed

termination leb128_encode_one
  by (relation "measure (\<lambda>(v, out). unat v)") (auto simp: unat_drop_7_less)

declare leb128_encode_one.simps [simp del]

fun leb128_encode_loop :: "u64 list \<Rightarrow> bytes \<Rightarrow> bytes" where
  "leb128_encode_loop [] out = out"
| "leb128_encode_loop (v # vs) out = leb128_encode_loop vs (leb128_encode_one v out)"

definition encode_leb128_values :: "u64 list \<Rightarrow> bytes" where
  "encode_leb128_values vals = leb128_encode_loop vals []"

section \<open>Decoder\<close>

text \<open>
  The inner loop of \<open>decode_leb128_values\<close>, from position \<open>i\<close> with the bits read
  so far in \<open>value\<close>. The shift of the code drops the bits that leave the word.
\<close>

function leb128_decode_one :: "bytes \<Rightarrow> usize \<Rightarrow> nat \<Rightarrow> u64 \<Rightarrow> (u64 \<times> usize) result" where
  "leb128_decode_one bs i shift val =
     (if \<not> i < length bs then Inl (Error ''truncated LEB128 stream'')
      else let byte = bs ! i;
               val' = val OR push_bit shift (ucast (byte AND 0x7f) :: u64)
           in if byte AND 0x80 = 0 then Inr (val', i + 1)
              else if \<not> shift + 7 < 64 then Inl (Error ''LEB128 value is too large'')
              else leb128_decode_one bs (i + 1) (shift + 7) val')"
  by pat_completeness auto
termination
  by (relation "measure (\<lambda>(bs, i, shift, val). length bs - i)") auto

declare leb128_decode_one.simps [simp del]

fun leb128_decode_loop :: "nat \<Rightarrow> bytes \<Rightarrow> usize \<Rightarrow> u64 list \<Rightarrow> u64 list result" where
  "leb128_decode_loop 0 bs i out = Inr out"
| "leb128_decode_loop (Suc n) bs i out =
     and_then (leb128_decode_one bs i 0 0) (\<lambda>(v, i'). leb128_decode_loop n bs i' (out @ [v]))"

definition decode_leb128_values :: "bytes \<Rightarrow> usize \<Rightarrow> u64 list result" where
  "decode_leb128_values bs count = leb128_decode_loop count bs 0 []"

section \<open>Round trip\<close>

lemma leb128_encode_one_append:
  "leb128_encode_one v out = out @ leb128_encode_one v []"
proof (induction v arbitrary: out rule: measure_induct_rule [of unat])
  case (less v)
  show ?case
  proof (cases "drop_bit 7 v = 0")
    case True
    then show ?thesis by (simp add: leb128_encode_one.simps [of v])
  next
    case False
    let ?b = "(ucast (v AND 0x7f) :: u8) OR 0x80"
    have IH: "leb128_encode_one (drop_bit 7 v) (o' @ [?b])
        = (o' @ [?b]) @ leb128_encode_one (drop_bit 7 v) []" for o'
      using less.IH [OF unat_drop_7_less [OF False]] .
    from False show ?thesis
      using IH [of out] IH [of "[]"] by (simp add: leb128_encode_one.simps [of v])
  qed
qed

lemma byte_masks:
  "(0x7f :: u64) = mask 7" "(0x7f :: u8) = mask 7"
  by (simp_all add: mask_eq_exp_minus_1)

lemma bit_0x80: "bit (0x80 :: int) n \<longleftrightarrow> n = 7"
  using bit_exp_iff [of 7 n, where 'a=int] by auto

lemma low_byte_value:
  fixes v :: u64
  shows "ucast ((ucast (v AND 0x7f) :: u8) AND 0x7f) = take_bit 7 v"
    and "ucast (((ucast (v AND 0x7f) :: u8) OR 0x80) AND 0x7f) = take_bit 7 v"
    and "(ucast (v AND 0x7f) :: u8) AND 0x80 = 0"
    and "((ucast (v AND 0x7f) :: u8) OR 0x80) AND 0x80 \<noteq> 0"
proof -
  show *: "ucast ((ucast (v AND 0x7f) :: u8) AND 0x7f) = take_bit 7 v"
    unfolding byte_masks by (rule bit_word_eqI) (auto simp: bit_simps bit_0x80)
  have "(b OR 0x80) AND 0x7f = b AND 0x7f" for b :: u8
    unfolding byte_masks by (rule bit_word_eqI) (auto simp: bit_simps bit_0x80)
  with * show "ucast (((ucast (v AND 0x7f) :: u8) OR 0x80) AND 0x7f) = take_bit 7 v"
    by simp
  show "(ucast (v AND 0x7f) :: u8) AND 0x80 = 0"
    unfolding byte_masks by (rule bit_word_eqI) (auto simp: bit_simps bit_0x80)
  have "bit (((ucast (v AND 0x7f) :: u8) OR 0x80) AND 0x80) 7"
    unfolding byte_masks by (auto simp: bit_simps bit_0x80)
  then show "((ucast (v AND 0x7f) :: u8) OR 0x80) AND 0x80 \<noteq> 0" by auto
qed

lemma split_low_group:
  fixes v :: u64
  shows "push_bit s (take_bit 7 v) OR push_bit (s + 7) (drop_bit 7 v) = push_bit s v"
proof (rule bit_word_eqI)
  fix n
  have "s + 7 \<le> n \<Longrightarrow> 7 + (n - (s + 7)) = n - s" by simp
  then show "bit (push_bit s (take_bit 7 v) OR push_bit (s + 7) (drop_bit 7 v)) n
      = bit (push_bit s v) n"
    by (cases "s + 7 \<le> n") (auto simp: bit_simps)
qed

lemma encode_one_Nil:
  "leb128_encode_one v [] =
     (if drop_bit 7 v = 0 then [ucast (v AND 0x7f)]
      else (ucast (v AND 0x7f) OR 0x80) # leb128_encode_one (drop_bit 7 v) [])"
  using leb128_encode_one_append [of "drop_bit 7 v" "[ucast (v AND 0x7f) OR 0x80]"]
  by (simp add: leb128_encode_one.simps [of v])

lemma take_7_small: "drop_bit 7 (v :: u64) = 0 \<Longrightarrow> take_bit 7 v = v"
  using bits_ident [of 7 v] by simp

lemma decode_one_encode_one:
  assumes "unat v < 2 ^ (64 - s)" and "s < 64"
  shows "leb128_decode_one (pre @ leb128_encode_one v [] @ rest) (length pre) s acc
    = Inr (acc OR push_bit s v, length pre + length (leb128_encode_one v []))"
  using assms
proof (induction v arbitrary: pre s acc rule: measure_induct_rule [of unat])
  case (less v)
  show ?case
  proof (cases "drop_bit 7 v = 0")
    case True
    then show ?thesis
      by (subst leb128_decode_one.simps)
        (simp add: encode_one_Nil [of v] nth_append low_byte_value take_7_small)
  next
    case False
    let ?b = "(ucast (v AND 0x7f) :: u8) OR 0x80"
    let ?v = "drop_bit 7 v"
    have ge: "2 ^ 7 \<le> unat v"
      using False unat_drop_7 [of v] by (cases "unat v < 128") (auto simp: unat_eq_zero)
    have s7: "s + 7 < 64"
    proof (rule ccontr)
      assume "\<not> s + 7 < 64"
      then have "(2::nat) ^ (64 - s) \<le> 2 ^ 7" by (intro power_increasing) auto
      with ge less.prems(1) show False by linarith
    qed
    have "unat ?v < 2 ^ (64 - (s + 7))"
    proof -
      have "(2::nat) ^ (64 - s) = 2 ^ (64 - (s + 7)) * 2 ^ 7"
        using s7 by (subst power_add [symmetric]) simp
      then show ?thesis
        using less.prems(1) by (simp add: unat_drop_7 less_mult_imp_div_less)
    qed
    from less.IH [OF unat_drop_7_less [OF False] this s7, of "pre @ [?b]"]
    have "leb128_decode_one (pre @ ?b # leb128_encode_one ?v [] @ rest) (length pre + 1) (s + 7) a
        = Inr (a OR push_bit (s + 7) ?v, length pre + 1 + length (leb128_encode_one ?v []))" for a
      by simp
    then show ?thesis
      using False s7
      by (subst leb128_decode_one.simps)
        (simp add: encode_one_Nil [of v] nth_append low_byte_value or.assoc
          split_low_group [of s v, symmetric])
  qed
qed

lemma encode_loop_append: "leb128_encode_loop vs out = out @ leb128_encode_loop vs []"
proof (induction vs arbitrary: out)
  case (Cons v vs)
  show ?case
    using Cons.IH [of "leb128_encode_one v out"] Cons.IH [of "leb128_encode_one v []"]
      leb128_encode_one_append [of v out] by simp
qed simp

lemma encode_loop_Cons:
  "leb128_encode_loop (v # vs) [] = leb128_encode_one v [] @ leb128_encode_loop vs []"
  using encode_loop_append [of vs "leb128_encode_one v []"] by simp

lemma decode_loop_encode_loop:
  "leb128_decode_loop (length vs) (pre @ leb128_encode_loop vs [] @ rest) (length pre) out
    = Inr (out @ vs)"
proof (induction vs arbitrary: pre out)
  case (Cons v vs)
  have "unat v < 2 ^ (64 - 0)" using unsigned_less [of v] by simp
  from decode_one_encode_one [OF this, of pre "leb128_encode_loop vs [] @ rest" 0]
  have one: "leb128_decode_one (pre @ leb128_encode_loop (v # vs) [] @ rest) (length pre) 0 0
      = Inr (v, length pre + length (leb128_encode_one v []))"
    by (simp del: leb128_encode_loop.simps add: encode_loop_Cons)
  show ?case
    using Cons.IH [of "pre @ leb128_encode_one v []" "out @ [v]"] one
    by (simp del: leb128_encode_loop.simps add: encode_loop_Cons)
qed simp

text \<open>
  every list of 64-bit values survives the LEB128 codec: decoding as many
  values as were encoded returns exactly them, whatever bytes follow.
\<close>

theorem leb128_roundtrip:
  "decode_leb128_values (encode_leb128_values vs @ rest) (length vs) = Inr vs"
  using decode_loop_encode_loop [of vs "[]" rest "[]"]
  by (simp add: decode_leb128_values_def encode_leb128_values_def)

end
