(* ===== verification/Bits.thy ===== *)
theory Bits
  imports Prelude
begin

text \<open>
  Bit streams packed into bytes, most significant bit first, as the Elias-delta
  codec and the truncated output hashes use them. The two interfaces of a bit
  stream are locales: a sink that appends bits and a source that yields
  them. What a client may rely on is proved once, inside the locales.
\<close>

section \<open>The bits of a byte vector\<close>

definition msb_bits :: "bytes \<Rightarrow> bool list" where
  "msb_bits bs = map (\<lambda>k. bit (bs ! (k div 8)) (7 - k mod 8)) [0..<8 * length bs]"

text \<open>The \<open>n\<close> low bits of a word, most significant first.\<close>

fun to_bits :: "nat \<Rightarrow> 'a::len word \<Rightarrow> bool list" where
  "to_bits 0 v = []"
| "to_bits (Suc n) v = bit v n # to_bits n v"

lemma length_msb_bits [simp]: "length (msb_bits bs) = 8 * length bs"
  by (simp add: msb_bits_def)

lemma nth_msb_bits: "k < 8 * length bs \<Longrightarrow> msb_bits bs ! k = bit (bs ! (k div 8)) (7 - k mod 8)"
  by (simp add: msb_bits_def)

lemma length_to_bits [simp]: "length (to_bits n v) = n"
  by (induction n) simp_all

lemma nth_to_bits: "i < n \<Longrightarrow> to_bits n v ! i = bit v (n - 1 - i)"
proof (induction n arbitrary: i)
  case (Suc n)
  then show ?case by (cases i) auto
qed simp

lemma div_mod_byte:
  fixes m i :: nat
  shows "m < 8 \<Longrightarrow> i < l \<Longrightarrow> 8 * i + m < 8 * l \<and> (8 * i + m) div 8 = i \<and> (8 * i + m) mod 8 = m"
  by auto

lemma msb_bits_inject: "msb_bits xs = msb_bits ys \<Longrightarrow> xs = ys"
proof (rule nth_equalityI)
  assume eq: "msb_bits xs = msb_bits ys"
  then have "length (msb_bits xs) = length (msb_bits ys)" by simp
  then show len: "length xs = length ys" by simp
  fix i assume i: "i < length xs"
  show "xs ! i = ys ! i"
  proof (rule bit_word_eqI)
    fix n :: nat assume "n < LENGTH(8)"
    then have n: "n < 8" by simp
    define k where "k = 8 * i + (7 - n)"
    have "7 - n < 8" by simp
    from div_mod_byte [OF this i] have k: "k < 8 * length xs" "k div 8 = i" "k mod 8 = 7 - n"
      by (simp_all only: k_def)
    then have "msb_bits xs ! k = bit (xs ! i) n" "msb_bits ys ! k = bit (ys ! i) n"
      using n len by (simp_all add: nth_msb_bits)
    with eq show "bit (xs ! i) n = bit (ys ! i) n" by simp
  qed
qed

text \<open>The test \<open>((w >> i) & 1) == 1\<close> of the code reads bit \<open>i\<close>.\<close>

lemma bit_test_eq: "drop_bit i (w :: 'a::len word) AND 1 = 1 \<longleftrightarrow> bit w i"
  by (simp add: and_one_eq mod_2_eq_odd bit_iff_odd_drop_bit)

lemma bit_test_ne: "drop_bit i (w :: 'a::len word) AND 1 \<noteq> 0 \<longleftrightarrow> bit w i"
  by (simp add: and_one_eq mod_2_eq_odd bit_iff_odd_drop_bit)

text \<open>Appending a zero byte adds eight clear bits; \<open>bs[k / 8] |= 1 << (7 - k % 8)\<close> sets bit \<open>k\<close>.\<close>

lemma msb_bits_append_zero: "msb_bits (bs @ [0]) = msb_bits bs @ replicate 8 False"
proof (rule nth_equalityI)
  fix k assume k: "k < length (msb_bits (bs @ [0]))"
  show "msb_bits (bs @ [0]) ! k = (msb_bits bs @ replicate 8 False) ! k"
  proof (cases "k < 8 * length bs")
    case True
    then have "k div 8 < length bs" by auto
    with True show ?thesis by (simp add: nth_append nth_msb_bits)
  next
    case False
    with k have "k div 8 = length bs" by simp
    with k False show ?thesis by (simp add: nth_msb_bits nth_append)
  qed
qed simp

definition set_msb_bit :: "bytes \<Rightarrow> nat \<Rightarrow> bytes" where
  "set_msb_bit bs k = bs[k div 8 := bs ! (k div 8) OR push_bit (7 - k mod 8) 1]"

lemma length_set_msb_bit [simp]: "length (set_msb_bit bs k) = length bs"
  by (simp add: set_msb_bit_def)

lemma bit_or_one_shift: "bit (b OR 2 ^ s :: u8) n \<longleftrightarrow> bit b n \<or> (n = s \<and> s < 8)"
  by (auto simp: bit_simps)

lemma msb_bits_set:
  assumes "k < 8 * length bs"
  shows "msb_bits (set_msb_bit bs k) = (msb_bits bs)[k := True]"
proof (rule nth_equalityI)
  fix j assume j: "j < length (msb_bits (set_msb_bit bs k))"
  have kb: "k div 8 < length bs" using assms by auto
  show "msb_bits (set_msb_bit bs k) ! j = (msb_bits bs)[k := True] ! j"
  proof (cases "j = k")
    case True
    moreover have "7 - k mod 8 < 8" by arith
    ultimately show ?thesis
      using assms kb by (simp add: nth_msb_bits set_msb_bit_def bit_or_one_shift)
  next
    case False
    then have "j div 8 \<noteq> k div 8 \<or> j mod 8 \<noteq> k mod 8"
      by (metis div_mult_mod_eq)
    moreover have "j mod 8 < 8" "k mod 8 < 8" by simp_all
    then have "7 - j mod 8 = 7 - k mod 8 \<Longrightarrow> j mod 8 = k mod 8" by linarith
    ultimately show ?thesis
      using j kb False by (auto simp: nth_msb_bits set_msb_bit_def nth_list_update bit_or_one_shift)
  qed
qed simp

section \<open>Bit sinks\<close>

locale bit_sink =
  fixes push :: "'w \<Rightarrow> bool \<Rightarrow> 'w"
    and written :: "'w \<Rightarrow> bool list"
    and invar :: "'w \<Rightarrow> bool"
  assumes invar_push: "invar w \<Longrightarrow> invar (push w b)"
    and written_push: "invar w \<Longrightarrow> written (push w b) = written w @ [b]"
begin

lemma invar_push_all: "invar w \<Longrightarrow> invar (foldl push w bs)"
  by (induction bs arbitrary: w) (simp_all add: invar_push)

lemma written_push_all: "invar w \<Longrightarrow> written (foldl push w bs) = written w @ bs"
  by (induction bs arbitrary: w) (simp_all add: written_push invar_push)

end

section \<open>Bit sources\<close>

text \<open>
  \<open>read_many read n acc r\<close> is the loop of \<open>read_bits\<close>: \<open>n\<close> bits are shifted into
  \<open>acc\<close>, and running out of bits makes the whole read fail.
\<close>

fun read_many :: "('r \<Rightarrow> (bool \<times> 'r) option) \<Rightarrow> nat \<Rightarrow> u64 \<Rightarrow> 'r \<Rightarrow> (u64 \<times> 'r) option" where
  "read_many rd 0 acc r = Some (acc, r)"
| "read_many rd (Suc n) acc r =
     (case rd r of None \<Rightarrow> None
      | Some (b, r') \<Rightarrow> read_many rd n (push_bit 1 acc OR of_bool b) r')"

lemma shift_in_bit:
  "push_bit n (push_bit 1 acc OR of_bool (bit v n)) OR take_bit n (v :: u64)
     = push_bit (Suc n) acc OR take_bit (Suc n) v"
proof (rule bit_word_eqI)
  fix m assume "m < LENGTH(64)"
  then show "bit (push_bit n (push_bit 1 acc OR of_bool (bit v n)) OR take_bit n v) m
      = bit (push_bit (Suc n) acc OR take_bit (Suc n) v) m"
    by (cases m n rule: linorder_cases) (auto simp: bit_simps Suc_le_eq push_bit_Suc bit_double_iff simp del: push_bit_eq_mult)
qed

locale bit_source =
  fixes read :: "'r \<Rightarrow> (bool \<times> 'r) option"
    and remaining :: "'r \<Rightarrow> bool list"
  assumes read_Nil: "remaining r = [] \<Longrightarrow> read r = None"
    and read_Cons: "remaining r = b # bs \<Longrightarrow> \<exists>r'. read r = Some (b, r') \<and> remaining r' = bs"
begin

lemma read_SomeD: "read r = Some (b, r') \<Longrightarrow> remaining r = b # remaining r'"
  using read_Nil [of r] read_Cons [of r] by (cases "remaining r") fastforce+

lemma read_many_to_bits:
  assumes "remaining r = to_bits n v @ rest"
  shows "\<exists>r'. read_many read n acc r = Some (push_bit n acc OR take_bit n v, r')
    \<and> remaining r' = rest"
  using assms
proof (induction n arbitrary: acc r)
  case (Suc n)
  then obtain r' where r': "read r = Some (bit v n, r')" "remaining r' = to_bits n v @ rest"
    using read_Cons [of r "bit v n" "to_bits n v @ rest"] by auto
  from Suc.IH [OF r'(2), of "push_bit 1 acc OR of_bool (bit v n)"] r'(1)
  show ?case by (simp only: read_many.simps option.case prod.case shift_in_bit)
qed simp

lemma read_many_length:
  "read_many read n acc r = Some (v, r') \<Longrightarrow> length (remaining r) = n + length (remaining r')"
proof (induction n arbitrary: acc r)
  case (Suc n)
  then show ?case by (auto split: option.splits dest!: read_SomeD)
qed simp

end

section \<open>Bit lengths\<close>

text \<open>\<open>leading_zeros\<close> of the standard library, through the bit length of the value.\<close>

fun bit_len :: "nat \<Rightarrow> nat" where
  "bit_len n = (if n = 0 then 0 else Suc (bit_len (n div 2)))"

declare bit_len.simps [simp del]

definition leading_zeros :: "'a::len word \<Rightarrow> nat" where
  "leading_zeros w = LENGTH('a) - bit_len (unat w)"

lemma bit_len_0 [simp]: "bit_len 0 = 0"
  by (simp add: bit_len.simps)

lemma bit_len_pos: "n > 0 \<Longrightarrow> bit_len n > 0"
  by (simp add: bit_len.simps [of n])

lemma bit_len_upper: "n < 2 ^ bit_len n"
proof (induction n rule: bit_len.induct)
  case (1 n)
  show ?case
  proof (cases "n = 0")
    case False
    with "1" have "n div 2 < 2 ^ bit_len (n div 2)" by simp
    then have "n < 2 * 2 ^ bit_len (n div 2)" by linarith
    with False show ?thesis by (simp add: bit_len.simps [of n])
  qed simp
qed

lemma bit_len_lower: "n > 0 \<Longrightarrow> 2 ^ (bit_len n - 1) \<le> n"
proof (induction n rule: bit_len.induct)
  case (1 n)
  show ?case
  proof (cases "n div 2 = 0")
    case True
    with "1.prems" show ?thesis by (simp add: bit_len.simps [of n])
  next
    case False
    with "1" have "2 ^ (bit_len (n div 2) - 1) \<le> n div 2" by simp
    moreover have "bit_len (n div 2) > 0" using False by (intro bit_len_pos) simp
    then have "(2::nat) ^ bit_len (n div 2) = 2 * 2 ^ (bit_len (n div 2) - 1)"
      by (simp flip: power_Suc)
    ultimately have "2 ^ bit_len (n div 2) \<le> n" by linarith
    with "1.prems" show ?thesis by (simp add: bit_len.simps [of n])
  qed
qed

lemma bit_len_le: "n < 2 ^ k \<Longrightarrow> bit_len n \<le> k"
proof (rule ccontr)
  assume n: "n < 2 ^ k" and "\<not> bit_len n \<le> k"
  then have k: "k \<le> bit_len n - 1" and "n > 0" by (auto intro: ccontr)
  then have "2 ^ k \<le> n"
    using bit_len_lower [of n] power_increasing [OF k, of "2::nat"]
    by (meson one_le_numeral order_trans)
  with n show False by simp
qed

lemma bit_len_mono: "m \<le> n \<Longrightarrow> bit_len m \<le> bit_len n"
  using bit_len_upper [of n] by (intro bit_len_le) simp

lemma bit_len_word: "bit_len (unat (w :: 'a::len word)) \<le> LENGTH('a)"
  using unsigned_less [of w] by (intro bit_len_le) simp

lemma width_minus_leading_zeros: "LENGTH('a) - leading_zeros (w :: 'a::len word) = bit_len (unat w)"
  using bit_len_word [of w] by (simp add: leading_zeros_def)

lemma top_bit_value:
  fixes v :: "'a::len word"
  assumes "v \<noteq> 0" and n: "n = bit_len (unat v)"
  shows "push_bit (n - 1) 1 OR take_bit (n - 1) v = v"
    and "bit v (n - 1)"
proof -
  have pos: "unat v > 0" using assms(1) by (simp add: unat_gt_0)
  then have npos: "n > 0" using n bit_len_pos by simp
  have lo: "2 ^ (n - 1) \<le> unat v" using bit_len_lower [OF pos] n by simp
  have hi: "unat v < 2 ^ n" using bit_len_upper [of "unat v"] n by simp
  then have hi': "unat v < 2 * 2 ^ (n - 1)" using npos by (simp flip: power_Suc)
  have "unat v div 2 ^ (n - 1) = 1"
    using lo hi' by (intro div_nat_eqI) simp_all
  then have b: "bit (unat v) (n - 1)" by (simp add: bit_iff_odd)
  then show bv: "bit v (n - 1)" by (simp add: bit_unsigned_iff)
  have above: "\<not> bit v m" if "m \<ge> n" for m
  proof -
    have "unat v < 2 ^ m" using hi power_increasing [OF that, of "2::nat"] by linarith
    then have "\<not> bit (unat v) m" by (simp add: bit_iff_odd)
    moreover have "bit v m \<Longrightarrow> m < LENGTH('a)" by (rule bit_imp_le_length)
    ultimately show ?thesis by (auto simp: bit_unsigned_iff)
  qed
  show "push_bit (n - 1) 1 OR take_bit (n - 1) v = v"
  proof (rule bit_word_eqI)
    fix m assume m: "m < LENGTH('a)"
    show "bit (push_bit (n - 1) 1 OR take_bit (n - 1) v) m = bit v m"
      using bv above [of m] npos m
      by (cases m "n - 1" rule: linorder_cases) (auto simp: bit_simps)
  qed
qed

end
