(* ===== verification/Elias_Delta.thy ===== *)
theory Elias_Delta
  imports Bits
begin

text \<open>
  The Elias-delta codec of \<^verbatim>\<open>light-server/src/codec/elias_delta.rs\<close>: a bit
  writer and a bit reader over byte vectors, the code of one positive integer,
  and the codecs of a list of them. The writer and the reader are shown to
  be a bit sink and a bit source, and the codec is proved over these
  interfaces.
\<close>

section \<open>BitWriter and BitReader\<close>

record BitWriter =
  bw_bytes :: bytes
  bw_bit_len :: usize

definition bw_default :: BitWriter where
  "bw_default = \<lparr>bw_bytes = [], bw_bit_len = 0\<rparr>"

definition bw_push_bit :: "BitWriter \<Rightarrow> bool \<Rightarrow> BitWriter" where
  "bw_push_bit w b =
     (let bs = (if bw_bit_len w mod 8 = 0 then bw_bytes w @ [0] else bw_bytes w);
          bs' = (if b then let byte = bw_bit_len w div 8; shift = 7 - bw_bit_len w mod 8
                           in bs[byte := bs ! byte OR push_bit shift 1]
                 else bs)
      in \<lparr>bw_bytes = bs', bw_bit_len = bw_bit_len w + 1\<rparr>)"

text \<open>\<open>for i in (0..bits).rev()\<close>: the recursion runs from the highest index down.\<close>

fun bw_push_bits :: "BitWriter \<Rightarrow> u64 \<Rightarrow> nat \<Rightarrow> BitWriter" where
  "bw_push_bits w val 0 = w"
| "bw_push_bits w val (Suc i) =
     bw_push_bits (bw_push_bit w (drop_bit i val AND 1 = 1)) val i"

record BitReader =
  br_bytes :: bytes
  br_bit_pos :: usize

definition br_new :: "bytes \<Rightarrow> BitReader" where
  "br_new bs = \<lparr>br_bytes = bs, br_bit_pos = 0\<rparr>"

definition br_read_bit :: "BitReader \<Rightarrow> (bool \<times> BitReader) option" where
  "br_read_bit r =
     (if br_bit_pos r \<ge> length (br_bytes r) * 8 then None
      else let byte = br_bit_pos r div 8; shift = 7 - br_bit_pos r mod 8
           in Some (drop_bit shift (br_bytes r ! byte) AND 1 = 1,
                    r\<lparr>br_bit_pos := br_bit_pos r + 1\<rparr>))"

definition br_read_bits :: "BitReader \<Rightarrow> nat \<Rightarrow> (u64 \<times> BitReader) option" where
  "br_read_bits r n = read_many br_read_bit n 0 r"

section \<open>The codec\<close>

definition elias_encode_one :: "u64 \<Rightarrow> BitWriter \<Rightarrow> BitWriter result" where
  "elias_encode_one val w =
     and_then (ensure (val \<ge> 1) ''Elias-delta only encodes positive integers'') (\<lambda>_.
       let n_bits = 64 - leading_zeros val;
           len_bits = 32 - leading_zeros (word_of_nat n_bits :: u32);
           w1 = foldl bw_push_bit w (replicate (len_bits - 1) False);
           w2 = bw_push_bits w1 (word_of_nat n_bits) len_bits
       in Inr (if n_bits > 1
               then bw_push_bits w2 (val XOR push_bit (n_bits - 1) 1) (n_bits - 1)
               else w2))"

definition encode_elias_delta_values :: "u64 list \<Rightarrow> bytes result" where
  "encode_elias_delta_values vals =
     and_then (try_fold elias_encode_one vals bw_default) (\<lambda>w. Inr (bw_bytes w))"

function elias_prefix :: "BitReader \<Rightarrow> nat \<Rightarrow> (nat \<times> BitReader) result" where
  "elias_prefix r zeros =
     (case br_read_bit r of
        None \<Rightarrow> Inl (Error ''truncated Elias-delta prefix'')
      | Some (True, r') \<Rightarrow> Inr (zeros, r')
      | Some (False, r') \<Rightarrow>
          if zeros + 1 \<le> 63 then elias_prefix r' (zeros + 1)
          else Inl (Error ''invalid Elias-delta prefix''))"
  by pat_completeness auto
termination
  by (relation "measure (\<lambda>(r, zeros). 64 - zeros)") auto

declare elias_prefix.simps [simp del]

definition elias_decode_one :: "BitReader \<Rightarrow> (u64 \<times> BitReader) result" where
  "elias_decode_one r =
     and_then (elias_prefix r 0) (\<lambda>(zeros, r1).
     and_then (if zeros > 0
               then and_then (ok_or (br_read_bits r1 zeros) ''truncated Elias-delta length'')
                      (\<lambda>(low, r2). Inr (push_bit zeros 1 OR low, r2))
               else Inr (push_bit zeros 1, r1)) (\<lambda>(n_bits :: u64, r2).
     and_then (ensure (1 \<le> n_bits \<and> n_bits \<le> 64) ''invalid Elias-delta length'') (\<lambda>_.
     let tail_bits = unat (n_bits - 1)
     in and_then (if tail_bits = 0 then Inr (0, r2)
                  else ok_or (br_read_bits r2 tail_bits) ''truncated Elias-delta value'')
          (\<lambda>(tail, r3). Inr (push_bit tail_bits 1 OR tail, r3)))))"

fun elias_decode_loop :: "nat \<Rightarrow> BitReader \<Rightarrow> u64 list \<Rightarrow> u64 list result" where
  "elias_decode_loop 0 r out = Inr out"
| "elias_decode_loop (Suc n) r out =
     and_then (elias_decode_one r) (\<lambda>(v, r'). elias_decode_loop n r' (out @ [v]))"

definition decode_elias_delta_values :: "bytes \<Rightarrow> usize \<Rightarrow> u64 list result" where
  "decode_elias_delta_values bs count = elias_decode_loop count (br_new bs) []"

section \<open>The writer is a bit sink, the reader a bit source\<close>

definition bw_written :: "BitWriter \<Rightarrow> bool list" where
  "bw_written w = take (bw_bit_len w) (msb_bits (bw_bytes w))"

text \<open>The bytes are just enough for the bits, and the padding bits are clear.\<close>

definition bw_invar :: "BitWriter \<Rightarrow> bool" where
  "bw_invar w \<longleftrightarrow> length (bw_bytes w) = (bw_bit_len w + 7) div 8
     \<and> drop (bw_bit_len w) (msb_bits (bw_bytes w))
       = replicate (8 * length (bw_bytes w) - bw_bit_len w) False"

lemma bw_invar_bits:
  "bw_invar w \<Longrightarrow> msb_bits (bw_bytes w)
     = bw_written w @ replicate (8 * length (bw_bytes w) - bw_bit_len w) False"
  by (metis append_take_drop_id bw_invar_def bw_written_def)

lemma bw_invar_len:
  "bw_invar w \<Longrightarrow> bw_bit_len w \<le> 8 * length (bw_bytes w)"
  by (simp add: bw_invar_def)

lemma bw_push_bit_bytes:
  "bw_bytes (bw_push_bit w b) =
     (let bs = (if bw_bit_len w mod 8 = 0 then bw_bytes w @ [0] else bw_bytes w)
      in if b then set_msb_bit bs (bw_bit_len w) else bs)"
  "bw_bit_len (bw_push_bit w b) = bw_bit_len w + 1"
  by (simp_all add: bw_push_bit_def set_msb_bit_def Let_def)

lemma bytes_for_bits:
  fixes n :: nat
  shows "n mod 8 = 0 \<Longrightarrow> Suc ((n + 7) div 8) = (8 + n) div 8"
    and "n mod 8 > 0 \<Longrightarrow> (n + 7) div 8 = (8 + n) div 8"
proof -
  define q r where "q = n div 8" and "r = n mod 8"
  then have n: "n = 8 * q + r" "r < 8" by simp_all
  show "Suc ((n + 7) div 8) = (8 + n) div 8" if "n mod 8 = 0"
  proof -
    have "(n + 7) div 8 = q" "(8 + n) div 8 = Suc q"
      using n that by (auto simp flip: r_def intro!: div_nat_eqI)
    then show ?thesis by simp
  qed
  show "(n + 7) div 8 = (8 + n) div 8" if "n mod 8 > 0"
  proof -
    have "(n + 7) div 8 = Suc q" "(8 + n) div 8 = Suc q"
      using n that by (auto simp flip: r_def intro!: div_nat_eqI)
    then show ?thesis by simp
  qed
qed

lemma bw_push_bit_msb_bits:
  assumes "bw_invar w"
  obtains k where "msb_bits (bw_bytes (bw_push_bit w b)) = bw_written w @ b # replicate k False"
    and "length (bw_bytes (bw_push_bit w b)) = (bw_bit_len w + 1 + 7) div 8"
proof -
  let ?n = "bw_bit_len w"
  let ?bs = "if ?n mod 8 = 0 then bw_bytes w @ [0] else bw_bytes w"
  have len: "length (bw_written w) = ?n"
    using assms by (simp add: bw_written_def bw_invar_len)
  have lbs: "length ?bs = (?n + 1 + 7) div 8"
    using assms bytes_for_bits [of ?n] by (simp add: bw_invar_def)
  then have room: "?n < 8 * length ?bs" by auto
  have "\<exists>m. msb_bits ?bs = bw_written w @ replicate m False"
    using bw_invar_bits [OF assms]
    by (auto simp: msb_bits_append_zero simp flip: replicate_add)
  then obtain m where m: "msb_bits ?bs = bw_written w @ replicate m False" by blast
  have "length (msb_bits ?bs) = ?n + m" unfolding m using len by simp
  with room have "m > 0" by simp
  then obtain k where k: "m = Suc k" by (cases m) auto
  have "msb_bits (bw_bytes (bw_push_bit w b)) = bw_written w @ b # replicate k False"
  proof (cases b)
    case True
    then have "msb_bits (bw_bytes (bw_push_bit w b)) = (msb_bits ?bs)[?n := True]"
      using msb_bits_set [OF room] by (simp add: bw_push_bit_bytes)
    with True m k len show ?thesis by (simp add: list_update_append)
  next
    case False
    with m k show ?thesis by (simp add: bw_push_bit_bytes)
  qed
  moreover have "length (bw_bytes (bw_push_bit w b)) = (?n + 1 + 7) div 8"
    using lbs by (simp add: bw_push_bit_bytes Let_def)
  ultimately show thesis using that by blast
qed

interpretation bw: bit_sink bw_push_bit bw_written bw_invar
proof
  fix w b assume inv: "bw_invar w"
  obtain k where bits: "msb_bits (bw_bytes (bw_push_bit w b)) = bw_written w @ b # replicate k False"
    and len: "length (bw_bytes (bw_push_bit w b)) = (bw_bit_len w + 1 + 7) div 8"
    using bw_push_bit_msb_bits [OF inv] .
  have wl: "length (bw_written w) = bw_bit_len w"
    using inv by (simp add: bw_written_def bw_invar_len)
  have k: "8 * length (bw_bytes (bw_push_bit w b)) = bw_bit_len w + 1 + k"
    using arg_cong [OF bits, of length] wl by simp
  show "bw_invar (bw_push_bit w b)"
    unfolding bw_invar_def bits k bw_push_bit_bytes(2) using len wl by simp
  show "bw_written (bw_push_bit w b) = bw_written w @ [b]"
    unfolding bw_written_def [of "bw_push_bit w b"] bits using wl by (simp add: bw_push_bit_bytes)
qed

definition br_remaining :: "BitReader \<Rightarrow> bool list" where
  "br_remaining r = drop (br_bit_pos r) (msb_bits (br_bytes r))"

interpretation br: bit_source br_read_bit br_remaining
proof
  fix r assume "br_remaining r = []"
  then show "br_read_bit r = None" by (simp add: br_remaining_def br_read_bit_def)
next
  fix r b bs assume rem: "br_remaining r = b # bs"
  have pos: "br_bit_pos r < 8 * length (br_bytes r)"
    using rem by (metis br_remaining_def drop_eq_Nil length_msb_bits linorder_not_le list.discI)
  then have "b = msb_bits (br_bytes r) ! br_bit_pos r"
    and "bs = drop (Suc (br_bit_pos r)) (msb_bits (br_bytes r))"
    using rem by (simp_all add: br_remaining_def Cons_nth_drop_Suc [symmetric])
  with pos show "\<exists>r'. br_read_bit r = Some (b, r') \<and> br_remaining r' = bs"
    by (simp add: br_read_bit_def br_remaining_def nth_msb_bits bit_test_eq)
qed

lemma bw_push_bits_eq: "bw_push_bits w v n = foldl bw_push_bit w (to_bits n v)"
  by (induction n arbitrary: w) (simp_all add: bit_test_eq)

lemma bw_default_invar [simp]: "bw_invar bw_default" "bw_written bw_default = []"
  by (simp_all add: bw_invar_def bw_default_def bw_written_def msb_bits_def)

section \<open>The Elias-delta code as a bit string\<close>

definition delta_code :: "u64 \<Rightarrow> bool list" where
  "delta_code v =
     (let n = bit_len (unat v); l = bit_len n
      in replicate (l - 1) False @ to_bits l (word_of_nat n :: u64) @ to_bits (n - 1) v)"

lemma to_bits_cong: "(\<And>i. i < n \<Longrightarrow> bit v i = bit w i) \<Longrightarrow> to_bits n v = to_bits n w"
  by (induction n) simp_all

lemma to_bits_clear_top: "to_bits n (v XOR push_bit n 1 :: u64) = to_bits n v"
  by (rule to_bits_cong) (auto simp: bit_simps)

lemma word_ge_1_iff: "(1 :: 'a::len word) \<le> v \<longleftrightarrow> v \<noteq> 0"
  by (simp add: word_less_1 flip: linorder_not_less)

text \<open>The length field: \<open>n\<close> is between 1 and 64, so it fits the words that carry it.\<close>

lemma delta_length_bounds:
  fixes v :: u64
  assumes "v \<noteq> 0" and "n = bit_len (unat v)"
  shows "0 < n" "n \<le> 64" "0 < bit_len n" "bit_len n \<le> 7"
    "unat (word_of_nat n :: u64) = n" "unat (word_of_nat n :: u32) = n" "(word_of_nat n :: u64) \<noteq> 0"
proof -
  show n0: "0 < n" using assms by (simp add: bit_len_pos unat_gt_0)
  show n64: "n \<le> 64" using bit_len_word [of v] assms by simp
  show "0 < bit_len n" using n0 by (rule bit_len_pos)
  show "bit_len n \<le> 7" using n64 by (intro bit_len_le) simp
  show u: "unat (word_of_nat n :: u64) = n" using n64 by (intro unat_word_of_nat_small) simp
  show "unat (word_of_nat n :: u32) = n" using n64 by (intro unat_word_of_nat_small) simp
  show "(word_of_nat n :: u64) \<noteq> 0" using u n0 by (metis unat_0 less_irrefl)
qed

lemma elias_encode_one_written:
  assumes "v \<noteq> 0" and "bw_invar w"
  shows "\<exists>w'. elias_encode_one v w = Inr w' \<and> bw_invar w'
    \<and> bw_written w' = bw_written w @ delta_code v"
proof -
  define n where "n = bit_len (unat v)"
  note b = delta_length_bounds [OF assms(1) n_def]
  have n: "64 - leading_zeros v = n"
    using width_minus_leading_zeros [of v] by (simp add: n_def)
  have l: "32 - leading_zeros (word_of_nat n :: u32) = bit_len n"
    using width_minus_leading_zeros [of "word_of_nat n :: u32"] b by simp
  show ?thesis
  proof (cases "n > 1")
    case True
    then show ?thesis
      using assms b
      by (simp add: elias_encode_one_def word_ge_1_iff n l Let_def bw_push_bits_eq
          to_bits_clear_top delta_code_def bw.invar_push_all bw.written_push_all
          flip: n_def push_bit_eq_mult push_bit_of_1)
  next
    case False
    with b have "n - 1 = 0" by simp
    with False show ?thesis
      using assms b
      by (simp add: elias_encode_one_def word_ge_1_iff n l Let_def bw_push_bits_eq
          delta_code_def bw.invar_push_all bw.written_push_all flip: n_def)
  qed
qed

lemma elias_encode_fold:
  assumes "0 \<notin> set vs" and "bw_invar w"
  shows "\<exists>w'. try_fold elias_encode_one vs w = Inr w' \<and> bw_invar w'
    \<and> bw_written w' = bw_written w @ concat (map delta_code vs)"
  using assms
proof (induction vs arbitrary: w)
  case (Cons v vs)
  then obtain w1 where w1: "elias_encode_one v w = Inr w1" "bw_invar w1"
      "bw_written w1 = bw_written w @ delta_code v"
    using elias_encode_one_written [of v w] by auto
  with Cons.IH [of w1] Cons.prems show ?case by auto
qed simp

section \<open>Decoding the code\<close>

lemma elias_prefix_zeros:
  assumes "br_remaining r = replicate m False @ True # rest" and "zeros + m \<le> 63"
  shows "\<exists>r'. elias_prefix r zeros = Inr (zeros + m, r') \<and> br_remaining r' = rest"
  using assms
proof (induction m arbitrary: r zeros)
  case 0
  then obtain r' where "br_read_bit r = Some (True, r')" "br_remaining r' = rest"
    using br.read_Cons [of r True rest] by auto
  then show ?case by (simp add: elias_prefix.simps [of r])
next
  case (Suc m)
  then obtain r' where r': "br_read_bit r = Some (False, r')"
      "br_remaining r' = replicate m False @ True # rest"
    using br.read_Cons [of r False] by auto
  with Suc.IH [OF r'(2), of "zeros + 1"] Suc.prems(2) show ?case
    by (simp add: elias_prefix.simps [of r])
qed

lemma br_read_bits_to_bits:
  assumes "br_remaining r = to_bits n v @ rest"
  shows "\<exists>r'. br_read_bits r n = Some (take_bit n v, r') \<and> br_remaining r' = rest"
  using br.read_many_to_bits [OF assms, of 0] by (simp add: br_read_bits_def)

lemma elias_decode_one_code:
  assumes "v \<noteq> 0" and "br_remaining r = delta_code v @ rest"
  shows "\<exists>r'. elias_decode_one r = Inr (v, r') \<and> br_remaining r' = rest"
proof -
  define n where "n = bit_len (unat v)"
  define l where "l = bit_len n"
  define N where "N = (word_of_nat n :: u64)"
  note b = delta_length_bounds [OF assms(1) n_def, folded l_def N_def]
  have len: "l = bit_len (unat N)" using b by (simp add: l_def)
  have top: "push_bit (l - 1) 1 OR take_bit (l - 1) N = N" "bit N (l - 1)"
    using top_bit_value [OF b(7) len] by auto
  have val: "push_bit (n - 1) 1 OR take_bit (n - 1) v = v"
    using top_bit_value [OF assms(1) n_def] by auto
  have "to_bits l N = True # to_bits (l - 1) N"
    using b(3) top(2) by (cases l) auto
  then have rem: "br_remaining r
      = replicate (l - 1) False @ True # (to_bits (l - 1) N @ to_bits (n - 1) v @ rest)"
    using assms(2) by (simp add: delta_code_def Let_def flip: n_def l_def N_def)
  obtain r1 where r1: "elias_prefix r 0 = Inr (l - 1, r1)"
      "br_remaining r1 = to_bits (l - 1) N @ to_bits (n - 1) v @ rest"
    using elias_prefix_zeros [OF rem, of 0] b(4) by (auto simp: le_diff_conv)
  obtain r2 where r2: "br_read_bits r1 (l - 1) = Some (take_bit (l - 1) N, r2)"
      "br_remaining r2 = to_bits (n - 1) v @ rest"
    using br_read_bits_to_bits [OF r1(2)] by blast
  obtain r3 where r3: "br_read_bits r2 (n - 1) = Some (take_bit (n - 1) v, r3)"
      "br_remaining r3 = rest"
    using br_read_bits_to_bits [OF r2(2)] by blast
  have field: "(if l - 1 > 0
       then and_then (ok_or (br_read_bits r1 (l - 1)) ''truncated Elias-delta length'')
              (\<lambda>(low, r2). Inr (push_bit (l - 1) 1 OR low, r2))
       else Inr (push_bit (l - 1) 1, r1)) = Inr (N, r2)"
    using r2(1) top(1) by (auto simp: br_read_bits_def)
  have range: "1 \<le> N \<and> N \<le> 64" and tail: "unat (N - 1) = n - 1"
    using b(1,2,5,7) by (simp_all add: word_le_nat_alt unat_minus_one)
  have "(if n - 1 = 0 then Inr (0, r2)
       else ok_or (br_read_bits r2 (n - 1)) ''truncated Elias-delta value'')
     = Inr (take_bit (n - 1) v, r3)"
    using r3(1) by (auto simp: br_read_bits_def)
  with r1(1) r3(2) field range tail val show ?thesis
    by (simp only: elias_decode_one_def and_then_Inr prod.case Let_def ensure_True simp_thms) simp
qed

lemma elias_decode_loop_code:
  assumes "0 \<notin> set vs" and "br_remaining r = concat (map delta_code vs) @ rest"
  shows "elias_decode_loop (length vs) r out = Inr (out @ vs)"
  using assms
proof (induction vs arbitrary: r out)
  case (Cons v vs)
  then obtain r' where "elias_decode_one r = Inr (v, r')"
      "br_remaining r' = concat (map delta_code vs) @ rest"
    using elias_decode_one_code [of v r] by auto
  with Cons.IH [of r' "out @ [v]"] Cons.prems show ?case by simp
qed simp

section \<open>Properties of the codec\<close>

text \<open>The encoder writes the codes one after another and pads the last byte with zeros.\<close>

lemma encode_values_bits:
  assumes "0 \<notin> set vs"
  shows "\<exists>bs k. encode_elias_delta_values vs = Inr bs \<and> k < 8
    \<and> msb_bits bs = concat (map delta_code vs) @ replicate k False"
proof -
  obtain w where w: "try_fold elias_encode_one vs bw_default = Inr w" "bw_invar w"
      "bw_written w = concat (map delta_code vs)"
    using elias_encode_fold [OF assms bw_default_invar(1)] by auto
  have "8 * length (bw_bytes w) - bw_bit_len w < 8"
    using w(2) by (auto simp: bw_invar_def)
  with w bw_invar_bits [OF w(2)] show ?thesis
    by (auto simp: encode_elias_delta_values_def)
qed

lemma decode_values_bits:
  "0 \<notin> set vs \<Longrightarrow> msb_bits bs = concat (map delta_code vs) @ rest
     \<Longrightarrow> decode_elias_delta_values bs (length vs) = Inr vs"
  using elias_decode_loop_code [of vs "br_new bs" rest "[]"]
  by (simp add: decode_elias_delta_values_def br_remaining_def br_new_def)

text \<open>Whatever bytes are decoded, every value is positive, and there are as many as asked for.\<close>

lemma elias_decode_one_pos: "elias_decode_one r = Inr (v, r') \<Longrightarrow> v \<noteq> 0"
proof -
  assume "elias_decode_one r = Inr (v, r')"
  then obtain n_bits tail :: u64
    where n: "n_bits \<ge> 1" "n_bits \<le> 64" and v: "v = push_bit (unat (n_bits - 1)) 1 OR tail"
    by (auto simp only: elias_decode_one_def result_simps case_prod_beta Let_def
        sum.inject prod.inject)
  have "n_bits \<noteq> 0" using n(1) word_ge_1_iff [of n_bits] by blast
  then have "unat (n_bits - 1) < 64"
    using n(2) unat_minus_one [of n_bits] by (simp add: word_le_nat_alt)
  then have "bit v (unat (n_bits - 1))" unfolding v by (simp add: bit_simps)
  then show "v \<noteq> 0" by auto
qed

lemma elias_decode_loop_pos:
  "elias_decode_loop n r out = Inr vs \<Longrightarrow> 0 \<notin> set out
     \<Longrightarrow> 0 \<notin> set vs \<and> length vs = length out + n"
proof (induction n arbitrary: r out)
  case (Suc n)
  then obtain v r' where "elias_decode_one r = Inr (v, r')"
      "elias_decode_loop n r' (out @ [v]) = Inr vs"
    by (auto simp: result_simps)
  with Suc.IH [of r' "out @ [v]"] Suc.prems(2) elias_decode_one_pos show ?case by force
qed simp

lemma decode_values_pos:
  "decode_elias_delta_values bs n = Inr vs \<Longrightarrow> 0 \<notin> set vs \<and> length vs = n"
  using elias_decode_loop_pos [of n "br_new bs" "[]"] by (simp add: decode_elias_delta_values_def)

text \<open>
  C24: Elias-delta round trip. Any list of positive 64-bit integers is encoded,
  and decoding the resulting bytes for as many values returns the list.
\<close>

theorem elias_delta_roundtrip:
  assumes "0 \<notin> set vs"
  shows "\<exists>bs. encode_elias_delta_values vs = Inr bs
    \<and> decode_elias_delta_values bs (length vs) = Inr vs"
  using encode_values_bits [OF assms] decode_values_bits [OF assms] by blast

theorem elias_delta_roundtrip_witness:
  "\<exists>bs. encode_elias_delta_values [1, 17, 65535] = Inr bs
    \<and> decode_elias_delta_values bs 3 = Inr [1, 17, 65535]"
  using elias_delta_roundtrip [of "[1, 17, 65535]"] by (simp add: numeral_3_eq_3)

lemma elias_encode_fold_zero:
  "0 \<in> set vs \<Longrightarrow> bw_invar w \<Longrightarrow> try_fold elias_encode_one vs w
     = Inl (Error ''Elias-delta only encodes positive integers'')"
proof (induction vs arbitrary: w)
  case (Cons v vs)
  show ?case
  proof (cases "v = 0")
    case True
    then show ?thesis by (simp add: elias_encode_one_def)
  next
    case False
    then obtain w' where "elias_encode_one v w = Inr w'" "bw_invar w'"
      using elias_encode_one_written [OF False Cons.prems(2)] by blast
    with Cons False show ?thesis by simp
  qed
qed simp

text \<open>
  The encoder rejects exactly the lists that contain zero, with the error
  of its guard.
\<close>

theorem elias_delta_zero_rejected:
  "encode_elias_delta_values vs = Inl e \<longleftrightarrow>
     0 \<in> set vs \<and> e = Error ''Elias-delta only encodes positive integers''"
proof (cases "0 \<in> set vs")
  case True
  with elias_encode_fold_zero [OF _ bw_default_invar(1)] show ?thesis
    by (auto simp: encode_elias_delta_values_def)
next
  case False
  with encode_values_bits [OF False] show ?thesis by auto
qed

end
