(* ===== verification/Spent_Ids.thy ===== *)
theory Spent_Ids
  imports Elias_Delta
begin

text \<open>
  The spent-UID stream of \<^verbatim>\<open>light-server/src/index.rs\<close>: the UIDs spent by a block
  are sorted, turned into the first UID plus one followed by the positive
  deltas, and packed with the Elias-delta codec.
\<close>

section \<open>Encoder and decoder\<close>

fun spent_values :: "u64 option \<Rightarrow> u64 list \<Rightarrow> u64 list result" where
  "spent_values prev [] = Inr []"
| "spent_values prev (uid # ids) =
     and_then (case prev of
         None \<Rightarrow> ok_or (checked_add uid 1) ''spent uid overflow while encoding first value''
       | Some prev_uid \<Rightarrow> ok_or (checked_sub uid prev_uid) ''spent ids are not sorted ascending'')
       (\<lambda>val.
     and_then (ensure (val > 0)
         ''duplicate spent uid cannot be Elias-delta encoded as a positive delta'') (\<lambda>_.
     and_then (spent_values (Some uid) ids) (\<lambda>vals. Inr (val # vals))))"

definition encode_spent_ids_elias_delta_ascending_absolute ::
    "u64 list \<Rightarrow> (u32 \<times> bytes) result" where
  "encode_spent_ids_elias_delta_ascending_absolute spent_ids =
     (let ids = sort spent_ids in
      if ids = [] then Inr (0, [])
      else and_then (spent_values None ids) (\<lambda>vals.
           and_then (try_from_nat (length vals)) (\<lambda>count.
           and_then (encode_elias_delta_values vals) (\<lambda>bs. Inr (count, bs)))))"

fun spent_accumulate :: "u64 \<Rightarrow> u64 list \<Rightarrow> u64 list result" where
  "spent_accumulate uid [] = Inr []"
| "spent_accumulate uid (delta # deltas) =
     and_then (ok_or (checked_add uid delta) ''spent uid delta overflow'') (\<lambda>uid'.
     and_then (spent_accumulate uid' deltas) (\<lambda>out. Inr (uid' # out)))"

definition decode_spent_ids_elias_delta_ascending_absolute :: "u32 \<Rightarrow> bytes \<Rightarrow> u64 list result" where
  "decode_spent_ids_elias_delta_ascending_absolute spent_count spent_ids =
     (if spent_count = 0 then
        and_then (ensure (spent_ids = []) ''empty spent stream must have no bytes'') (\<lambda>_. Inr [])
      else
        and_then (decode_elias_delta_values spent_ids (unat spent_count)) (\<lambda>vals.
        and_then (ok_or (checked_sub (vals ! 0) 1) ''invalid first spent id value'') (\<lambda>first.
        and_then (spent_accumulate first (tl vals)) (\<lambda>out. Inr (first # out)))))"

section \<open>Deltas of a strictly ascending list\<close>

fun deltas :: "u64 \<Rightarrow> u64 list \<Rightarrow> u64 list" where
  "deltas p [] = []"
| "deltas p (x # xs) = (x - p) # deltas x xs"

lemma length_deltas [simp]: "length (deltas p xs) = length xs"
  by (induction xs arbitrary: p) simp_all

lemma word_diff_pos: "(p :: 'a::len word) < x \<Longrightarrow> 0 < x - p"
  by (simp add: word_less_nat_alt unat_sub order_less_imp_le)

lemma deltas_pos: "sorted_wrt (<) (p # xs) \<Longrightarrow> 0 \<notin> set (deltas p xs)"
proof (induction xs arbitrary: p)
  case (Cons x xs)
  then have "0 < x - p" by (intro word_diff_pos) simp
  with Cons show ?case by auto
qed simp

lemma spent_values_Some:
  "sorted (p # ids) \<Longrightarrow>
     spent_values (Some p) ids = Inr vs \<longleftrightarrow> sorted_wrt (<) (p # ids) \<and> vs = deltas p ids"
proof (induction ids arbitrary: p vs)
  case (Cons x xs)
  then have le: "p \<le> x" and sorted: "sorted (x # xs)" by simp_all
  then have sub: "checked_sub x p = Some (x - p)"
    by (simp add: checked_sub_def word_le_nat_alt)
  have "0 < x - p \<longleftrightarrow> p < x"
    using le word_diff_pos [of p x] by (cases "p = x") auto
  moreover have "sorted_wrt (<) (p # x # xs) \<longleftrightarrow> p < x \<and> sorted_wrt (<) (x # xs)"
    by auto
  ultimately show ?case
    using Cons.IH [OF sorted] sub by (auto simp: result_simps)
qed auto

lemma spent_accumulate_deltas:
  "sorted_wrt (<) (p # ids) \<Longrightarrow> spent_accumulate p (deltas p ids) = Inr ids"
proof (induction ids arbitrary: p)
  case (Cons x xs)
  then have "p < x" by simp
  then have "unat p + unat (x - p) = unat x"
    by (simp add: word_less_nat_alt unat_sub order_less_imp_le)
  then have "checked_add p (x - p) = Some x"
    using unsigned_less [of x] by (simp add: checked_add_def)
  with Cons show ?case by simp
qed simp

lemma strict_sorted_iff: "sorted_wrt (<) (xs :: u64 list) \<longleftrightarrow> sorted xs \<and> distinct xs"
  by (rule strict_sorted_iff)

lemma checked_sub_1: "v \<noteq> 0 \<Longrightarrow> checked_sub v 1 = Some (v - 1 :: 'a::len word)"
  by (simp add: checked_sub_def Suc_le_eq unat_gt_0)

text \<open>The exact domain of the encoder, and the code it produces.\<close>

definition encodable_ids :: "u64 list \<Rightarrow> bool" where
  "encodable_ids ids \<longleftrightarrow> distinct ids \<and> ids \<noteq> [- 1] \<and> length ids < 2 ^ 32"

lemma spent_values_sorted:
  assumes "sort ids = x # xs"
  shows "spent_values None (sort ids) = Inr vs \<longleftrightarrow>
    distinct ids \<and> ids \<noteq> [- 1] \<and> vs = (x + 1) # deltas x xs"
proof -
  have sorted: "sorted (x # xs)" using assms by (metis sorted_sort)
  have dist: "distinct ids \<longleftrightarrow> sorted_wrt (<) (x # xs)"
    using strict_sorted_iff [of "x # xs"] sorted assms by (metis distinct_sort)
  have single: "ids = [- 1] \<longleftrightarrow> x = - 1 \<and> xs = []"
  proof
    assume "x = - 1 \<and> xs = []"
    moreover from this obtain y where "ids = [y]"
      using arg_cong [OF assms, of length] by (auto simp: length_Suc_conv)
    ultimately show "ids = [- 1]" using assms by simp
  qed (use assms in auto)
  have top: "xs = []" if "x = - 1" "sorted_wrt (<) (x # xs)"
    using that by (cases xs) (auto simp: word_order.extremum_strict)
  have pos: "x \<noteq> - 1 \<Longrightarrow> 0 < x + 1"
    using word_greater_zero_iff [of "x + 1"] by (simp add: eq_neg_iff_add_eq_0)
  show ?thesis
    unfolding assms dist single
    using checked_add_1 [of x] top pos spent_values_Some [OF sorted]
    by (auto simp: result_simps)
qed

lemma spent_code_pos:
  assumes "encodable_ids ids" and "sort ids = x # xs"
  shows "0 \<notin> set ((x + 1) # deltas x xs)" and "sorted_wrt (<) (x # xs)"
proof -
  show asc: "sorted_wrt (<) (x # xs)"
    using assms strict_sorted_iff [of "x # xs"]
    by (metis distinct_sort encodable_ids_def sorted_sort)
  have "x \<noteq> - 1"
  proof
    assume "x = - 1"
    with asc have "xs = []" by (cases xs) (auto simp: word_order.extremum_strict)
    then obtain y where "ids = [y]"
      using arg_cong [OF assms(2), of length] by (auto simp: length_Suc_conv)
    with assms \<open>x = - 1\<close> show False by (simp add: encodable_ids_def)
  qed
  then have "x + 1 \<noteq> 0" by (simp add: eq_neg_iff_add_eq_0)
  with deltas_pos [OF asc] show "0 \<notin> set ((x + 1) # deltas x xs)" by simp
qed

lemma encode_spent_ids_Cons:
  assumes "sort ids = x # xs"
  shows "encode_spent_ids_elias_delta_ascending_absolute ids = Inr (count, bs) \<longleftrightarrow>
    encodable_ids ids \<and> count = word_of_nat (length ids)
    \<and> encode_elias_delta_values ((x + 1) # deltas x xs) = Inr bs"
proof -
  have "length ids = Suc (length xs)" using arg_cong [OF assms, of length] by simp
  then show ?thesis
    using spent_values_sorted [OF assms] assms
    by (auto simp: encode_spent_ids_elias_delta_ascending_absolute_def encodable_ids_def
        result_simps Let_def)
qed

lemma encode_spent_ids_ok:
  assumes "encodable_ids ids"
  obtains bs where
    "encode_spent_ids_elias_delta_ascending_absolute ids = Inr (word_of_nat (length ids), bs)"
proof (cases "sort ids")
  case Nil
  then have "ids = []" by (metis length_0_conv length_sort)
  with that show thesis by (simp add: encode_spent_ids_elias_delta_ascending_absolute_def)
next
  case (Cons x xs)
  obtain bs where "encode_elias_delta_values ((x + 1) # deltas x xs) = Inr bs"
    using encode_values_bits [OF spent_code_pos(1) [OF assms Cons]] by blast
  with that assms Cons show thesis by (simp add: encode_spent_ids_Cons)
qed

lemma encode_spent_ids_Inr:
  "encode_spent_ids_elias_delta_ascending_absolute ids = Inr (count, bs) \<Longrightarrow>
     encodable_ids ids \<and> unat count = length ids"
proof (cases "sort ids")
  case Nil
  then have "ids = []" by (metis length_0_conv length_sort)
  then show "encode_spent_ids_elias_delta_ascending_absolute ids = Inr (count, bs) \<Longrightarrow> ?thesis"
    by (auto simp: encode_spent_ids_elias_delta_ascending_absolute_def encodable_ids_def)
next
  case (Cons x xs)
  then show "encode_spent_ids_elias_delta_ascending_absolute ids = Inr (count, bs) \<Longrightarrow> ?thesis"
    by (auto simp: encode_spent_ids_Cons encodable_ids_def unat_word_of_nat_small)
qed

lemma decode_encoded_spent_ids:
  assumes "encode_spent_ids_elias_delta_ascending_absolute ids = Inr (count, bs)"
  shows "decode_spent_ids_elias_delta_ascending_absolute count bs = Inr (sort ids)"
proof (cases "sort ids")
  case Nil
  then have "ids = []" by (metis length_0_conv length_sort)
  with assms show ?thesis
    by (auto simp: encode_spent_ids_elias_delta_ascending_absolute_def
        decode_spent_ids_elias_delta_ascending_absolute_def)
next
  case (Cons x xs)
  from assms have enc: "encodable_ids ids" "unat count = length ids"
    using encode_spent_ids_Inr by blast+
  note code = spent_code_pos [OF enc(1) Cons]
  have len: "unat count = length ((x + 1) # deltas x xs)"
    using enc(2) arg_cong [OF Cons, of length] by simp
  then have "count \<noteq> 0" by auto
  have "encode_elias_delta_values ((x + 1) # deltas x xs) = Inr bs"
    using assms Cons by (simp add: encode_spent_ids_Cons)
  with encode_values_bits [OF code(1)] decode_values_bits [OF code(1)] len
  have "decode_elias_delta_values bs (unat count) = Inr ((x + 1) # deltas x xs)" by force
  moreover have "checked_sub (x + 1) 1 = Some x" using code(1) checked_sub_1 [of "x + 1"] by simp
  ultimately show ?thesis
    using \<open>count \<noteq> 0\<close> spent_accumulate_deltas [OF code(2)] Cons
    by (simp add: decode_spent_ids_elias_delta_ascending_absolute_def)
qed

text \<open>Any stream that decodes yields strictly ascending UIDs, exactly as many as announced.\<close>

lemma spent_accumulate_sorted:
  "spent_accumulate uid ds = Inr out \<Longrightarrow> 0 \<notin> set ds \<Longrightarrow>
     sorted_wrt (<) (uid # out) \<and> length out = length ds"
proof (induction ds arbitrary: uid out)
  case (Cons d ds)
  from Cons.prems obtain uid' out' where step: "checked_add uid d = Some uid'"
      "spent_accumulate uid' ds = Inr out'" "out = uid' # out'"
    by (auto simp: result_simps)
  then have lt: "uid < uid'"
    using unat_checked_add [OF step(1)] Cons.prems(2)
    by (simp add: word_less_nat_alt unat_gt_0)
  have "sorted_wrt (<) (uid' # out') \<and> length out' = length ds"
    using Cons step by simp
  with lt step(3) show ?case by auto
qed simp

lemma decode_spent_ids_sorted:
  assumes "decode_spent_ids_elias_delta_ascending_absolute count bs = Inr ids"
  shows "sorted_wrt (<) ids \<and> length ids = unat count"
proof (cases "count = 0")
  case False
  with assms obtain vals first out where
      v: "decode_elias_delta_values bs (unat count) = Inr vals"
      and out: "spent_accumulate first (tl vals) = Inr out" "ids = first # out"
    by (auto simp: decode_spent_ids_elias_delta_ascending_absolute_def result_simps)
  have "0 \<notin> set vals" "length vals = unat count" using decode_values_pos [OF v] by auto
  moreover have "unat count > 0" using False by (simp add: unat_gt_0)
  ultimately show ?thesis
    using spent_accumulate_sorted [OF out(1)] out(2) by (cases vals) auto
qed (use assms in \<open>auto simp: decode_spent_ids_elias_delta_ascending_absolute_def result_simps\<close>)

section \<open>Properties\<close>

text \<open>
  C20: the spent-UID stream is lossless: decoding what the encoder produced, with
  the count it produced, returns the given UIDs in ascending order, and the
  count is the number of UIDs.
\<close>

theorem spent_ids_roundtrip:
  assumes "encode_spent_ids_elias_delta_ascending_absolute ids = Inr (count, bs)"
  shows "decode_spent_ids_elias_delta_ascending_absolute count bs = Inr (sort ids)
    \<and> unat count = length ids"
  using decode_encoded_spent_ids [OF assms] encode_spent_ids_Inr [OF assms] by simp

text \<open>
  the encoder accepts exactly the lists of distinct UIDs with fewer than
  \<open>2^32\<close> elements, the single list holding only \<open>u64::MAX\<close> apart; every other
  list is an error.
\<close>

theorem spent_ids_encoder_domain:
  "is_ok (encode_spent_ids_elias_delta_ascending_absolute ids) \<longleftrightarrow>
     distinct ids \<and> ids \<noteq> [- 1] \<and> length ids < 2 ^ 32"
proof -
  have "is_ok (encode_spent_ids_elias_delta_ascending_absolute ids) \<longleftrightarrow> encodable_ids ids"
  proof
    assume "is_ok (encode_spent_ids_elias_delta_ascending_absolute ids)"
    then obtain r where "encode_spent_ids_elias_delta_ascending_absolute ids = Inr r"
      by (auto simp: is_ok_iff)
    then show "encodable_ids ids" using encode_spent_ids_Inr by (cases r) blast
  next
    assume "encodable_ids ids"
    from encode_spent_ids_ok [OF this]
    show "is_ok (encode_spent_ids_elias_delta_ascending_absolute ids)" by (metis is_ok_simps(2))
  qed
  then show ?thesis by (simp add: encodable_ids_def)
qed

text \<open>
  Whatever bytes a client receives, a spent-UID stream that decodes gives
  strictly ascending UIDs, exactly as many as the announced count.
\<close>

theorem decoded_spent_ids_ascending:
  assumes "decode_spent_ids_elias_delta_ascending_absolute count bs = Inr ids"
  shows "sorted_wrt (<) ids \<and> length ids = unat count"
  using assms by (rule decode_spent_ids_sorted)

theorem decoded_spent_ids_ascending_witness:
  "\<exists>bs. decode_spent_ids_elias_delta_ascending_absolute 2 bs = Inr [2, 5]
    \<and> sorted_wrt (<) ([2, 5] :: u64 list) \<and> length ([2, 5] :: u64 list) = unat (2 :: u32)"
proof -
  have "encodable_ids [5, 2]" by (simp add: encodable_ids_def)
  from encode_spent_ids_ok [OF this]
  obtain bs where "encode_spent_ids_elias_delta_ascending_absolute [5, 2]
      = Inr (word_of_nat (length ([5, 2] :: u64 list)), bs)" .
  then have "encode_spent_ids_elias_delta_ascending_absolute [5, 2] = Inr (2, bs)" by simp
  then have "decode_spent_ids_elias_delta_ascending_absolute 2 bs = Inr [2, 5]"
    using decode_encoded_spent_ids by fastforce
  with decoded_spent_ids_ascending [OF this] show ?thesis by blast
qed

theorem spent_ids_roundtrip_witness:
  "\<exists>count bs. encode_spent_ids_elias_delta_ascending_absolute [5, 2] = Inr (count, bs)
    \<and> decode_spent_ids_elias_delta_ascending_absolute count bs = Inr [2, 5] \<and> unat count = 2"
proof -
  have "encodable_ids [5, 2]" by (simp add: encodable_ids_def)
  from encode_spent_ids_ok [OF this]
  obtain bs where "encode_spent_ids_elias_delta_ascending_absolute [5, 2]
      = Inr (word_of_nat (length ([5, 2] :: u64 list)), bs)" .
  then have "encode_spent_ids_elias_delta_ascending_absolute [5, 2] = Inr (2, bs)" by simp
  with spent_ids_roundtrip [OF this] show ?thesis by (intro exI [of _ 2] exI [of _ bs]) simp
qed

end
