(* ===== verification/Skip_Bitmap.thy ===== *)
theory Skip_Bitmap
  imports Bits
begin

text \<open>
  The skipped-transaction bitmap of \<^verbatim>\<open>light-server/src/index.rs\<close>: one bit per
  original transaction, least significant bit first; a set bit means that the
  transaction has no tweak entry. The bitmap is shown to be a set of
  transaction indexes: the operations meet the laws of the locale
  \<open>index_set\<close>, which the block builder relies on.
\<close>

section \<open>Operations\<close>

definition skipped_tx_bitmap_len :: "u16 \<Rightarrow> usize result" where
  "skipped_tx_bitmap_len tx_count =
     ok_or (map_option (\<lambda>b. b div 8) (usize_checked_add (unat tx_count) 7))
       ''skipped tx bitmap length overflow''"

definition empty_skipped_txs_for_tweaks_bitmap :: "u16 \<Rightarrow> bytes result" where
  "empty_skipped_txs_for_tweaks_bitmap tx_count =
     and_then (skipped_tx_bitmap_len tx_count) (\<lambda>n. Inr (replicate n 0))"

definition validate_skipped_txs_for_tweaks :: "u16 \<Rightarrow> bytes \<Rightarrow> unit result" where
  "validate_skipped_txs_for_tweaks tx_count bitmap =
     and_then (skipped_tx_bitmap_len tx_count) (\<lambda>expected_len.
     and_then (ensure (length bitmap = expected_len)
       ''skipped tx bitmap byte length does not match expected for tx_count'') (\<lambda>_.
     let used_bits = unat tx_count mod 8 in
     if used_bits > 0 \<and> bitmap \<noteq> [] then
       (let used_mask = (push_bit used_bits 1 :: u8) - 1; padding_mask = NOT used_mask
        in ensure (bitmap ! (length bitmap - 1) AND padding_mask = 0)
             ''skipped tx bitmap has non-zero padding bits'')
     else Inr ()))"

definition set_skipped_tx_in_bitmap :: "u16 \<Rightarrow> bytes \<Rightarrow> u16 \<Rightarrow> bytes result" where
  "set_skipped_tx_in_bitmap tx_count bitmap tx_index =
     and_then (validate_skipped_txs_for_tweaks tx_count bitmap) (\<lambda>_.
     and_then (ensure (tx_index < tx_count) ''skipped tx index is outside tx_count'') (\<lambda>_.
     let bit_pos = unat tx_index; byte = bit_pos div 8; shift = bit_pos mod 8
     in Inr (bitmap[byte := bitmap ! byte OR push_bit shift 1])))"

definition is_skipped_tx_in_bitmap :: "u16 \<Rightarrow> bytes \<Rightarrow> u16 \<Rightarrow> bool result" where
  "is_skipped_tx_in_bitmap tx_count bitmap tx_index =
     and_then (validate_skipped_txs_for_tweaks tx_count bitmap) (\<lambda>_.
     and_then (ensure (tx_index < tx_count) ''skipped tx index is outside tx_count'') (\<lambda>_.
     let bit_pos = unat tx_index; byte = bit_pos div 8; shift = bit_pos mod 8
     in Inr (drop_bit shift (bitmap ! byte) AND 1 \<noteq> 0)))"

text \<open>The indexes \<open>0..tx_count\<close> the loops run over.\<close>

definition tx_indexes :: "u16 \<Rightarrow> u16 list" where
  "tx_indexes tx_count = map word_of_nat [0..<unat tx_count]"

definition skipped_txs_for_tweaks_count :: "u16 \<Rightarrow> bytes \<Rightarrow> u16 result" where
  "skipped_txs_for_tweaks_count tx_count bitmap =
     and_then (validate_skipped_txs_for_tweaks tx_count bitmap) (\<lambda>_.
       try_fold (\<lambda>tx_index count.
           and_then (is_skipped_tx_in_bitmap tx_count bitmap tx_index) (\<lambda>b.
             if b then ok_or (checked_add count 1) ''skipped tx count overflow''
             else Inr count))
         (tx_indexes tx_count) 0)"

definition skipped_txs_for_tweaks_indexes :: "u16 \<Rightarrow> bytes \<Rightarrow> u16 list result" where
  "skipped_txs_for_tweaks_indexes tx_count bitmap =
     and_then (validate_skipped_txs_for_tweaks tx_count bitmap) (\<lambda>_.
       try_fold (\<lambda>tx_index skipped.
           and_then (is_skipped_tx_in_bitmap tx_count bitmap tx_index) (\<lambda>b.
             Inr (if b then skipped @ [tx_index] else skipped)))
         (tx_indexes tx_count) [])"

text \<open>The \<open>while\<close> loop of \<open>derive_stored_tweak_tx_indexes\<close>.\<close>

function derive_tweak_loop :: "u16 \<Rightarrow> bytes \<Rightarrow> usize \<Rightarrow> u16 \<Rightarrow> u16 list \<Rightarrow> u16 list result" where
  "derive_tweak_loop tx_count bitmap tweak_count tx_index indexes =
     (if tx_index < tx_count \<and> length indexes < tweak_count then
        and_then (is_skipped_tx_in_bitmap tx_count bitmap tx_index) (\<lambda>skipped.
        and_then (ok_or (checked_add tx_index 1) ''stored tweak tx index overflow'') (\<lambda>next.
          derive_tweak_loop tx_count bitmap tweak_count next
            (if \<not> skipped then indexes @ [tx_index] else indexes)))
      else Inr indexes)"
  by pat_completeness auto
termination
proof (relation "measure (\<lambda>(n, b, c, i, ids). unat n - unat i)")
  fix n i j :: u16 and ids :: "u16 list" and c b sk
  assume "i < n \<and> length ids < c" and "ok_or (checked_add i 1) ''stored tweak tx index overflow'' = Inr j"
  then have "unat i < unat n" "unat j = unat i + 1"
    using unat_checked_add [of i 1 j] by (auto simp: word_less_nat_alt)
  then show "((n, b, c, j, if \<not> sk then ids @ [i] else ids), n, b, c, i, ids)
      \<in> measure (\<lambda>(n, b, c, i, ids). unat n - unat i)"
    by simp
qed simp

declare derive_tweak_loop.simps [simp del]

definition derive_stored_tweak_tx_indexes :: "u16 \<Rightarrow> bytes \<Rightarrow> usize \<Rightarrow> u16 list result" where
  "derive_stored_tweak_tx_indexes tx_count bitmap tweak_count =
     and_then (validate_skipped_txs_for_tweaks tx_count bitmap) (\<lambda>_.
     and_then (derive_tweak_loop tx_count bitmap tweak_count 0 []) (\<lambda>indexes.
     and_then (ensure (length indexes = tweak_count)
       ''tx_count/skipped bitmap does not leave enough non-skipped transactions for stored tweaks'')
       (\<lambda>_. Inr indexes)))"

section \<open>The bitmap as a set of indexes\<close>

definition lsb_bit :: "bytes \<Rightarrow> nat \<Rightarrow> bool" where
  "lsb_bit bs k = bit (bs ! (k div 8)) (k mod 8)"

definition valid_bitmap :: "nat \<Rightarrow> bytes \<Rightarrow> bool" where
  "valid_bitmap n bs \<longleftrightarrow> length bs = (n + 7) div 8
     \<and> (\<forall>k. n \<le> k \<and> k < 8 * length bs \<longrightarrow> \<not> lsb_bit bs k)"

definition skipped_set :: "nat \<Rightarrow> bytes \<Rightarrow> nat set" where
  "skipped_set n bs = {k. k < n \<and> lsb_bit bs k}"

lemma skipped_tx_bitmap_len_eq [simp]: "skipped_tx_bitmap_len n = Inr ((unat n + 7) div 8)"
  using unat_bounds(2) [of n]
  by (simp add: skipped_tx_bitmap_len_def usize_checked_add_def usize_max_def)

lemma padding_mask_iff:
  "u < 8 \<Longrightarrow> (b :: u8) AND NOT (push_bit u 1 - 1) = 0 \<longleftrightarrow> (\<forall>k. u \<le> k \<and> k < 8 \<longrightarrow> \<not> bit b k)"
proof -
  have "b AND NOT (push_bit u 1 - 1) = 0 \<longleftrightarrow> (\<forall>k < 8. \<not> bit (b AND NOT (mask u)) k)"
    by (simp add: mask_eq_exp_minus_1 bit_eq_iff possible_bit_word)
  then show ?thesis by (auto simp: bit_simps)
qed

lemma bytes_for_count: "(n::nat) mod 8 \<noteq> 0 \<Longrightarrow> (n + 7) div 8 = Suc (n div 8)"
proof -
  assume "n mod 8 \<noteq> 0"
  moreover define q r where "q = n div 8" and "r = n mod 8"
  ultimately have n: "n = 8 * q + r" "r < 8" "0 < r" by simp_all
  then have "(n + 7) div 8 = Suc q" by (intro div_nat_eqI) simp_all
  then show ?thesis by (simp add: q_def)
qed

lemma byte_window:
  fixes n k q u :: nat
  assumes "n = 8 * q + u" and "u < 8"
  shows "n \<le> k \<and> k < 8 * Suc q \<longleftrightarrow> k div 8 = q \<and> u \<le> k mod 8"
proof -
  have k: "k = 8 * (k div 8) + k mod 8" "k mod 8 < 8" by simp_all
  show ?thesis
  proof
    assume bounds: "n \<le> k \<and> k < 8 * Suc q"
    then have "k div 8 = q" using assms by (intro div_nat_eqI) auto
    with k bounds assms show "k div 8 = q \<and> u \<le> k mod 8" by linarith
  next
    assume "k div 8 = q \<and> u \<le> k mod 8"
    with k assms show "n \<le> k \<and> k < 8 * Suc q" by auto
  qed
qed

lemma validate_iff:
  "validate_skipped_txs_for_tweaks n bs = Inr () \<longleftrightarrow> valid_bitmap (unat n) bs"
proof (cases "unat n mod 8 = 0")
  case True
  then show ?thesis
    by (auto simp: validate_skipped_txs_for_tweaks_def valid_bitmap_def result_simps)
next
  case False
  let ?u = "unat n mod 8" and ?l = "(unat n + 7) div 8"
  have l: "?l = Suc (unat n div 8)" using bytes_for_count [OF False] .
  have "(\<forall>k. unat n \<le> k \<and> k < 8 * length bs \<longrightarrow> \<not> lsb_bit bs k)
      \<longleftrightarrow> (\<forall>k. ?u \<le> k \<and> k < 8 \<longrightarrow> \<not> bit (bs ! (length bs - 1)) k)" if len: "length bs = ?l"
  proof -
    have split: "unat n \<le> k \<and> k < 8 * length bs \<longleftrightarrow> k div 8 = length bs - 1 \<and> ?u \<le> k mod 8" for k
      using byte_window [of "unat n" "unat n div 8" ?u k] l len by simp
    show ?thesis unfolding lsb_bit_def split
    proof safe
      fix j assume j: "?u \<le> j" "j < 8" "bit (bs ! (length bs - 1)) j"
        and all: "\<forall>k. k div 8 = length bs - 1 \<and> ?u \<le> k mod 8 \<longrightarrow> \<not> bit (bs ! (k div 8)) (k mod 8)"
      have "(8 * (length bs - 1) + j) div 8 = length bs - 1" "(8 * (length bs - 1) + j) mod 8 = j"
        using j(2) by simp_all
      with all j show False by metis
    qed auto
  qed
  then show ?thesis
    using False l
    by (auto simp: validate_skipped_txs_for_tweaks_def valid_bitmap_def result_simps Let_def padding_mask_iff
        simp del: push_bit_of_1)
qed

lemmas validate_ok = validate_iff [THEN iffD2]

lemma empty_bitmap:
  obtains bs where "empty_skipped_txs_for_tweaks_bitmap n = Inr bs"
    and "valid_bitmap (unat n) bs" and "skipped_set (unat n) bs = {}"
proof (rule that)
  let ?bs = "replicate ((unat n + 7) div 8) 0 :: bytes"
  show "empty_skipped_txs_for_tweaks_bitmap n = Inr ?bs"
    by (simp add: empty_skipped_txs_for_tweaks_bitmap_def)
  have clear: "\<not> lsb_bit ?bs k" if "k < 8 * length ?bs" for k
    using that by (auto simp: lsb_bit_def)
  then show "valid_bitmap (unat n) ?bs" by (simp add: valid_bitmap_def)
  show "skipped_set (unat n) ?bs = {}" using clear by (auto simp: skipped_set_def)
qed

lemma lsb_bit_set:
  assumes "i < 8 * length bs" and "k < 8 * length bs"
  shows "lsb_bit (bs[i div 8 := bs ! (i div 8) OR push_bit (i mod 8) 1]) k \<longleftrightarrow> lsb_bit bs k \<or> k = i"
proof -
  have "k = i \<longleftrightarrow> k div 8 = i div 8 \<and> k mod 8 = i mod 8" by (metis div_mult_mod_eq)
  moreover have "i div 8 < length bs" "k div 8 < length bs" "i mod 8 < 8" using assms by auto
  ultimately show ?thesis
    by (auto simp: lsb_bit_def nth_list_update bit_or_one_shift)
qed

lemma set_skipped_Inr:
  assumes v: "valid_bitmap (unat n) bs" and i: "i < n"
  obtains bs' where "set_skipped_tx_in_bitmap n bs i = Inr bs'" and "valid_bitmap (unat n) bs'"
    and "skipped_set (unat n) bs' = insert (unat i) (skipped_set (unat n) bs)"
proof (rule that)
  let ?i = "unat i"
  let ?bs = "bs[?i div 8 := bs ! (?i div 8) OR push_bit (?i mod 8) 1]"
  have lt: "?i < unat n" using i by (simp add: word_less_nat_alt)
  have "unat n \<le> 8 * length bs" using v by (simp add: valid_bitmap_def)
  with lt have len: "?i < 8 * length bs" by simp
  have "validate_skipped_txs_for_tweaks n bs = Inr ()" using v by (simp add: validate_iff)
  with i show "set_skipped_tx_in_bitmap n bs i = Inr ?bs"
    by (simp add: set_skipped_tx_in_bitmap_def Let_def)
  note bits = lsb_bit_set [OF len]
  show "valid_bitmap (unat n) ?bs"
    using v lt bits by (auto simp: valid_bitmap_def)
  show "skipped_set (unat n) ?bs = insert ?i (skipped_set (unat n) bs)"
    using lt bits \<open>unat n \<le> 8 * length bs\<close> by (auto simp: skipped_set_def)
qed

lemma is_skipped_Inr:
  assumes "valid_bitmap (unat n) bs" and "i < n"
  shows "is_skipped_tx_in_bitmap n bs i = Inr (unat i \<in> skipped_set (unat n) bs)"
proof -
  have "validate_skipped_txs_for_tweaks n bs = Inr ()" using assms(1) by (simp add: validate_iff)
  with assms(2) show ?thesis
    by (simp add: is_skipped_tx_in_bitmap_def Let_def bit_test_ne skipped_set_def lsb_bit_def
        word_less_nat_alt)
qed

section \<open>The interface of an index set\<close>

text \<open>
  \<open>insert_index\<close> marks one index below the bound and \<open>indexes\<close> is the set it
  stands for; the client marks a list of indexes one after the other.
\<close>

locale index_set =
  fixes insert_index :: "'b \<Rightarrow> 'i \<Rightarrow> 'b result"
    and in_range :: "'i \<Rightarrow> bool"
    and pos :: "'i \<Rightarrow> nat"
    and indexes :: "'b \<Rightarrow> nat set"
    and invar :: "'b \<Rightarrow> bool"
  assumes insert_ok: "invar b \<Longrightarrow> in_range i \<Longrightarrow>
      \<exists>b'. insert_index b i = Inr b' \<and> invar b' \<and> indexes b' = insert (pos i) (indexes b)"
    and insert_out_of_range: "\<not> in_range i \<Longrightarrow> \<not> is_ok (insert_index b i)"
begin

lemma insert_Inr_D:
  "invar b \<Longrightarrow> insert_index b i = Inr b' \<Longrightarrow>
     in_range i \<and> invar b' \<and> indexes b' = insert (pos i) (indexes b)"
  using insert_ok [of b i] insert_out_of_range [of i b] by (cases "in_range i") auto

lemma insert_all_ok:
  "invar b \<Longrightarrow> \<forall>i \<in> set is. in_range i \<Longrightarrow>
     \<exists>b'. try_fold (\<lambda>i b. insert_index b i) is b = Inr b' \<and> invar b'
       \<and> indexes b' = pos ` set is \<union> indexes b"
proof (induction "is" arbitrary: b)
  case (Cons i "is")
  then obtain b1 where b1: "insert_index b i = Inr b1" "invar b1" "indexes b1 = insert (pos i) (indexes b)"
    using insert_ok [OF Cons.prems(1), of i] by auto
  from Cons.IH [OF b1(2)] Cons.prems(2) b1 show ?case by auto
qed simp

end

interpretation bm: index_set "set_skipped_tx_in_bitmap n" "\<lambda>i. i < n" unat
    "skipped_set (unat n)" "valid_bitmap (unat n)" for n :: u16
proof
  fix b i assume "valid_bitmap (unat n) b" "i < n"
  then show "\<exists>b'. set_skipped_tx_in_bitmap n b i = Inr b' \<and> valid_bitmap (unat n) b'
      \<and> skipped_set (unat n) b' = insert (unat i) (skipped_set (unat n) b)"
    using set_skipped_Inr by metis
next
  fix i b assume "\<not> i < n"
  then show "\<not> is_ok (set_skipped_tx_in_bitmap n b i)"
    by (cases "validate_skipped_txs_for_tweaks n b") (simp_all add: set_skipped_tx_in_bitmap_def)
qed

section \<open>Counting and listing the skipped transactions\<close>

definition skipped_list :: "nat \<Rightarrow> bytes \<Rightarrow> nat list" where
  "skipped_list n bs = filter (lsb_bit bs) [0..<n]"

lemma set_skipped_list: "set (skipped_list n bs) = skipped_set n bs"
  by (auto simp: skipped_list_def skipped_set_def)

lemma distinct_skipped_list [simp]: "distinct (skipped_list n bs)"
  by (simp add: skipped_list_def)

lemma length_skipped_list: "length (skipped_list n bs) = card (skipped_set n bs)"
  using distinct_card [OF distinct_skipped_list] by (simp add: set_skipped_list)

lemma skipped_list_le: "length (skipped_list n bs) \<le> n"
  using length_filter_le [of "lsb_bit bs" "[0..<n]"] by (simp add: skipped_list_def)

lemma u16_of_nat_below: "k < unat (n :: u16) \<Longrightarrow> (word_of_nat k :: u16) < n \<and> unat (word_of_nat k :: u16) = k"
  using unat_bounds(2) [of n] by (simp add: word_less_nat_alt unat_word_of_nat_small)

lemma is_skipped_nat:
  "valid_bitmap (unat n) bs \<Longrightarrow> k < unat n \<Longrightarrow>
     is_skipped_tx_in_bitmap n bs (word_of_nat k) = Inr (lsb_bit bs k)"
  using is_skipped_Inr [of n bs "word_of_nat k"] u16_of_nat_below [of k n]
  by (simp add: skipped_set_def)

lemma indexes_fold:
  assumes "valid_bitmap (unat n) bs" and "\<forall>k \<in> set ks. k < unat n"
  shows "try_fold (\<lambda>tx_index skipped. and_then (is_skipped_tx_in_bitmap n bs tx_index)
      (\<lambda>b. Inr (if b then skipped @ [tx_index] else skipped))) (map word_of_nat ks) acc
    = Inr (acc @ map word_of_nat (filter (lsb_bit bs) ks))"
  using assms(2) by (induction ks arbitrary: acc) (simp_all add: is_skipped_nat [OF assms(1)])

lemma count_fold:
  fixes c :: u16
  assumes "valid_bitmap (unat n) bs" and "\<forall>k \<in> set ks. k < unat n"
    and "unat c + length (filter (lsb_bit bs) ks) < 65536"
  shows "try_fold (\<lambda>tx_index count. and_then (is_skipped_tx_in_bitmap n bs tx_index)
      (\<lambda>b. if b then ok_or (checked_add count 1) ''skipped tx count overflow'' else Inr count))
      (map word_of_nat ks) c = Inr (c + word_of_nat (length (filter (lsb_bit bs) ks)))"
  using assms(2,3)
proof (induction ks arbitrary: c)
  case (Cons k ks)
  show ?case
  proof (cases "lsb_bit bs k")
    case True
    then have "checked_add c 1 = Some (c + 1)" and "unat (c + 1) = unat c + 1"
      using Cons.prems by (simp_all add: checked_add_def unat_word_ariths)
    with True Cons show ?thesis by (simp add: is_skipped_nat [OF assms(1)])
  next
    case False
    with Cons show ?thesis by (simp add: is_skipped_nat [OF assms(1)])
  qed
qed simp

lemma skipped_indexes_eq:
  assumes "valid_bitmap (unat n) bs"
  shows "skipped_txs_for_tweaks_indexes n bs = Inr (map word_of_nat (skipped_list (unat n) bs))"
  using indexes_fold [OF assms, of "[0..<unat n]" "[]"] validate_ok [OF assms]
  by (simp add: skipped_txs_for_tweaks_indexes_def tx_indexes_def skipped_list_def)

lemma skipped_count_eq:
  assumes "valid_bitmap (unat n) bs"
  shows "skipped_txs_for_tweaks_count n bs = Inr (word_of_nat (length (skipped_list (unat n) bs)))"
  using count_fold [OF assms, of "[0..<unat n]" 0] validate_ok [OF assms] skipped_list_le [of "unat n" bs]
    unat_bounds(2) [of n]
  by (simp add: skipped_txs_for_tweaks_count_def tx_indexes_def skipped_list_def)

lemma skipped_count_Inr_iff:
  "skipped_txs_for_tweaks_count n bs = Inr c \<longleftrightarrow>
     valid_bitmap (unat n) bs \<and> unat c = length (skipped_list (unat n) bs)"
proof (cases "valid_bitmap (unat n) bs")
  case True
  have "length (skipped_list (unat n) bs) < 65536"
    using skipped_list_le [of "unat n" bs] unat_bounds(2) [of n] by simp
  then have "unat (word_of_nat (length (skipped_list (unat n) bs)) :: u16)
      = length (skipped_list (unat n) bs)"
    by (simp add: unat_word_of_nat_small)
  with True show ?thesis by (auto simp: skipped_count_eq word_unat_eq_iff)
next
  case False
  then show ?thesis
    using validate_iff [of n bs] by (auto simp: skipped_txs_for_tweaks_count_def result_simps)
qed

section \<open>Deriving the tweak transaction indexes\<close>

lemma derive_loop_eq:
  assumes "valid_bitmap (unat n) bs" and "length ids \<le> c"
  shows "derive_tweak_loop n bs c i ids
    = Inr (ids @ map word_of_nat (take (c - length ids)
        (filter (\<lambda>k. \<not> lsb_bit bs k) [unat i..<unat n])))"
  using assms(2)
proof (induction "unat n - unat i" arbitrary: i ids rule: less_induct)
  case less
  show ?case
  proof (cases "i < n \<and> length ids < c")
    case False
    then show ?thesis
      using less.prems by (subst derive_tweak_loop.simps) (auto simp: word_less_nat_alt)
  next
    case True
    then have lt: "unat i < unat n" by (simp add: word_less_nat_alt)
    then have nxt: "checked_add i 1 = Some (i + 1)" "unat (i + 1) = Suc (unat i)"
      using unat_bounds(2) [of n] by (simp_all add: checked_add_def unat_word_ariths)
    have sk: "is_skipped_tx_in_bitmap n bs i = Inr (lsb_bit bs (unat i))"
      using is_skipped_nat [OF assms(1) lt] by simp
    have cons: "[unat i..<unat n] = unat i # [Suc (unat i)..<unat n]"
      using lt by (rule upt_conv_Cons)
    have dec: "unat n - unat (i + 1) < unat n - unat i" using lt nxt(2) by simp
    show ?thesis
      using less.hyps [OF dec] True nxt sk
      by (subst derive_tweak_loop.simps) (simp add: cons Suc_diff_Suc [symmetric] Suc_leI)
  qed
qed

lemma derive_indexes_eq:
  assumes "valid_bitmap (unat n) bs"
  shows "derive_stored_tweak_tx_indexes n bs c =
    (let free = filter (\<lambda>k. \<not> lsb_bit bs k) [0..<unat n] in
     if c \<le> length free then Inr (map word_of_nat (take c free))
     else Inl (Error ''tx_count/skipped bitmap does not leave enough non-skipped transactions for stored tweaks''))"
  using derive_loop_eq [OF assms, of "[]" c 0] validate_ok [OF assms]
  by (simp add: derive_stored_tweak_tx_indexes_def Let_def min_def)

lemma free_plus_skipped:
  "length (filter (\<lambda>k. \<not> lsb_bit bs k) [0..<n]) + length (skipped_list n bs) = n"
  using sum_length_filter_compl [of "lsb_bit bs" "[0..<n]"] by (simp add: skipped_list_def)

lemma sorted_u16_of_nats:
  "sorted_wrt (<) ks \<Longrightarrow> \<forall>k \<in> set ks. k < 65536 \<Longrightarrow> sorted_wrt (<) (map word_of_nat ks :: u16 list)"
  by (induction ks) (auto simp: word_less_nat_alt unat_word_of_nat_small)

lemma sorted_upt_filter: "sorted_wrt (<) (filter P [a..<b::nat])"
  using sorted_wrt_upt [of a b] by (rule sorted_wrt_filter)

lemma u16_nat_image:
  assumes "K \<subseteq> {..<unat (n :: u16)}"
  shows "(word_of_nat ` K :: u16 set) = {i. i < n \<and> unat i \<in> K}"
proof -
  have below: "k < unat n" if "k \<in> K" for k using that assms by auto
  show ?thesis
  proof (intro set_eqI iffI)
    fix i :: u16 assume "i \<in> word_of_nat ` K"
    then obtain k where "k \<in> K" "i = word_of_nat k" by blast
    with u16_of_nat_below [OF below [of k]] show "i \<in> {i. i < n \<and> unat i \<in> K}" by simp
  next
    fix i :: u16 assume "i \<in> {i. i < n \<and> unat i \<in> K}"
    then show "i \<in> word_of_nat ` K" by (intro image_eqI [where x = "unat i"]) simp_all
  qed
qed

section \<open>Properties\<close>

text \<open>
  After a transaction is marked as skipped, a query answers true for it and
  for the transactions marked before, and false for every other one.
\<close>

theorem skipped_bit_after_set:
  assumes "set_skipped_tx_in_bitmap n bs i = Inr bs'" and "j < n"
  shows "is_skipped_tx_in_bitmap n bs' j
    = Inr (j = i \<or> is_skipped_tx_in_bitmap n bs j = Inr True)"
proof -
  have valid: "valid_bitmap (unat n) bs"
    using assms(1) by (auto simp: set_skipped_tx_in_bitmap_def result_simps validate_iff)
  from bm.insert_Inr_D [OF this assms(1)]
  have "valid_bitmap (unat n) bs'" "skipped_set (unat n) bs' = insert (unat i) (skipped_set (unat n) bs)"
    by auto
  with valid assms(2) show ?thesis by (simp add: is_skipped_Inr word_unat_eq_iff)
qed

theorem skipped_bit_after_set_witness:
  "\<exists>bs bs'. set_skipped_tx_in_bitmap 12 bs 9 = Inr bs' \<and> is_skipped_tx_in_bitmap 12 bs' 9 = Inr True"
proof -
  obtain bs where bs: "valid_bitmap (unat (12 :: u16)) bs"
    using empty_bitmap [of 12] by blast
  have "(9 :: u16) < 12" by simp
  from set_skipped_Inr [OF bs this] obtain bs' where "set_skipped_tx_in_bitmap 12 bs 9 = Inr bs'" by blast
  with skipped_bit_after_set [OF this, of 9] show ?thesis by auto
qed

text \<open>
  the transactions that keep a tweak are the complement of the skipped
  ones: when as many indexes are asked for as the bitmap leaves free, the
  derived list is strictly ascending and holds exactly the indexes below the
  transaction count that are not listed as skipped, and the skipped count is the
  length of that list.
\<close>

theorem tweak_indexes_complement_skipped:
  assumes skipped: "skipped_txs_for_tweaks_indexes n bs = Inr sk"
    and derived: "derive_stored_tweak_tx_indexes n bs (unat n - length sk) = Inr free"
  shows "sorted_wrt (<) free \<and> set free = {i. i < n} - set sk
    \<and> skipped_txs_for_tweaks_count n bs = Inr (word_of_nat (length sk))"
proof -
  have valid: "valid_bitmap (unat n) bs"
    using skipped by (auto simp: skipped_txs_for_tweaks_indexes_def result_simps validate_iff)
  let ?free = "filter (\<lambda>k. \<not> lsb_bit bs k) [0..<unat n]"
  have sk: "sk = map word_of_nat (skipped_list (unat n) bs)"
    using skipped by (simp add: skipped_indexes_eq [OF valid])
  then have "unat n - length sk = length ?free" using free_plus_skipped [of bs "unat n"] by simp
  then have free: "free = map word_of_nat ?free"
    using derived by (simp add: derive_indexes_eq [OF valid] Let_def)
  have below: "\<forall>k \<in> set ?free. k < 65536" using unat_bounds(2) [of n] by auto
  have imgs: "(word_of_nat ` {k. k < unat n \<and> P k} :: u16 set) = {i. i < n \<and> P (unat i)}" for P
    using u16_nat_image [of "{k. k < unat n \<and> P k}" n] by (auto simp: word_less_nat_alt)
  have "set free = {i. i < n \<and> \<not> lsb_bit bs (unat i)}"
    using imgs [of "\<lambda>k. \<not> lsb_bit bs k"] by (simp add: free atLeast0LessThan lessThan_def conj_commute)
  moreover have "set sk = {i. i < n \<and> lsb_bit bs (unat i)}"
    using imgs [of "lsb_bit bs"] by (simp add: sk set_skipped_list skipped_set_def)
  moreover have "sorted_wrt (<) free"
    unfolding free by (rule sorted_u16_of_nats [OF sorted_upt_filter below])
  moreover have "skipped_txs_for_tweaks_count n bs = Inr (word_of_nat (length sk))"
    using sk by (simp add: skipped_count_eq [OF valid])
  ultimately show ?thesis by auto
qed

theorem tweak_indexes_complement_skipped_witness:
  "\<exists>bs free. derive_stored_tweak_tx_indexes 3 bs 3 = Inr free
    \<and> sorted_wrt (<) free \<and> set free = {i. i < 3}"
proof -
  obtain bs where bs: "valid_bitmap (unat (3 :: u16)) bs" "skipped_set (unat (3 :: u16)) bs = {}"
    using empty_bitmap [of 3] by blast
  then have none: "skipped_list (unat (3 :: u16)) bs = []"
    using set_skipped_list [of "unat (3 :: u16)" bs] by simp
  then have "skipped_txs_for_tweaks_indexes 3 bs = Inr []"
    using skipped_indexes_eq [OF bs(1)] by simp
  moreover have "length (filter (\<lambda>k. \<not> lsb_bit bs k) [0..<unat (3 :: u16)]) = 3"
    using free_plus_skipped [of bs "unat (3 :: u16)"] none by simp
  then have "\<exists>free. derive_stored_tweak_tx_indexes 3 bs (unat (3 :: u16) - length ([] :: u16 list)) = Inr free"
    by (simp add: derive_indexes_eq [OF bs(1)] Let_def)
  ultimately obtain free where
    "derive_stored_tweak_tx_indexes 3 bs (unat (3 :: u16) - length ([] :: u16 list)) = Inr free"
    "sorted_wrt (<) free \<and> set free = {i. i < 3} - set []"
    using tweak_indexes_complement_skipped by blast
  then show ?thesis by (intro exI [of _ bs] exI [of _ free]) simp
qed

end
