(* ===== verification/Tagged_Hash.thy ===== *)
theory Tagged_Hash
  imports Complex_Main Bits
begin

text \<open>
  The tagged hash of \<^verbatim>\<open>light-server/src/tagged_hash.rs\<close> and the truncated output
  hashes of \<^verbatim>\<open>light-server/src/index.rs\<close>. SHA-256 is the \<^verbatim>\<open>sha2\<close> crate's: it is
  the parameter \<open>sha256\<close>, a function of the whole message. A hasher
  in progress is the message absorbed so far, since updating twice is
  hashing the concatenation. The one property used of it is
  \<open>sha256_ok\<close>: digests are 32 bytes.
\<close>

type_synonym sha256_fun = "bytes \<Rightarrow> bytes"

definition sha256_ok :: "sha256_fun \<Rightarrow> bool" where
  "sha256_ok sha256 \<longleftrightarrow> (\<forall>m. length (sha256 m) = 32)"

record TaggedSha256 =
  th_base :: bytes

definition BIP352_INPUTS_TAG_HASH :: bytes where
  "BIP352_INPUTS_TAG_HASH =
    [0x1e, 0x7b, 0x96, 0xeb, 0x16, 0x0a, 0x68, 0x81, 0x9f, 0x97, 0x76, 0x4b, 0x43, 0xd5, 0xd7, 0x7e,
     0x66, 0x59, 0xd7, 0x58, 0x77, 0x9d, 0x43, 0xa8, 0xa7, 0x75, 0x5f, 0x5b, 0xe4, 0x5a, 0x7e, 0x33]"

definition TAPROOT_NUMS_H_XONLY :: bytes where
  "TAPROOT_NUMS_H_XONLY =
    [0x50, 0x92, 0x9b, 0x74, 0xc1, 0xa0, 0x49, 0x54, 0xb7, 0x8b, 0x4b, 0x60, 0x35, 0xe9, 0x7a, 0x5e,
     0x07, 0x8a, 0x5a, 0x0f, 0x28, 0xec, 0x96, 0xd5, 0x47, 0xbf, 0xee, 0x9a, 0xce, 0x80, 0x3a, 0xc0]"

definition TRUNCATED_OUTPUT_HASH_TAG_HASH :: bytes where
  "TRUNCATED_OUTPUT_HASH_TAG_HASH =
    [0x0a, 0xe7, 0x69, 0xd7, 0x41, 0xe9, 0xb4, 0xdf, 0xfe, 0x7e, 0x0a, 0x6b, 0x9e, 0xa0, 0x08, 0x10,
     0xcf, 0x50, 0x56, 0x74, 0xeb, 0x7b, 0xe1, 0x70, 0x1f, 0xc2, 0x5e, 0xa9, 0xfc, 0x29, 0x8c, 0xd9]"

definition from_tag_hash :: "bytes \<Rightarrow> TaggedSha256" where
  "from_tag_hash tag_hash = \<lparr>th_base = tag_hash @ tag_hash\<rparr>"

definition digest_32 :: "sha256_fun \<Rightarrow> TaggedSha256 \<Rightarrow> bytes \<Rightarrow> bytes" where
  "digest_32 sha256 t data = sha256 (th_base t @ data)"

section \<open>Truncated output hashes\<close>

definition truncated_output_hash_hasher :: TaggedSha256 where
  "truncated_output_hash_hasher = from_tag_hash TRUNCATED_OUTPUT_HASH_TAG_HASH"

text \<open>\<open>RESPONSE_LABEL_BUDGET_TWO\<close> and \<open>RESPONSE_LABEL_BUDGET_HUNDRED\<close> are the two served budgets.\<close>

definition RESPONSE_LABEL_BUDGET_TWO :: u16 where
  "RESPONSE_LABEL_BUDGET_TWO = 2"

definition RESPONSE_LABEL_BUDGET_HUNDRED :: u16 where
  "RESPONSE_LABEL_BUDGET_HUNDRED = 100"

definition response_label_budget :: "u16 option \<Rightarrow> u16" where
  "response_label_budget labels =
     (case labels of
        Some l \<Rightarrow> if l \<le> RESPONSE_LABEL_BUDGET_TWO then RESPONSE_LABEL_BUDGET_TWO
                  else RESPONSE_LABEL_BUDGET_HUNDRED
      | None \<Rightarrow> RESPONSE_LABEL_BUDGET_HUNDRED)"

text \<open>
  \<open>choose_truncated_output_hash_bits\<close> evaluates
  \<open>(4.0 * raw_block_bytes * label_budget.max(1)).log2().ceil()\<close> in double
  precision. The product is below \<open>2^50\<close>, so it is an exact double, and
  \<open>ceil_log2\<close> is the exact value of the rounded-up logarithm.
  The theorem \<open>hash_bits_from_approximate_log\<close> below shows that the served label
  budgets leave a gap of \<open>2^-39\<close> around the integers, so that any logarithm that is
  accurate to that gap (and exact at powers of two) gives the same result.
\<close>

definition ceil_log2 :: "nat \<Rightarrow> nat" where
  "ceil_log2 v = bit_len (v - 1)"

definition choose_truncated_output_hash_bits :: "usize \<Rightarrow> u32 \<Rightarrow> u16 \<Rightarrow> u8" where
  "choose_truncated_output_hash_bits output_count raw_block_bytes label_budget =
     (if output_count = 0 \<or> raw_block_bytes = 0 then 0
      else word_of_nat (min 255 (max 1
             (ceil_log2 (4 * unat raw_block_bytes * unat (max label_budget 1))))))"

definition packed_truncated_output_hash_len :: "usize \<Rightarrow> u8 \<Rightarrow> usize result" where
  "packed_truncated_output_hash_len output_count bits =
     (if output_count = 0 \<or> bits = 0 then Inr 0
      else and_then (ok_or (usize_checked_mul output_count (unat bits))
               ''truncated output hash bit length overflow'')
             (\<lambda>total_bits. Inr ((total_bits + 7) div 8)))"

text \<open>One iteration of the inner loop of \<open>pack_truncated_output_hash_from_keys\<close>, and the loops.\<close>

definition pack_bit :: "bytes \<Rightarrow> nat \<Rightarrow> bytes \<times> usize \<Rightarrow> bytes \<times> usize" where
  "pack_bit digest b st =
     (let (out, out_bit) = st;
          src = drop_bit (7 - b mod 8) (digest ! (b div 8)) AND 1
      in (if src \<noteq> 0
          then let byte = out_bit div 8; shift = 7 - out_bit mod 8
               in out[byte := out ! byte OR push_bit shift 1]
          else out,
          out_bit + 1))"

definition pack_key :: "sha256_fun \<Rightarrow> u8 \<Rightarrow> bytes \<Rightarrow> bytes \<times> usize \<Rightarrow> bytes \<times> usize" where
  "pack_key sha256 bits key st =
     (let digest = digest_32 sha256 truncated_output_hash_hasher key
      in fold (pack_bit digest) [0..<unat bits] st)"

definition pack_truncated_output_hash_from_keys ::
    "sha256_fun \<Rightarrow> bytes list \<Rightarrow> u8 \<Rightarrow> bytes result" where
  "pack_truncated_output_hash_from_keys sha256 keys bits =
     (if bits = 0 then Inr []
      else and_then (packed_truncated_output_hash_len (length keys) bits) (\<lambda>n.
        Inr (fst (fold (pack_key sha256 bits) keys (replicate n 0, 0)))))"

section \<open>What the packed stream holds\<close>

text \<open>The first \<open>bits\<close> bits of the tagged hash of a key.\<close>

definition truncated_hash :: "sha256_fun \<Rightarrow> u8 \<Rightarrow> bytes \<Rightarrow> bool list" where
  "truncated_hash sha256 bits key =
     take (unat bits) (msb_bits (digest_32 sha256 truncated_output_hash_hasher key))"

lemma fold_pack_bit:
  assumes "length digest = 32" and "j + n \<le> 256"
    and "msb_bits out = pre @ replicate m False" and "n \<le> m"
  shows "\<exists>out'. fold (pack_bit digest) [j..<j + n] (out, length pre) = (out', length pre + n)
    \<and> msb_bits out' = pre @ take n (drop j (msb_bits digest)) @ replicate (m - n) False"
  using assms(2-)
proof (induction n arbitrary: j out pre m)
  case (Suc n)
  obtain m' where m: "m = Suc m'" using Suc.prems(3) by (cases m) auto
  let ?b = "msb_bits digest ! j"
  have j: "j < 8 * length digest" using assms(1) Suc.prems(1) by simp
  have room: "length pre < 8 * length out"
    using arg_cong [OF Suc.prems(2), of length] m by simp
  have src: "drop_bit (7 - j mod 8) (digest ! (j div 8)) AND 1 \<noteq> 0 \<longleftrightarrow> ?b"
    using j by (simp add: bit_test_ne nth_msb_bits)
  define out1 where "out1 = (if ?b then set_msb_bit out (length pre) else out)"
  have step: "pack_bit digest j (out, length pre) = (out1, length (pre @ [?b]))"
    using src by (simp add: pack_bit_def out1_def set_msb_bit_def Let_def)
  have "msb_bits out1 = (pre @ [?b]) @ replicate m' False"
    using Suc.prems(2) m msb_bits_set [OF room] by (auto simp: out1_def list_update_append)
  from Suc.IH [OF _ this, of "Suc j"] Suc.prems m obtain out' where
    "fold (pack_bit digest) [Suc j..<Suc j + n] (out1, length (pre @ [?b])) = (out', length (pre @ [?b]) + n)"
    "msb_bits out' = (pre @ [?b]) @ take n (drop (Suc j) (msb_bits digest)) @ replicate (m' - n) False"
    by auto
  moreover have "[j..<j + Suc n] = j # [Suc j..<Suc j + n]" by (simp add: upt_conv_Cons)
  moreover have "drop j (msb_bits digest) = ?b # drop (Suc j) (msb_bits digest)"
    using j by (simp add: Cons_nth_drop_Suc)
  ultimately show ?case using step m by simp
qed simp

lemma fold_pack_key:
  assumes "sha256_ok sha256"
    and "msb_bits out = pre @ replicate m False" and "length keys * unat bits \<le> m"
  shows "\<exists>out'. fold (pack_key sha256 bits) keys (out, length pre)
      = (out', length pre + length keys * unat bits)
    \<and> msb_bits out' = pre @ concat (map (truncated_hash sha256 bits) keys)
        @ replicate (m - length keys * unat bits) False"
  using assms(2-)
proof (induction keys arbitrary: out pre m)
  case (Cons key keys)
  let ?d = "digest_32 sha256 truncated_output_hash_hasher key"
  have d: "length ?d = 32" using assms(1) by (simp add: sha256_ok_def digest_32_def)
  have b: "0 + unat bits \<le> 256" using unat_bounds(1) [of bits] by simp
  have fits: "unat bits \<le> m" using Cons.prems(2) by simp
  from fold_pack_bit [OF d b Cons.prems(1) fits] obtain out1 where
    out1: "pack_key sha256 bits key (out, length pre) = (out1, length pre + unat bits)"
    "msb_bits out1 = (pre @ truncated_hash sha256 bits key) @ replicate (m - unat bits) False"
    by (auto simp: pack_key_def truncated_hash_def)
  have "length (truncated_hash sha256 bits key) = unat bits"
    using d unat_bounds(1) [of bits] by (simp add: truncated_hash_def)
  with Cons.IH [OF out1(2)] Cons.prems(2) out1(1) show ?case
    by (auto simp: add.assoc)
qed simp

lemma packed_len_eq:
  "output_count * unat bits \<le> usize_max \<Longrightarrow>
     packed_truncated_output_hash_len output_count bits = Inr ((output_count * unat bits + 7) div 8)"
  by (auto simp: packed_truncated_output_hash_len_def usize_checked_mul_def)

lemma packed_len_Inr:
  "packed_truncated_output_hash_len n bits = Inr k \<longleftrightarrow>
     n * unat bits \<le> usize_max \<and> k = (n * unat bits + 7) div 8"
  by (auto simp: packed_truncated_output_hash_len_def result_simps unat_eq_zero)

lemma pack_keys_bits:
  assumes "sha256_ok sha256" and "length keys * unat bits \<le> usize_max"
  shows "\<exists>out k. pack_truncated_output_hash_from_keys sha256 keys bits = Inr out
    \<and> length out = (length keys * unat bits + 7) div 8
    \<and> msb_bits out = concat (map (truncated_hash sha256 bits) keys) @ replicate k False \<and> k < 8"
proof (cases "bits = 0")
  case True
  then show ?thesis
    by (simp add: pack_truncated_output_hash_from_keys_def msb_bits_def truncated_hash_def)
next
  case False
  let ?t = "length keys * unat bits" and ?n = "(length keys * unat bits + 7) div 8"
  have zero: "msb_bits (replicate ?n 0) = [] @ replicate (8 * ?n) False"
    by (rule nth_equalityI) (auto simp: nth_msb_bits)
  have "?t \<le> 8 * ?n" by simp
  from fold_pack_key [OF assms(1) zero this] obtain out where
    "fold (pack_key sha256 bits) keys (replicate ?n 0, 0) = (out, ?t)"
    "msb_bits out = concat (map (truncated_hash sha256 bits) keys) @ replicate (8 * ?n - ?t) False"
    by auto
  moreover have "length out = ?n"
  proof -
    have "length (msb_bits out) = ?t + (8 * ?n - ?t)"
      unfolding calculation(2)
      using assms(1) unat_bounds(1) [of bits]
      by (simp add: length_concat truncated_hash_def sha256_ok_def digest_32_def comp_def
          sum_list_triv)
    then show ?thesis by simp
  qed
  moreover have "8 * ?n - ?t < 8" by simp
  ultimately show ?thesis
    using False packed_len_eq [OF assms(2)]
    by (auto simp: pack_truncated_output_hash_from_keys_def)
qed

section \<open>The width of a truncated hash\<close>

lemma ceil_log2_le_iff: "0 < v \<Longrightarrow> ceil_log2 v \<le> k \<longleftrightarrow> v \<le> 2 ^ k"
proof -
  assume v: "0 < v"
  have "v - 1 < 2 ^ k" if "bit_len (v - 1) \<le> k"
    using bit_len_upper [of "v - 1"] power_increasing [OF that, of "2::nat"]
    by (meson less_le_trans one_le_numeral)
  with bit_len_le [of "v - 1" k] v show ?thesis by (auto simp: ceil_log2_def)
qed

lemma ceil_log2_bounds:
  assumes "1 < v"
  shows "v \<le> 2 ^ ceil_log2 v" and "2 ^ (ceil_log2 v - 1) < v" and "0 < ceil_log2 v"
proof -
  show "v \<le> 2 ^ ceil_log2 v" using ceil_log2_le_iff [of v "ceil_log2 v"] assms by simp
  show pos: "0 < ceil_log2 v" using ceil_log2_le_iff [of v 0] assms by auto
  then have "\<not> ceil_log2 v \<le> ceil_log2 v - 1" by simp
  then show "2 ^ (ceil_log2 v - 1) < v"
    using ceil_log2_le_iff [of v "ceil_log2 v - 1"] assms by simp
qed

lemma label_budget_cases: "response_label_budget labels = 2 \<or> response_label_budget labels = 100"
  by (auto simp: response_label_budget_def RESPONSE_LABEL_BUDGET_TWO_def
      RESPONSE_LABEL_BUDGET_HUNDRED_def split: option.splits)

lemma budget_max_one: "unat (max (response_label_budget labels) 1)
    = (if response_label_budget labels = 2 then 2 else 100)"
  using label_budget_cases [of labels] by (auto simp: max_def word_le_nat_alt)

lemma raw_nonzero_bounds: "(raw :: u32) \<noteq> 0 \<Longrightarrow> 1 \<le> unat raw \<and> unat raw < 2 ^ 32"
  using unat_bounds(3) [of raw] by (simp add: Suc_le_eq unat_gt_0)

lemma unat_choose_bits:
  assumes "n \<noteq> 0" and "raw \<noteq> 0"
    and v_def: "v = 4 * unat raw * unat (max (response_label_budget labels) 1)"
  shows "unat (choose_truncated_output_hash_bits n raw (response_label_budget labels)) = ceil_log2 v"
    and "8 dvd v" and "8 \<le> v" and "v < 2 ^ 41"
    and "response_label_budget labels = 100 \<Longrightarrow> 9 \<le> ceil_log2 v" and "ceil_log2 v \<le> 41"
proof -
  note r = raw_nonzero_bounds [OF assms(2)]
  have v: "v = unat raw * 8 \<or> v = unat raw * 400"
    unfolding v_def budget_max_one by auto
  then show "8 dvd v" by auto
  show v8: "8 \<le> v" using v r by auto
  show v41: "v < 2 ^ 41" using v r by auto
  then show c41: "ceil_log2 v \<le> 41" using ceil_log2_le_iff [of v 41] v8 by simp
  have "0 < ceil_log2 v" using ceil_log2_bounds(3) [of v] v8 by simp
  then have "min 255 (max 1 (ceil_log2 v)) = ceil_log2 v" using c41 by simp
  then show "unat (choose_truncated_output_hash_bits n raw (response_label_budget labels)) = ceil_log2 v"
    using assms c41
    by (simp add: choose_truncated_output_hash_bits_def unat_word_of_nat_small v_def)
  show "9 \<le> ceil_log2 v" if "response_label_budget labels = 100"
  proof -
    have "v = unat raw * 400" using that unfolding v_def budget_max_one by simp
    then have "\<not> ceil_log2 v \<le> 8" using ceil_log2_le_iff [of v 8] r by simp
    then show ?thesis by simp
  qed
qed

lemma log2_diff_lower:
  fixes a b :: real
  assumes "0 < a" and "a < b"
  shows "(b - a) / b \<le> log 2 b - log 2 a"
proof -
  have "ln (a / b) \<le> a / b - 1" using assms by (intro ln_le_minus_one) simp
  then have "(b - a) / b \<le> ln b - ln a"
    using assms by (simp add: ln_div diff_divide_distrib)
  also have "\<dots> \<le> (ln b - ln a) / ln 2"
  proof -
    have "0 \<le> ln b - ln a" using assms by simp
    moreover have "0 < ln (2::real)" "ln (2::real) \<le> 1" using ln_2_less_1 by simp_all
    ultimately show ?thesis by (simp add: le_divide_eq mult_left_le)
  qed
  also have "\<dots> = log 2 b - log 2 a" by (simp add: log_def diff_divide_distrib)
  finally show ?thesis .
qed

lemma eight_apart:
  fixes a b :: nat
  assumes "8 dvd a" and "8 dvd b" and "a < b" and "b < 2 ^ 42"
    and "0 < a"
  shows "1 / 2 ^ 39 < log 2 b - log 2 a"
proof -
  have "a + 8 \<le> b" using assms(1-3) by (auto elim!: dvdE)
  then have "8 / real b \<le> (real b - real a) / real b" by (intro divide_right_mono) linarith+
  moreover have "1 / 2 ^ 39 < 8 / real b"
  proof -
    have "real b < 2 ^ 42" using assms(4) by (metis of_nat_less_iff of_nat_numeral of_nat_power)
    moreover have "0 < real b" using assms(3) by simp
    ultimately show ?thesis by (simp add: field_simps)
  qed
  moreover have "(real b - real a) / real b \<le> log 2 b - log 2 a"
    using assms(3,5) by (intro log2_diff_lower) simp_all
  ultimately show ?thesis by linarith
qed

text \<open>
  the modelled width of the truncated hashes does not depend on the rounding
  of the floating-point logarithm: for a non-empty block of non-zero size and
  either served label budget, any value that is within \<open>2^-39\<close> of the
  binary logarithm of \<open>4 * raw_block_bytes * label_budget\<close>, and exact when
  that product is a power of two, rounds up to the chosen number of bits.
\<close>

theorem hash_bits_from_approximate_log:
  fixes raw :: u32 and x :: real
  assumes "n \<noteq> 0" and "raw \<noteq> 0"
    and v: "v = 4 * unat raw * unat (response_label_budget labels)"
    and close: "\<bar>x - log 2 (real v)\<bar> \<le> 1 / 2 ^ 39"
    and exact: "\<And>k. v = 2 ^ k \<Longrightarrow> x = real k"
  shows "\<lceil>x\<rceil> = int (unat (choose_truncated_output_hash_bits n raw (response_label_budget labels)))"
proof -
  have "max (response_label_budget labels) 1 = response_label_budget labels"
    using label_budget_cases [of labels] by (auto simp: max_def word_le_nat_alt)
  with v have "v = 4 * unat raw * unat (max (response_label_budget labels) 1)" by simp
  note b = unat_choose_bits [OF assms(1,2) this]
  define c where "c = ceil_log2 v"
  have cb: "v \<le> 2 ^ c" "2 ^ (c - 1) < v" "0 < c"
    using ceil_log2_bounds [of v] b(3) by (simp_all add: c_def)
  have "\<lceil>x\<rceil> = int c"
  proof (cases "v = 2 ^ c")
    case True
    then show ?thesis using exact by simp
  next
    case False
    with cb(1) have lt: "v < 2 ^ c" by simp
    have c4: "4 \<le> c"
    proof (rule ccontr)
      assume "\<not> 4 \<le> c"
      then have "(2::nat) ^ c \<le> 2 ^ 3" by (intro power_increasing) auto
      with lt b(3) show False by simp
    qed
    have d: "8 dvd (2::nat) ^ c" "8 dvd (2::nat) ^ (c - 1)"
      using c4 le_imp_power_dvd [of 3 c "2::nat"] le_imp_power_dvd [of 3 "c - 1" "2::nat"] by auto
    have hi: "(2::nat) ^ c < 2 ^ 42" using b(6) c_def by (intro power_strict_increasing) auto
    have v0: "0 < v" using b(3) by simp
    have pow: "log 2 (real (2 ^ k)) = real k" for k by (simp add: log_nat_power)
    have up: "1 / 2 ^ 39 < real c - log 2 (real v)"
      using eight_apart [OF b(2) d(1) lt hi v0] unfolding pow .
    have v42: "v < 2 ^ 42" using b(4) by simp
    have low: "1 / 2 ^ 39 < log 2 (real v) - real (c - 1)"
      using eight_apart [OF d(2) b(2) cb(2) v42] unfolding pow by simp
    from close up low have "x < real c" "real (c - 1) < x" by linarith+
    then show ?thesis using cb(3) by (intro ceiling_unique) (auto simp: of_nat_diff)
  qed
  with b(1) show ?thesis by (simp add: c_def)
qed

theorem hash_bits_from_approximate_log_witness:
  "\<lceil>log 2 (real (4 * unat (1 :: u32) * unat (response_label_budget None)))\<rceil>
     = int (unat (choose_truncated_output_hash_bits 1 1 (response_label_budget None)))"
proof (rule hash_bits_from_approximate_log)
  fix k assume "4 * unat (1 :: u32) * unat (response_label_budget None) = 2 ^ k"
  then show "log 2 (real (4 * unat (1 :: u32) * unat (response_label_budget None))) = real k"
    by (simp only:) (simp add: log_nat_power)
qed simp_all

text \<open>
  the packed hash stream is the concatenation of the first \<open>bits\<close> bits of the
  tagged hash of every key, in order and most significant bit first, followed by
  fewer than eight zero bits; no other error than the overflow of the bit count
  is possible.
\<close>

theorem packed_hash_stream:
  assumes "sha256_ok sha256" and "length keys * unat bits \<le> usize_max"
  shows "\<exists>out k. pack_truncated_output_hash_from_keys sha256 keys bits = Inr out
    \<and> length out = (length keys * unat bits + 7) div 8
    \<and> msb_bits out = concat (map (truncated_hash sha256 bits) keys) @ replicate k False \<and> k < 8"
  using assms by (rule pack_keys_bits)

theorem packed_hash_stream_witness:
  "\<exists>out. pack_truncated_output_hash_from_keys (\<lambda>_. replicate 32 255) [replicate 32 1] 12 = Inr out
    \<and> length out = 2"
  using packed_hash_stream [of "\<lambda>_. replicate 32 255" "[replicate 32 1]" 12]
  by (auto simp: sha256_ok_def usize_max_def)

end
