(* ===== verification/Helper.thy ===== *)
theory Helper
  imports Prelude
begin

text \<open>
  The binary decoding helpers of \<^verbatim>\<open>light-server/src/helper.rs\<close>: each checks the
  length of a slice and converts it. \<open>label\<close> is the name the caller gives the
  field in its error message.
\<close>

definition invalid_length :: "string \<Rightarrow> error" where
  "invalid_length label = Error (''invalid '' @ label @ '' length'')"

definition read_32 :: "bytes \<Rightarrow> string \<Rightarrow> bytes result" where
  "read_32 bs label = (if length bs = 32 then Inr bs else Inl (invalid_length label))"

definition read_u16_le :: "bytes \<Rightarrow> string \<Rightarrow> u16 result" where
  "read_u16_le bs label =
     (if length bs = 2 then Inr (from_le_bytes bs) else Inl (invalid_length label))"

definition read_u32_le :: "bytes \<Rightarrow> string \<Rightarrow> u32 result" where
  "read_u32_le bs label =
     (if length bs = 4 then Inr (from_le_bytes bs) else Inl (invalid_length label))"

definition read_u32_be :: "bytes \<Rightarrow> string \<Rightarrow> u32 result" where
  "read_u32_be bs label =
     (if length bs = 4 then Inr (from_be_bytes bs) else Inl (invalid_length label))"

definition read_u64_be :: "bytes \<Rightarrow> string \<Rightarrow> u64 result" where
  "read_u64_be bs label =
     (if length bs = 8 then Inr (from_be_bytes bs) else Inl (invalid_length label))"

text \<open>\<open>read_u16_list\<close> copies a Cap'n Proto list element by element, by its index.\<close>

definition read_u16_list :: "u16 list \<Rightarrow> u16 list" where
  "read_u16_list xs = map (\<lambda>i. xs ! i) [0..<length xs]"

section \<open>Facts\<close>

lemma read_32_eq_Inr [result_simps]: "read_32 bs l = Inr x \<longleftrightarrow> length bs = 32 \<and> x = bs"
  by (auto simp: read_32_def)

lemma read_u16_le_roundtrip [simp]: "read_u16_le (to_le_bytes w) l = Inr w"
  by (simp add: read_u16_le_def from_to_le_bytes)

lemma read_u32_le_roundtrip [simp]: "read_u32_le (to_le_bytes w) l = Inr w"
  by (simp add: read_u32_le_def from_to_le_bytes)

lemma read_u32_be_roundtrip [simp]: "read_u32_be (to_be_bytes w) l = Inr w"
  by (simp add: read_u32_be_def from_to_be_bytes)

lemma read_u64_be_roundtrip [simp]: "read_u64_be (to_be_bytes w) l = Inr w"
  by (simp add: read_u64_be_def from_to_be_bytes)

lemma read_u32_le_eq_Inr: "read_u32_le bs l = Inr w \<longleftrightarrow> bs = to_le_bytes w"
  by (auto simp: read_u32_le_def byte_order_simps)

lemma read_u16_le_eq_Inr: "read_u16_le bs l = Inr w \<longleftrightarrow> bs = to_le_bytes w"
  by (auto simp: read_u16_le_def byte_order_simps)

lemma read_u64_be_eq_Inr: "read_u64_be bs l = Inr w \<longleftrightarrow> bs = to_be_bytes w"
  by (auto simp: read_u64_be_def byte_order_simps)

lemma read_u32_be_eq_Inr: "read_u32_be bs l = Inr w \<longleftrightarrow> bs = to_be_bytes w"
  by (auto simp: read_u32_be_def byte_order_simps)

lemma read_u16_list_id [simp]: "read_u16_list xs = xs"
  by (simp add: read_u16_list_def map_nth)

end
