(* ===== verification/Light_Block.thy ===== *)
theory Light_Block
  imports Spent_Ids Skip_Bitmap Tagged_Hash Helper
begin

text \<open>
  The light block of \<^verbatim>\<open>light-server/src/index.rs\<close>: the stored block with its
  outputs and spends, the compact response derived from it (whole, or filtered
  for cut-through and key reuse), and the validation of both. Fixed-size
  byte arrays are byte lists whose length the predicates \<open>wf_tweak\<close> and
  \<open>wf_stored\<close> state.
\<close>

section \<open>Data\<close>

record TweakEntryInput =
  te_output_count :: u16
  te_tweak :: bytes

datatype SpentIdCodec = EliasDeltaAscendingAbsolute

record LightBlockInput =
  lb_height :: u64
  lb_block_hash :: bytes
  lb_previous_block_hash :: bytes
  lb_first_uid :: u64
  lb_tx_count :: u16
  lb_skipped_txs_for_tweaks :: bytes
  lb_tweaks :: "TweakEntryInput list"
  lb_truncated_output_hash_bits :: u8
  lb_truncated_output_hashes :: bytes
  lb_spent_id_codec :: SpentIdCodec
  lb_spent_count :: u32
  lb_spent_ids :: bytes

record StoredOutputEntryInput =
  so_key :: bytes
  so_spent_height :: u32
  so_flags :: u8

record StoredSpendEntryInput =
  ss_spent_uid :: u64
  ss_creation_height :: u32

record StoredLightBlockInput =
  sb_height :: u64
  sb_block_hash :: bytes
  sb_previous_block_hash :: bytes
  sb_first_uid :: u64
  sb_tx_count :: u16
  sb_skipped_txs_for_tweaks :: bytes
  sb_tweaks :: "TweakEntryInput list"
  sb_skipped_outputs :: "u16 list"
  sb_outputs :: "StoredOutputEntryInput list"
  sb_spends :: "StoredSpendEntryInput list"
  sb_raw_block_bytes :: u32
  sb_truncated_output_hash_for_two_labels :: bytes
  sb_truncated_output_hash_for_hundred_labels :: bytes

record StoredBlockResponseFilter =
  cutthrough_start :: "u64 option"
  cutthrough_tip :: "u64 option"
  filter_reuse :: bool
  labels :: "u16 option"

definition default_filter :: StoredBlockResponseFilter where
  "default_filter =
     \<lparr>cutthrough_start = None, cutthrough_tip = None, filter_reuse = False, labels = None\<rparr>"

definition MAX_U16_SECTION_COUNT :: usize where
  "MAX_U16_SECTION_COUNT = 65535"

definition STORAGE_OUTPUT_FLAG_REUSED :: u8 where
  "STORAGE_OUTPUT_FLAG_REUSED = push_bit 0 1"

definition STORAGE_SPENT_HEIGHT_UNSPENT :: u32 where
  "STORAGE_SPENT_HEIGHT_UNSPENT = - 1"

section \<open>Omission rules\<close>

definition should_omit_stored_output ::
    "u64 \<Rightarrow> StoredOutputEntryInput \<Rightarrow> StoredBlockResponseFilter \<Rightarrow> bool" where
  "should_omit_stored_output block_height output flt =
     (if filter_reuse flt \<and> so_flags output AND STORAGE_OUTPUT_FLAG_REUSED \<noteq> 0 then True
      else case cutthrough_start flt of
        Some start \<Rightarrow>
          let tip = (case cutthrough_tip flt of Some t \<Rightarrow> t | None \<Rightarrow> - 1);
              spent_height = so_spent_height output
          in block_height \<ge> start \<and> spent_height \<noteq> STORAGE_SPENT_HEIGHT_UNSPENT
             \<and> ucast spent_height \<le> tip
      | None \<Rightarrow> False)"

definition should_omit_stored_spend ::
    "u64 \<Rightarrow> StoredSpendEntryInput \<Rightarrow> StoredBlockResponseFilter \<Rightarrow> bool" where
  "should_omit_stored_spend block_height spend flt =
     (case cutthrough_start flt of
        None \<Rightarrow> False
      | Some start \<Rightarrow>
          let tip = (case cutthrough_tip flt of Some t \<Rightarrow> t | None \<Rightarrow> - 1)
          in block_height \<le> tip \<and> ucast (ss_creation_height spend) \<ge> start)"

section \<open>Validation\<close>

definition tx_tweak_payload_bytes :: "bytes \<Rightarrow> bytes" where
  "tx_tweak_payload_bytes tweak = drop 1 tweak"

definition decode_light_block_spent_ids :: "LightBlockInput \<Rightarrow> u64 list result" where
  "decode_light_block_spent_ids input =
     (case lb_spent_id_codec input of
        EliasDeltaAscendingAbsolute \<Rightarrow>
          decode_spent_ids_elias_delta_ascending_absolute (lb_spent_count input) (lb_spent_ids input))"

definition light_block_output_count :: "LightBlockInput \<Rightarrow> usize result" where
  "light_block_output_count input =
     try_fold (\<lambda>entry acc. ok_or (usize_checked_add acc (unat (te_output_count entry)))
         ''tweak output count sum overflow'') (lb_tweaks input) 0"

definition ensure_u16_len :: "string \<Rightarrow> usize \<Rightarrow> unit result" where
  "ensure_u16_len label len =
     ensure (len \<le> MAX_U16_SECTION_COUNT) (label @ '' count exceeds u16 section bound'')"

definition validate_light_block_input :: "LightBlockInput \<Rightarrow> unit result" where
  "validate_light_block_input input =
     and_then (validate_skipped_txs_for_tweaks (lb_tx_count input) (lb_skipped_txs_for_tweaks input))
       (\<lambda>_.
     and_then (skipped_txs_for_tweaks_count (lb_tx_count input) (lb_skipped_txs_for_tweaks input))
       (\<lambda>skipped_tx_count.
     and_then (ensure_u16_len ''tweaks'' (length (lb_tweaks input))) (\<lambda>_.
     and_then (ensure (unat (lb_tx_count input) = unat skipped_tx_count + length (lb_tweaks input))
         ''tx_count must equal skipped tx count plus tweak count'') (\<lambda>_.
     and_then (light_block_output_count input) (\<lambda>declared_outputs.
     and_then (packed_truncated_output_hash_len declared_outputs (lb_truncated_output_hash_bits input))
       (\<lambda>expected_len.
     and_then (ensure (expected_len = length (lb_truncated_output_hashes input))
         ''truncated output hash byte length does not match expected'') (\<lambda>_.
     and_then (if declared_outputs = 0
               then ensure (lb_truncated_output_hash_bits input = 0)
                 ''empty truncated output hash stream must use 0 bits''
               else ensure (lb_truncated_output_hash_bits input > 0)
                 ''non-empty truncated output hash stream must use a positive bit width'') (\<lambda>_.
     and_then (try_fold (\<lambda>entry _.
           ensure (length (tx_tweak_payload_bytes (te_tweak entry)) = 32)
             ''tweak payload must be 32 bytes'') (lb_tweaks input) ()) (\<lambda>_.
     and_then (decode_light_block_spent_ids input) (\<lambda>decoded_spends.
       ensure (length decoded_spends = unat (lb_spent_count input))
         ''spent count does not match decoded spent ID count''))))))))))"

section \<open>Responses\<close>

definition to_response_input_for_labels ::
    "StoredLightBlockInput \<Rightarrow> u16 option \<Rightarrow> LightBlockInput result" where
  "to_response_input_for_labels sb lbls =
     (let label_budget = response_label_budget lbls;
          output_count = length (sb_outputs sb);
          bits = choose_truncated_output_hash_bits output_count (sb_raw_block_bytes sb) label_budget;
          hashes = (if label_budget = RESPONSE_LABEL_BUDGET_TWO
                    then sb_truncated_output_hash_for_two_labels sb
                    else sb_truncated_output_hash_for_hundred_labels sb)
      in and_then (encode_spent_ids_elias_delta_ascending_absolute (map ss_spent_uid (sb_spends sb)))
           (\<lambda>(spent_count, spent_ids).
         let response =
           \<lparr>lb_height = sb_height sb, lb_block_hash = sb_block_hash sb,
            lb_previous_block_hash = sb_previous_block_hash sb, lb_first_uid = sb_first_uid sb,
            lb_tx_count = sb_tx_count sb, lb_skipped_txs_for_tweaks = sb_skipped_txs_for_tweaks sb,
            lb_tweaks = sb_tweaks sb, lb_truncated_output_hash_bits = bits,
            lb_truncated_output_hashes = hashes, lb_spent_id_codec = EliasDeltaAscendingAbsolute,
            lb_spent_count = spent_count, lb_spent_ids = spent_ids\<rparr>
         in and_then (validate_light_block_input response) (\<lambda>_. Inr response)))"

text \<open>\<open>to_response_input\<close> unwraps the default response: an error there is a panic.\<close>

definition to_response_input :: "StoredLightBlockInput \<Rightarrow> LightBlockInput result" where
  "to_response_input sb =
     (case to_response_input_for_labels sb None of
        Inr response \<Rightarrow> Inr response
      | Inl _ \<Rightarrow> Inl (Error
          ''panic: stored block should have valid default response truncated output hash''))"

text \<open>
  The state of the loop of \<open>to_filtered_response_input\<close>: the kept output keys, the
  kept tweak entries, the cursor into the outputs and the skipped bitmap.
\<close>

record filter_state =
  fs_output_keys :: "bytes list"
  fs_tweaks :: "TweakEntryInput list"
  fs_output_cursor :: usize
  fs_skipped :: bytes

text \<open>The inner loop over one tweak's group of outputs.\<close>

fun filter_group :: "u64 \<Rightarrow> StoredBlockResponseFilter \<Rightarrow> StoredOutputEntryInput list
    \<Rightarrow> bytes list \<Rightarrow> u16 \<Rightarrow> (bytes list \<times> u16) result" where
  "filter_group height flt [] keys kept = Inr (keys, kept)"
| "filter_group height flt (output # outputs) keys kept =
     (if should_omit_stored_output height output flt
      then filter_group height flt outputs keys kept
      else and_then (ok_or (checked_add kept 1) ''filtered tweak output count overflow'') (\<lambda>kept'.
             filter_group height flt outputs (keys @ [so_key output]) kept'))"

definition filter_tweak :: "StoredLightBlockInput \<Rightarrow> StoredBlockResponseFilter
    \<Rightarrow> TweakEntryInput \<times> u16 \<Rightarrow> filter_state \<Rightarrow> filter_state result" where
  "filter_tweak sb flt entry st =
     (let (tweak, tx_index) = entry; group_count = unat (te_output_count tweak) in
      and_then (ok_or (usize_checked_add (fs_output_cursor st) group_count)
        ''stored tweak output cursor overflow'') (\<lambda>group_end.
      and_then (ensure (group_end \<le> length (sb_outputs sb))
        ''stored tweak output count exceeds output list'') (\<lambda>_.
      and_then (filter_group (sb_height sb) flt
          (slice (sb_outputs sb) (fs_output_cursor st) group_end) (fs_output_keys st) 0)
        (\<lambda>(keys, kept_count).
      let st' = st\<lparr>fs_output_keys := keys, fs_output_cursor := group_end\<rparr> in
      if kept_count > 0
      then Inr (st'\<lparr>fs_tweaks := fs_tweaks st
             @ [\<lparr>te_output_count = kept_count, te_tweak = te_tweak tweak\<rparr>]\<rparr>)
      else and_then (set_skipped_tx_in_bitmap (sb_tx_count sb) (fs_skipped st) tx_index)
             (\<lambda>bm. Inr (st'\<lparr>fs_skipped := bm\<rparr>))))))"

definition to_filtered_response_input :: "sha256_fun \<Rightarrow> StoredLightBlockInput
    \<Rightarrow> StoredBlockResponseFilter \<Rightarrow> LightBlockInput result" where
  "to_filtered_response_input sha256 sb flt =
     (if \<not> filter_reuse flt \<and> cutthrough_start flt = None
      then to_response_input_for_labels sb (labels flt)
      else
        and_then (derive_stored_tweak_tx_indexes (sb_tx_count sb) (sb_skipped_txs_for_tweaks sb)
            (length (sb_tweaks sb))) (\<lambda>tweak_tx_indexes.
        and_then (try_fold (filter_tweak sb flt) (zip (sb_tweaks sb) tweak_tx_indexes)
            \<lparr>fs_output_keys = [], fs_tweaks = [], fs_output_cursor = 0,
             fs_skipped = sb_skipped_txs_for_tweaks sb\<rparr>) (\<lambda>st.
        and_then (ensure (fs_output_cursor st = length (sb_outputs sb))
            ''stored outputs not fully consumed by tweak output counts'') (\<lambda>_.
        and_then (encode_spent_ids_elias_delta_ascending_absolute
            (map ss_spent_uid (filter (\<lambda>spend. \<not> should_omit_stored_spend (sb_height sb) spend flt)
               (sb_spends sb)))) (\<lambda>(spent_count, spent_ids).
        let label_budget = response_label_budget (labels flt);
            bits = choose_truncated_output_hash_bits (length (fs_output_keys st))
                     (sb_raw_block_bytes sb) label_budget
        in and_then (pack_truncated_output_hash_from_keys sha256 (fs_output_keys st) bits) (\<lambda>hashes.
           let response =
             \<lparr>lb_height = sb_height sb, lb_block_hash = sb_block_hash sb,
              lb_previous_block_hash = sb_previous_block_hash sb, lb_first_uid = sb_first_uid sb,
              lb_tx_count = sb_tx_count sb, lb_skipped_txs_for_tweaks = fs_skipped st,
              lb_tweaks = fs_tweaks st, lb_truncated_output_hash_bits = bits,
              lb_truncated_output_hashes = hashes,
              lb_spent_id_codec = EliasDeltaAscendingAbsolute,
              lb_spent_count = spent_count, lb_spent_ids = spent_ids\<rparr>
           in and_then (validate_light_block_input response) (\<lambda>_. Inr response)))))))"

definition build_stored_truncated_output_hashes ::
    "sha256_fun \<Rightarrow> u32 \<Rightarrow> StoredOutputEntryInput list \<Rightarrow> u16 \<Rightarrow> bytes result" where
  "build_stored_truncated_output_hashes sha256 raw_block_bytes outputs label_budget =
     (let bits = choose_truncated_output_hash_bits (length outputs) raw_block_bytes label_budget
      in pack_truncated_output_hash_from_keys sha256 (map so_key outputs) bits)"

section \<open>Validation of stored blocks\<close>

fun validate_sorted_unique_u16 :: "u16 list \<Rightarrow> string \<Rightarrow> unit result" where
  "validate_sorted_unique_u16 (a # b # vals) label =
     and_then (ensure (a < b) (label @ '' must be sorted and unique''))
       (\<lambda>_. validate_sorted_unique_u16 (b # vals) label)"
| "validate_sorted_unique_u16 vals label = Inr ()"

definition validate_stored_p2tr_uid_domain :: "usize \<Rightarrow> u16 list \<Rightarrow> unit result" where
  "validate_stored_p2tr_uid_domain output_count skipped_outputs =
     and_then (ok_or (usize_checked_add output_count (length skipped_outputs))
         ''stored P2TR output domain count overflow'') (\<lambda>p2tr_output_count.
     and_then (ensure (p2tr_output_count \<le> 65535 + 1)
         ''stored P2TR output count exceeds u16 slot domain'') (\<lambda>_.
     try_fold (\<lambda>slot _. ensure (unat slot < p2tr_output_count)
         ''stored skipped output slot is outside derived P2TR output count'') skipped_outputs ()))"

definition validate_one_stored_hash :: "StoredLightBlockInput \<Rightarrow> string \<times> u16 \<times> bytes \<Rightarrow> unit \<Rightarrow> unit result" where
  "validate_one_stored_hash sb entry _ =
     (let (label, label_budget, hashes) = entry;
          bits = choose_truncated_output_hash_bits (length (sb_outputs sb)) (sb_raw_block_bytes sb)
                   label_budget
      in and_then (packed_truncated_output_hash_len (length (sb_outputs sb)) bits) (\<lambda>expected.
           ensure (length hashes = expected)
             (''stored '' @ label @ '' truncated output hash byte length does not match expected'')))"

definition validate_stored_truncated_output_hashes :: "StoredLightBlockInput \<Rightarrow> unit result" where
  "validate_stored_truncated_output_hashes sb =
     try_fold (validate_one_stored_hash sb)
       [(''two-label'', RESPONSE_LABEL_BUDGET_TWO, sb_truncated_output_hash_for_two_labels sb),
        (''hundred-label'', RESPONSE_LABEL_BUDGET_HUNDRED,
         sb_truncated_output_hash_for_hundred_labels sb)] ()"

definition validate_stored_light_block_input :: "StoredLightBlockInput \<Rightarrow> unit result" where
  "validate_stored_light_block_input sb =
     and_then (ensure (sb_height sb \<le> 4294967295) ''stored block height exceeds u32 range'') (\<lambda>_.
     and_then (validate_skipped_txs_for_tweaks (sb_tx_count sb) (sb_skipped_txs_for_tweaks sb)) (\<lambda>_.
     and_then (skipped_txs_for_tweaks_count (sb_tx_count sb) (sb_skipped_txs_for_tweaks sb))
       (\<lambda>skipped_tx_count.
     and_then (ensure_u16_len ''stored tweaks'' (length (sb_tweaks sb))) (\<lambda>_.
     and_then (ensure (unat (sb_tx_count sb) = unat skipped_tx_count + length (sb_tweaks sb))
         ''stored tx_count must equal skipped tx count plus tweak count'') (\<lambda>_.
     and_then (ensure_u16_len ''stored skipped outputs'' (length (sb_skipped_outputs sb))) (\<lambda>_.
     and_then (ensure_u16_len ''stored outputs'' (length (sb_outputs sb))) (\<lambda>_.
     and_then (validate_sorted_unique_u16 (sb_skipped_outputs sb) ''stored skipped outputs'') (\<lambda>_.
     and_then (validate_stored_p2tr_uid_domain (length (sb_outputs sb)) (sb_skipped_outputs sb)) (\<lambda>_.
     and_then (validate_stored_truncated_output_hashes sb) (\<lambda>_.
     and_then (to_response_input_for_labels sb None) (\<lambda>response.
     and_then (validate_light_block_input response) (\<lambda>_.
     try_fold (\<lambda>spend _.
         and_then (try_from_nat (unat (sb_height sb)) :: u32 result) (\<lambda>height.
           ensure (ss_creation_height spend \<le> height)
             ''stored spend creation height exceeds spend block height''))
       (sb_spends sb) ()))))))))))))"

section \<open>What the validators accept\<close>

definition declared_outputs :: "TweakEntryInput list \<Rightarrow> nat" where
  "declared_outputs tweaks = (\<Sum>t \<leftarrow> tweaks. unat (te_output_count t))"

lemma declared_outputs_simps [simp]:
  "declared_outputs [] = 0"
  "declared_outputs (t # ts) = unat (te_output_count t) + declared_outputs ts"
  "declared_outputs (ts @ us) = declared_outputs ts + declared_outputs us"
  by (simp_all add: declared_outputs_def)

lemma declared_outputs_bound: "declared_outputs ts \<le> 65535 * length ts"
proof (induction ts)
  case (Cons t ts)
  then show ?case using unat_bounds(2) [of "te_output_count t"] by simp
qed simp

lemma output_count_fold:
  "acc + declared_outputs ts \<le> usize_max \<Longrightarrow>
     try_fold (\<lambda>entry acc. ok_or (usize_checked_add acc (unat (te_output_count entry)))
       ''tweak output count sum overflow'') ts acc = Inr (acc + declared_outputs ts)"
  by (induction ts arbitrary: acc) (simp_all add: usize_checked_add_def add.assoc)

lemma light_block_output_count_eq:
  assumes "length (lb_tweaks lb) \<le> 65535"
  shows "light_block_output_count lb = Inr (declared_outputs (lb_tweaks lb))"
proof -
  have "declared_outputs (lb_tweaks lb) \<le> usize_max"
    using declared_outputs_bound [of "lb_tweaks lb"] assms by (simp add: usize_max_def)
  then show ?thesis using output_count_fold [of 0] by (simp add: light_block_output_count_def)
qed

lemma try_fold_ensure:
  "try_fold (\<lambda>x _. ensure (P x) msg) xs u = Inr v \<longleftrightarrow> (\<forall>x \<in> set xs. P x)"
  by (induction xs arbitrary: u) (auto simp: result_simps)

text \<open>The packed hash field of a response that declares \<open>n\<close> outputs.\<close>

definition valid_hash_field :: "nat \<Rightarrow> u8 \<Rightarrow> bytes \<Rightarrow> bool" where
  "valid_hash_field n bits hashes \<longleftrightarrow>
     n * unat bits \<le> usize_max \<and> length hashes = (n * unat bits + 7) div 8 \<and> (n = 0 \<longleftrightarrow> bits = 0)"

definition valid_light_block :: "LightBlockInput \<Rightarrow> bool" where
  "valid_light_block lb \<longleftrightarrow>
     valid_bitmap (unat (lb_tx_count lb)) (lb_skipped_txs_for_tweaks lb)
     \<and> unat (lb_tx_count lb) = card (skipped_set (unat (lb_tx_count lb)) (lb_skipped_txs_for_tweaks lb))
         + length (lb_tweaks lb)
     \<and> valid_hash_field (declared_outputs (lb_tweaks lb)) (lb_truncated_output_hash_bits lb)
         (lb_truncated_output_hashes lb)
     \<and> (\<forall>t \<in> set (lb_tweaks lb). length (te_tweak t) = 33)
     \<and> is_ok (decode_spent_ids_elias_delta_ascending_absolute (lb_spent_count lb) (lb_spent_ids lb))"

lemma validate_light_iff: "validate_light_block_input lb = Inr () \<longleftrightarrow> valid_light_block lb"
proof -
  let ?n = "unat (lb_tx_count lb)" and ?ts = "lb_tweaks lb"
  have payload: "length (tx_tweak_payload_bytes t) = 32 \<longleftrightarrow> length t = 33" for t
    by (auto simp: tx_tweak_payload_bytes_def)
  have codec: "decode_light_block_spent_ids lb
      = decode_spent_ids_elias_delta_ascending_absolute (lb_spent_count lb) (lb_spent_ids lb)"
    by (cases "lb_spent_id_codec lb") (simp add: decode_light_block_spent_ids_def)
  have pos: "(0 < b) = (b \<noteq> (0 :: u8))" for b by (rule word_greater_zero_iff)
  let ?head = "valid_bitmap ?n (lb_skipped_txs_for_tweaks lb)
    \<and> ?n = card (skipped_set ?n (lb_skipped_txs_for_tweaks lb)) + length ?ts"
  show ?thesis
  proof (cases ?head)
    case False
    then have "validate_light_block_input lb \<noteq> Inr ()"
      by (auto simp: validate_light_block_input_def result_simps validate_iff
          skipped_count_Inr_iff length_skipped_list)
    with False show ?thesis by (auto simp: valid_light_block_def)
  next
    case True
    then have len: "length ?ts \<le> 65535" using unat_bounds(2) [of "lb_tx_count lb"] by simp
    have "length (skipped_list ?n (lb_skipped_txs_for_tweaks lb)) < 65536"
      using skipped_list_le [of ?n "lb_skipped_txs_for_tweaks lb"] unat_bounds(2) [of "lb_tx_count lb"]
      by simp
    then have c: "unat (word_of_nat (card (skipped_set ?n (lb_skipped_txs_for_tweaks lb))) :: u16)
        = card (skipped_set ?n (lb_skipped_txs_for_tweaks lb))"
      by (simp add: unat_word_of_nat_small length_skipped_list)
    have head: "validate_light_block_input lb =
      and_then (packed_truncated_output_hash_len (declared_outputs ?ts) (lb_truncated_output_hash_bits lb))
       (\<lambda>expected_len.
     and_then (ensure (expected_len = length (lb_truncated_output_hashes lb))
         ''truncated output hash byte length does not match expected'') (\<lambda>_.
     and_then (if declared_outputs ?ts = 0
               then ensure (lb_truncated_output_hash_bits lb = 0)
                 ''empty truncated output hash stream must use 0 bits''
               else ensure (lb_truncated_output_hash_bits lb > 0)
                 ''non-empty truncated output hash stream must use a positive bit width'') (\<lambda>_.
     and_then (try_fold (\<lambda>entry _.
           ensure (length (tx_tweak_payload_bytes (te_tweak entry)) = 32)
             ''tweak payload must be 32 bytes'') ?ts ()) (\<lambda>_.
     and_then (decode_light_block_spent_ids lb) (\<lambda>decoded_spends.
       ensure (length decoded_spends = unat (lb_spent_count lb))
         ''spent count does not match decoded spent ID count'')))))"
      using True len c
      by (simp add: validate_light_block_input_def validate_ok skipped_count_eq length_skipped_list
          ensure_u16_len_def MAX_U16_SECTION_COUNT_def light_block_output_count_eq)
    have dec: "(\<exists>ids. decode_light_block_spent_ids lb = Inr ids \<and> length ids = unat (lb_spent_count lb))
        \<longleftrightarrow> is_ok (decode_spent_ids_elias_delta_ascending_absolute (lb_spent_count lb) (lb_spent_ids lb))"
      using decode_spent_ids_sorted by (auto simp: codec is_ok_iff)
    show ?thesis
      unfolding head valid_light_block_def valid_hash_field_def
      using True
      by (simp only: and_then_eq_Inr packed_len_Inr ensure_eq_Inr try_fold_ensure payload dec)
        (auto simp: pos split: if_splits)
  qed
qed

lemma validate_light_cases:
  "is_ok (validate_light_block_input lb) \<longleftrightarrow> valid_light_block lb"
  by (simp add: is_ok_iff flip: validate_light_iff)

end
