(* ===== verification/Stored_Response.thy ===== *)
theory Stored_Response
  imports Light_Block
begin

text \<open>
  What the validators of \<^verbatim>\<open>light-server/src/index.rs\<close> accept and what the two
  response builders then return: a block that passes
  \<open>validate_stored_light_block_input\<close> is served for every label budget, and its
  filtered response is the block less the omitted outputs and spends.
\<close>

section \<open>Valid stored blocks\<close>

abbreviation stored_bits :: "StoredLightBlockInput \<Rightarrow> u16 \<Rightarrow> u8" where
  "stored_bits sb budget \<equiv>
     choose_truncated_output_hash_bits (length (sb_outputs sb)) (sb_raw_block_bytes sb) budget"

definition stored_hash_len :: "StoredLightBlockInput \<Rightarrow> u16 \<Rightarrow> nat" where
  "stored_hash_len sb budget = (length (sb_outputs sb) * unat (stored_bits sb budget) + 7) div 8"

text \<open>
  The tweak entries of a block of non-zero size account for every output; a
  block recorded with size 0 serves no output hash at all.
\<close>

definition outputs_accounted :: "StoredLightBlockInput \<Rightarrow> bool" where
  "outputs_accounted sb \<longleftrightarrow>
     declared_outputs (sb_tweaks sb) = (if sb_raw_block_bytes sb = 0 then 0 else length (sb_outputs sb))"

definition tweaks_fit :: "StoredLightBlockInput \<Rightarrow> bool" where
  "tweaks_fit sb \<longleftrightarrow>
     valid_bitmap (unat (sb_tx_count sb)) (sb_skipped_txs_for_tweaks sb)
     \<and> unat (sb_tx_count sb)
         = card (skipped_set (unat (sb_tx_count sb)) (sb_skipped_txs_for_tweaks sb)) + length (sb_tweaks sb)
     \<and> (\<forall>t \<in> set (sb_tweaks sb). length (te_tweak t) = 33)"

definition slots_fit :: "StoredLightBlockInput \<Rightarrow> bool" where
  "slots_fit sb \<longleftrightarrow>
     length (sb_outputs sb) \<le> 65535 \<and> length (sb_skipped_outputs sb) \<le> 65535
     \<and> length (sb_outputs sb) + length (sb_skipped_outputs sb) \<le> 65536
     \<and> sorted_wrt (<) (sb_skipped_outputs sb)
     \<and> (\<forall>slot \<in> set (sb_skipped_outputs sb).
          unat slot < length (sb_outputs sb) + length (sb_skipped_outputs sb))"

definition valid_stored :: "StoredLightBlockInput \<Rightarrow> bool" where
  "valid_stored sb \<longleftrightarrow>
     unat (sb_height sb) < 2 ^ 32 \<and> tweaks_fit sb \<and> slots_fit sb \<and> outputs_accounted sb
     \<and> length (sb_truncated_output_hash_for_two_labels sb) = stored_hash_len sb 2
     \<and> length (sb_truncated_output_hash_for_hundred_labels sb) = stored_hash_len sb 100
     \<and> encodable_ids (map ss_spent_uid (sb_spends sb))
     \<and> (\<forall>spend \<in> set (sb_spends sb). unat (ss_creation_height spend) \<le> unat (sb_height sb))"

lemma sorted_unique_iff:
  "validate_sorted_unique_u16 vals label = Inr () \<longleftrightarrow> sorted_wrt (<) vals"
  by (induction vals label rule: validate_sorted_unique_u16.induct)
    (auto simp: result_simps intro: less_trans)

lemma uid_domain_iff:
  "n \<le> 65535 \<Longrightarrow> length slots \<le> 65535 \<Longrightarrow>
     validate_stored_p2tr_uid_domain n slots = Inr () \<longleftrightarrow>
       n + length slots \<le> 65536 \<and> (\<forall>slot \<in> set slots. unat slot < n + length slots)"
  by (simp add: validate_stored_p2tr_uid_domain_def and_then_eq_Inr try_fold_ensure
      usize_checked_add_def usize_max_def)

lemma stored_hash_fits: "n \<le> 65535 \<Longrightarrow> n * unat (b :: u8) \<le> usize_max"
  using mult_le_mono [of n 65535 "unat b" 255] unat_bounds(1) [of b] by (simp add: usize_max_def)

lemma stored_hashes_iff:
  assumes "length (sb_outputs sb) \<le> 65535"
  shows "validate_stored_truncated_output_hashes sb = Inr () \<longleftrightarrow>
    length (sb_truncated_output_hash_for_two_labels sb) = stored_hash_len sb 2
    \<and> length (sb_truncated_output_hash_for_hundred_labels sb) = stored_hash_len sb 100"
  using stored_hash_fits [OF assms]
  by (simp add: validate_stored_truncated_output_hashes_def validate_one_stored_hash_def Let_def
      packed_len_eq and_then_eq_Inr stored_hash_len_def RESPONSE_LABEL_BUDGET_TWO_def
      RESPONSE_LABEL_BUDGET_HUNDRED_def)

lemma packed_len_inject:
  fixes m n b :: nat
  assumes "8 \<le> b" and "(m * b + 7) div 8 = (n * b + 7) div 8"
  shows "m = n"
proof -
  have less: "(i * b + 7) div 8 < (j * b + 7) div 8" if "i < j" for i j :: nat
  proof -
    have "i * b + 8 \<le> Suc i * b" using assms(1) by simp
    also have "\<dots> \<le> j * b" using that by (intro mult_le_mono) simp_all
    finally have "(i * b + 7 + 8) div 8 \<le> (j * b + 7) div 8" by (intro div_le_mono) simp
    then show ?thesis by simp
  qed
  from less [of m n] less [of n m] assms(2) show ?thesis by (cases m n rule: linorder_cases) simp_all
qed

lemma budget_hundred: "response_label_budget None = 100"
  by (simp add: response_label_budget_def RESPONSE_LABEL_BUDGET_HUNDRED_def)

lemma budget_two: "response_label_budget (Some 2) = 2"
  by (simp add: response_label_budget_def RESPONSE_LABEL_BUDGET_TWO_def)

lemma bits_pos:
  assumes "n \<noteq> 0" and "raw \<noteq> 0"
  shows "0 < unat (choose_truncated_output_hash_bits n raw (response_label_budget lbls))"
    and "response_label_budget lbls = 100 \<Longrightarrow>
      9 \<le> unat (choose_truncated_output_hash_bits n raw (response_label_budget lbls))"
proof -
  note b = unat_choose_bits [OF assms refl, of lbls]
  show "0 < unat (choose_truncated_output_hash_bits n raw (response_label_budget lbls))"
    unfolding b(1) using b(3) by (intro ceil_log2_bounds) simp
  show "9 \<le> unat (choose_truncated_output_hash_bits n raw (response_label_budget lbls))"
    if "response_label_budget lbls = 100"
    unfolding b(1) using b(5) [OF that] .
qed

lemma bits_zero: "n = 0 \<or> raw = 0 \<Longrightarrow> choose_truncated_output_hash_bits n raw budget = 0"
  by (auto simp: choose_truncated_output_hash_bits_def)

lemma bits_zero_iff:
  "choose_truncated_output_hash_bits n raw (response_label_budget lbls) = 0 \<longleftrightarrow> n = 0 \<or> raw = 0"
  using bits_pos(1) [of n raw lbls] bits_zero by fastforce

text \<open>The hash field of a response that declares what the stored tweaks declare.\<close>

lemma hash_field_accounted:
  assumes "outputs_accounted sb" and "length (sb_outputs sb) \<le> 65535"
    and "length hashes = stored_hash_len sb (response_label_budget lbls)"
  shows "valid_hash_field (declared_outputs (sb_tweaks sb))
    (stored_bits sb (response_label_budget lbls)) hashes"
  using assms stored_hash_fits [OF assms(2)]
  by (auto simp: outputs_accounted_def valid_hash_field_def stored_hash_len_def bits_zero_iff
      bits_zero split: if_splits)

lemma hash_field_hundred_iff:
  assumes "length (sb_outputs sb) \<le> 65535" and "length hashes = stored_hash_len sb 100"
  shows "valid_hash_field (declared_outputs (sb_tweaks sb)) (stored_bits sb 100) hashes
    \<longleftrightarrow> outputs_accounted sb"
proof
  let ?n = "length (sb_outputs sb)" and ?d = "declared_outputs (sb_tweaks sb)"
  assume v: "valid_hash_field ?d (stored_bits sb 100) hashes"
  show "outputs_accounted sb"
  proof (cases "?n = 0 \<or> sb_raw_block_bytes sb = 0")
    case True
    with v show ?thesis
      by (auto simp: outputs_accounted_def valid_hash_field_def bits_zero)
  next
    case False
    then have "9 \<le> unat (stored_bits sb 100)"
      using bits_pos(2) [of ?n "sb_raw_block_bytes sb" None] by (simp add: budget_hundred)
    moreover have "(?d * unat (stored_bits sb 100) + 7) div 8 = (?n * unat (stored_bits sb 100) + 7) div 8"
      using v assms(2) by (simp add: valid_hash_field_def stored_hash_len_def)
    ultimately show ?thesis
      using packed_len_inject [of "unat (stored_bits sb 100)" ?d ?n] False
      by (simp add: outputs_accounted_def)
  qed
next
  assume "outputs_accounted sb"
  from hash_field_accounted [OF this assms(1), of hashes None] assms(2)
  show "valid_hash_field (declared_outputs (sb_tweaks sb)) (stored_bits sb 100) hashes"
    by (simp add: budget_hundred)
qed

section \<open>The whole response\<close>

definition budget_hashes :: "StoredLightBlockInput \<Rightarrow> u16 option \<Rightarrow> bytes" where
  "budget_hashes sb lbls =
     (if response_label_budget lbls = 2 then sb_truncated_output_hash_for_two_labels sb
      else sb_truncated_output_hash_for_hundred_labels sb)"

text \<open>A response with the block's own identity and the given variable parts.\<close>

definition response_of :: "StoredLightBlockInput \<Rightarrow> bytes \<Rightarrow> TweakEntryInput list \<Rightarrow> u8 \<Rightarrow> bytes
    \<Rightarrow> u32 \<times> bytes \<Rightarrow> LightBlockInput" where
  "response_of sb skipped tweaks bits hashes spent =
     \<lparr>lb_height = sb_height sb, lb_block_hash = sb_block_hash sb,
      lb_previous_block_hash = sb_previous_block_hash sb, lb_first_uid = sb_first_uid sb,
      lb_tx_count = sb_tx_count sb, lb_skipped_txs_for_tweaks = skipped, lb_tweaks = tweaks,
      lb_truncated_output_hash_bits = bits, lb_truncated_output_hashes = hashes,
      lb_spent_id_codec = EliasDeltaAscendingAbsolute, lb_spent_count = fst spent,
      lb_spent_ids = snd spent\<rparr>"

lemma response_of_simps [simp]:
  "lb_height (response_of sb s t b h e) = sb_height sb"
  "lb_block_hash (response_of sb s t b h e) = sb_block_hash sb"
  "lb_previous_block_hash (response_of sb s t b h e) = sb_previous_block_hash sb"
  "lb_first_uid (response_of sb s t b h e) = sb_first_uid sb"
  "lb_tx_count (response_of sb s t b h e) = sb_tx_count sb"
  "lb_skipped_txs_for_tweaks (response_of sb s t b h e) = s"
  "lb_tweaks (response_of sb s t b h e) = t"
  "lb_truncated_output_hash_bits (response_of sb s t b h e) = b"
  "lb_truncated_output_hashes (response_of sb s t b h e) = h"
  "lb_spent_count (response_of sb s t b h e) = fst e"
  "lb_spent_ids (response_of sb s t b h e) = snd e"
  by (simp_all add: response_of_def)

lemma decode_response_spends:
  "encode_spent_ids_elias_delta_ascending_absolute ids = Inr e \<Longrightarrow>
     decode_light_block_spent_ids (response_of sb s t b h e) = Inr (sort ids)"
  using decode_encoded_spent_ids [of ids "fst e" "snd e"]
  by (simp add: decode_light_block_spent_ids_def response_of_def)

lemma valid_response_of:
  assumes "encode_spent_ids_elias_delta_ascending_absolute ids = Inr e"
  shows "valid_light_block (response_of sb s t b h e) \<longleftrightarrow>
    valid_bitmap (unat (sb_tx_count sb)) s
    \<and> unat (sb_tx_count sb) = card (skipped_set (unat (sb_tx_count sb)) s) + length t
    \<and> valid_hash_field (declared_outputs t) b h \<and> (\<forall>x \<in> set t. length (te_tweak x) = 33)"
  using decode_encoded_spent_ids [of ids "fst e" "snd e"] assms
  by (simp add: valid_light_block_def)

lemma to_response_Inr_iff:
  "to_response_input_for_labels sb lbls = Inr r \<longleftrightarrow>
     (\<exists>e. encode_spent_ids_elias_delta_ascending_absolute (map ss_spent_uid (sb_spends sb)) = Inr e
       \<and> r = response_of sb (sb_skipped_txs_for_tweaks sb) (sb_tweaks sb)
               (stored_bits sb (response_label_budget lbls)) (budget_hashes sb lbls) e
       \<and> valid_light_block r)"
  by (auto simp: to_response_input_for_labels_def Let_def and_then_eq_Inr validate_light_iff
      response_of_def budget_hashes_def RESPONSE_LABEL_BUDGET_TWO_def split: prod.splits)

lemma encodable_iff:
  "encodable_ids ids \<longleftrightarrow> (\<exists>e. encode_spent_ids_elias_delta_ascending_absolute ids = Inr e)"
proof
  assume "encodable_ids ids"
  from encode_spent_ids_ok [OF this] show "\<exists>e. encode_spent_ids_elias_delta_ascending_absolute ids = Inr e"
    by blast
next
  assume "\<exists>e. encode_spent_ids_elias_delta_ascending_absolute ids = Inr e"
  then show "encodable_ids ids" using encode_spent_ids_Inr by (metis surj_pair)
qed

lemma to_response_ok_iff:
  "is_ok (to_response_input_for_labels sb lbls) \<longleftrightarrow>
     encodable_ids (map ss_spent_uid (sb_spends sb)) \<and> tweaks_fit sb
     \<and> valid_hash_field (declared_outputs (sb_tweaks sb))
         (stored_bits sb (response_label_budget lbls)) (budget_hashes sb lbls)"
  unfolding is_ok_iff to_response_Inr_iff encodable_iff tweaks_fit_def
  by (auto simp: valid_response_of)

lemma spends_check:
  assumes "unat (sb_height sb) < 2 ^ 32"
  shows "try_fold (\<lambda>spend _.
       and_then (try_from_nat (unat (sb_height sb)) :: u32 result) (\<lambda>height.
         ensure (ss_creation_height spend \<le> height) msg)) spends () = Inr ()
     \<longleftrightarrow> (\<forall>spend \<in> set spends. unat (ss_creation_height spend) \<le> unat (sb_height sb))"
proof -
  have "unat (word_of_nat (unat (sb_height sb)) :: u32) = unat (sb_height sb)"
    using assms by (intro unat_word_of_nat_small) simp
  with assms show ?thesis by (simp add: try_from_nat_def try_fold_ensure word_le_nat_alt)
qed

lemma tx_count_matches:
  "(\<exists>c. skipped_txs_for_tweaks_count n bs = Inr c \<and> unat n = unat c + k)
    \<longleftrightarrow> valid_bitmap (unat n) bs \<and> unat n = card (skipped_set (unat n) bs) + k"
proof (cases "valid_bitmap (unat n) bs")
  case True
  have "card (skipped_set (unat n) bs) < 65536"
    using skipped_list_le [of "unat n" bs] unat_bounds(2) [of n] by (simp add: length_skipped_list)
  then have "unat (word_of_nat (card (skipped_set (unat n) bs)) :: u16) = card (skipped_set (unat n) bs)"
    by (simp add: unat_word_of_nat_small)
  with True show ?thesis by (simp add: skipped_count_eq length_skipped_list)
qed (simp add: skipped_count_Inr_iff)

lemma validate_stored_iff: "validate_stored_light_block_input sb = Inr () \<longleftrightarrow> valid_stored sb"
proof -
  let ?head = "unat (sb_height sb) < 2 ^ 32
    \<and> valid_bitmap (unat (sb_tx_count sb)) (sb_skipped_txs_for_tweaks sb)
    \<and> unat (sb_tx_count sb)
       = card (skipped_set (unat (sb_tx_count sb)) (sb_skipped_txs_for_tweaks sb)) + length (sb_tweaks sb)
    \<and> length (sb_outputs sb) \<le> 65535 \<and> length (sb_skipped_outputs sb) \<le> 65535"
  have height: "sb_height sb \<le> 4294967295 \<longleftrightarrow> unat (sb_height sb) < 2 ^ 32"
    by (auto simp: word_le_nat_alt)
  have again: "(\<exists>r. to_response_input_for_labels sb None = Inr r \<and> validate_light_block_input r = Inr ())
      \<longleftrightarrow> is_ok (to_response_input_for_labels sb None)"
    by (auto simp: is_ok_iff to_response_Inr_iff validate_light_iff)
  show ?thesis
  proof (cases ?head)
    case False
    then have "\<not> valid_stored sb" by (auto simp: valid_stored_def tweaks_fit_def slots_fit_def)
    moreover have "validate_stored_light_block_input sb \<noteq> Inr ()"
      using False height tx_count_matches [of "sb_tx_count sb" "sb_skipped_txs_for_tweaks sb" "length (sb_tweaks sb)"]
      by (auto simp: validate_stored_light_block_input_def result_simps ensure_u16_len_def
          MAX_U16_SECTION_COUNT_def)
    ultimately show ?thesis by simp
  next
    case True
    then obtain c where c: "skipped_txs_for_tweaks_count (sb_tx_count sb) (sb_skipped_txs_for_tweaks sb) = Inr c"
        "unat (sb_tx_count sb) = unat c + length (sb_tweaks sb)"
      using tx_count_matches [of "sb_tx_count sb" "sb_skipped_txs_for_tweaks sb" "length (sb_tweaks sb)"] by blast
    have len: "length (sb_tweaks sb) \<le> 65535" using c(2) unat_bounds(2) [of "sb_tx_count sb"] by simp
    have ok: "sb_height sb \<le> 4294967295" using True height by simp
    have "validate_stored_light_block_input sb = Inr () \<longleftrightarrow>
        sorted_wrt (<) (sb_skipped_outputs sb)
        \<and> validate_stored_p2tr_uid_domain (length (sb_outputs sb)) (sb_skipped_outputs sb) = Inr ()
        \<and> validate_stored_truncated_output_hashes sb = Inr ()
        \<and> is_ok (to_response_input_for_labels sb None)
        \<and> (\<forall>spend \<in> set (sb_spends sb). unat (ss_creation_height spend) \<le> unat (sb_height sb))"
      using True c len ok
      unfolding again [symmetric] sorted_unique_iff [symmetric, of _ "''stored skipped outputs''"]
        spends_check [symmetric, of sb "sb_spends sb" "''stored spend creation height exceeds spend block height''",
          OF conjunct1 [OF True]]
      by (simp add: validate_stored_light_block_input_def validate_ok ensure_u16_len_def
          MAX_U16_SECTION_COUNT_def and_then_eq_Inr) blast
    then show ?thesis
      using True stored_hashes_iff [of sb] uid_domain_iff [of "length (sb_outputs sb)" "sb_skipped_outputs sb"]
        hash_field_hundred_iff [of sb "sb_truncated_output_hash_for_hundred_labels sb"]
      by (auto simp: to_response_ok_iff budget_hundred budget_hashes_def valid_stored_def slots_fit_def tweaks_fit_def)
  qed
qed

section \<open>The filtered response\<close>

text \<open>
  The specification of the filter: each tweak entry with its transaction index
  and the outputs of its group that are kept.
\<close>

fun kept_groups :: "(StoredOutputEntryInput \<Rightarrow> bool) \<Rightarrow> (TweakEntryInput \<times> u16) list
    \<Rightarrow> StoredOutputEntryInput list \<Rightarrow> (TweakEntryInput \<times> u16 \<times> StoredOutputEntryInput list) list" where
  "kept_groups keep [] outputs = []"
| "kept_groups keep ((t, i) # entries) outputs =
     (t, i, filter keep (take (unat (te_output_count t)) outputs))
       # kept_groups keep entries (drop (unat (te_output_count t)) outputs)"

definition kept_tweaks ::
    "(TweakEntryInput \<times> u16 \<times> StoredOutputEntryInput list) list \<Rightarrow> TweakEntryInput list" where
  "kept_tweaks groups =
     [\<lparr>te_output_count = word_of_nat (length g), te_tweak = te_tweak t\<rparr>. (t, i, g) \<leftarrow> groups, g \<noteq> []]"

definition emptied_txs ::
    "(TweakEntryInput \<times> u16 \<times> StoredOutputEntryInput list) list \<Rightarrow> u16 list" where
  "emptied_txs groups = [i. (t, i, g) \<leftarrow> groups, g = []]"

abbreviation kept_output :: "StoredLightBlockInput \<Rightarrow> StoredBlockResponseFilter
    \<Rightarrow> StoredOutputEntryInput \<Rightarrow> bool" where
  "kept_output sb flt \<equiv> \<lambda>out. \<not> should_omit_stored_output (sb_height sb) out flt"

lemma kept_tweaks_simps [simp]:
  "kept_tweaks [] = []"
  "kept_tweaks ((t, i, g) # gs) = (if g = [] then kept_tweaks gs
     else \<lparr>te_output_count = word_of_nat (length g), te_tweak = te_tweak t\<rparr> # kept_tweaks gs)"
  by (simp_all add: kept_tweaks_def)

lemma emptied_txs_simps [simp]:
  "emptied_txs [] = []"
  "emptied_txs ((t, i, g) # gs) = (if g = [] then i # emptied_txs gs else emptied_txs gs)"
  by (simp_all add: emptied_txs_def)

lemma filter_group_eq:
  fixes n :: u16
  assumes "unat n + length (filter (\<lambda>out. \<not> should_omit_stored_output h out flt) outs) < 65536"
  shows "filter_group h flt outs keys n = Inr
    (keys @ map so_key (filter (\<lambda>out. \<not> should_omit_stored_output h out flt) outs),
     n + word_of_nat (length (filter (\<lambda>out. \<not> should_omit_stored_output h out flt) outs)))"
  using assms
proof (induction outs arbitrary: keys n)
  case (Cons out outs)
  show ?case
  proof (cases "should_omit_stored_output h out flt")
    case False
    then have "checked_add n 1 = Some (n + 1)" "unat (n + 1) = unat n + 1"
      using Cons.prems by (simp_all add: checked_add_def unat_word_ariths)
    with False Cons show ?thesis by simp
  qed (use Cons in simp)
qed simp

lemma filter_tweak_eq:
  fixes st :: filter_state
  assumes "fs_output_cursor st + unat (te_output_count t) \<le> length (sb_outputs sb)"
    and "length (sb_outputs sb) \<le> 65535"
    and "valid_bitmap (unat (sb_tx_count sb)) (fs_skipped st)" and "i < sb_tx_count sb"
    and g: "g = filter (kept_output sb flt)
      (take (unat (te_output_count t)) (drop (fs_output_cursor st) (sb_outputs sb)))"
  shows "\<exists>bm. filter_tweak sb flt (t, i) st = Inr
      \<lparr>fs_output_keys = fs_output_keys st @ map so_key g,
       fs_tweaks = fs_tweaks st @ kept_tweaks [(t, i, g)],
       fs_output_cursor = fs_output_cursor st + unat (te_output_count t), fs_skipped = bm\<rparr>
    \<and> valid_bitmap (unat (sb_tx_count sb)) bm
    \<and> skipped_set (unat (sb_tx_count sb)) bm
        = unat ` set (emptied_txs [(t, i, g)]) \<union> skipped_set (unat (sb_tx_count sb)) (fs_skipped st)"
proof -
  let ?group = "take (unat (te_output_count t)) (drop (fs_output_cursor st) (sb_outputs sb))"
  have "length g \<le> length ?group" unfolding g by (rule length_filter_le)
  then have len: "length g < 65536" using unat_bounds(2) [of "te_output_count t"] by simp
  then have fg: "filter_group (sb_height sb) flt ?group (fs_output_keys st) 0
      = Inr (fs_output_keys st @ map so_key g, word_of_nat (length g))"
    using filter_group_eq [of 0 "sb_height sb" flt ?group "fs_output_keys st"] g by simp
  have pos: "(0 < (word_of_nat (length g) :: u16)) \<longleftrightarrow> g \<noteq> []"
    using len by (simp add: word_less_nat_alt unat_word_of_nat_small)
  have add: "usize_checked_add (fs_output_cursor st) (unat (te_output_count t))
      = Some (fs_output_cursor st + unat (te_output_count t))"
    using assms(1,2) by (simp add: usize_checked_add_def usize_max_def)
  obtain bm where "set_skipped_tx_in_bitmap (sb_tx_count sb) (fs_skipped st) i = Inr bm"
      "valid_bitmap (unat (sb_tx_count sb)) bm"
      "skipped_set (unat (sb_tx_count sb)) bm = insert (unat i) (skipped_set (unat (sb_tx_count sb)) (fs_skipped st))"
    using bm.insert_ok [OF assms(3,4)] by blast
  with assms(1,3) fg pos add show ?thesis
    by (cases st; cases "g = []") (auto simp: filter_tweak_def Let_def slice_def)
qed

lemma filter_loop_eq:
  assumes "fs_output_cursor st + declared_outputs (map fst es) \<le> length (sb_outputs sb)"
    and "length (sb_outputs sb) \<le> 65535"
    and "valid_bitmap (unat (sb_tx_count sb)) (fs_skipped st)"
    and "\<forall>i \<in> set (map snd es). i < sb_tx_count sb"
    and "gs = kept_groups (kept_output sb flt) es (drop (fs_output_cursor st) (sb_outputs sb))"
  shows "\<exists>bm. try_fold (filter_tweak sb flt) es st = Inr
      \<lparr>fs_output_keys = fs_output_keys st @ map so_key (concat (map (\<lambda>e. snd (snd e)) gs)),
       fs_tweaks = fs_tweaks st @ kept_tweaks gs,
       fs_output_cursor = fs_output_cursor st + declared_outputs (map fst es), fs_skipped = bm\<rparr>
    \<and> valid_bitmap (unat (sb_tx_count sb)) bm
    \<and> skipped_set (unat (sb_tx_count sb)) bm
        = unat ` set (emptied_txs gs) \<union> skipped_set (unat (sb_tx_count sb)) (fs_skipped st)"
  using assms
proof (induction es arbitrary: st gs)
  case Nil
  then show ?case by (cases st) simp
next
  case (Cons e es)
  obtain t i where e: "e = (t, i)" by (cases e)
  define g where "g = filter (kept_output sb flt)
      (take (unat (te_output_count t)) (drop (fs_output_cursor st) (sb_outputs sb)))"
  have "fs_output_cursor st + unat (te_output_count t) \<le> length (sb_outputs sb)" "i < sb_tx_count sb"
    using Cons.prems(1,4) e by simp_all
  from filter_tweak_eq [OF this(1) Cons.prems(2,3) this(2) g_def] obtain bm where
    step: "filter_tweak sb flt e st = Inr
      \<lparr>fs_output_keys = fs_output_keys st @ map so_key g,
       fs_tweaks = fs_tweaks st @ kept_tweaks [(t, i, g)],
       fs_output_cursor = fs_output_cursor st + unat (te_output_count t), fs_skipped = bm\<rparr>" (is "_ = Inr ?st")
    and bm: "valid_bitmap (unat (sb_tx_count sb)) bm" "skipped_set (unat (sb_tx_count sb)) bm
        = unat ` set (emptied_txs [(t, i, g)]) \<union> skipped_set (unat (sb_tx_count sb)) (fs_skipped st)"
    unfolding e by blast
  define rest where "rest = kept_groups (kept_output sb flt) es (drop (fs_output_cursor ?st) (sb_outputs sb))"
  have gs: "gs = (t, i, g) # rest"
    using Cons.prems(5) e by (simp add: g_def rest_def add.commute)
  have "fs_output_cursor ?st + declared_outputs (map fst es) \<le> length (sb_outputs sb)"
    using Cons.prems(1) e by simp
  from Cons.IH [OF this Cons.prems(2) _ _ rest_def] bm(1) Cons.prems(4)
  obtain bm' where "try_fold (filter_tweak sb flt) es ?st = Inr
      \<lparr>fs_output_keys = fs_output_keys ?st @ map so_key (concat (map (\<lambda>e. snd (snd e)) rest)),
       fs_tweaks = fs_tweaks ?st @ kept_tweaks rest,
       fs_output_cursor = fs_output_cursor ?st + declared_outputs (map fst es), fs_skipped = bm'\<rparr>"
    "valid_bitmap (unat (sb_tx_count sb)) bm'"
    "skipped_set (unat (sb_tx_count sb)) bm' = unat ` set (emptied_txs rest) \<union> skipped_set (unat (sb_tx_count sb)) bm"
    by auto
  with step bm(2) e show ?case unfolding gs by (auto simp: add.assoc)
qed

lemma kept_groups_concat:
  "length outs = declared_outputs (map fst es) \<Longrightarrow>
     concat (map (\<lambda>e. snd (snd e)) (kept_groups keep es outs)) = filter keep outs"
proof (induction keep es outs rule: kept_groups.induct)
  case (2 keep t i entries outs)
  then show ?case using filter_append [of keep "take (unat (te_output_count t)) outs" "drop (unat (te_output_count t)) outs"]
    by simp
qed simp

lemma kept_groups_entries:
  "map fst (kept_groups keep es outs) = map fst es"
  "map (\<lambda>e. fst (snd e)) (kept_groups keep es outs) = map snd es"
  by (induction keep es outs rule: kept_groups.induct) simp_all

lemma kept_groups_small: "\<forall>e \<in> set (kept_groups keep es outs). length (snd (snd e)) < 65536"
proof (induction keep es outs rule: kept_groups.induct)
  case (2 keep t i entries outs)
  have "length (filter keep (take (unat (te_output_count t)) outs)) \<le> unat (te_output_count t)"
    using length_filter_le [of keep "take (unat (te_output_count t)) outs"] by simp
  then have "length (filter keep (take (unat (te_output_count t)) outs)) < 65536"
    using unat_bounds(2) [of "te_output_count t"] by linarith
  with 2 show ?case by simp
qed simp

lemma declared_kept_tweaks:
  "\<forall>e \<in> set gs. length (snd (snd e)) < 65536 \<Longrightarrow>
     declared_outputs (kept_tweaks gs) = length (concat (map (\<lambda>e. snd (snd e)) gs))"
  by (induction gs) (auto simp: unat_word_of_nat_small)

lemma kept_and_emptied: "length (kept_tweaks gs) + length (emptied_txs gs) = length gs"
  by (induction gs) auto

lemma emptied_subset: "set (emptied_txs gs) \<subseteq> (\<lambda>e. fst (snd e)) ` set gs"
  by (induction gs) (auto split: if_splits)

lemma emptied_distinct: "distinct (map (\<lambda>e. fst (snd e)) gs) \<Longrightarrow> distinct (emptied_txs gs)"
  using emptied_subset by (induction gs) (auto, force)

lemma kept_tweaks_tweak: "t \<in> set (kept_tweaks gs) \<Longrightarrow> \<exists>e \<in> set gs. te_tweak t = te_tweak (fst e)"
  by (induction gs) (auto split: if_splits)

text \<open>The transaction indexes of the tweaks of a block whose counts agree.\<close>

lemma tweak_indexes:
  assumes "tweaks_fit sb"
  obtains idx where "derive_stored_tweak_tx_indexes (sb_tx_count sb) (sb_skipped_txs_for_tweaks sb)
      (length (sb_tweaks sb)) = Inr idx"
    and "length idx = length (sb_tweaks sb)" and "distinct idx" and "\<forall>i \<in> set idx. i < sb_tx_count sb"
    and "unat ` set idx \<inter> skipped_set (unat (sb_tx_count sb)) (sb_skipped_txs_for_tweaks sb) = {}"
proof -
  let ?n = "unat (sb_tx_count sb)" and ?bs = "sb_skipped_txs_for_tweaks sb"
  let ?free = "filter (\<lambda>k. \<not> lsb_bit ?bs k) [0..<?n]"
  define idx :: "u16 list" where "idx = map word_of_nat ?free"
  have len: "length (sb_tweaks sb) = length ?free"
    using free_plus_skipped [of ?bs ?n] assms by (simp add: tweaks_fit_def length_skipped_list)
  then have d: "derive_stored_tweak_tx_indexes (sb_tx_count sb) ?bs (length (sb_tweaks sb)) = Inr idx"
    using assms derive_indexes_eq [of "sb_tx_count sb" ?bs "length (sb_tweaks sb)"]
    by (simp add: tweaks_fit_def idx_def Let_def)
  have u: "unat (word_of_nat k :: u16) = k" "(word_of_nat k :: u16) < sb_tx_count sb" if "k < ?n" for k
    using u16_of_nat_below [OF that] by simp_all
  have "distinct idx"
    unfolding idx_def using u(1) by (auto simp: distinct_map inj_on_def) metis
  moreover have "unat ` set idx \<inter> skipped_set ?n ?bs = {}"
    using u(1) by (auto simp: idx_def skipped_set_def)
  ultimately show thesis using that [OF d] len u(2) by (simp add: idx_def)
qed

lemma encodable_filter:
  assumes "encodable_ids (map ss_spent_uid spends)" and "\<forall>s \<in> set spends. ss_spent_uid s \<noteq> - 1"
  shows "encodable_ids (map ss_spent_uid (filter P spends))"
proof -
  have "- 1 \<notin> set (map ss_spent_uid (filter P spends))" using assms(2) by auto
  then have "map ss_spent_uid (filter P spends) \<noteq> [- 1]" by (metis list.set_intros(1))
  moreover have "length (filter P spends) < 2 ^ 32"
    using assms(1) le_less_trans [OF length_filter_le [of P spends]] by (simp add: encodable_ids_def)
  ultimately show ?thesis using assms(1) by (simp add: encodable_ids_def distinct_map_filter)
qed

text \<open>The hash field of a filtered response is the packed hashes of the kept keys.\<close>

lemma packed_hash_field:
  assumes "sha256_ok sha256" and "length keys \<le> 65535" and "raw \<noteq> 0 \<or> keys = []"
    and "bits = choose_truncated_output_hash_bits (length keys) raw (response_label_budget lbls)"
  obtains hashes where "pack_truncated_output_hash_from_keys sha256 keys bits = Inr hashes"
    and "valid_hash_field (length keys) bits hashes"
proof -
  have "length keys * unat bits \<le> usize_max" by (rule stored_hash_fits [OF assms(2)])
  with pack_keys_bits [OF assms(1) this] that assms(3,4) show thesis
    by (auto simp: valid_hash_field_def bits_zero_iff)
qed

text \<open>The parts of the filtered response, for any filter that omits something.\<close>

definition filtered_response_spec ::
    "sha256_fun \<Rightarrow> StoredLightBlockInput \<Rightarrow> StoredBlockResponseFilter \<Rightarrow> LightBlockInput \<Rightarrow> bool" where
  "filtered_response_spec sha256 sb flt r \<longleftrightarrow>
     (\<exists>idx skipped e hashes.
       derive_stored_tweak_tx_indexes (sb_tx_count sb) (sb_skipped_txs_for_tweaks sb)
         (length (sb_tweaks sb)) = Inr idx
     \<and> (let gs = kept_groups (kept_output sb flt) (zip (sb_tweaks sb) idx) (sb_outputs sb);
            keys = map so_key (filter (kept_output sb flt) (sb_outputs sb));
            bits = choose_truncated_output_hash_bits (length keys) (sb_raw_block_bytes sb)
                     (response_label_budget (labels flt))
        in r = response_of sb skipped (kept_tweaks gs) bits hashes e
         \<and> skipped_set (unat (sb_tx_count sb)) skipped
             = unat ` set (emptied_txs gs)
               \<union> skipped_set (unat (sb_tx_count sb)) (sb_skipped_txs_for_tweaks sb)
         \<and> pack_truncated_output_hash_from_keys sha256 keys bits = Inr hashes
         \<and> encode_spent_ids_elias_delta_ascending_absolute
             (map ss_spent_uid (filter (\<lambda>spend. \<not> should_omit_stored_spend (sb_height sb) spend flt)
                (sb_spends sb))) = Inr e)
     \<and> valid_light_block r)"

lemma filtered_counts:
  assumes fit: "tweaks_fit sb" and "length idx = length (sb_tweaks sb)" and "distinct idx"
    and disj: "unat ` set idx \<inter> skipped_set n (sb_skipped_txs_for_tweaks sb) = {}"
    and gs: "gs = kept_groups keep (zip (sb_tweaks sb) idx) outs"
    and bm: "skipped_set n bm = unat ` set (emptied_txs gs) \<union> skipped_set n (sb_skipped_txs_for_tweaks sb)"
    and n: "n = unat (sb_tx_count sb)"
  shows "n = card (skipped_set n bm) + length (kept_tweaks gs)"
proof -
  have snds: "map (\<lambda>e. fst (snd e)) gs = idx" using gs assms(2) by (simp add: kept_groups_entries)
  have sub: "set (emptied_txs gs) \<subseteq> set idx"
    using emptied_subset [of gs] snds by (metis list.set_map)
  have "distinct (emptied_txs gs)" using emptied_distinct snds assms(3) by simp
  then have "card (unat ` set (emptied_txs gs)) = length (emptied_txs gs)"
    by (simp add: card_image inj_on_def word_unat_eq_iff distinct_card)
  moreover have "card (skipped_set n bm) = card (unat ` set (emptied_txs gs))
      + card (skipped_set n (sb_skipped_txs_for_tweaks sb))"
    unfolding bm using disj sub by (intro card_Un_disjoint) (auto simp: skipped_set_def)
  moreover have "length gs = length (sb_tweaks sb)"
    using arg_cong [OF snds, of length] assms(2) by simp
  ultimately show ?thesis using fit kept_and_emptied [of gs] n by (simp add: tweaks_fit_def)
qed

lemma filtered_tweak_width:
  assumes "tweaks_fit sb" and "gs = kept_groups keep (zip (sb_tweaks sb) idx) outs"
    and "length idx = length (sb_tweaks sb)"
  shows "\<forall>x \<in> set (kept_tweaks gs). length (te_tweak x) = 33"
proof
  fix x assume "x \<in> set (kept_tweaks gs)"
  then obtain e where "e \<in> set gs" "te_tweak x = te_tweak (fst e)" using kept_tweaks_tweak by blast
  moreover have "fst ` set gs = set (sb_tweaks sb)"
    using arg_cong [OF kept_groups_entries(1) [of keep "zip (sb_tweaks sb) idx" outs], of set] assms(2,3)
    by simp
  ultimately show "length (te_tweak x) = 33" using assms(1) by (auto simp: tweaks_fit_def)
qed

lemma filtered_response_meets_spec:
  assumes sha: "sha256_ok sha256" and v: "valid_stored sb"
    and raw: "sb_raw_block_bytes sb \<noteq> 0 \<or> sb_outputs sb = []"
    and uids: "\<forall>spend \<in> set (sb_spends sb). ss_spent_uid spend \<noteq> - 1"
    and active: "filter_reuse flt \<or> cutthrough_start flt \<noteq> None"
  shows "\<exists>r. to_filtered_response_input sha256 sb flt = Inr r \<and> filtered_response_spec sha256 sb flt r"
proof -
  let ?n = "unat (sb_tx_count sb)" and ?ids = "map ss_spent_uid
    (filter (\<lambda>spend. \<not> should_omit_stored_spend (sb_height sb) spend flt) (sb_spends sb))"
  have fit: "tweaks_fit sb" and len: "length (sb_outputs sb) \<le> 65535"
    and acc: "declared_outputs (sb_tweaks sb) = length (sb_outputs sb)"
    using v raw by (auto simp: valid_stored_def slots_fit_def outputs_accounted_def split: if_splits)
  from tweak_indexes [OF fit] obtain idx where
    idx: "derive_stored_tweak_tx_indexes (sb_tx_count sb) (sb_skipped_txs_for_tweaks sb)
        (length (sb_tweaks sb)) = Inr idx" "length idx = length (sb_tweaks sb)" "distinct idx"
      "\<forall>i \<in> set idx. i < sb_tx_count sb"
      "unat ` set idx \<inter> skipped_set ?n (sb_skipped_txs_for_tweaks sb) = {}" .
  define gs where "gs = kept_groups (kept_output sb flt) (zip (sb_tweaks sb) idx) (sb_outputs sb)"
  define keys where "keys = map so_key (filter (kept_output sb flt) (sb_outputs sb))"
  define bits where "bits = choose_truncated_output_hash_bits (length keys) (sb_raw_block_bytes sb)
    (response_label_budget (labels flt))"
  have cat: "concat (map (\<lambda>e. snd (snd e)) gs) = filter (kept_output sb flt) (sb_outputs sb)"
    unfolding gs_def using acc idx(2) by (intro kept_groups_concat) simp
  have "gs = kept_groups (kept_output sb flt) (zip (sb_tweaks sb) idx)
      (drop (fs_output_cursor \<lparr>fs_output_keys = [], fs_tweaks = [], fs_output_cursor = 0,
        fs_skipped = sb_skipped_txs_for_tweaks sb\<rparr>) (sb_outputs sb))"
    by (simp add: gs_def)
  from filter_loop_eq [OF _ _ _ _ this]
  obtain bm where loop: "try_fold (filter_tweak sb flt) (zip (sb_tweaks sb) idx)
      \<lparr>fs_output_keys = [], fs_tweaks = [], fs_output_cursor = 0, fs_skipped = sb_skipped_txs_for_tweaks sb\<rparr>
      = Inr \<lparr>fs_output_keys = keys, fs_tweaks = kept_tweaks gs,
             fs_output_cursor = length (sb_outputs sb), fs_skipped = bm\<rparr>"
    and bm: "valid_bitmap ?n bm" "skipped_set ?n bm
        = unat ` set (emptied_txs gs) \<union> skipped_set ?n (sb_skipped_txs_for_tweaks sb)"
    using acc len idx(2,4) fit by (auto simp: cat keys_def tweaks_fit_def)
  have keys_len: "length keys \<le> 65535"
    unfolding keys_def length_map using len by (rule order_trans [OF length_filter_le])
  have "sb_raw_block_bytes sb \<noteq> 0 \<or> keys = []" using raw by (auto simp: keys_def)
  from packed_hash_field [OF sha keys_len this bits_def] obtain hashes where
    h: "pack_truncated_output_hash_from_keys sha256 keys bits = Inr hashes"
      "valid_hash_field (length keys) bits hashes" .
  obtain e where e: "encode_spent_ids_elias_delta_ascending_absolute ?ids = Inr e"
    using encodable_filter [OF _ uids, THEN encodable_iff [THEN iffD1]] v unfolding valid_stored_def by blast
  let ?r = "response_of sb bm (kept_tweaks gs) bits hashes e"
  have valid: "valid_light_block ?r"
    unfolding valid_response_of [OF e]
  proof (intro conjI)
    show "valid_bitmap ?n bm" by (rule bm)
    show "?n = card (skipped_set ?n bm) + length (kept_tweaks gs)"
      by (rule filtered_counts [OF fit idx(2,3,5) gs_def bm(2) refl])
    show "valid_hash_field (declared_outputs (kept_tweaks gs)) bits hashes"
      using h(2) declared_kept_tweaks [of gs] cat kept_groups_small by (simp add: gs_def keys_def)
    show "\<forall>x \<in> set (kept_tweaks gs). length (te_tweak x) = 33"
      by (rule filtered_tweak_width [OF fit gs_def idx(2)])
  qed
  have "to_filtered_response_input sha256 sb flt = Inr ?r"
    using active idx(1) loop e h(1) validate_light_iff [THEN iffD2, OF valid]
    by (auto simp: to_filtered_response_input_def Let_def bits_def [symmetric] response_of_def
        split: prod.splits)
  with idx(1) bm(2) h(1) e valid show ?thesis
    unfolding filtered_response_spec_def gs_def keys_def bits_def Let_def by blast
qed

lemma valid_stored_response_ok: "valid_stored sb \<Longrightarrow> is_ok (to_response_input_for_labels sb lbls)"
  using label_budget_cases [of lbls] hash_field_accounted [of sb "budget_hashes sb lbls" lbls]
  by (auto simp: to_response_ok_iff valid_stored_def slots_fit_def budget_hashes_def)

section \<open>A sample block\<close>

text \<open>
  A block of two transactions, the first skipped, the second with two outputs
  of which one is spent at height 120; the witnesses below use it.
\<close>

definition sample_block :: StoredLightBlockInput where
  "sample_block =
     \<lparr>sb_height = 100, sb_block_hash = replicate 32 1, sb_previous_block_hash = replicate 32 2,
      sb_first_uid = 7, sb_tx_count = 2, sb_skipped_txs_for_tweaks = [1],
      sb_tweaks = [\<lparr>te_output_count = 2, te_tweak = replicate 33 2\<rparr>], sb_skipped_outputs = [],
      sb_outputs = [\<lparr>so_key = replicate 32 3, so_spent_height = - 1, so_flags = 0\<rparr>,
                    \<lparr>so_key = replicate 32 4, so_spent_height = 120, so_flags = 1\<rparr>],
      sb_spends = [\<lparr>ss_spent_uid = 5, ss_creation_height = 90\<rparr>], sb_raw_block_bytes = 1,
      sb_truncated_output_hash_for_two_labels = [0],
      sb_truncated_output_hash_for_hundred_labels = [0, 0, 0]\<rparr>"

lemma sample_bitmap: "valid_bitmap 2 [1]" "skipped_set 2 [1] = {0}"
proof -
  have "lsb_bit [1] k \<longleftrightarrow> k = 0" if "k < 8" for k
    using that by (auto simp: lsb_bit_def bit_1_iff)
  then show "valid_bitmap 2 [1]" "skipped_set 2 [1] = {0}"
    by (auto simp: valid_bitmap_def skipped_set_def)
qed

lemma sample_bits:
  "unat (choose_truncated_output_hash_bits 2 1 2) = 3"
  "unat (choose_truncated_output_hash_bits 2 1 100) = 9"
  by (simp_all add: choose_truncated_output_hash_bits_def ceil_log2_def max_def word_le_nat_alt
      bit_len.simps)

lemma sample_valid: "valid_stored sample_block"
  by (simp add: valid_stored_def sample_block_def tweaks_fit_def slots_fit_def outputs_accounted_def
      stored_hash_len_def sample_bitmap sample_bits encodable_ids_def numeral_2_eq_2 [symmetric])

section \<open>Properties\<close>

text \<open>
  C16: the stored-block validator accepts exactly the blocks whose height fits 32
  bits, whose bitmap, transaction count and tweak entries agree, whose skipped
  output slots are ascending and inside the slot range, whose tweak entries
  account for every output, whose two hash streams have the width of their label
  budget, and whose spends are encodable and not created after the block.
\<close>

theorem stored_validator_exact:
  "validate_stored_light_block_input sb = Inr () \<longleftrightarrow> valid_stored sb"
  by (rule validate_stored_iff)

text \<open>
  C15: a stored block that passes validation (which builds only the hundred-label
  response) is served for every label budget, without the panic of the default
  response: the response passes the response validator, keeps the tweaks and the
  bitmap, and its spent stream decodes to the block's spent UIDs in order.
\<close>

theorem valid_block_served_for_every_budget:
  assumes "validate_stored_light_block_input sb = Inr ()"
  shows "is_ok (to_response_input sb)
    \<and> (\<exists>r. to_response_input_for_labels sb lbls = Inr r \<and> validate_light_block_input r = Inr ()
       \<and> lb_tweaks r = sb_tweaks sb \<and> lb_skipped_txs_for_tweaks r = sb_skipped_txs_for_tweaks sb
       \<and> decode_light_block_spent_ids r = Inr (sort (map ss_spent_uid (sb_spends sb))))"
proof -
  have v: "valid_stored sb" using assms by (simp add: validate_stored_iff)
  have ok: "is_ok (to_response_input_for_labels sb l)" for l by (rule valid_stored_response_ok [OF v])
  then have "is_ok (to_response_input sb)"
    unfolding to_response_input_def by (auto simp: is_ok_iff split: sum.splits) (metis Inr_not_Inl)
  with ok [of lbls] show ?thesis
    by (auto simp: is_ok_iff to_response_Inr_iff decode_response_spends validate_light_iff)
qed

theorem valid_block_served_for_every_budget_witness:
  "validate_stored_light_block_input sample_block = Inr ()
    \<and> is_ok (to_response_input_for_labels sample_block (Some 1))"
  using valid_block_served_for_every_budget [of sample_block "Some 1"] sample_valid
  by (auto simp: validate_stored_iff is_ok_iff)

text \<open>
  C1: for a valid block of non-zero size whose spent UIDs are below the largest
  64-bit value, every cut-through or reuse filter yields a response (no error
  branch is reachable): it passes the response validator, keeps exactly the
  outputs that are not omitted, grouped under their own tweaks with the kept
  counts, marks the emptied transactions as skipped beside the stored ones,
  and carries the hash stream of the kept keys and the kept spends.
\<close>

theorem filtered_response_exact:
  assumes "sha256_ok sha256" and "validate_stored_light_block_input sb = Inr ()"
    and "sb_raw_block_bytes sb \<noteq> 0"
    and "\<forall>spend \<in> set (sb_spends sb). ss_spent_uid spend \<noteq> - 1"
    and "filter_reuse flt \<or> cutthrough_start flt \<noteq> None"
  shows "\<exists>r. to_filtered_response_input sha256 sb flt = Inr r
    \<and> validate_light_block_input r = Inr () \<and> filtered_response_spec sha256 sb flt r"
proof -
  from filtered_response_meets_spec [of sha256 sb flt] assms obtain r where
    "to_filtered_response_input sha256 sb flt = Inr r" "filtered_response_spec sha256 sb flt r"
    by (auto simp: validate_stored_iff)
  moreover from this(2) have "validate_light_block_input r = Inr ()"
    by (auto simp: filtered_response_spec_def validate_light_iff)
  ultimately show ?thesis by blast
qed

theorem filtered_response_exact_witness:
  "\<exists>r. to_filtered_response_input (\<lambda>_. replicate 32 0) sample_block
       \<lparr>cutthrough_start = Some 10, cutthrough_tip = None, filter_reuse = True, labels = None\<rparr> = Inr r
    \<and> validate_light_block_input r = Inr ()"
  using filtered_response_exact [of "\<lambda>_. replicate 32 0" sample_block
      "\<lparr>cutthrough_start = Some 10, cutthrough_tip = None, filter_reuse = True, labels = None\<rparr>"]
    sample_valid
  by (auto simp: sha256_ok_def validate_stored_iff sample_block_def)

text \<open>
  the spends of a filtered response decode to exactly the spent UIDs the
  cut-through rule keeps, ascending, whatever the filter (an inactive
  one keeps them all).
\<close>

theorem filtered_response_spends:
  assumes "to_filtered_response_input sha256 sb flt = Inr r"
  shows "decode_light_block_spent_ids r = Inr (sort (map ss_spent_uid
    (filter (\<lambda>spend. \<not> should_omit_stored_spend (sb_height sb) spend flt) (sb_spends sb))))"
proof (cases "\<not> filter_reuse flt \<and> cutthrough_start flt = None")
  case True
  then have "filter (\<lambda>spend. \<not> should_omit_stored_spend (sb_height sb) spend flt) (sb_spends sb) = sb_spends sb"
    by (simp add: should_omit_stored_spend_def)
  with assms True show ?thesis
    by (auto simp: to_filtered_response_input_def to_response_Inr_iff decode_response_spends)
next
  case False
  let ?ids = "map ss_spent_uid
    (filter (\<lambda>spend. \<not> should_omit_stored_spend (sb_height sb) spend flt) (sb_spends sb))"
  from False assms obtain count ids where
    "encode_spent_ids_elias_delta_ascending_absolute ?ids = Inr (count, ids)"
    "lb_spent_count r = count" "lb_spent_ids r = ids"
    "lb_spent_id_codec r = EliasDeltaAscendingAbsolute"
    by (auto simp: to_filtered_response_input_def Let_def and_then_eq_Inr)
  then show ?thesis
    using decode_encoded_spent_ids by (simp add: decode_light_block_spent_ids_def)
qed

theorem filtered_response_spends_witness:
  "\<exists>r. to_filtered_response_input (\<lambda>_. replicate 32 0) sample_block default_filter = Inr r
    \<and> decode_light_block_spent_ids r = Inr [5]"
proof -
  from sample_valid have "is_ok (to_response_input_for_labels sample_block None)"
    by (rule valid_stored_response_ok)
  then obtain r where "to_filtered_response_input (\<lambda>_. replicate 32 0) sample_block default_filter = Inr r"
    by (auto simp: is_ok_iff to_filtered_response_input_def default_filter_def)
  with filtered_response_spends [OF this] show ?thesis
    by (auto simp: sample_block_def should_omit_stored_spend_def default_filter_def)
qed

text \<open>
  C17: cut-through is consistent between the two blocks an output touches: with
  no reuse filter, an output created at height \<open>h\<close> and recorded as spent at height
  \<open>s\<close> is omitted from the response of its creating block if and only if its
  spend is omitted from the response of the spending block, for every
  start and tip.
\<close>

theorem cutthrough_output_iff_spend:
  fixes h s :: u32
  assumes "so_spent_height out = s" and "s \<noteq> STORAGE_SPENT_HEIGHT_UNSPENT"
    and "ss_creation_height spend = h" and "\<not> filter_reuse flt"
  shows "should_omit_stored_output (ucast h) out flt \<longleftrightarrow> should_omit_stored_spend (ucast s) spend flt"
  using assms
  by (auto simp: should_omit_stored_output_def should_omit_stored_spend_def Let_def split: option.splits)

theorem cutthrough_output_iff_spend_witness:
  "should_omit_stored_output (ucast (100 :: u32)) \<lparr>so_key = [], so_spent_height = 120, so_flags = 0\<rparr>
     (default_filter\<lparr>cutthrough_start := Some 50\<rparr>)
   \<longleftrightarrow> should_omit_stored_spend (ucast (120 :: u32)) \<lparr>ss_spent_uid = 9, ss_creation_height = 100\<rparr>
     (default_filter\<lparr>cutthrough_start := Some 50\<rparr>)"
  by (rule cutthrough_output_iff_spend)
    (simp_all add: STORAGE_SPENT_HEIGHT_UNSPENT_def default_filter_def)

end
