(* ===== verification/P2tr_Indexer.thy ===== *)
theory P2tr_Indexer
  imports Stored_Response "HOL-Library.AList"
begin

text \<open>
  The indexer state of \<^verbatim>\<open>light-server/src/p2tr_indexer.rs\<close>: the counter of output
  UIDs, the spend index from outpoints to UIDs and the keys seen so far, and the
  application of one scanned block. The hash map is an association list with
  distinct keys, the hash set a set. \<open>apply_block_with_stats\<close> returns the new
  state beside the applied block; after an error the caller abandons the
  partly updated state, so the error branch carries none.
\<close>

section \<open>Data\<close>

record OutPointKey =
  op_txid :: bytes
  op_vout :: u32

definition is_coinbase :: "OutPointKey \<Rightarrow> bool" where
  "is_coinbase outpoint \<longleftrightarrow> op_vout outpoint = - 1 \<and> op_txid outpoint = replicate 32 0"

record SpendLookup =
  sl_uid :: u64
  sl_creation_height :: u64
  sl_output_index :: u32
  sl_flags :: u8

record ScopedUtxoEntry =
  su_outpoint :: OutPointKey
  su_uid :: u64
  su_created_height :: u64
  su_created_block_hash :: bytes
  su_tx_index :: u16
  su_output_index :: u32
  su_value_sat :: u64
  su_script_pubkey :: bytes
  su_p2tr_xonly_key :: bytes

record CreatedScopedUtxo =
  cu_entry :: ScopedUtxoEntry
  cu_is_nums :: bool
  cu_is_reused :: bool
  cu_reuse_count_at_creation :: u64

record SpentScopedUtxo =
  sp_outpoint :: OutPointKey
  sp_uid :: u64
  sp_creation_height :: u64
  sp_output_index :: u32
  sp_flags :: u8
  sp_spent_height :: u64
  sp_spent_block_hash :: bytes
  sp_spend_tx_index :: u16

record TxInputScan =
  ti_previous_output :: OutPointKey
  ti_script_sig :: bytes
  ti_witness :: "bytes list"

record TxOutputScan =
  to_vout :: u32
  to_value_sat :: u64
  to_script_pubkey :: bytes
  to_p2tr_xonly_key :: "bytes option"
  to_is_p2tr :: bool
  to_is_nums :: bool

record TxScanInput =
  tx_txid :: bytes
  tx_tx_index :: u16
  tx_inputs :: "TxInputScan list"
  tx_outputs :: "TxOutputScan list"
  tx_silent_payment_tweak :: "bytes option"

record BlockScanInput =
  bs_height :: u64
  bs_block_hash :: bytes
  bs_previous_block_hash :: bytes
  bs_raw_block_bytes :: u32
  bs_txs :: "TxScanInput list"

record BlockScopeStats =
  st_tx_count :: u16
  st_output_count_total :: u32
  st_p2tr_output_count :: u32
  st_p2tr_count :: u32
  st_p2tr_nums_count :: u32
  st_p2tr_reused_count :: u32
  st_p2tr_excluded_by_scope_count :: u32
  st_indexed_output_count :: u32
  st_indexed_spent_count :: u32
  st_tx_with_p2tr_output_count :: u32
  st_tx_with_indexed_output_count :: u32
  st_tweak_count :: u32

record AppliedBlock =
  ab_light_block :: LightBlockInput
  ab_storage_block :: StoredLightBlockInput
  ab_stats :: BlockScopeStats
  ab_created_utxos :: "CreatedScopedUtxo list"
  ab_spent_utxos :: "SpentScopedUtxo list"

record P2trIndexerState =
  next_uid :: u64
  outpoint_to_spend :: "(OutPointKey \<times> SpendLookup) list"
  live_uid_count :: usize
  seen_p2tr_keys :: "bytes set option"

definition default_stats :: BlockScopeStats where
  "default_stats =
     \<lparr>st_tx_count = 0, st_output_count_total = 0, st_p2tr_output_count = 0, st_p2tr_count = 0,
      st_p2tr_nums_count = 0, st_p2tr_reused_count = 0, st_p2tr_excluded_by_scope_count = 0,
      st_indexed_output_count = 0, st_indexed_spent_count = 0, st_tx_with_p2tr_output_count = 0,
      st_tx_with_indexed_output_count = 0, st_tweak_count = 0\<rparr>"

section \<open>The state and its spend index\<close>

definition new_state :: P2trIndexerState where
  "new_state = \<lparr>next_uid = 0, outpoint_to_spend = [], live_uid_count = 0, seen_p2tr_keys = Some {}\<rparr>"

text \<open>The loop shared by the two \<open>restore\<close> functions.\<close>

definition restore_entry :: "ScopedUtxoEntry \<Rightarrow> P2trIndexerState \<Rightarrow> P2trIndexerState" where
  "restore_entry entry state =
     state\<lparr>live_uid_count := live_uid_count state + 1,
       outpoint_to_spend := AList.update (su_outpoint entry)
         \<lparr>sl_uid = su_uid entry, sl_creation_height = su_created_height entry,
          sl_output_index = su_output_index entry, sl_flags = 0\<rparr>
         (outpoint_to_spend state)\<rparr>"

definition restore :: "u64 \<Rightarrow> ScopedUtxoEntry list \<Rightarrow> bytes list \<Rightarrow> P2trIndexerState" where
  "restore last_uid live_entries seen_keys =
     fold restore_entry live_entries
       \<lparr>next_uid = last_uid, outpoint_to_spend = [], live_uid_count = 0,
        seen_p2tr_keys = Some (set seen_keys)\<rparr>"

definition restore_without_reuse_tracking :: "u64 \<Rightarrow> ScopedUtxoEntry list \<Rightarrow> P2trIndexerState" where
  "restore_without_reuse_tracking last_uid live_entries =
     fold restore_entry live_entries
       \<lparr>next_uid = last_uid, outpoint_to_spend = [], live_uid_count = 0, seen_p2tr_keys = None\<rparr>"

definition restore_counts_only :: "u64 \<Rightarrow> usize \<Rightarrow> P2trIndexerState" where
  "restore_counts_only last_uid count =
     \<lparr>next_uid = last_uid, outpoint_to_spend = [], live_uid_count = count, seen_p2tr_keys = None\<rparr>"

definition restore_at_uid :: "u64 \<Rightarrow> P2trIndexerState" where
  "restore_at_uid last_uid =
     \<lparr>next_uid = last_uid, outpoint_to_spend = [], live_uid_count = 0, seen_p2tr_keys = None\<rparr>"

definition contains_outpoint :: "P2trIndexerState \<Rightarrow> OutPointKey \<Rightarrow> bool" where
  "contains_outpoint state outpoint \<longleftrightarrow> map_of (outpoint_to_spend state) outpoint \<noteq> None"

definition cached_outpoint_count :: "P2trIndexerState \<Rightarrow> usize" where
  "cached_outpoint_count state = length (outpoint_to_spend state)"

fun cache_spend_uid_candidates :: "(OutPointKey \<times> SpendLookup) list \<Rightarrow> P2trIndexerState
    \<Rightarrow> OutPointKey list \<Rightarrow> P2trIndexerState \<times> OutPointKey list" where
  "cache_spend_uid_candidates [] state cached = (state, cached)"
| "cache_spend_uid_candidates ((outpoint, spend) # candidates) state cached =
     (if map_of (outpoint_to_spend state) outpoint = None
      then cache_spend_uid_candidates candidates
        (state\<lparr>outpoint_to_spend := AList.update outpoint spend (outpoint_to_spend state)\<rparr>)
        (cached @ [outpoint])
      else cache_spend_uid_candidates candidates state cached)"

fun evict_spend_uid_candidates :: "OutPointKey list \<Rightarrow> P2trIndexerState \<Rightarrow> usize
    \<Rightarrow> P2trIndexerState \<times> usize" where
  "evict_spend_uid_candidates [] state evicted = (state, evicted)"
| "evict_spend_uid_candidates (outpoint # outpoints) state evicted =
     (if map_of (outpoint_to_spend state) outpoint \<noteq> None
      then evict_spend_uid_candidates outpoints
        (state\<lparr>outpoint_to_spend := AList.delete outpoint (outpoint_to_spend state)\<rparr>) (evicted + 1)
      else evict_spend_uid_candidates outpoints state evicted)"

definition last_uid :: "P2trIndexerState \<Rightarrow> u64" where
  "last_uid state = next_uid state"

definition live_uids_sorted :: "P2trIndexerState \<Rightarrow> u64 list" where
  "live_uids_sorted state = sort (map (\<lambda>(_, spend). sl_uid spend) (outpoint_to_spend state))"

section \<open>Applying a block\<close>

text \<open>The variables the loops of \<open>apply_block_with_stats\<close> update.\<close>

record block_acc =
  ba_state :: P2trIndexerState
  ba_outputs :: "StoredOutputEntryInput list"
  ba_spends :: "StoredSpendEntryInput list"
  ba_skipped_txs :: bytes
  ba_tweaks :: "TweakEntryInput list"
  ba_skipped_outputs :: "u16 list"
  ba_stats :: BlockScopeStats
  ba_created :: "CreatedScopedUtxo list"
  ba_spent :: "SpentScopedUtxo list"

definition p2tr_output_identity :: "TxOutputScan \<Rightarrow> bytes result" where
  "p2tr_output_identity output =
     ok_or (to_p2tr_xonly_key output) ''P2TR output is missing x-only key''"

definition apply_input :: "BlockScanInput \<Rightarrow> TxScanInput \<Rightarrow> TxInputScan \<Rightarrow> block_acc
    \<Rightarrow> block_acc result" where
  "apply_input block tx input acc =
     (let state = ba_state acc in
      case map_of (outpoint_to_spend state) (ti_previous_output input) of
        None \<Rightarrow> Inr acc
      | Some spend_ref \<Rightarrow>
          and_then (try_from_nat (unat (sl_creation_height spend_ref))) (\<lambda>creation_height.
          Inr (acc\<lparr>
            ba_state := state\<lparr>
              outpoint_to_spend := AList.delete (ti_previous_output input) (outpoint_to_spend state),
              live_uid_count := live_uid_count state - 1\<rparr>,
            ba_spends := ba_spends acc
              @ [\<lparr>ss_spent_uid = sl_uid spend_ref, ss_creation_height = creation_height\<rparr>],
            ba_spent := ba_spent acc
              @ [\<lparr>sp_outpoint = ti_previous_output input, sp_uid = sl_uid spend_ref,
                  sp_creation_height = sl_creation_height spend_ref,
                  sp_output_index = sl_output_index spend_ref, sp_flags = sl_flags spend_ref,
                  sp_spent_height = bs_height block, sp_spent_block_hash = bs_block_hash block,
                  sp_spend_tx_index = tx_tx_index tx\<rparr>],
            ba_stats := (ba_stats acc)\<lparr>
              st_indexed_spent_count := st_indexed_spent_count (ba_stats acc) + 1\<rparr>\<rparr>)))"

text \<open>
  The part of an output's handling that indexes it: a UID, an entry of the
  spend index, the created output and the stored entry.
\<close>

definition index_output :: "BlockScanInput \<Rightarrow> u64 \<Rightarrow> TxScanInput \<Rightarrow> TxOutputScan \<Rightarrow> u32 \<Rightarrow> bytes
    \<Rightarrow> bool \<Rightarrow> block_acc \<Rightarrow> block_acc result" where
  "index_output block block_first_uid tx output current_p2tr_slot p2tr_xonly_key is_reused_output acc =
     and_then (ok_or (checked_add block_first_uid (ucast current_p2tr_slot)) ''scoped UID overflow'') (\<lambda>uid.
     let outpoint = \<lparr>op_txid = tx_txid tx, op_vout = to_vout output\<rparr>;
         flags = (if is_reused_output then STORAGE_OUTPUT_FLAG_REUSED else 0)
     in and_then (try_from_nat (length (ba_outputs acc))) (\<lambda>output_index.
     let entry =
           \<lparr>su_outpoint = outpoint, su_uid = uid, su_created_height = bs_height block,
            su_created_block_hash = bs_block_hash block, su_tx_index = tx_tx_index tx,
            su_output_index = output_index, su_value_sat = to_value_sat output,
            su_script_pubkey = to_script_pubkey output, su_p2tr_xonly_key = p2tr_xonly_key\<rparr>;
         state = ba_state acc
     in Inr (acc\<lparr>
          ba_state := state\<lparr>
            outpoint_to_spend := AList.update outpoint
              \<lparr>sl_uid = uid, sl_creation_height = bs_height block, sl_output_index = output_index,
               sl_flags = flags\<rparr> (outpoint_to_spend state),
            live_uid_count := live_uid_count state + 1\<rparr>,
          ba_created := ba_created acc
            @ [\<lparr>cu_entry = entry, cu_is_nums = to_is_nums output, cu_is_reused = is_reused_output,
                cu_reuse_count_at_creation = 0\<rparr>],
          ba_outputs := ba_outputs acc
            @ [\<lparr>so_key = p2tr_xonly_key, so_spent_height = STORAGE_SPENT_HEIGHT_UNSPENT,
                so_flags = flags\<rparr>]\<rparr>)))"

text \<open>Looking up and recording a key in the seen set: whether it was there, and the new set.\<close>

definition see_key :: "bytes \<Rightarrow> P2trIndexerState \<Rightarrow> bool \<times> P2trIndexerState" where
  "see_key key state =
     (case seen_p2tr_keys state of
        None \<Rightarrow> (False, state)
      | Some seen \<Rightarrow> (key \<in> seen, state\<lparr>seen_p2tr_keys := Some (insert key seen)\<rparr>))"

text \<open>
  One iteration of the output loop; the state beside the accumulator is
  \<open>tx_has_p2tr_output\<close> and \<open>tx_indexed_output_count\<close>.
\<close>

definition apply_output :: "BlockScanInput \<Rightarrow> u64 \<Rightarrow> TxScanInput \<Rightarrow> TxOutputScan
    \<Rightarrow> block_acc \<times> bool \<times> u16 \<Rightarrow> (block_acc \<times> bool \<times> u16) result" where
  "apply_output block block_first_uid tx output st =
     (let (acc0, tx_has_p2tr_output, tx_indexed_output_count) = st;
          stats0 = ba_stats acc0;
          stats1 = stats0\<lparr>st_output_count_total := st_output_count_total stats0 + 1\<rparr>
      in if \<not> to_is_p2tr output
         then Inr (acc0\<lparr>ba_stats := stats1\<rparr>, tx_has_p2tr_output, tx_indexed_output_count)
         else
           let current_p2tr_slot = st_p2tr_output_count stats1 in
           and_then (try_from_nat (unat current_p2tr_slot) :: u16 result) (\<lambda>current_p2tr_slot_u16.
           and_then (ok_or (checked_add (st_p2tr_output_count stats1) 1) ''P2TR output count overflow'')
             (\<lambda>p2tr_output_count.
           and_then (p2tr_output_identity output) (\<lambda>p2tr_xonly_key.
           let (is_reused_output, state) = see_key p2tr_xonly_key (ba_state acc0);
               stats2 = stats1\<lparr>
                 st_p2tr_output_count := p2tr_output_count,
                 st_p2tr_nums_count := st_p2tr_nums_count stats1 + (if to_is_nums output then 1 else 0),
                 st_p2tr_count := st_p2tr_count stats1 + 1,
                 st_p2tr_reused_count :=
                   st_p2tr_reused_count stats1 + (if is_reused_output then 1 else 0)\<rparr>
           in if to_is_nums output \<or> tx_silent_payment_tweak tx = None
              then Inr (acc0\<lparr>ba_state := state,
                     ba_skipped_outputs := ba_skipped_outputs acc0 @ [current_p2tr_slot_u16],
                     ba_stats := stats2\<lparr>st_p2tr_excluded_by_scope_count :=
                       st_p2tr_excluded_by_scope_count stats2 + 1\<rparr>\<rparr>, True, tx_indexed_output_count)
              else
                and_then (ok_or (checked_add tx_indexed_output_count 1)
                  ''tx indexed output count exceeds u16'') (\<lambda>indexed.
                and_then (index_output block block_first_uid tx output current_p2tr_slot p2tr_xonly_key
                    is_reused_output (acc0\<lparr>ba_state := state, ba_stats := stats2\<lparr>
                       st_indexed_output_count := st_indexed_output_count stats2 + 1\<rparr>\<rparr>))
                  (\<lambda>acc. Inr (acc, True, indexed)))))))"

text \<open>The end of a transaction's iteration: its tweak entry or its bit in the bitmap.\<close>

definition finish_tx :: "u16 \<Rightarrow> TxScanInput \<Rightarrow> block_acc \<times> bool \<times> u16 \<Rightarrow> block_acc result" where
  "finish_tx tx_count tx st =
     (let (acc2, tx_has_p2tr_output, tx_indexed_output_count) = st;
          stats2 = ba_stats acc2;
          stats3 = (if tx_has_p2tr_output
            then stats2\<lparr>st_tx_with_p2tr_output_count := st_tx_with_p2tr_output_count stats2 + 1\<rparr>
            else stats2)
      in if tx_indexed_output_count > 0
         then
           let stats4 = stats3\<lparr>st_tx_with_indexed_output_count :=
                 st_tx_with_indexed_output_count stats3 + 1\<rparr>
           in case tx_silent_payment_tweak tx of
                Some tweak \<Rightarrow> Inr (acc2\<lparr>
                  ba_tweaks := ba_tweaks acc2
                    @ [\<lparr>te_output_count = tx_indexed_output_count, te_tweak = tweak\<rparr>],
                  ba_stats := stats4\<lparr>st_tweak_count := st_tweak_count stats4 + 1\<rparr>\<rparr>)
              | None \<Rightarrow> Inr (acc2\<lparr>ba_stats := stats4\<rparr>)
         else and_then (set_skipped_tx_in_bitmap tx_count (ba_skipped_txs acc2) (tx_tx_index tx))
                (\<lambda>bm. Inr (acc2\<lparr>ba_skipped_txs := bm, ba_stats := stats3\<rparr>)))"

definition apply_tx :: "BlockScanInput \<Rightarrow> u64 \<Rightarrow> u16 \<Rightarrow> TxScanInput \<Rightarrow> block_acc \<Rightarrow> block_acc result" where
  "apply_tx block block_first_uid tx_count tx acc0 =
     and_then (try_fold (apply_input block tx) (tx_inputs tx) acc0) (\<lambda>acc1.
     and_then (try_fold (apply_output block block_first_uid tx) (tx_outputs tx) (acc1, False, 0))
       (finish_tx tx_count tx))"

definition advance_uid :: "u64 \<Rightarrow> block_acc \<Rightarrow> P2trIndexerState result" where
  "advance_uid block_first_uid acc =
     (let count = st_p2tr_output_count (ba_stats acc) in
      if count > 0
      then and_then (ok_or (Option.bind (checked_add block_first_uid (ucast count))
               (\<lambda>next_after_block. checked_sub next_after_block 1)) ''scoped UID overflow'')
             (\<lambda>uid. Inr ((ba_state acc)\<lparr>next_uid := uid\<rparr>))
      else Inr (ba_state acc))"

definition apply_block_with_stats :: "sha256_fun \<Rightarrow> P2trIndexerState \<Rightarrow> BlockScanInput
    \<Rightarrow> (P2trIndexerState \<times> AppliedBlock) result" where
  "apply_block_with_stats sha256 state block =
     (let block_first_uid = saturating_add (next_uid state) 1 in
      and_then (try_from_nat (length (bs_txs block))) (\<lambda>tx_count.
      and_then (empty_skipped_txs_for_tweaks_bitmap tx_count) (\<lambda>skipped_txs_for_tweaks.
      and_then (try_fold (apply_tx block block_first_uid tx_count) (bs_txs block)
        \<lparr>ba_state = state, ba_outputs = [], ba_spends = [], ba_skipped_txs = skipped_txs_for_tweaks,
         ba_tweaks = [], ba_skipped_outputs = [], ba_stats = default_stats\<lparr>st_tx_count := tx_count\<rparr>,
         ba_created = [], ba_spent = []\<rparr>) (\<lambda>acc.
      and_then (advance_uid block_first_uid acc) (\<lambda>state'.
      and_then (build_stored_truncated_output_hashes sha256 (bs_raw_block_bytes block) (ba_outputs acc)
        RESPONSE_LABEL_BUDGET_TWO) (\<lambda>two.
      and_then (build_stored_truncated_output_hashes sha256 (bs_raw_block_bytes block) (ba_outputs acc)
        RESPONSE_LABEL_BUDGET_HUNDRED) (\<lambda>hundred.
      let storage_block =
        \<lparr>sb_height = bs_height block, sb_block_hash = bs_block_hash block,
         sb_previous_block_hash = bs_previous_block_hash block, sb_first_uid = block_first_uid,
         sb_tx_count = tx_count, sb_skipped_txs_for_tweaks = ba_skipped_txs acc,
         sb_tweaks = ba_tweaks acc, sb_skipped_outputs = ba_skipped_outputs acc,
         sb_outputs = ba_outputs acc, sb_spends = ba_spends acc,
         sb_raw_block_bytes = bs_raw_block_bytes block,
         sb_truncated_output_hash_for_two_labels = two,
         sb_truncated_output_hash_for_hundred_labels = hundred\<rparr>
      in and_then (to_response_input_for_labels storage_block None) (\<lambda>light_block.
         Inr (state', \<lparr>ab_light_block = light_block, ab_storage_block = storage_block,
           ab_stats = ba_stats acc, ab_created_utxos = ba_created acc,
           ab_spent_utxos = ba_spent acc\<rparr>)))))))))"

definition apply_block :: "sha256_fun \<Rightarrow> P2trIndexerState \<Rightarrow> BlockScanInput
    \<Rightarrow> (P2trIndexerState \<times> LightBlockInput) result" where
  "apply_block sha256 state block =
     and_then (apply_block_with_stats sha256 state block) (\<lambda>(state', applied).
       Inr (state', ab_light_block applied))"

section \<open>What one step does\<close>

abbreviation utxos :: "P2trIndexerState \<Rightarrow> OutPointKey \<Rightarrow> SpendLookup option" where
  "utxos state \<equiv> map_of (outpoint_to_spend state)"

abbreviation acc_utxos :: "block_acc \<Rightarrow> OutPointKey \<Rightarrow> SpendLookup option" where
  "acc_utxos acc \<equiv> utxos (ba_state acc)"

text \<open>The number of P2TR output slots used so far in the block.\<close>

definition slots :: "block_acc \<Rightarrow> nat" where
  "slots acc = unat (st_p2tr_output_count (ba_stats acc))"

lemma see_key_state [simp]:
  "outpoint_to_spend (snd (see_key key state)) = outpoint_to_spend state"
  "next_uid (snd (see_key key state)) = next_uid state"
  "live_uid_count (snd (see_key key state)) = live_uid_count state"
  by (simp_all add: see_key_def split: option.splits)

lemma unat_ucast_u32_u64: "unat (ucast (x :: u32) :: u64) = unat x"
proof -
  have "unat x < 2 ^ LENGTH(64)" using unat_bounds(3) [of x] by simp
  then have "unat (word_of_nat (unat x) :: u64) = unat x" by (rule unat_word_of_nat_small)
  then show ?thesis by simp
qed

lemma apply_input_cases:
  assumes "apply_input block tx inp acc = Inr acc'"
  obtains (miss) "acc_utxos acc (ti_previous_output inp) = None" and "acc' = acc"
  | (hit) spend where "acc_utxos acc (ti_previous_output inp) = Some spend"
    and "unat (sl_creation_height spend) < 2 ^ 32"
    and "acc_utxos acc' = (acc_utxos acc)(ti_previous_output inp := None)"
    and "ba_spends acc' = ba_spends acc
      @ [\<lparr>ss_spent_uid = sl_uid spend, ss_creation_height = word_of_nat (unat (sl_creation_height spend))\<rparr>]"
    and "slots acc' = slots acc" and "ba_outputs acc' = ba_outputs acc"
    and "ba_skipped_outputs acc' = ba_skipped_outputs acc" and "ba_tweaks acc' = ba_tweaks acc"
    and "ba_created acc' = ba_created acc" and "ba_skipped_txs acc' = ba_skipped_txs acc"
    and "seen_p2tr_keys (ba_state acc') = seen_p2tr_keys (ba_state acc)"
    and "next_uid (ba_state acc') = next_uid (ba_state acc)"
    and "map sp_uid (ba_spent acc') = map sp_uid (ba_spent acc) @ [sl_uid spend]"
    and "map sp_outpoint (ba_spent acc') = map sp_outpoint (ba_spent acc) @ [ti_previous_output inp]"
proof (cases "acc_utxos acc (ti_previous_output inp)")
  case None
  with assms show thesis by (intro miss) (auto simp: apply_input_def)
next
  case (Some spend)
  with assms show thesis
    by (intro hit [of spend]) (auto simp: apply_input_def Let_def result_simps slots_def delete_conv')
qed

lemma index_output_Inr:
  assumes "index_output block f tx out slot key reused acc = Inr acc'"
  obtains uid where "unat uid = unat f + unat slot" and "length (ba_outputs acc) < 2 ^ 32"
    and "acc_utxos acc' = (acc_utxos acc)(\<lparr>op_txid = tx_txid tx, op_vout = to_vout out\<rparr> \<mapsto>
      \<lparr>sl_uid = uid, sl_creation_height = bs_height block,
       sl_output_index = word_of_nat (length (ba_outputs acc)),
       sl_flags = (if reused then STORAGE_OUTPUT_FLAG_REUSED else 0)\<rparr>)"
    and "map (su_uid \<circ> cu_entry) (ba_created acc') = map (su_uid \<circ> cu_entry) (ba_created acc) @ [uid]"
    and "ba_outputs acc' = ba_outputs acc @ [\<lparr>so_key = key,
      so_spent_height = STORAGE_SPENT_HEIGHT_UNSPENT,
      so_flags = (if reused then STORAGE_OUTPUT_FLAG_REUSED else 0)\<rparr>]"
    and "slots acc' = slots acc" and "ba_spends acc' = ba_spends acc"
    and "ba_skipped_outputs acc' = ba_skipped_outputs acc" and "ba_tweaks acc' = ba_tweaks acc"
    and "ba_skipped_txs acc' = ba_skipped_txs acc" and "ba_spent acc' = ba_spent acc"
    and "seen_p2tr_keys (ba_state acc') = seen_p2tr_keys (ba_state acc)"
    and "next_uid (ba_state acc') = next_uid (ba_state acc)"
proof -
  from assms obtain uid where uid: "checked_add f (ucast slot) = Some uid"
    by (auto simp: index_output_def result_simps)
  then have "unat uid = unat f + unat slot" using unat_checked_add [OF uid] by (simp add: unat_ucast_u32_u64)
  with assms uid show thesis
    by (intro that [of uid]) (auto simp: index_output_def result_simps Let_def slots_def update_conv')
qed

lemma apply_output_cases:
  assumes "apply_output block f tx out (acc, has, k) = Inr (acc', has', k')"
  obtains (other) stats where "\<not> to_is_p2tr out" and "k' = k" and "slots acc' = slots acc"
    and "acc' = acc\<lparr>ba_stats := stats\<rparr>"
  | (skipped) key stats where "to_is_p2tr out" and "to_p2tr_xonly_key out = Some key"
    and "to_is_nums out \<or> tx_silent_payment_tweak tx = None" and "k' = k"
    and "slots acc < 2 ^ 16" and "slots acc' = slots acc + 1"
    and "acc' = acc\<lparr>ba_state := snd (see_key key (ba_state acc)),
      ba_skipped_outputs := ba_skipped_outputs acc @ [word_of_nat (slots acc)], ba_stats := stats\<rparr>"
  | (indexed) key acc1 stats where "to_is_p2tr out" and "to_p2tr_xonly_key out = Some key"
    and "tx_silent_payment_tweak tx \<noteq> None" and "\<not> to_is_nums out"
    and "unat k' = unat k + 1" and "slots acc < 2 ^ 16" and "slots acc1 = slots acc + 1"
    and "acc1 = acc\<lparr>ba_state := snd (see_key key (ba_state acc)), ba_stats := stats\<rparr>"
    and "index_output block f tx out (word_of_nat (slots acc)) key
      (fst (see_key key (ba_state acc))) acc1 = Inr acc'"
proof (cases "to_is_p2tr out")
  case False
  with assms show thesis by (intro other [of "ba_stats acc'"]) (auto simp: apply_output_def Let_def slots_def)
next
  case True
  let ?slot = "st_p2tr_output_count (ba_stats acc)"
  from assms True obtain count key where
    small: "slots acc < 2 ^ 16" and count: "checked_add ?slot 1 = Some count"
    and key: "to_p2tr_xonly_key out = Some key"
    by (auto simp: apply_output_def Let_def result_simps p2tr_output_identity_def slots_def)
  have u: "unat count = slots acc + 1" using unat_checked_add [OF count] by (simp add: slots_def)
  have slot: "?slot = word_of_nat (slots acc)" by (simp add: slots_def)
  have b16: "try_from_nat (unat ?slot) = Inr (word_of_nat (slots acc) :: u16)"
    using small by (simp add: try_from_nat_def slots_def)
  obtain reused state where see: "see_key key (ba_state acc) = (reused, state)" by (cases "see_key key (ba_state acc)")
  note simps = apply_output_def Let_def result_simps p2tr_output_identity_def key see count b16
  show thesis
  proof (cases "to_is_nums out \<or> tx_silent_payment_tweak tx = None")
    case skip: True
    with assms True small u see key show thesis
      by (intro skipped [of key "ba_stats acc'"]) (auto simp: simps slots_def)
  next
    case False
    define stats where "stats = (ba_stats acc)\<lparr>
      st_output_count_total := st_output_count_total (ba_stats acc) + 1, st_p2tr_output_count := count,
      st_p2tr_count := st_p2tr_count (ba_stats acc) + 1,
      st_p2tr_reused_count := st_p2tr_reused_count (ba_stats acc) + (if reused then 1 else 0),
      st_indexed_output_count := st_indexed_output_count (ba_stats acc) + 1\<rparr>"
    have stats: "st_p2tr_output_count stats = count" by (simp add: stats_def)
    from assms True False have step: "checked_add k 1 = Some k'"
      and idx: "index_output block f tx out ?slot key reused (acc\<lparr>ba_state := state, ba_stats := stats\<rparr>) = Inr acc'"
      by (auto simp: simps stats_def)
    have "unat k' = unat k + 1" using unat_checked_add [OF step] by simp
    with idx stats u True False key small see show thesis
      by (intro indexed [of key "acc\<lparr>ba_state := state, ba_stats := stats\<rparr>" stats]) (auto simp: slots_def)
  qed
qed

lemma finish_tx_state:
  "finish_tx n tx (acc, has, k) = Inr acc' \<Longrightarrow>
     ba_state acc' = ba_state acc \<and> ba_spends acc' = ba_spends acc \<and> ba_outputs acc' = ba_outputs acc
     \<and> ba_created acc' = ba_created acc \<and> ba_spent acc' = ba_spent acc"
  by (auto simp: finish_tx_def Let_def result_simps split: if_splits option.splits)

end
