(* ===== verification/P2tr_Invariants.thy ===== *)
theory P2tr_Invariants
  imports P2tr_Indexer
begin

text \<open>
  The invariants of block application in \<^verbatim>\<open>light-server/src/p2tr_indexer.rs\<close>: the
  slots of a block's P2TR outputs are split between the stored outputs and the
  skipped ones, UIDs are the first UID plus the slot, the spend index
  holds each UID once, and the transactions are split between the tweak
  entries and the skipped bitmap.
\<close>

section \<open>Slots and UIDs\<close>

definition slot_inv :: "block_acc \<Rightarrow> u16 \<Rightarrow> bool" where
  "slot_inv acc k \<longleftrightarrow>
     slots acc = length (ba_outputs acc) + length (ba_skipped_outputs acc) \<and> slots acc \<le> 2 ^ 16
     \<and> sorted_wrt (<) (ba_skipped_outputs acc) \<and> (\<forall>s \<in> set (ba_skipped_outputs acc). unat s < slots acc)
     \<and> declared_outputs (ba_tweaks acc) + unat k = length (ba_outputs acc)"

definition free_slots :: "nat \<Rightarrow> u16 list \<Rightarrow> nat list" where
  "free_slots n skipped = filter (\<lambda>s. s \<notin> unat ` set skipped) [0..<n]"

definition uid_inv :: "u64 \<Rightarrow> block_acc \<Rightarrow> bool" where
  "uid_inv f acc \<longleftrightarrow>
     map unat (map (su_uid \<circ> cu_entry) (ba_created acc))
       = map (\<lambda>s. unat f + s) (free_slots (slots acc) (ba_skipped_outputs acc))"

definition inj_uids :: "(OutPointKey \<Rightarrow> SpendLookup option) \<Rightarrow> bool" where
  "inj_uids m \<longleftrightarrow> (\<forall>p q s t. m p = Some s \<longrightarrow> m q = Some t \<longrightarrow> sl_uid s = sl_uid t \<longrightarrow> p = q)"

definition utxo_inv :: "u64 \<Rightarrow> u64 \<Rightarrow> block_acc \<Rightarrow> bool" where
  "utxo_inv f h acc \<longleftrightarrow>
     inj_uids (acc_utxos acc)
     \<and> (\<forall>p s. acc_utxos acc p = Some s \<longrightarrow>
          unat (sl_uid s) < unat f + slots acc \<and> unat (sl_creation_height s) \<le> unat h)
     \<and> distinct (map ss_spent_uid (ba_spends acc))
     \<and> (\<forall>e \<in> set (ba_spends acc). unat (ss_spent_uid e) < unat f + slots acc
          \<and> unat (ss_creation_height e) \<le> unat h
          \<and> (\<forall>p s. acc_utxos acc p = Some s \<longrightarrow> sl_uid s \<noteq> ss_spent_uid e))"

lemma slot_inv_input:
  assumes "apply_input block tx inp acc = Inr acc'" and "slot_inv acc k"
  shows "slot_inv acc' k"
  using assms by (cases rule: apply_input_cases) (auto simp: slot_inv_def)

lemma uid_inv_input:
  assumes "apply_input block tx inp acc = Inr acc'" and "uid_inv f acc"
  shows "uid_inv f acc'"
  using assms by (cases rule: apply_input_cases) (simp_all add: uid_inv_def)

lemma utxo_inv_input:
  assumes "apply_input block tx inp acc = Inr acc'" and "utxo_inv f h acc"
  shows "utxo_inv f h acc'"
  using assms(1)
proof (cases rule: apply_input_cases)
  case miss
  with assms(2) show ?thesis by simp
next
  case (hit spend)
  have other: "sl_uid s \<noteq> sl_uid spend" if "p \<noteq> ti_previous_output inp" "acc_utxos acc p = Some s" for p s
    using assms(2) that hit(1) unfolding utxo_inv_def inj_uids_def by metis
  have h: "unat (word_of_nat (unat (sl_creation_height spend)) :: u32) = unat (sl_creation_height spend)"
    using hit(2) by (intro unat_word_of_nat_small) simp
  have fresh: "\<forall>e \<in> set (ba_spends acc). ss_spent_uid e \<noteq> sl_uid spend"
    using assms(2) hit(1) unfolding utxo_inv_def by metis
  have inj: "inj_uids (acc_utxos acc')"
    using assms(2) unfolding hit(3) utxo_inv_def inj_uids_def by (auto split: if_splits)
  show ?thesis
    using assms(2) hit(1) other h fresh inj unfolding utxo_inv_def hit(3,4,5)
    by (auto split: if_splits)
qed

lemma free_slots_Suc:
  "free_slots (Suc n) skipped = free_slots n skipped @ (if n \<in> unat ` set skipped then [] else [n])"
  by (simp add: free_slots_def)

lemma free_slots_skip:
  "n < 2 ^ 16 \<Longrightarrow> free_slots (Suc n) (skipped @ [word_of_nat n]) = free_slots n skipped"
  by (auto simp: free_slots_def unat_word_of_nat_small intro: filter_cong)

lemma slot_inv_output:
  assumes "apply_output block f tx out (acc, has, k) = Inr (acc', has', k')" and "slot_inv acc k"
  shows "slot_inv acc' k'"
  using assms(1)
proof (cases rule: apply_output_cases)
  case (other stats)
  with assms(2) show ?thesis by (auto simp: slot_inv_def)
next
  case (skipped key stats)
  have u: "unat (word_of_nat (slots acc) :: u16) = slots acc"
    using skipped(5) by (simp add: unat_word_of_nat_small)
  have below: "\<forall>s \<in> set (ba_skipped_outputs acc). unat s < slots acc"
    using assms(2) unfolding slot_inv_def by blast
  then have "\<forall>s \<in> set (ba_skipped_outputs acc). s < word_of_nat (slots acc)"
    unfolding word_less_nat_alt u .
  moreover have "\<forall>s \<in> set (ba_skipped_outputs acc'). unat s < slots acc'"
    using below u skipped(6,7) by auto
  ultimately show ?thesis
    using assms(2) skipped(4-7) by (auto simp: slot_inv_def sorted_wrt_append)
next
  case (indexed key acc1 stats)
  from indexed(9) show ?thesis
    by (rule index_output_Inr) (use assms(2) indexed(5-8) in \<open>auto simp: slot_inv_def\<close>)
qed

lemma uid_inv_output:
  assumes "apply_output block f tx out (acc, has, k) = Inr (acc', has', k')"
    and "uid_inv f acc" and "slot_inv acc k"
  shows "uid_inv f acc'"
  using assms(1)
proof (cases rule: apply_output_cases)
  case (other stats)
  with assms(2) show ?thesis by (auto simp: uid_inv_def)
next
  case (skipped key stats)
  with assms(2) show ?thesis using free_slots_skip [of "slots acc"] by (auto simp: uid_inv_def)
next
  case (indexed key acc1 stats)
  have fresh: "slots acc \<notin> unat ` set (ba_skipped_outputs acc)"
    using assms(3) by (auto simp: slot_inv_def)
  have slot: "unat (word_of_nat (slots acc) :: u32) = slots acc"
    using indexed(6) by (simp add: unat_word_of_nat_small)
  from indexed(9) show ?thesis
  proof (rule index_output_Inr)
    fix uid assume "unat uid = unat f + unat (word_of_nat (slots acc) :: u32)"
      "map (su_uid \<circ> cu_entry) (ba_created acc') = map (su_uid \<circ> cu_entry) (ba_created acc1) @ [uid]"
      "slots acc' = slots acc1" "ba_skipped_outputs acc' = ba_skipped_outputs acc1"
    with assms(2) indexed(7,8) fresh slot show ?thesis
      by (simp add: uid_inv_def free_slots_Suc del: map_map)
  qed
qed

lemma utxo_inv_output:
  assumes "apply_output block f tx out (acc, has, k) = Inr (acc', has', k')"
    and "utxo_inv f (bs_height block) acc"
  shows "utxo_inv f (bs_height block) acc'"
  using assms(1)
proof (cases rule: apply_output_cases)
  case (other stats)
  with assms(2) show ?thesis by (simp add: utxo_inv_def)
next
  case (skipped key stats)
  with assms(2) show ?thesis by (fastforce simp: utxo_inv_def)
next
  case (indexed key acc1 stats)
  have slot: "unat (word_of_nat (slots acc) :: u32) = slots acc"
    using indexed(6) by (simp add: unat_word_of_nat_small)
  have same: "acc_utxos acc1 = acc_utxos acc" "ba_spends acc1 = ba_spends acc"
    using indexed(8) by simp_all
  from indexed(9) show ?thesis
  proof (rule index_output_Inr)
    fix uid
    let ?op = "\<lparr>op_txid = tx_txid tx, op_vout = to_vout out\<rparr>"
    let ?new = "\<lparr>sl_uid = uid, sl_creation_height = bs_height block,
       sl_output_index = word_of_nat (length (ba_outputs acc1)),
       sl_flags = (if fst (see_key key (ba_state acc)) then STORAGE_OUTPUT_FLAG_REUSED else 0)\<rparr>"
    assume "unat uid = unat f + unat (word_of_nat (slots acc) :: u32)"
      and map: "acc_utxos acc' = (acc_utxos acc1)(?op \<mapsto> ?new)"
      and rest: "slots acc' = slots acc1" "ba_spends acc' = ba_spends acc1"
    then have uid: "unat uid = unat f + slots acc" using slot by simp
    then have fresh: "\<forall>p s. acc_utxos acc p = Some s \<longrightarrow> sl_uid s \<noteq> uid"
      "\<forall>e \<in> set (ba_spends acc). ss_spent_uid e \<noteq> uid"
      using assms(2) unfolding utxo_inv_def by fastforce+
    have "inj_uids (acc_utxos acc')"
      using assms(2) fresh(1) unfolding map same utxo_inv_def inj_uids_def by (auto split: if_splits)
    then show ?thesis
      using assms(2) fresh uid unfolding utxo_inv_def map same rest indexed(7)
      by (auto simp: less_Suc_eq split: if_splits)
  qed
qed

section \<open>One output, one transaction\<close>

definition width_inv :: "block_acc \<Rightarrow> bool" where
  "width_inv acc \<longleftrightarrow> (\<forall>x \<in> set (ba_outputs acc). length (so_key x) = 32)
     \<and> (\<forall>t \<in> set (ba_tweaks acc). length (te_tweak t) = 33)"

definition acc_inv :: "u64 \<Rightarrow> u64 \<Rightarrow> block_acc \<Rightarrow> u16 \<Rightarrow> bool" where
  "acc_inv f h acc k \<longleftrightarrow> slot_inv acc k \<and> uid_inv f acc \<and> utxo_inv f h acc \<and> width_inv acc"

text \<open>A scanned transaction: P2TR outputs come with their 32-byte key, tweaks have 33 bytes.\<close>

definition wf_output :: "TxOutputScan \<Rightarrow> bool" where
  "wf_output out \<longleftrightarrow> (to_is_p2tr out \<longrightarrow> (\<exists>key. to_p2tr_xonly_key out = Some key \<and> length key = 32))"

definition wf_tx :: "TxScanInput \<Rightarrow> bool" where
  "wf_tx tx \<longleftrightarrow> (\<forall>out \<in> set (tx_outputs tx). wf_output out)
     \<and> (\<forall>t. tx_silent_payment_tweak tx = Some t \<longrightarrow> length t = 33)"

definition p2tr_count :: "TxOutputScan list \<Rightarrow> nat" where
  "p2tr_count outs = length (filter to_is_p2tr outs)"

lemma p2tr_count_simps [simp]:
  "p2tr_count [] = 0"
  "p2tr_count (out # outs) = (if to_is_p2tr out then 1 else 0) + p2tr_count outs"
  by (simp_all add: p2tr_count_def)

lemma slots_output:
  assumes "apply_output block f tx out (acc, has, k) = Inr (acc', has', k')"
  shows "slots acc' = slots acc + (if to_is_p2tr out then 1 else 0)"
  using assms
proof (cases rule: apply_output_cases)
  case (indexed key acc1 stats)
  from indexed(9) show ?thesis by (rule index_output_Inr) (use indexed in simp)
qed simp_all

lemma width_inv_output:
  assumes "apply_output block f tx out (acc, has, k) = Inr (acc', has', k')"
    and "width_inv acc" and "wf_output out"
  shows "width_inv acc'"
  using assms(1)
proof (cases rule: apply_output_cases)
  case (indexed key acc1 stats)
  have "length key = 32" using assms(3) indexed(1,2) by (simp add: wf_output_def)
  moreover from indexed(9) have "ba_tweaks acc' = ba_tweaks acc"
      "\<exists>o'. ba_outputs acc' = ba_outputs acc @ [o'] \<and> so_key o' = key"
    by (rule index_output_Inr, use indexed(8) in simp)+
  ultimately show ?thesis using assms(2) by (auto simp: width_inv_def)
qed (use assms(2) in \<open>auto simp: width_inv_def\<close>)

lemma acc_inv_output:
  assumes "apply_output block f tx out (acc, has, k) = Inr (acc', has', k')"
    and "acc_inv f (bs_height block) acc k" and "wf_output out"
  shows "acc_inv f (bs_height block) acc' k'"
  using assms slot_inv_output uid_inv_output utxo_inv_output width_inv_output
  unfolding acc_inv_def by metis

lemma acc_inv_input:
  assumes "apply_input block tx inp acc = Inr acc'" and "acc_inv f h acc k"
  shows "acc_inv f h acc' k"
proof -
  have "width_inv acc'"
    using assms(1) by (cases rule: apply_input_cases) (use assms(2) in \<open>simp_all add: acc_inv_def width_inv_def\<close>)
  with assms show ?thesis
    using slot_inv_input uid_inv_input utxo_inv_input unfolding acc_inv_def by metis
qed

lemma output_frame:
  assumes "apply_output block f tx out (acc, has, k) = Inr (acc', has', k')"
  shows "ba_tweaks acc' = ba_tweaks acc \<and> ba_skipped_txs acc' = ba_skipped_txs acc
    \<and> next_uid (ba_state acc') = next_uid (ba_state acc)
    \<and> (tx_silent_payment_tweak tx = None \<longrightarrow> k' = k)"
  using assms
proof (cases rule: apply_output_cases)
  case (indexed key acc1 stats)
  from indexed(9) show ?thesis by (rule index_output_Inr) (use indexed in auto)
qed simp_all

lemma input_frame:
  assumes "apply_input block tx inp acc = Inr acc'"
  shows "ba_tweaks acc' = ba_tweaks acc \<and> ba_skipped_txs acc' = ba_skipped_txs acc
    \<and> next_uid (ba_state acc') = next_uid (ba_state acc) \<and> slots acc' = slots acc"
  using assms by (cases rule: apply_input_cases) simp_all

lemma output_total:
  assumes inv: "acc_inv f h acc k" and "wf_output out"
    and room: "slots acc + (if to_is_p2tr out then 1 else 0) \<le> 65535" "unat f + slots acc < 2 ^ 64"
  shows "\<exists>acc' has' k'. apply_output block f tx out (acc, has, k) = Inr (acc', has', k')"
proof (cases "to_is_p2tr out")
  case False
  then show ?thesis by (simp add: apply_output_def Let_def)
next
  case True
  obtain key where key: "to_p2tr_xonly_key out = Some key" using assms(2) True by (auto simp: wf_output_def)
  let ?slot = "st_p2tr_output_count (ba_stats acc)"
  have s: "unat ?slot < 65535" using room(1) True by (simp add: slots_def)
  have ks: "unat k + length (ba_skipped_outputs acc) \<le> slots acc" "length (ba_outputs acc) \<le> slots acc"
    using inv by (auto simp: acc_inv_def slot_inv_def)
  have "checked_add ?slot 1 = Some (?slot + 1)" using s by (simp add: checked_add_def)
  moreover have "checked_add k 1 = Some (k + 1)" using ks s by (simp add: checked_add_def slots_def)
  moreover have "checked_add f (ucast ?slot) = Some (f + ucast ?slot)"
    using room(2) by (simp add: checked_add_def unat_ucast_u32_u64 slots_def)
  moreover have "try_from_nat (unat ?slot) = Inr (word_of_nat (unat ?slot) :: u16)"
    using s by (simp add: try_from_nat_def)
  moreover have "try_from_nat (length (ba_outputs acc)) = Inr (word_of_nat (length (ba_outputs acc)) :: u32)"
    using ks s by (simp add: try_from_nat_def slots_def)
  ultimately show ?thesis
    using True key
    by (cases "see_key key (ba_state acc)")
      (auto simp: apply_output_def Let_def p2tr_output_identity_def index_output_def)
qed

lemma outputs_fold:
  assumes "acc_inv f (bs_height block) acc k" and "\<forall>out \<in> set outs. wf_output out"
    and "slots acc + p2tr_count outs \<le> 65535" and "unat f + 65535 < 2 ^ 64"
    and "tx_silent_payment_tweak tx = None \<longrightarrow> k = 0"
  shows "\<exists>acc' has' k'. try_fold (apply_output block f tx) outs (acc, has, k) = Inr (acc', has', k')
    \<and> acc_inv f (bs_height block) acc' k' \<and> slots acc' = slots acc + p2tr_count outs
    \<and> ba_tweaks acc' = ba_tweaks acc \<and> ba_skipped_txs acc' = ba_skipped_txs acc
    \<and> next_uid (ba_state acc') = next_uid (ba_state acc)
    \<and> (tx_silent_payment_tweak tx = None \<longrightarrow> k' = 0)"
  using assms
proof (induction outs arbitrary: acc has k)
  case (Cons out outs)
  have out: "wf_output out" using Cons.prems(2) by simp
  have "slots acc + (if to_is_p2tr out then 1 else 0) \<le> 65535" "unat f + slots acc < 2 ^ 64"
    using Cons.prems(3,4) by auto
  from output_total [OF Cons.prems(1) out this] obtain acc1 has1 k1 where
    step: "apply_output block f tx out (acc, has, k) = Inr (acc1, has1, k1)" by blast
  note facts = acc_inv_output [OF step Cons.prems(1) out] slots_output [OF step] output_frame [OF step]
  from Cons.IH [of acc1 k1 has1] facts Cons.prems step show ?case by auto
qed simp

lemma inputs_fold:
  assumes "acc_inv f h acc k" and "unat h < 2 ^ 32"
  shows "\<exists>acc'. try_fold (apply_input block tx) inps acc = Inr acc' \<and> acc_inv f h acc' k
    \<and> slots acc' = slots acc \<and> ba_tweaks acc' = ba_tweaks acc \<and> ba_skipped_txs acc' = ba_skipped_txs acc
    \<and> next_uid (ba_state acc') = next_uid (ba_state acc)"
  using assms(1)
proof (induction inps arbitrary: acc)
  case (Cons inp inps)
  have "\<exists>acc1. apply_input block tx inp acc = Inr acc1"
    using Cons.prems assms(2)
    by (fastforce simp: apply_input_def Let_def try_from_nat_def acc_inv_def utxo_inv_def split: option.splits)
  then obtain acc1 where step: "apply_input block tx inp acc = Inr acc1" by blast
  from Cons.IH [OF acc_inv_input [OF step Cons.prems]] input_frame [OF step] step show ?case by auto
qed simp

section \<open>Transactions\<close>

text \<open>After \<open>j\<close> transactions each of them has a tweak entry or a bit in the bitmap.\<close>

definition tx_inv :: "nat \<Rightarrow> nat \<Rightarrow> block_acc \<Rightarrow> bool" where
  "tx_inv n j acc \<longleftrightarrow> valid_bitmap n (ba_skipped_txs acc) \<and> skipped_set n (ba_skipped_txs acc) \<subseteq> {..<j}
     \<and> card (skipped_set n (ba_skipped_txs acc)) + length (ba_tweaks acc) = j"

lemma acc_inv_stats:
  "acc_inv f h (acc\<lparr>ba_stats := stats\<rparr>) k \<longleftrightarrow> acc_inv f h acc k"
  "acc_inv f h (acc\<lparr>ba_skipped_txs := bm, ba_stats := stats\<rparr>) k \<longleftrightarrow> acc_inv f h acc k"
  if "st_p2tr_output_count stats = st_p2tr_output_count (ba_stats acc)"
  using that by (simp_all add: acc_inv_def slot_inv_def uid_inv_def utxo_inv_def width_inv_def slots_def)

lemma acc_inv_bitmap: "acc_inv f h (acc\<lparr>ba_skipped_txs := bm\<rparr>) k \<longleftrightarrow> acc_inv f h acc k"
  by (simp add: acc_inv_def slot_inv_def uid_inv_def utxo_inv_def width_inv_def slots_def)

lemma acc_inv_tweak:
  assumes "acc_inv f h acc k" and "length t = 33"
    and "st_p2tr_output_count stats = st_p2tr_output_count (ba_stats acc)"
  shows "acc_inv f h (acc\<lparr>ba_tweaks := ba_tweaks acc @ [\<lparr>te_output_count = k, te_tweak = t\<rparr>],
    ba_stats := stats\<rparr>) 0"
  using assms by (auto simp: acc_inv_def slot_inv_def uid_inv_def utxo_inv_def width_inv_def slots_def)

lemma tx_step:
  assumes inv: "acc_inv f (bs_height block) acc 0" and wf: "wf_tx tx"
    and room: "slots acc + p2tr_count (tx_outputs tx) \<le> 65535" "unat f + 65535 < 2 ^ 64"
    and h: "unat (bs_height block) < 2 ^ 32"
    and tinv: "tx_inv (unat n) j acc" and j: "tx_tx_index tx = word_of_nat j" "j < unat (n :: u16)"
  shows "\<exists>acc'. apply_tx block f n tx acc = Inr acc' \<and> acc_inv f (bs_height block) acc' 0
    \<and> tx_inv (unat n) (Suc j) acc' \<and> slots acc' = slots acc + p2tr_count (tx_outputs tx)
    \<and> next_uid (ba_state acc') = next_uid (ba_state acc)"
proof -
  from inputs_fold [OF inv h, of block tx "tx_inputs tx"] obtain acc1 where
    ins: "try_fold (apply_input block tx) (tx_inputs tx) acc = Inr acc1"
    and acc1: "acc_inv f (bs_height block) acc1 0" "slots acc1 = slots acc" "ba_tweaks acc1 = ba_tweaks acc"
      "ba_skipped_txs acc1 = ba_skipped_txs acc" "next_uid (ba_state acc1) = next_uid (ba_state acc)" by blast
  from outputs_fold [OF acc1(1), of "tx_outputs tx" tx False] acc1 room wf obtain acc2 has k where
    outs: "try_fold (apply_output block f tx) (tx_outputs tx) (acc1, False, 0) = Inr (acc2, has, k)"
    and acc2: "acc_inv f (bs_height block) acc2 k" "slots acc2 = slots acc + p2tr_count (tx_outputs tx)"
      "ba_tweaks acc2 = ba_tweaks acc" "ba_skipped_txs acc2 = ba_skipped_txs acc"
      "next_uid (ba_state acc2) = next_uid (ba_state acc)"
    and none: "tx_silent_payment_tweak tx = None \<longrightarrow> k = 0"
    by (auto simp: wf_tx_def)
  have tinv2: "tx_inv (unat n) j acc2" using tinv acc2(3,4) by (simp add: tx_inv_def)
  show ?thesis
  proof (cases "0 < k")
    case True
    with none obtain t where t: "tx_silent_payment_tweak tx = Some t" by auto
    then have "length t = 33" using wf by (simp add: wf_tx_def)
    then have "acc_inv f (bs_height block) (acc2\<lparr>ba_tweaks := ba_tweaks acc
        @ [\<lparr>te_output_count = k, te_tweak = t\<rparr>], ba_stats := stats\<rparr>) 0"
      if "st_p2tr_output_count stats = st_p2tr_output_count (ba_stats acc2)" for stats
      using acc_inv_tweak [OF acc2(1) _ that] acc2(3) by simp
    with True t ins outs acc2 tinv2 show ?thesis
      by (auto simp: apply_tx_def finish_tx_def Let_def tx_inv_def slots_def)
  next
    case False
    then have k: "k = 0" by (simp add: word_greater_zero_iff)
    have idx: "tx_tx_index tx < n" "unat (tx_tx_index tx) = j"
      using u16_of_nat_below [OF j(2)] j(1) by simp_all
    have v: "valid_bitmap (unat n) (ba_skipped_txs acc2)" using tinv2 by (simp add: tx_inv_def)
    from bm.insert_ok [OF v idx(1)] obtain bm where
      bm: "set_skipped_tx_in_bitmap n (ba_skipped_txs acc2) (tx_tx_index tx) = Inr bm" "valid_bitmap (unat n) bm"
        "skipped_set (unat n) bm = insert j (skipped_set (unat n) (ba_skipped_txs acc2))"
      using idx(2) by auto
    have sub: "skipped_set (unat n) (ba_skipped_txs acc2) \<subseteq> {..<j}"
      and cnt: "card (skipped_set (unat n) (ba_skipped_txs acc2)) + length (ba_tweaks acc2) = j"
      using tinv2 by (simp_all add: tx_inv_def)
    have "j \<notin> skipped_set (unat n) (ba_skipped_txs acc2)" using sub by auto
    then have "card (skipped_set (unat n) bm) + length (ba_tweaks acc2) = Suc j"
      "skipped_set (unat n) bm \<subseteq> {..<Suc j}"
      using sub cnt finite_subset [OF sub] by (auto simp: bm(3))
    then have "tx_inv (unat n) (Suc j) (acc2\<lparr>ba_skipped_txs := bm, ba_stats := stats\<rparr>)" for stats
      using bm(2) by (simp add: tx_inv_def)
    with k ins outs acc2 bm(1) show ?thesis
      by (auto simp: apply_tx_def finish_tx_def Let_def slots_def acc_inv_stats acc_inv_bitmap)
  qed
qed

section \<open>Blocks\<close>

text \<open>
  The invariant of the state between blocks: every live UID is at most the
  last one, no UID is live twice, no output was created after height \<open>h\<close>, and
  the counter is below the largest 64-bit value.
\<close>

definition state_inv :: "u64 \<Rightarrow> P2trIndexerState \<Rightarrow> bool" where
  "state_inv h state \<longleftrightarrow>
     inj_uids (utxos state) \<and> unat (next_uid state) < 2 ^ 64 - 1
     \<and> (\<forall>p s. utxos state p = Some s \<longrightarrow>
          unat (sl_uid s) \<le> unat (next_uid state) \<and> unat (sl_creation_height s) \<le> unat h)"

text \<open>The blocks the scanner hands over: transactions in order, at most 65535 P2TR outputs.\<close>

definition block_p2tr_count :: "TxScanInput list \<Rightarrow> nat" where
  "block_p2tr_count txs = (\<Sum>tx \<leftarrow> txs. p2tr_count (tx_outputs tx))"

definition wf_block :: "BlockScanInput \<Rightarrow> bool" where
  "wf_block block \<longleftrightarrow>
     unat (bs_height block) < 2 ^ 32 \<and> length (bs_txs block) < 2 ^ 16
     \<and> block_p2tr_count (bs_txs block) \<le> 65535 \<and> bs_raw_block_bytes block \<noteq> 0
     \<and> length (concat (map tx_inputs (bs_txs block))) < 2 ^ 32
     \<and> (\<forall>i < length (bs_txs block). wf_tx (bs_txs block ! i)
          \<and> tx_tx_index (bs_txs block ! i) = word_of_nat i)"

lemma txs_fold:
  assumes "acc_inv f (bs_height block) acc 0" and "tx_inv (unat n) j acc"
    and "\<forall>i < length txs. wf_tx (txs ! i) \<and> tx_tx_index (txs ! i) = word_of_nat (j + i)"
    and "j + length txs \<le> unat (n :: u16)" and "slots acc + block_p2tr_count txs \<le> 65535"
    and "unat f + 65535 < 2 ^ 64" and "unat (bs_height block) < 2 ^ 32"
  shows "\<exists>acc'. try_fold (apply_tx block f n) txs acc = Inr acc' \<and> acc_inv f (bs_height block) acc' 0
    \<and> tx_inv (unat n) (j + length txs) acc' \<and> slots acc' = slots acc + block_p2tr_count txs
    \<and> next_uid (ba_state acc') = next_uid (ba_state acc)"
  using assms(1-5)
proof (induction txs arbitrary: acc j)
  case Nil
  then show ?case by (simp add: block_p2tr_count_def)
next
  case (Cons tx txs)
  have "wf_tx tx" "tx_tx_index tx = word_of_nat j" using Cons.prems(3) [rule_format, of 0] by simp_all
  moreover have "slots acc + p2tr_count (tx_outputs tx) \<le> 65535"
    using Cons.prems(5) by (simp add: block_p2tr_count_def)
  ultimately obtain acc1 where step: "apply_tx block f n tx acc = Inr acc1"
      "acc_inv f (bs_height block) acc1 0" "tx_inv (unat n) (Suc j) acc1"
      "slots acc1 = slots acc + p2tr_count (tx_outputs tx)" "next_uid (ba_state acc1) = next_uid (ba_state acc)"
    using tx_step [OF Cons.prems(1) _ _ assms(6,7) Cons.prems(2)] Cons.prems(4) by auto
  have "\<forall>i < length txs. wf_tx (txs ! i) \<and> tx_tx_index (txs ! i) = word_of_nat (Suc j + i)"
  proof safe
    fix i assume "i < length txs"
    with Cons.prems(3) [rule_format, of "Suc i"]
    show "wf_tx (txs ! i)" "tx_tx_index (txs ! i) = word_of_nat (Suc j + i)" by simp_all
  qed
  from Cons.IH [OF step(2,3) this] Cons.prems(4,5) step show ?case
    by (auto simp: block_p2tr_count_def add.assoc)
qed

text \<open>A block has at most as many spends as inputs.\<close>

lemma spends_inputs:
  "try_fold (apply_input block tx) inps acc = Inr acc' \<Longrightarrow>
     length (ba_spends acc') \<le> length (ba_spends acc) + length inps"
proof (induction inps arbitrary: acc)
  case (Cons inp inps)
  then obtain acc1 where step: "apply_input block tx inp acc = Inr acc1"
      "try_fold (apply_input block tx) inps acc1 = Inr acc'" by (auto simp: result_simps)
  have "length (ba_spends acc1) \<le> length (ba_spends acc) + 1"
    using step(1) by (cases rule: apply_input_cases) simp_all
  with Cons.IH [OF step(2)] show ?case by simp
qed simp

lemma spends_outputs:
  "try_fold (apply_output block f tx) outs (acc, has, k) = Inr (acc', has', k') \<Longrightarrow>
     ba_spends acc' = ba_spends acc"
proof (induction outs arbitrary: acc has k)
  case (Cons out outs)
  then obtain acc1 has1 k1 where step: "apply_output block f tx out (acc, has, k) = Inr (acc1, has1, k1)"
      "try_fold (apply_output block f tx) outs (acc1, has1, k1) = Inr (acc', has', k')"
    by (auto simp: result_simps)
  have "ba_spends acc1 = ba_spends acc" using step(1)
  proof (cases rule: apply_output_cases)
    case (indexed key acc2 stats)
    from indexed(9) show ?thesis by (rule index_output_Inr) (use indexed in simp)
  qed simp_all
  with Cons.IH [OF step(2)] show ?case by simp
qed simp

lemma spends_tx:
  assumes "apply_tx block f n tx acc = Inr acc'"
  shows "length (ba_spends acc') \<le> length (ba_spends acc) + length (tx_inputs tx)"
proof -
  from assms obtain acc1 acc2 has k where
    ins: "try_fold (apply_input block tx) (tx_inputs tx) acc = Inr acc1"
    and outs: "try_fold (apply_output block f tx) (tx_outputs tx) (acc1, False, 0) = Inr (acc2, has, k)"
    and last: "finish_tx n tx (acc2, has, k) = Inr acc'"
    by (auto simp: apply_tx_def result_simps)
  then show ?thesis using spends_inputs [OF ins] spends_outputs [OF outs] finish_tx_state [OF last] by simp
qed

lemma spends_txs:
  "try_fold (apply_tx block f n) txs acc = Inr acc' \<Longrightarrow>
     length (ba_spends acc') \<le> length (ba_spends acc) + length (concat (map tx_inputs txs))"
proof (induction txs arbitrary: acc)
  case (Cons tx txs)
  then obtain acc1 where step: "apply_tx block f n tx acc = Inr acc1"
      "try_fold (apply_tx block f n) txs acc1 = Inr acc'" by (auto simp: result_simps)
  from Cons.IH [OF step(2)] spends_tx [OF step(1)] show ?case by simp
qed simp

definition start_acc :: "P2trIndexerState \<Rightarrow> u16 \<Rightarrow> bytes \<Rightarrow> block_acc" where
  "start_acc state n bm =
     \<lparr>ba_state = state, ba_outputs = [], ba_spends = [], ba_skipped_txs = bm, ba_tweaks = [],
      ba_skipped_outputs = [], ba_stats = default_stats\<lparr>st_tx_count := n\<rparr>, ba_created = [], ba_spent = []\<rparr>"

lemma start_inv:
  assumes "state_inv h0 state" and "unat h0 \<le> unat h"
  shows "acc_inv (next_uid state + 1) h (start_acc state n bm) 0" and "slots (start_acc state n bm) = 0"
    and "unat (next_uid state + 1) = unat (next_uid state) + 1"
    and "saturating_add (next_uid state) 1 = next_uid state + 1"
proof -
  have lt: "unat (next_uid state) + 1 < 2 ^ 64" using assms(1) by (simp add: state_inv_def)
  then show f: "unat (next_uid state + 1) = unat (next_uid state) + 1" by (simp add: unat_word_ariths)
  from lt show "saturating_add (next_uid state) 1 = next_uid state + 1" by (simp add: saturating_add_def)
  show s: "slots (start_acc state n bm) = 0"
    by (simp add: slots_def start_acc_def default_stats_def)
  have "utxo_inv (next_uid state + 1) h (start_acc state n bm)"
    using assms s f unfolding utxo_inv_def state_inv_def by (fastforce simp: start_acc_def)
  then show "acc_inv (next_uid state + 1) h (start_acc state n bm) 0"
    using s by (simp add: acc_inv_def slot_inv_def uid_inv_def width_inv_def start_acc_def free_slots_def)
qed

lemma build_hashes_ok:
  assumes "sha256_ok sha256" and "length outs \<le> 65535"
  obtains hashes where "build_stored_truncated_output_hashes sha256 raw outs budget = Inr hashes"
    and "length hashes = (length outs * unat (choose_truncated_output_hash_bits (length outs) raw budget) + 7) div 8"
  using pack_keys_bits [OF assms(1), of "map so_key outs"] stored_hash_fits [OF assms(2)]
  by (auto simp: build_stored_truncated_output_hashes_def Let_def)

text \<open>The counter after the block, and the invariant of the new state.\<close>

lemma advance_uid_ok:
  assumes inv: "acc_inv (f :: u64) h acc 0" and f: "unat f = unat (next_uid (ba_state acc)) + 1"
    and room: "unat f + slots acc < 2 ^ 64"
  obtains state' where "advance_uid f acc = Inr state'" and "utxos state' = acc_utxos acc"
    and "unat (next_uid state') = unat (next_uid (ba_state acc)) + slots acc"
    and "seen_p2tr_keys state' = seen_p2tr_keys (ba_state acc)"
proof (cases "slots acc = 0")
  case True
  then have "\<not> 0 < st_p2tr_output_count (ba_stats acc)" by (simp add: slots_def unat_eq_zero)
  with True that [of "ba_state acc"] show thesis by (simp add: advance_uid_def)
next
  case False
  let ?c = "ucast (st_p2tr_output_count (ba_stats acc)) :: u64"
  have c: "unat ?c = slots acc" by (simp add: unat_ucast_u32_u64 slots_def)
  have pos: "0 < st_p2tr_output_count (ba_stats acc)"
    using False by (simp add: slots_def word_less_nat_alt)
  have add: "checked_add f ?c = Some (f + ?c)" using room c by (simp add: checked_add_def)
  have u: "unat (f + ?c) = unat f + slots acc" using unat_checked_add [OF add] c by simp
  then have "checked_sub (f + ?c) 1 = Some (f + ?c - 1)" "unat (f + ?c - 1) = unat f + slots acc - 1"
    using False by (simp_all add: checked_sub_def unat_sub word_le_nat_alt)
  with pos add u f that [of "(ba_state acc)\<lparr>next_uid := f + ?c - 1\<rparr>"] show thesis
    by (simp add: advance_uid_def)
qed

lemma state_inv_after:
  assumes "acc_inv f h acc 0" and "unat f = n + 1"
    and "utxos state' = acc_utxos acc" and "unat (next_uid state') = n + slots acc"
    and "n + 1 + slots acc < 2 ^ 64"
  shows "state_inv h state'"
  using assms unfolding state_inv_def acc_inv_def utxo_inv_def by fastforce

text \<open>The storage block built from the final accumulator.\<close>

lemma storage_block_valid:
  assumes sha: "sha256_ok sha256" and inv: "acc_inv f h acc 0" and tinv: "tx_inv (unat n) (unat n) acc"
    and h: "unat h < 2 ^ 32" and small: "slots acc \<le> 65535" "unat f + slots acc < 2 ^ 64"
    and raw: "raw \<noteq> 0" and spends: "length (ba_spends acc) < 2 ^ 32"
    and two: "build_stored_truncated_output_hashes sha256 raw (ba_outputs acc) 2 = Inr two"
    and hundred: "build_stored_truncated_output_hashes sha256 raw (ba_outputs acc) 100 = Inr hundred"
  shows "valid_stored \<lparr>sb_height = h, sb_block_hash = bh, sb_previous_block_hash = ph, sb_first_uid = f,
    sb_tx_count = n, sb_skipped_txs_for_tweaks = ba_skipped_txs acc, sb_tweaks = ba_tweaks acc,
    sb_skipped_outputs = ba_skipped_outputs acc, sb_outputs = ba_outputs acc, sb_spends = ba_spends acc,
    sb_raw_block_bytes = raw, sb_truncated_output_hash_for_two_labels = two,
    sb_truncated_output_hash_for_hundred_labels = hundred\<rparr>"
    (is "valid_stored ?sb")
proof -
  have slots: "slots acc = length (ba_outputs acc) + length (ba_skipped_outputs acc)"
    and declared: "declared_outputs (ba_tweaks acc) = length (ba_outputs acc)"
    and sorted: "sorted_wrt (<) (ba_skipped_outputs acc)"
    and below: "\<forall>s \<in> set (ba_skipped_outputs acc). unat s < slots acc"
    using inv unfolding acc_inv_def slot_inv_def by auto
  have len: "length (ba_outputs acc) \<le> 65535" using slots small(1) by simp
  have "length two = stored_hash_len ?sb 2" "length hundred = stored_hash_len ?sb 100"
    using build_hashes_ok [OF sha len, of raw 2] build_hashes_ok [OF sha len, of raw 100] two hundred
    by (auto simp: stored_hash_len_def)
  moreover have "slots_fit ?sb" using slots small(1) sorted below by (auto simp: slots_fit_def)
  moreover have "tweaks_fit ?sb"
    using tinv inv by (simp add: tweaks_fit_def tx_inv_def acc_inv_def width_inv_def)
  moreover have "- 1 \<notin> set (map ss_spent_uid (ba_spends acc))"
  proof
    assume "- 1 \<in> set (map ss_spent_uid (ba_spends acc))"
    then have "unat (- 1 :: u64) < unat f + slots acc"
      using inv unfolding acc_inv_def utxo_inv_def by (metis imageE list.set_map)
    with small(2) show False by (simp add: unsigned_minus_1_eq_mask mask_eq_exp_minus_1)
  qed
  then have "encodable_ids (map ss_spent_uid (ba_spends acc))"
    using inv spends by (auto simp: encodable_ids_def acc_inv_def utxo_inv_def)
  moreover have "\<forall>e \<in> set (ba_spends acc). unat (ss_creation_height e) \<le> unat h"
    using inv by (auto simp: acc_inv_def utxo_inv_def)
  ultimately show ?thesis using h raw declared by (simp add: valid_stored_def outputs_accounted_def)
qed

lemma apply_block_correct:
  assumes sha: "sha256_ok sha256" and wf: "wf_block block" and st: "state_inv h0 state"
    and h0: "unat h0 \<le> unat (bs_height block)" and room: "unat (next_uid state) + 65536 < 2 ^ 64"
  shows "\<exists>state' ab. apply_block_with_stats sha256 state block = Inr (state', ab)
    \<and> state_inv (bs_height block) state' \<and> valid_stored (ab_storage_block ab)
    \<and> unat (next_uid state') = unat (next_uid state) + block_p2tr_count (bs_txs block)
    \<and> sb_first_uid (ab_storage_block ab) = next_uid state + 1
    \<and> map unat (map (su_uid \<circ> cu_entry) (ab_created_utxos ab))
        = map (\<lambda>s. unat (next_uid state) + 1 + s)
            (free_slots (block_p2tr_count (bs_txs block)) (sb_skipped_outputs (ab_storage_block ab)))
    \<and> (\<forall>out \<in> set (sb_outputs (ab_storage_block ab)). length (so_key out) = 32)
    \<and> to_response_input_for_labels (ab_storage_block ab) None = Inr (ab_light_block ab)"
proof -
  let ?f = "next_uid state + 1" and ?h = "bs_height block"
  note start = start_inv [OF st h0]
  obtain n :: u16 where n: "n = word_of_nat (length (bs_txs block))" "unat n = length (bs_txs block)"
      "try_from_nat (length (bs_txs block)) = Inr n"
    using wf by (simp add: wf_block_def try_from_nat_def unat_word_of_nat_small)
  obtain bm where bm: "empty_skipped_txs_for_tweaks_bitmap n = Inr bm" "valid_bitmap (unat n) bm"
      "skipped_set (unat n) bm = {}" by (rule empty_bitmap)
  have "tx_inv (unat n) 0 (start_acc state n bm)" using bm(2,3) by (simp add: tx_inv_def start_acc_def)
  moreover have "\<forall>i < length (bs_txs block). wf_tx (bs_txs block ! i)
      \<and> tx_tx_index (bs_txs block ! i) = word_of_nat (0 + i)"
    and "slots (start_acc state n bm) + block_p2tr_count (bs_txs block) \<le> 65535"
    and "unat ?h < 2 ^ 32"
    using wf start(2) by (simp_all add: wf_block_def)
  moreover have f65: "unat ?f + 65535 < 2 ^ 64" using start(3) room by simp
  ultimately obtain acc where
    fold: "try_fold (apply_tx block ?f n) (bs_txs block) (start_acc state n bm) = Inr acc"
    and inv: "acc_inv ?f ?h acc 0" and tinv: "tx_inv (unat n) (unat n) acc"
    and slots: "slots acc = block_p2tr_count (bs_txs block)" and uid: "next_uid (ba_state acc) = next_uid state"
    using txs_fold [of ?f block "start_acc state n bm" n 0 "bs_txs block"] start(1) n(2) start(2)
    by (auto simp: start_acc_def)
  have small: "slots acc \<le> 65535" "unat ?f + slots acc < 2 ^ 64"
    using wf slots f65 by (simp_all add: wf_block_def)
  have f: "unat ?f = unat (next_uid (ba_state acc)) + 1" using start(3) uid by simp
  obtain state' where adv: "advance_uid ?f acc = Inr state'" "utxos state' = acc_utxos acc"
      "unat (next_uid state') = unat (next_uid (ba_state acc)) + slots acc"
    using advance_uid_ok [OF inv f small(2)] by metis
  have st': "state_inv ?h state'"
    using adv small(2) start(3) uid by (intro state_inv_after [OF inv start(3)]) simp_all
  have outs: "length (ba_outputs acc) \<le> 65535"
    using inv small(1) by (simp add: acc_inv_def slot_inv_def)
  obtain two where two: "build_stored_truncated_output_hashes sha256 (bs_raw_block_bytes block) (ba_outputs acc) 2 = Inr two"
    using build_hashes_ok [OF sha outs] by metis
  obtain hundred where hundred: "build_stored_truncated_output_hashes sha256 (bs_raw_block_bytes block) (ba_outputs acc) 100 = Inr hundred"
    using build_hashes_ok [OF sha outs] by metis
  have spends: "length (ba_spends acc) < 2 ^ 32"
    using spends_txs [OF fold] wf by (simp add: wf_block_def start_acc_def)
  define sb where "sb = \<lparr>sb_height = ?h, sb_block_hash = bs_block_hash block,
    sb_previous_block_hash = bs_previous_block_hash block, sb_first_uid = ?f, sb_tx_count = n,
    sb_skipped_txs_for_tweaks = ba_skipped_txs acc, sb_tweaks = ba_tweaks acc,
    sb_skipped_outputs = ba_skipped_outputs acc, sb_outputs = ba_outputs acc, sb_spends = ba_spends acc,
    sb_raw_block_bytes = bs_raw_block_bytes block, sb_truncated_output_hash_for_two_labels = two,
    sb_truncated_output_hash_for_hundred_labels = hundred\<rparr>"
  have raw: "bs_raw_block_bytes block \<noteq> 0" and h32: "unat ?h < 2 ^ 32" using wf by (simp_all add: wf_block_def)
  have valid: "valid_stored sb"
    unfolding sb_def by (rule storage_block_valid [OF sha inv tinv h32 small raw spends two hundred])
  then have "is_ok (to_response_input_for_labels sb None)"
    by (rule valid_stored_response_ok)
  then obtain lb where lb: "to_response_input_for_labels sb None = Inr lb" by (auto simp: is_ok_iff)
  have "apply_block_with_stats sha256 state block = Inr (state',
      \<lparr>ab_light_block = lb, ab_storage_block = sb, ab_stats = ba_stats acc,
       ab_created_utxos = ba_created acc, ab_spent_utxos = ba_spent acc\<rparr>)"
    using n(3) bm(1) fold adv(1) two hundred lb
    by (simp add: apply_block_with_stats_def start(4) Let_def sb_def start_acc_def
        RESPONSE_LABEL_BUDGET_TWO_def RESPONSE_LABEL_BUDGET_HUNDRED_def)
  moreover have "map unat (map (su_uid \<circ> cu_entry) (ba_created acc))
      = map (\<lambda>s. unat (next_uid state) + 1 + s) (free_slots (slots acc) (ba_skipped_outputs acc))"
    using inv start(3) by (simp add: acc_inv_def uid_inv_def)
  moreover have "\<forall>out \<in> set (ba_outputs acc). length (so_key out) = 32"
    using inv by (simp add: acc_inv_def width_inv_def)
  ultimately show ?thesis
    using st' valid adv(3) uid slots lb by (auto simp: sb_def)
qed

end
