(* ===== verification/P2tr_Properties.thy ===== *)
theory P2tr_Properties
  imports P2tr_Invariants
begin

text \<open>
  What the indexer of \<^verbatim>\<open>light-server/src/p2tr_indexer.rs\<close> promises: a scanned block
  is applied without error and gives an archivable block, UIDs are consecutive
  over a run of blocks, the spend index refines the abstract map of live
  outputs, and the candidate cache neither hides nor leaks an entry.
\<close>

section \<open>The abstract live-output map\<close>

text \<open>
  The specification: live outputs as a map from outpoints to UIDs. A
  transaction first removes what it spends; then each of its P2TR outputs takes
  the next slot, and those of a transaction with a tweak that are not NUMS
  become live under the first UID of the block plus the slot.
\<close>

type_synonym live_map = "OutPointKey \<Rightarrow> nat option"

definition spec_spend :: "TxInputScan list \<Rightarrow> live_map \<Rightarrow> live_map" where
  "spec_spend inps m = m |` (- set (map ti_previous_output inps))"

fun spec_create :: "nat \<Rightarrow> TxScanInput \<Rightarrow> TxOutputScan list \<Rightarrow> nat \<times> live_map \<Rightarrow> nat \<times> live_map" where
  "spec_create f tx [] st = st"
| "spec_create f tx (out # outs) (slot, m) =
     (if \<not> to_is_p2tr out then spec_create f tx outs (slot, m)
      else if to_is_nums out \<or> tx_silent_payment_tweak tx = None then spec_create f tx outs (slot + 1, m)
      else spec_create f tx outs
        (slot + 1, m(\<lparr>op_txid = tx_txid tx, op_vout = to_vout out\<rparr> \<mapsto> f + slot)))"

definition spec_tx :: "nat \<Rightarrow> TxScanInput \<Rightarrow> nat \<times> live_map \<Rightarrow> nat \<times> live_map" where
  "spec_tx f tx st = spec_create f tx (tx_outputs tx) (fst st, spec_spend (tx_inputs tx) (snd st))"

definition spec_block :: "nat \<Rightarrow> TxScanInput list \<Rightarrow> live_map \<Rightarrow> live_map" where
  "spec_block f txs m = snd (fold (spec_tx f) txs (0, m))"

definition live_view :: "(OutPointKey \<Rightarrow> SpendLookup option) \<Rightarrow> live_map" where
  "live_view m = (\<lambda>p. map_option (\<lambda>s. unat (sl_uid s)) (m p))"

lemma live_view_upd [simp]:
  "live_view (m(p \<mapsto> s)) = (live_view m)(p \<mapsto> unat (sl_uid s))"
  "live_view (m(p := None)) = (live_view m)(p := None)"
  by (auto simp: live_view_def)

lemma refine_inputs:
  "try_fold (apply_input block tx) inps acc = Inr acc' \<Longrightarrow>
     live_view (acc_utxos acc') = spec_spend inps (live_view (acc_utxos acc)) \<and> slots acc' = slots acc"
proof (induction inps arbitrary: acc)
  case Nil
  then show ?case by (simp add: spec_spend_def)
next
  case (Cons inp inps)
  then obtain acc1 where step: "apply_input block tx inp acc = Inr acc1"
      "try_fold (apply_input block tx) inps acc1 = Inr acc'" by (auto simp: result_simps)
  have one: "live_view (acc_utxos acc1) = (live_view (acc_utxos acc))(ti_previous_output inp := None)
      \<and> slots acc1 = slots acc"
    using step(1)
  proof (cases rule: apply_input_cases)
    case miss
    then show ?thesis by (auto simp: live_view_def)
  next
    case (hit spend)
    then show ?thesis by simp
  qed
  have "spec_spend inps (m(ti_previous_output inp := None)) = spec_spend (inp # inps) m" for m
    by (auto simp: spec_spend_def restrict_map_def)
  with Cons.IH [OF step(2)] show ?case by (simp only: one)
qed

lemma refine_outputs:
  "try_fold (apply_output block f tx) outs (acc, has, k) = Inr (acc', has', k') \<Longrightarrow>
     spec_create (unat f) tx outs (slots acc, live_view (acc_utxos acc))
       = (slots acc', live_view (acc_utxos acc'))"
proof (induction outs arbitrary: acc has k)
  case (Cons out outs)
  then obtain acc1 has1 k1 where step: "apply_output block f tx out (acc, has, k) = Inr (acc1, has1, k1)"
      "try_fold (apply_output block f tx) outs (acc1, has1, k1) = Inr (acc', has', k')"
    by (auto simp: result_simps)
  note IH = Cons.IH [OF step(2)]
  show ?case using step(1)
  proof (cases rule: apply_output_cases)
    case (other stats)
    with IH show ?thesis by simp
  next
    case (skipped key stats)
    with IH show ?thesis by auto
  next
    case (indexed key acc2 stats)
    have slot: "unat (word_of_nat (slots acc) :: u32) = slots acc"
      using indexed(6) by (simp add: unat_word_of_nat_small)
    have view: "live_view (acc_utxos acc2) = live_view (acc_utxos acc)" using indexed(8) by simp
    from indexed(9) have "live_view (acc_utxos acc1) = (live_view (acc_utxos acc))
        (\<lparr>op_txid = tx_txid tx, op_vout = to_vout out\<rparr> \<mapsto> unat f + slots acc) \<and> slots acc1 = slots acc + 1"
      by (rule index_output_Inr) (simp only: live_view_upd view slot indexed(7) SpendLookup.select_convs)
    with IH indexed show ?thesis by (simp only: spec_create.simps) simp
  qed
qed simp

lemma refine_tx:
  assumes "apply_tx block f n tx acc = Inr acc'"
  shows "spec_tx (unat f) tx (slots acc, live_view (acc_utxos acc)) = (slots acc', live_view (acc_utxos acc'))"
proof -
  from assms obtain acc1 acc2 has k where
    ins: "try_fold (apply_input block tx) (tx_inputs tx) acc = Inr acc1"
    and outs: "try_fold (apply_output block f tx) (tx_outputs tx) (acc1, False, 0) = Inr (acc2, has, k)"
    and last: "finish_tx n tx (acc2, has, k) = Inr acc'"
    by (auto simp: apply_tx_def result_simps)
  have "slots acc' = slots acc2"
    using last by (auto simp: finish_tx_def Let_def result_simps slots_def split: if_splits option.splits)
  with refine_inputs [OF ins] refine_outputs [OF outs] finish_tx_state [OF last] show ?thesis
    by (simp add: spec_tx_def)
qed

lemma refine_txs:
  "try_fold (apply_tx block f n) txs acc = Inr acc' \<Longrightarrow>
     fold (spec_tx (unat f)) txs (slots acc, live_view (acc_utxos acc)) = (slots acc', live_view (acc_utxos acc'))"
proof (induction txs arbitrary: acc)
  case (Cons tx txs)
  then obtain acc1 where step: "apply_tx block f n tx acc = Inr acc1"
      "try_fold (apply_tx block f n) txs acc1 = Inr acc'" by (auto simp: result_simps)
  from Cons.IH [OF step(2)] refine_tx [OF step(1)] show ?case by simp
qed simp

lemma advance_uid_utxos: "advance_uid f acc = Inr state' \<Longrightarrow> utxos state' = acc_utxos acc"
  by (auto simp: advance_uid_def Let_def result_simps split: if_splits)

lemma refine_block:
  assumes "apply_block_with_stats sha256 state block = Inr (state', ab)"
  shows "live_view (utxos state')
    = spec_block (unat (saturating_add (next_uid state) 1)) (bs_txs block) (live_view (utxos state))"
proof -
  from assms obtain n bm acc where
    txs: "try_fold (apply_tx block (saturating_add (next_uid state) 1) n) (bs_txs block) (start_acc state n bm) = Inr acc"
    and adv: "advance_uid (saturating_add (next_uid state) 1) acc = Inr state'"
    by (auto simp: apply_block_with_stats_def Let_def result_simps start_acc_def)
  have "slots (start_acc state n bm) = 0" "acc_utxos (start_acc state n bm) = utxos state"
    by (simp_all add: slots_def start_acc_def default_stats_def)
  with refine_txs [OF txs] advance_uid_utxos [OF adv] show ?thesis by (simp add: spec_block_def)
qed

section \<open>The candidate cache\<close>

lemma cache_utxos:
  "cache_spend_uid_candidates cands state cached = (state', cached') \<Longrightarrow>
     utxos state' = map_of cands ++ utxos state"
proof (induction cands state cached rule: cache_spend_uid_candidates.induct)
  case (2 outpoint spend cands state cached)
  show ?case
  proof (cases "utxos state outpoint")
    case None
    with 2(1) [OF None] 2(3) have "utxos state' = map_of cands
        ++ map_of (AList.update outpoint spend (outpoint_to_spend state))"
      by simp
    then have "utxos state' = map_of cands ++ (utxos state)(outpoint \<mapsto> spend)"
      unfolding update_conv' .
    also have "\<dots> = map_of ((outpoint, spend) # cands) ++ utxos state"
      using None by (auto simp: map_add_def fun_eq_iff split: option.splits)
    finally show ?thesis .
  next
    case (Some s)
    with 2 have "utxos state' = map_of cands ++ utxos state" by simp
    also have "\<dots> = map_of ((outpoint, spend) # cands) ++ utxos state"
      using Some by (auto simp: map_add_def fun_eq_iff split: option.splits)
    finally show ?thesis .
  qed
qed simp

lemma cache_cached:
  "cache_spend_uid_candidates cands state cached = (state', cached') \<Longrightarrow>
     \<exists>new. cached' = cached @ new \<and> distinct new \<and> set new = dom (map_of cands) - dom (utxos state)"
proof (induction cands state cached rule: cache_spend_uid_candidates.induct)
  case (2 outpoint spend cands state cached)
  show ?case
  proof (cases "utxos state outpoint")
    case None
    from 2(1) [OF None] 2(3) None obtain new where new: "cached' = (cached @ [outpoint]) @ new" "distinct new"
        "set new = dom (map_of cands) - dom (map_of (AList.update outpoint spend (outpoint_to_spend state)))"
      by auto
    then have "set new = dom (map_of cands) - insert outpoint (dom (utxos state))"
      unfolding update_conv' by simp
    with new(1,2) None show ?thesis by (intro exI [of _ "outpoint # new"]) auto
  next
    case (Some s)
    then have "outpoint \<in> dom (utxos state)" by blast
    with 2(2) 2(3) Some show ?thesis by (auto split: if_splits)
  qed
qed simp

lemma evict_utxos:
  "evict_spend_uid_candidates ops state n = (state', n') \<Longrightarrow>
     utxos state' = utxos state |` (- set ops)
     \<and> next_uid state' = next_uid state \<and> live_uid_count state' = live_uid_count state
     \<and> seen_p2tr_keys state' = seen_p2tr_keys state"
proof (induction ops state n rule: evict_spend_uid_candidates.induct)
  case (2 op ops state n)
  have drop: "(utxos state)(op := None) |` (- set ops) = utxos state |` (- set (op # ops))"
    by (auto simp: restrict_map_def fun_eq_iff)
  show ?case
  proof (cases "utxos state op")
    case None
    then have "utxos state = (utxos state)(op := None)" by auto
    with None 2 drop show ?thesis by simp
  next
    case (Some s)
    let ?st = "state\<lparr>outpoint_to_spend := AList.delete op (outpoint_to_spend state)\<rparr>"
    have del: "utxos ?st = (utxos state)(op := None)" by (simp add: delete_conv')
    from 2 Some have "utxos state' = utxos ?st |` (- set ops)
        \<and> next_uid state' = next_uid state \<and> live_uid_count state' = live_uid_count state
        \<and> seen_p2tr_keys state' = seen_p2tr_keys state"
      by simp
    then show ?thesis unfolding del drop .
  qed
qed (simp add: restrict_map_def)

section \<open>Runs over several blocks\<close>

fun apply_blocks :: "sha256_fun \<Rightarrow> P2trIndexerState \<Rightarrow> BlockScanInput list
    \<Rightarrow> (P2trIndexerState \<times> AppliedBlock list) result" where
  "apply_blocks sha256 state [] = Inr (state, [])"
| "apply_blocks sha256 state (block # blocks) =
     and_then (apply_block_with_stats sha256 state block) (\<lambda>(state1, ab).
     and_then (apply_blocks sha256 state1 blocks) (\<lambda>(state2, applied). Inr (state2, ab # applied)))"

text \<open>Consecutive applied blocks: each first UID follows the UIDs of the block before.\<close>

fun uid_chain :: "nat \<Rightarrow> BlockScanInput list \<Rightarrow> AppliedBlock list \<Rightarrow> bool" where
  "uid_chain u [] [] \<longleftrightarrow> True"
| "uid_chain u (block # blocks) (ab # applied) \<longleftrightarrow>
     unat (sb_first_uid (ab_storage_block ab)) = u + 1
     \<and> uid_chain (u + block_p2tr_count (bs_txs block)) blocks applied"
| "uid_chain u _ _ \<longleftrightarrow> False"

definition ascending_heights :: "u64 \<Rightarrow> BlockScanInput list \<Rightarrow> bool" where
  "ascending_heights h blocks \<longleftrightarrow> sorted (map unat (h # map bs_height blocks))"

lemma apply_blocks_correct:
  assumes "sha256_ok sha256"
  shows "state_inv h state \<Longrightarrow> ascending_heights h blocks \<Longrightarrow> \<forall>block \<in> set blocks. wf_block block \<Longrightarrow>
    unat (next_uid state) + 65536 * length blocks < 2 ^ 64 \<Longrightarrow>
    \<exists>state' applied. apply_blocks sha256 state blocks = Inr (state', applied)
      \<and> (\<exists>h'. state_inv h' state') \<and> uid_chain (unat (next_uid state)) blocks applied
      \<and> (\<forall>ab \<in> set applied. valid_stored (ab_storage_block ab))"
proof (induction blocks arbitrary: state h)
  case (Cons block blocks)
  have wf: "wf_block block" and h: "unat h \<le> unat (bs_height block)"
    using Cons.prems(2,3) by (simp_all add: ascending_heights_def)
  have room: "unat (next_uid state) + 65536 < 2 ^ 64" using Cons.prems(4) by simp
  obtain state1 ab where
    step: "apply_block_with_stats sha256 state block = Inr (state1, ab)" "state_inv (bs_height block) state1"
      "valid_stored (ab_storage_block ab)"
      "unat (next_uid state1) = unat (next_uid state) + block_p2tr_count (bs_txs block)"
      "sb_first_uid (ab_storage_block ab) = next_uid state + 1"
    using apply_block_correct [OF assms wf Cons.prems(1) h room] by blast
  have first: "unat (sb_first_uid (ab_storage_block ab)) = unat (next_uid state) + 1"
    unfolding step(5) by (rule start_inv(3) [OF Cons.prems(1) h])
  have "ascending_heights (bs_height block) blocks" using Cons.prems(2) by (simp add: ascending_heights_def)
  moreover have "unat (next_uid state1) + 65536 * length blocks < 2 ^ 64"
    using Cons.prems(4) wf step(4) by (simp add: wf_block_def)
  ultimately obtain state' applied where
    "apply_blocks sha256 state1 blocks = Inr (state', applied)" "\<exists>h'. state_inv h' state'"
    "uid_chain (unat (next_uid state1)) blocks applied" "\<forall>ab \<in> set applied. valid_stored (ab_storage_block ab)"
    using Cons.IH [OF step(2)] Cons.prems(3) by auto
  with step first show ?case by auto
qed auto

lemma new_state_inv: "state_inv 0 new_state"
  by (simp add: state_inv_def new_state_def inj_uids_def)

text \<open>A scanned block with one transaction that creates one output.\<close>

definition sample_scan :: BlockScanInput where
  "sample_scan = \<lparr>bs_height = 5, bs_block_hash = replicate 32 1, bs_previous_block_hash = replicate 32 2,
     bs_raw_block_bytes = 300, bs_txs = [\<lparr>tx_txid = replicate 32 9, tx_tx_index = 0, tx_inputs = [],
       tx_outputs = [\<lparr>to_vout = 0, to_value_sat = 1000, to_script_pubkey = [],
         to_p2tr_xonly_key = Some (replicate 32 7), to_is_p2tr = True, to_is_nums = False\<rparr>],
       tx_silent_payment_tweak = Some (replicate 33 2)\<rparr>]\<rparr>"

lemma sample_scan_wf: "wf_block sample_scan"
  by (simp add: wf_block_def sample_scan_def wf_tx_def wf_output_def block_p2tr_count_def)

section \<open>Properties\<close>

text \<open>
  C3: the indexer never gets stuck on a scanned block and never produces a block the
  archive would refuse: a well-formed block (transactions numbered in order, at
  most 65535 P2TR outputs, every P2TR output with its 32-byte key, a non-zero size,
  a 32-bit height) applied to a state that meets the invariant succeeds,
  the new state meets the invariant at the block's height, and the
  storage block passes the stored-block validator.
\<close>

theorem indexer_block_archivable:
  assumes "sha256_ok sha256" and "wf_block block" and "state_inv h0 state"
    and "unat h0 \<le> unat (bs_height block)" and "unat (next_uid state) + 65536 < 2 ^ 64"
  shows "\<exists>state' ab. apply_block_with_stats sha256 state block = Inr (state', ab)
    \<and> state_inv (bs_height block) state'
    \<and> validate_stored_light_block_input (ab_storage_block ab) = Inr ()"
  using apply_block_correct [OF assms] unfolding validate_stored_iff by blast

theorem indexer_block_archivable_witness:
  "\<exists>state' ab. apply_block_with_stats (\<lambda>_. replicate 32 0) new_state sample_scan = Inr (state', ab)
    \<and> validate_stored_light_block_input (ab_storage_block ab) = Inr ()"
  using indexer_block_archivable [OF _ sample_scan_wf new_state_inv, of "\<lambda>_. replicate 32 0"]
  by (auto simp: sha256_ok_def new_state_def)

text \<open>
  C14: UIDs identify outputs: every created output of a block has the UID of the
  block's first UID plus its slot among the block's P2TR outputs, in ascending order,
  the slots without a stored output being exactly the recorded skipped
  ones, and the counter advances by the number of P2TR outputs.
\<close>

theorem indexer_uid_assignment:
  assumes "sha256_ok sha256" and "wf_block block" and "state_inv h0 state"
    and "unat h0 \<le> unat (bs_height block)" and "unat (next_uid state) + 65536 < 2 ^ 64"
  shows "\<exists>state' ab. apply_block_with_stats sha256 state block = Inr (state', ab)
    \<and> map unat (map (su_uid \<circ> cu_entry) (ab_created_utxos ab))
        = map (\<lambda>s. unat (next_uid state) + 1 + s)
            (filter (\<lambda>s. s \<notin> unat ` set (sb_skipped_outputs (ab_storage_block ab)))
               [0..<block_p2tr_count (bs_txs block)])
    \<and> unat (next_uid state') = unat (next_uid state) + block_p2tr_count (bs_txs block)"
  using apply_block_correct [OF assms] unfolding free_slots_def by blast

theorem indexer_uid_assignment_witness:
  "\<exists>state' ab. apply_block_with_stats (\<lambda>_. replicate 32 0) new_state sample_scan = Inr (state', ab)
    \<and> unat (next_uid state') = 1"
  using indexer_uid_assignment [OF _ sample_scan_wf new_state_inv, of "\<lambda>_. replicate 32 0"]
  by (auto simp: sha256_ok_def new_state_def block_p2tr_count_def sample_scan_def)

text \<open>
  a run of well-formed blocks of ascending heights from a state that meets
  the invariant is applied to its end, every storage block is valid, and the
  UID ranges of the blocks follow each other without gap or overlap.
\<close>

theorem indexer_run:
  assumes "sha256_ok sha256" and "state_inv h state" and "ascending_heights h blocks"
    and "\<forall>block \<in> set blocks. wf_block block"
    and "unat (next_uid state) + 65536 * length blocks < 2 ^ 64"
  shows "\<exists>state' applied. apply_blocks sha256 state blocks = Inr (state', applied)
    \<and> (\<exists>h'. state_inv h' state') \<and> uid_chain (unat (next_uid state)) blocks applied
    \<and> (\<forall>ab \<in> set applied. valid_stored (ab_storage_block ab))"
  using apply_blocks_correct [OF assms(1)] assms(2-) by blast

theorem indexer_run_witness:
  "\<exists>state' applied. apply_blocks (\<lambda>_. replicate 32 0) new_state [sample_scan, sample_scan] = Inr (state', applied)
    \<and> uid_chain 0 [sample_scan, sample_scan] applied"
proof -
  have "ascending_heights 0 [sample_scan, sample_scan]"
    by (simp add: ascending_heights_def sample_scan_def)
  from indexer_run [OF _ new_state_inv this, of "\<lambda>_. replicate 32 0"] sample_scan_wf
  show ?thesis by (auto simp: sha256_ok_def new_state_def)
qed

text \<open>
  C5: the spend index refines the abstract map of live outputs: whenever a block is
  applied, the new index, read as a map from outpoints to UIDs, is the abstract
  result of spending and creating transaction by transaction.
\<close>

theorem indexer_refines_live_map:
  assumes "apply_block_with_stats sha256 state block = Inr (state', ab)"
  shows "live_view (map_of (outpoint_to_spend state'))
    = spec_block (unat (saturating_add (next_uid state) 1)) (bs_txs block)
        (live_view (map_of (outpoint_to_spend state)))"
  using assms by (rule refine_block)

theorem indexer_refines_live_map_witness:
  "\<exists>state' ab. apply_block_with_stats (\<lambda>_. replicate 32 0) new_state sample_scan = Inr (state', ab)
    \<and> live_view (map_of (outpoint_to_spend state'))
        = [\<lparr>op_txid = replicate 32 9, op_vout = 0\<rparr> \<mapsto> 1]"
proof -
  from apply_block_correct [OF _ sample_scan_wf new_state_inv, of "\<lambda>_. replicate 32 0"]
  obtain state' ab where ok: "apply_block_with_stats (\<lambda>_. replicate 32 0) new_state sample_scan = Inr (state', ab)"
    by (auto simp: sha256_ok_def new_state_def)
  have "live_view Map.empty = Map.empty" by (simp add: live_view_def)
  with indexer_refines_live_map [OF ok] ok show ?thesis
    by (simp add: spec_block_def spec_tx_def spec_spend_def sample_scan_def new_state_def saturating_add_def)
qed

text \<open>
  the candidate cache is transparent: caching adds the candidates that are
  not yet known and overrides nothing, it reports exactly the added outpoints, and
  evicting those restores the index.
\<close>

theorem candidate_cache_transparent:
  assumes "cache_spend_uid_candidates cands state [] = (state1, cached)"
  shows "map_of (outpoint_to_spend state1) = map_of cands ++ map_of (outpoint_to_spend state)
    \<and> distinct cached
    \<and> (\<exists>state2 n. evict_spend_uid_candidates cached state1 0 = (state2, n)
         \<and> map_of (outpoint_to_spend state2) = map_of (outpoint_to_spend state)
         \<and> live_uid_count state2 = live_uid_count state1)"
proof -
  note added = cache_utxos [OF assms]
  from cache_cached [OF assms] have cached: "distinct cached"
      "set cached = dom (map_of cands) - dom (utxos state)" by auto
  obtain state2 n where ev: "evict_spend_uid_candidates cached state1 0 = (state2, n)" by fastforce
  have "(map_of cands ++ utxos state) |` (- set cached) = utxos state"
  proof
    fix p
    show "((map_of cands ++ utxos state) |` (- set cached)) p = utxos state p"
      unfolding cached(2) by (cases "utxos state p") (auto simp: restrict_map_def map_add_def)
  qed
  with evict_utxos [OF ev] added cached(1) ev show ?thesis by auto
qed

theorem candidate_cache_transparent_witness:
  "\<exists>state1. cache_spend_uid_candidates [(\<lparr>op_txid = [], op_vout = 1\<rparr>, \<lparr>sl_uid = 4, sl_creation_height = 2,
       sl_output_index = 0, sl_flags = 0\<rparr>)] new_state [] = (state1, [\<lparr>op_txid = [], op_vout = 1\<rparr>])
    \<and> map_of (outpoint_to_spend state1) \<lparr>op_txid = [], op_vout = 1\<rparr> \<noteq> None"
proof -
  let ?op = "\<lparr>op_txid = [], op_vout = 1\<rparr>"
  let ?cands = "[(?op, \<lparr>sl_uid = 4, sl_creation_height = 2, sl_output_index = 0, sl_flags = 0\<rparr>)]"
  obtain state1 cached where c: "cache_spend_uid_candidates ?cands new_state [] = (state1, cached)" by fastforce
  moreover have "cached = [?op]" using c by (simp add: new_state_def)
  moreover have "map_of (outpoint_to_spend state1) = map_of ?cands ++ map_of (outpoint_to_spend new_state)"
    using candidate_cache_transparent [OF c] by blast
  then have "map_of (outpoint_to_spend state1) ?op \<noteq> None" by (simp add: new_state_def)
  ultimately show ?thesis by blast
qed

end
