(* ===== verification/Index_Store.thy ===== *)
theory Index_Store
  imports Helper P2tr_Indexer
begin

text \<open>
  The indexer's working state of \<^verbatim>\<open>light-server/src/index_store.rs\<close>: outpoints,
  seen keys and the tip in a RocksDB database. The database is code of the
  \<^verbatim>\<open>rocksdb\<close> crate: its four calls are a parameter, and \<open>db_ok\<close> states that a
  working database is a map from byte keys to byte values on which a write
  batch takes effect in order. The store is read through \<open>spend_view\<close>, the
  map from outpoints to spend references it represents; the locale
  \<open>spend_index\<close> is the contract the indexer relies on.
\<close>

section \<open>The database interface\<close>

datatype batch_op = BatchPut bytes bytes | BatchDelete bytes

record 'db rocks =
  db_get :: "'db \<Rightarrow> bytes \<Rightarrow> bytes option result"
  db_put :: "'db \<Rightarrow> bytes \<Rightarrow> bytes \<Rightarrow> 'db result"
  db_write :: "'db \<Rightarrow> batch_op list \<Rightarrow> 'db result"
  db_flush :: "'db \<Rightarrow> 'db result"

type_synonym content = "bytes \<Rightarrow> bytes option"

fun apply_op :: "batch_op \<Rightarrow> content \<Rightarrow> content" where
  "apply_op (BatchPut k v) c = c(k \<mapsto> v)"
| "apply_op (BatchDelete k) c = c(k := None)"

definition db_ok :: "'db rocks \<Rightarrow> ('db \<Rightarrow> content) \<Rightarrow> bool" where
  "db_ok lib content \<longleftrightarrow>
     (\<forall>db k. db_get lib db k = Inr (content db k))
     \<and> (\<forall>db k v. \<exists>db'. db_put lib db k v = Inr db' \<and> content db' = (content db)(k \<mapsto> v))
     \<and> (\<forall>db ops. \<exists>db'. db_write lib db ops = Inr db' \<and> content db' = fold apply_op ops (content db))
     \<and> (\<forall>db. \<exists>db'. db_flush lib db = Inr db' \<and> content db' = content db)"

definition map_rocks :: "content rocks" where
  "map_rocks = \<lparr>db_get = \<lambda>db k. Inr (db k), db_put = \<lambda>db k v. Inr (db(k \<mapsto> v)),
     db_write = \<lambda>db ops. Inr (fold apply_op ops db), db_flush = Inr\<rparr>"

lemma map_rocks_ok: "db_ok map_rocks id"
  by (simp add: db_ok_def map_rocks_def)

section \<open>Keys and values\<close>

text \<open>A byte-string literal.\<close>

definition ascii :: "string \<Rightarrow> bytes" where
  "ascii s = map of_char s"

definition KEY_TIP_HEIGHT :: bytes where
  "KEY_TIP_HEIGHT = ascii ''m:tip_height''"

definition KEY_TIP_HASH :: bytes where
  "KEY_TIP_HASH = ascii ''m:tip_hash''"

definition KEY_LAST_UID :: bytes where
  "KEY_LAST_UID = ascii ''m:last_uid''"

definition KEY_NETWORK :: bytes where
  "KEY_NETWORK = ascii ''m:network''"

definition KEY_START_HEIGHT :: bytes where
  "KEY_START_HEIGHT = ascii ''m:start_height''"

record IndexTip =
  it_height :: u64
  it_block_hash :: bytes
  it_last_uid :: u64

definition outpoint_key :: "OutPointKey \<Rightarrow> bytes" where
  "outpoint_key outpoint = ascii ''o:'' @ op_txid outpoint @ to_be_bytes (op_vout outpoint)"

definition seen_key :: "bytes \<Rightarrow> bytes" where
  "seen_key xonly = ascii ''k:'' @ xonly"

definition encode_spend_lookup :: "SpendLookup \<Rightarrow> bytes" where
  "encode_spend_lookup spend =
     to_be_bytes (sl_uid spend) @ to_be_bytes (sl_creation_height spend)
     @ to_be_bytes (sl_output_index spend) @ [sl_flags spend]"

definition read_spend_lookup :: "bytes \<Rightarrow> SpendLookup result" where
  "read_spend_lookup bs =
     (let fields = (\<lambda>flags.
        and_then (read_u64_be (slice bs 0 8) ''outpoint uid'') (\<lambda>uid.
        and_then (read_u64_be (slice bs 8 16) ''outpoint creation height'') (\<lambda>creation_height.
        and_then (read_u32_be (slice bs 16 20) ''outpoint storage output index'') (\<lambda>output_index.
        Inr \<lparr>sl_uid = uid, sl_creation_height = creation_height, sl_output_index = output_index,
             sl_flags = flags\<rparr>))))
      in if length bs = 21 then fields (bs ! 20)
         else if length bs = 20 then fields 0
         else if length bs = 8 \<or> length bs = 16 \<or> length bs = 17
         then Inl (Error ''legacy outpoint lookup value is missing storage output index; reindex light archive'')
         else Inl (Error ''invalid outpoint lookup value length''))"

section \<open>Operations\<close>

text \<open>
  \<open>ensure_meta\<close> may write before it fails, so its definitions return the
  database beside the result.
\<close>

definition ensure_meta_value :: "'db rocks \<Rightarrow> bytes \<Rightarrow> bytes \<Rightarrow> 'db \<Rightarrow> 'db \<times> unit result" where
  "ensure_meta_value lib key value db =
     (case db_get lib db key of
        Inl e \<Rightarrow> (db, Inl e)
      | Inr (Some existing) \<Rightarrow> (db, ensure (existing = value) ''index metadata mismatch for'')
      | Inr None \<Rightarrow> (case db_put lib db key value of Inl e \<Rightarrow> (db, Inl e) | Inr db' \<Rightarrow> (db', Inr ())))"

definition ensure_meta :: "'db rocks \<Rightarrow> bytes \<Rightarrow> u64 \<Rightarrow> 'db \<Rightarrow> 'db \<times> unit result" where
  "ensure_meta lib network start_height db =
     (case ensure_meta_value lib KEY_NETWORK network db of
        (db1, Inl e) \<Rightarrow> (db1, Inl e)
      | (db1, Inr _) \<Rightarrow> ensure_meta_value lib KEY_START_HEIGHT (to_be_bytes start_height) db1)"

definition tip :: "'db rocks \<Rightarrow> 'db \<Rightarrow> IndexTip option result" where
  "tip lib db =
     and_then (db_get lib db KEY_TIP_HEIGHT) (\<lambda>h. case h of None \<Rightarrow> Inr None | Some height \<Rightarrow>
     and_then (db_get lib db KEY_TIP_HASH) (\<lambda>b. case b of None \<Rightarrow> Inr None | Some hash \<Rightarrow>
     and_then (db_get lib db KEY_LAST_UID) (\<lambda>u. case u of None \<Rightarrow> Inr None | Some uid \<Rightarrow>
     and_then (read_u64_be height ''tip_height'') (\<lambda>height.
     and_then (read_32 hash ''tip_hash'') (\<lambda>block_hash.
     and_then (read_u64_be uid ''last_uid'') (\<lambda>uid.
     Inr (Some \<lparr>it_height = height, it_block_hash = block_hash, it_last_uid = uid\<rparr>)))))))"

definition previous_tip_hash :: "'db rocks \<Rightarrow> 'db \<Rightarrow> bytes option result" where
  "previous_tip_hash lib db = and_then (tip lib db) (\<lambda>t. Inr (map_option it_block_hash t))"

definition lookup_outpoint_uids ::
    "'db rocks \<Rightarrow> 'db \<Rightarrow> OutPointKey list \<Rightarrow> (OutPointKey \<times> SpendLookup) list result" where
  "lookup_outpoint_uids lib db outpoints =
     try_fold (\<lambda>outpoint found.
       and_then (db_get lib db (outpoint_key outpoint)) (\<lambda>v. case v of None \<Rightarrow> Inr found | Some value \<Rightarrow>
       and_then (read_spend_lookup value) (\<lambda>spend. Inr (found @ [(outpoint, spend)])))) outpoints []"

definition created_lookup :: "CreatedScopedUtxo \<Rightarrow> SpendLookup" where
  "created_lookup created =
     \<lparr>sl_uid = su_uid (cu_entry created), sl_creation_height = su_created_height (cu_entry created),
      sl_output_index = su_output_index (cu_entry created),
      sl_flags = (if cu_is_reused created then STORAGE_OUTPUT_FLAG_REUSED else 0)\<rparr>"

text \<open>The count is read from the database, not from the batch that is being filled.\<close>

definition commit_created :: "'db rocks \<Rightarrow> 'db \<Rightarrow> CreatedScopedUtxo \<Rightarrow> batch_op list
    \<Rightarrow> batch_op list result" where
  "commit_created lib db created batch =
     (let batch1 = batch @ [BatchPut (outpoint_key (su_outpoint (cu_entry created)))
            (encode_spend_lookup (created_lookup created))];
          key = seen_key (su_p2tr_xonly_key (cu_entry created))
      in and_then (db_get lib db key) (\<lambda>v.
         and_then (case v of None \<Rightarrow> Inr 0 | Some bs \<Rightarrow> read_u64_be bs ''seen key count'') (\<lambda>count.
         let next_count = saturating_add count 1 in
         Inr (batch1 @ [BatchPut key (to_be_bytes next_count)]))))"

definition commit_block :: "'db rocks \<Rightarrow> 'db \<Rightarrow> AppliedBlock \<Rightarrow> batch_op list \<Rightarrow> batch_op list result" where
  "commit_block lib db block batch =
     and_then (try_fold (commit_created lib db) (ab_created_utxos block) batch) (\<lambda>batch1.
       Inr (batch1 @ map (\<lambda>spent. BatchDelete (outpoint_key (sp_outpoint spent))) (ab_spent_utxos block)))"

definition commit_applied_blocks :: "'db rocks \<Rightarrow> AppliedBlock list \<Rightarrow> u64 \<Rightarrow> bytes \<Rightarrow> u64 \<Rightarrow> 'db
    \<Rightarrow> 'db result" where
  "commit_applied_blocks lib blocks tip_height tip_hash uid db =
     and_then (try_fold (commit_block lib db) blocks []) (\<lambda>batch.
       db_write lib db (batch @
         [BatchPut KEY_TIP_HEIGHT (to_be_bytes tip_height), BatchPut KEY_TIP_HASH tip_hash,
          BatchPut KEY_LAST_UID (to_be_bytes uid)]))"

definition flush :: "'db rocks \<Rightarrow> 'db \<Rightarrow> 'db result" where
  "flush lib db = db_flush lib db"

section \<open>Keys do not clash\<close>

lemma ascii_simps [simp]: "ascii [] = []" "ascii (c # s) = of_char c # ascii s"
  by (simp_all add: ascii_def)

lemmas key_defs = KEY_TIP_HEIGHT_def KEY_TIP_HASH_def KEY_LAST_UID_def KEY_NETWORK_def KEY_START_HEIGHT_def

definition meta_keys :: "bytes list" where
  "meta_keys = [KEY_TIP_HEIGHT, KEY_TIP_HASH, KEY_LAST_UID, KEY_NETWORK, KEY_START_HEIGHT]"

lemma key_heads:
  "hd (outpoint_key p) = 0x6f" "hd (seen_key k) = 0x6b" "m \<in> set meta_keys \<Longrightarrow> hd m = 0x6d"
  by (auto simp: outpoint_key_def seen_key_def meta_keys_def key_defs)

lemma key_classes [simp]: "outpoint_key p \<noteq> seen_key k" "seen_key k \<noteq> outpoint_key p"
proof -
  have "hd (outpoint_key p) \<noteq> hd (seen_key k)" by (simp add: key_heads)
  then show "outpoint_key p \<noteq> seen_key k" "seen_key k \<noteq> outpoint_key p" by metis+
qed

lemma meta_key_classes:
  assumes "m \<in> set meta_keys"
  shows "outpoint_key p \<noteq> m" "seen_key k \<noteq> m"
proof -
  have "hd (outpoint_key p) \<noteq> hd m" "hd (seen_key k) \<noteq> hd m" by (simp_all add: key_heads assms)
  then show "outpoint_key p \<noteq> m" "seen_key k \<noteq> m" by metis+
qed

lemma distinct_meta_keys: "distinct meta_keys"
  by (simp add: meta_keys_def key_defs)

lemma to_be_bytes_eq:
  assumes "8 dvd LENGTH('a::len)"
  shows "to_be_bytes (a :: 'a word) = to_be_bytes b \<longleftrightarrow> a = b"
proof
  assume "to_be_bytes a = to_be_bytes b"
  then have "from_be_bytes (to_be_bytes a) = (from_be_bytes (to_be_bytes b) :: 'a word)" by simp
  then show "a = b" by (simp add: from_to_be_bytes assms)
qed simp

lemma outpoint_key_eq:
  assumes "length (op_txid p) = 32" "length (op_txid q) = 32"
  shows "outpoint_key p = outpoint_key q \<longleftrightarrow> p = q"
proof -
  have "outpoint_key p = outpoint_key q \<longleftrightarrow> op_txid p = op_txid q \<and> op_vout p = op_vout q"
    using assms by (simp add: outpoint_key_def to_be_bytes_eq)
  then show ?thesis by (cases p, cases q) simp
qed

lemma seen_key_eq [simp]: "seen_key k = seen_key k' \<longleftrightarrow> k = k'"
  by (simp add: seen_key_def)

lemma spend_lookup_slices:
  assumes "bs = encode_spend_lookup s"
  shows "slice bs 0 8 = to_be_bytes (sl_uid s)" "slice bs 8 16 = to_be_bytes (sl_creation_height s)"
    "slice bs 16 20 = to_be_bytes (sl_output_index s)" "bs ! 20 = sl_flags s" "length bs = 21"
  unfolding assms by (simp_all add: encode_spend_lookup_def slice_def nth_append)

lemma read_encode_spend_lookup [simp]: "read_spend_lookup (encode_spend_lookup s) = Inr s"
  by (simp add: read_spend_lookup_def spend_lookup_slices [OF refl] Let_def)

section \<open>The represented map\<close>

definition wf_outpoint :: "OutPointKey \<Rightarrow> bool" where
  "wf_outpoint p \<longleftrightarrow> length (op_txid p) = 32"

definition spend_view :: "content \<Rightarrow> OutPointKey \<Rightarrow> SpendLookup option" where
  "spend_view c p =
     (if wf_outpoint p
      then case c (outpoint_key p) of None \<Rightarrow> None | Some v \<Rightarrow>
        (case read_spend_lookup v of Inl _ \<Rightarrow> None | Inr s \<Rightarrow> Some s)
      else None)"

definition seen_count :: "content \<Rightarrow> bytes \<Rightarrow> u64" where
  "seen_count c k = (case c (seen_key k) of None \<Rightarrow> 0 | Some v \<Rightarrow> from_be_bytes v)"

text \<open>What the store keeps: readable spend references, 8-byte counts, a whole tip or none.\<close>

definition store_inv :: "content \<Rightarrow> bool" where
  "store_inv c \<longleftrightarrow>
     (\<forall>p v. wf_outpoint p \<longrightarrow> c (outpoint_key p) = Some v \<longrightarrow> is_ok (read_spend_lookup v))
     \<and> (\<forall>k v. c (seen_key k) = Some v \<longrightarrow> length v = 8)"

text \<open>The abstract effect of an applied block: its outputs become live, then its spends are removed.\<close>

definition spec_commit :: "AppliedBlock \<Rightarrow> (OutPointKey \<Rightarrow> SpendLookup option)
    \<Rightarrow> OutPointKey \<Rightarrow> SpendLookup option" where
  "spec_commit block m =
     fold (\<lambda>spent m. m(sp_outpoint spent := None)) (ab_spent_utxos block)
       (fold (\<lambda>created m. m(su_outpoint (cu_entry created) \<mapsto> created_lookup created))
         (ab_created_utxos block) m)"

definition wf_applied :: "AppliedBlock \<Rightarrow> bool" where
  "wf_applied block \<longleftrightarrow>
     (\<forall>created \<in> set (ab_created_utxos block). wf_outpoint (su_outpoint (cu_entry created)))
     \<and> (\<forall>spent \<in> set (ab_spent_utxos block). wf_outpoint (sp_outpoint spent))"

definition block_keys :: "AppliedBlock \<Rightarrow> bytes set" where
  "block_keys block = (\<lambda>created. su_p2tr_xonly_key (cu_entry created)) ` set (ab_created_utxos block)"

lemma spend_view_put:
  "wf_outpoint p \<Longrightarrow> spend_view (c(outpoint_key p \<mapsto> encode_spend_lookup s)) = (spend_view c)(p \<mapsto> s)"
  by (auto simp: spend_view_def wf_outpoint_def outpoint_key_eq fun_eq_iff)

lemma spend_view_delete:
  "wf_outpoint p \<Longrightarrow> spend_view (c(outpoint_key p := None)) = (spend_view c)(p := None)"
  by (auto simp: spend_view_def wf_outpoint_def outpoint_key_eq fun_eq_iff)

lemma spend_view_other: "\<forall>p. outpoint_key p \<noteq> k \<Longrightarrow> spend_view (c(k := v)) = spend_view c"
  by (auto simp: spend_view_def fun_eq_iff)

lemma store_inv_put:
  "store_inv c \<Longrightarrow> store_inv (c(outpoint_key p \<mapsto> encode_spend_lookup s))"
  "store_inv c \<Longrightarrow> store_inv (c(seen_key k \<mapsto> to_be_bytes (n :: u64)))"
  "store_inv c \<Longrightarrow> store_inv (c(outpoint_key p := None))"
  by (auto simp: store_inv_def)

lemma store_inv_meta: "store_inv c \<Longrightarrow> m \<in> set meta_keys \<Longrightarrow> store_inv (c(m \<mapsto> v))"
  using meta_key_classes by (auto simp: store_inv_def)

lemma commit_created_step:
  assumes "db_ok lib content" and "store_inv (content db)"
    and "wf_outpoint (su_outpoint (cu_entry created))" and "store_inv (fold apply_op batch c)"
  obtains batch' where "commit_created lib db created batch = Inr batch'"
    and "store_inv (fold apply_op batch' c)"
    and "spend_view (fold apply_op batch' c)
      = (spend_view (fold apply_op batch c))(su_outpoint (cu_entry created) \<mapsto> created_lookup created)"
    and "\<And>k. fold apply_op batch' c (seen_key k) =
      (if k = su_p2tr_xonly_key (cu_entry created)
       then Some (to_be_bytes (saturating_add (seen_count (content db) k) 1))
       else fold apply_op batch c (seen_key k))"
proof -
  let ?k = "su_p2tr_xonly_key (cu_entry created)"
  let ?p = "su_outpoint (cu_entry created)"
  let ?n = "saturating_add (seen_count (content db) ?k) 1"
  let ?batch = "batch @ [BatchPut (outpoint_key ?p) (encode_spend_lookup (created_lookup created)),
    BatchPut (seen_key ?k) (to_be_bytes ?n)]"
  let ?c = "(fold apply_op batch c)(outpoint_key ?p \<mapsto> encode_spend_lookup (created_lookup created))"
  have get: "db_get lib db (seen_key ?k) = Inr (content db (seen_key ?k))"
    using assms(1) unfolding db_ok_def by blast
  have count: "(case content db (seen_key ?k) of None \<Rightarrow> Inr 0 | Some bs \<Rightarrow> read_u64_be bs ''seen key count'')
      = Inr (seen_count (content db) ?k)"
    using assms(2) by (auto simp: store_inv_def seen_count_def read_u64_be_def split: option.splits)
  have batch: "commit_created lib db created batch = Inr ?batch"
    by (simp add: commit_created_def Let_def get count)
  have state: "fold apply_op ?batch c = ?c(seen_key ?k \<mapsto> to_be_bytes ?n)" by simp
  show thesis
    by (rule that [OF batch]; unfold state)
      (use assms(3, 4) in \<open>simp_all add: store_inv_put spend_view_put spend_view_other\<close>)
qed

text \<open>The outcome of filling a batch: the batch, with its effect on the three views.\<close>

definition batch_outcome :: "content \<Rightarrow> batch_op list result \<Rightarrow> content
    \<Rightarrow> (OutPointKey \<Rightarrow> SpendLookup option) \<Rightarrow> bytes set \<Rightarrow> content \<Rightarrow> bool" where
  "batch_outcome db r c m keys before \<longleftrightarrow>
     (\<exists>batch. r = Inr batch \<and> store_inv (fold apply_op batch c) \<and> spend_view (fold apply_op batch c) = m
       \<and> (\<forall>k. fold apply_op batch c (seen_key k) =
            (if k \<in> keys then Some (to_be_bytes (saturating_add (seen_count db k) 1)) else before (seen_key k))))"

lemma batch_outcome_created:
  assumes "db_ok lib content" and "store_inv (content db)"
    and "\<forall>created \<in> set createds. wf_outpoint (su_outpoint (cu_entry created))"
    and "store_inv (fold apply_op batch c)"
  shows "batch_outcome (content db) (try_fold (commit_created lib db) createds batch) c
    (fold (\<lambda>created m. m(su_outpoint (cu_entry created) \<mapsto> created_lookup created)) createds
      (spend_view (fold apply_op batch c)))
    ((\<lambda>created. su_p2tr_xonly_key (cu_entry created)) ` set createds) (fold apply_op batch c)"
  using assms(3,4)
proof (induction createds arbitrary: batch)
  case Nil
  then show ?case by (simp add: batch_outcome_def)
next
  case (Cons created createds)
  then have wf: "wf_outpoint (su_outpoint (cu_entry created))" by simp
  obtain batch' where step: "commit_created lib db created batch = Inr batch'"
      "store_inv (fold apply_op batch' c)"
      "spend_view (fold apply_op batch' c)
        = (spend_view (fold apply_op batch c))(su_outpoint (cu_entry created) \<mapsto> created_lookup created)"
      "\<And>k. fold apply_op batch' c (seen_key k) = (if k = su_p2tr_xonly_key (cu_entry created)
         then Some (to_be_bytes (saturating_add (seen_count (content db) k) 1))
         else fold apply_op batch c (seen_key k))"
    using commit_created_step [OF assms(1,2) wf Cons.prems(2)] by metis
  have "\<forall>created \<in> set createds. wf_outpoint (su_outpoint (cu_entry created))" using Cons.prems(1) by simp
  from Cons.IH [OF this step(2)] show ?case by (auto simp: batch_outcome_def step)
qed

lemma fold_delete_outpoints:
  assumes "\<forall>spent \<in> set spents. wf_outpoint (sp_outpoint spent)" and "store_inv c"
  shows "spend_view (fold apply_op (map (\<lambda>spent. BatchDelete (outpoint_key (sp_outpoint spent))) spents) c)
      = fold (\<lambda>spent m. m(sp_outpoint spent := None)) spents (spend_view c)"
    and "store_inv (fold apply_op (map (\<lambda>spent. BatchDelete (outpoint_key (sp_outpoint spent))) spents) c)"
    and "fold apply_op (map (\<lambda>spent. BatchDelete (outpoint_key (sp_outpoint spent))) spents) c (seen_key k)
      = c (seen_key k)"
  using assms by (induction spents arbitrary: c) (simp_all add: spend_view_delete store_inv_put)

lemma batch_outcome_block:
  assumes "db_ok lib content" "store_inv (content db)" "wf_applied block" "store_inv (fold apply_op batch c)"
  shows "batch_outcome (content db) (commit_block lib db block batch) c
    (spec_commit block (spend_view (fold apply_op batch c))) (block_keys block) (fold apply_op batch c)"
proof -
  have wf: "\<forall>created \<in> set (ab_created_utxos block). wf_outpoint (su_outpoint (cu_entry created))"
    "\<forall>spent \<in> set (ab_spent_utxos block). wf_outpoint (sp_outpoint spent)"
    using assms(3) by (simp_all add: wf_applied_def)
  from batch_outcome_created [OF assms(1,2) wf(1) assms(4)] obtain batch' where
    b: "try_fold (commit_created lib db) (ab_created_utxos block) batch = Inr batch'"
      "store_inv (fold apply_op batch' c)"
      "spend_view (fold apply_op batch' c) = fold (\<lambda>created m. m(su_outpoint (cu_entry created) \<mapsto> created_lookup created))
        (ab_created_utxos block) (spend_view (fold apply_op batch c))"
      "\<And>k. fold apply_op batch' c (seen_key k) = (if k \<in> block_keys block
        then Some (to_be_bytes (saturating_add (seen_count (content db) k) 1)) else fold apply_op batch c (seen_key k))"
    unfolding batch_outcome_def block_keys_def by blast
  show ?thesis
    unfolding batch_outcome_def commit_block_def b(1) and_then_Inr spec_commit_def
    by (simp add: fold_delete_outpoints [OF wf(2) b(2)] b(3,4))
qed

lemma batch_outcome_blocks:
  assumes "db_ok lib content" "store_inv (content db)"
    and "\<forall>block \<in> set blocks. wf_applied block" "store_inv (fold apply_op batch c)"
  shows "batch_outcome (content db) (try_fold (commit_block lib db) blocks batch) c
    (fold spec_commit blocks (spend_view (fold apply_op batch c))) (\<Union> (block_keys ` set blocks))
    (fold apply_op batch c)"
  using assms(3,4)
proof (induction blocks arbitrary: batch)
  case Nil
  then show ?case by (simp add: batch_outcome_def)
next
  case (Cons block blocks)
  then have wf: "wf_applied block" by simp
  from batch_outcome_block [OF assms(1,2) wf Cons.prems(2)] obtain batch' where
    b: "commit_block lib db block batch = Inr batch'" "store_inv (fold apply_op batch' c)"
      "spend_view (fold apply_op batch' c) = spec_commit block (spend_view (fold apply_op batch c))"
      "\<And>k. fold apply_op batch' c (seen_key k) = (if k \<in> block_keys block
        then Some (to_be_bytes (saturating_add (seen_count (content db) k) 1)) else fold apply_op batch c (seen_key k))"
    unfolding batch_outcome_def by blast
  have "\<forall>block \<in> set blocks. wf_applied block" using Cons.prems(1) by simp
  from Cons.IH [OF this b(2)] show ?case by (auto simp: batch_outcome_def b)
qed

lemma tip_keys: "KEY_TIP_HEIGHT \<in> set meta_keys" "KEY_TIP_HASH \<in> set meta_keys" "KEY_LAST_UID \<in> set meta_keys"
  "KEY_NETWORK \<in> set meta_keys" "KEY_START_HEIGHT \<in> set meta_keys"
  by (simp_all add: meta_keys_def)

lemma meta_updates:
  assumes "m \<in> set meta_keys"
  shows "spend_view (c(m := v)) = spend_view c" and "(c(m := v)) (seen_key k) = c (seen_key k)"
  using meta_key_classes [OF assms] spend_view_other by auto

text \<open>A commit on a working database succeeds, with its whole effect.\<close>

lemma commit_applied_blocks_effect:
  assumes "db_ok lib content" "store_inv (content db)" "\<forall>block \<in> set blocks. wf_applied block"
  obtains db' where "commit_applied_blocks lib blocks h hash uid db = Inr db'"
    and "store_inv (content db')" and "spend_view (content db') = fold spec_commit blocks (spend_view (content db))"
    and "\<And>k. content db' (seen_key k) = (if k \<in> \<Union> (block_keys ` set blocks)
      then Some (to_be_bytes (saturating_add (seen_count (content db) k) 1)) else content db (seen_key k))"
    and "content db' KEY_TIP_HEIGHT = Some (to_be_bytes h)" and "content db' KEY_TIP_HASH = Some hash"
    and "content db' KEY_LAST_UID = Some (to_be_bytes uid)"
proof -
  from batch_outcome_blocks [OF assms, of "[]" "content db"] assms(2) obtain batch where
    b: "try_fold (commit_block lib db) blocks [] = Inr batch" "store_inv (fold apply_op batch (content db))"
      "spend_view (fold apply_op batch (content db)) = fold spec_commit blocks (spend_view (content db))"
      "\<And>k. fold apply_op batch (content db) (seen_key k) = (if k \<in> \<Union> (block_keys ` set blocks)
        then Some (to_be_bytes (saturating_add (seen_count (content db) k) 1)) else content db (seen_key k))"
    by (auto simp: batch_outcome_def)
  let ?ops = "batch @ [BatchPut KEY_TIP_HEIGHT (to_be_bytes h), BatchPut KEY_TIP_HASH hash,
    BatchPut KEY_LAST_UID (to_be_bytes uid)]"
  obtain db' where db': "db_write lib db ?ops = Inr db'" "content db' = fold apply_op ?ops (content db)"
    using assms(1) unfolding db_ok_def by blast
  have c: "content db' = (fold apply_op batch (content db))(KEY_TIP_HEIGHT \<mapsto> to_be_bytes h,
      KEY_TIP_HASH \<mapsto> hash, KEY_LAST_UID \<mapsto> to_be_bytes uid)"
    by (simp add: db'(2))
  have distinct: "KEY_TIP_HEIGHT \<noteq> KEY_TIP_HASH" "KEY_TIP_HEIGHT \<noteq> KEY_LAST_UID" "KEY_TIP_HASH \<noteq> KEY_LAST_UID"
    using distinct_meta_keys by (simp_all add: meta_keys_def)
  show thesis
  proof (rule that)
    show "commit_applied_blocks lib blocks h hash uid db = Inr db'"
      by (simp only: commit_applied_blocks_def b(1) and_then_Inr db'(1))
    show "store_inv (content db')" unfolding c by (intro store_inv_meta b(2) tip_keys)
    show "spend_view (content db') = fold spec_commit blocks (spend_view (content db))"
      unfolding c meta_updates(1) [OF tip_keys(1)] meta_updates(1) [OF tip_keys(2)]
        meta_updates(1) [OF tip_keys(3)] b(3) ..
    show "content db' (seen_key k) = (if k \<in> \<Union> (block_keys ` set blocks)
        then Some (to_be_bytes (saturating_add (seen_count (content db) k) 1)) else content db (seen_key k))" for k
      unfolding c meta_updates(2) [OF tip_keys(1)] meta_updates(2) [OF tip_keys(2)]
        meta_updates(2) [OF tip_keys(3)] b(4) ..
  qed (use distinct in \<open>simp_all add: c\<close>)
qed

lemma lookup_effect:
  assumes "db_ok lib content" "store_inv (content db)" "\<forall>p \<in> set ps. wf_outpoint p"
  shows "try_fold (\<lambda>outpoint found.
       and_then (db_get lib db (outpoint_key outpoint)) (\<lambda>v. case v of None \<Rightarrow> Inr found | Some value \<Rightarrow>
       and_then (read_spend_lookup value) (\<lambda>spend. Inr (found @ [(outpoint, spend)])))) ps found
     = Inr (found @ List.map_filter (\<lambda>p. map_option (Pair p) (spend_view (content db) p)) ps)"
  using assms(3)
proof (induction ps arbitrary: found)
  case (Cons p ps)
  have get: "db_get lib db (outpoint_key p) = Inr (content db (outpoint_key p))"
    using assms(1) unfolding db_ok_def by blast
  show ?case
  proof (cases "content db (outpoint_key p)")
    case None
    with Cons show ?thesis by (simp add: get spend_view_def map_filter_simps)
  next
    case (Some v)
    then obtain s where "read_spend_lookup v = Inr s"
      using assms(2) Cons.prems unfolding store_inv_def is_ok_iff by (metis list.set_intros(1))
    with Some Cons show ?thesis by (simp add: get spend_view_def map_filter_simps)
  qed
qed (simp add: map_filter_simps)

section \<open>The contract\<close>

text \<open>
  What the indexer relies on: a commit updates the represented map by the
  outputs and spends of the blocks, a lookup returns the live outpoints among
  those asked for, and both succeed on a store in order.
\<close>

locale spend_index =
  fixes good :: "'db \<Rightarrow> bool" and view :: "'db \<Rightarrow> OutPointKey \<Rightarrow> SpendLookup option"
    and lookup :: "'db \<Rightarrow> OutPointKey list \<Rightarrow> (OutPointKey \<times> SpendLookup) list result"
    and commit :: "AppliedBlock list \<Rightarrow> u64 \<Rightarrow> bytes \<Rightarrow> u64 \<Rightarrow> 'db \<Rightarrow> 'db result"
  assumes commit_ok: "good db \<Longrightarrow> \<forall>block \<in> set blocks. wf_applied block \<Longrightarrow>
      \<exists>db'. commit blocks h hash uid db = Inr db' \<and> good db' \<and> view db' = fold spec_commit blocks (view db)"
    and lookup_ok: "good db \<Longrightarrow> \<forall>p \<in> set ps. wf_outpoint p \<Longrightarrow>
      lookup db ps = Inr (List.map_filter (\<lambda>p. map_option (Pair p) (view db p)) ps)"
begin

lemma lookup_map:
  assumes "good db" "\<forall>p \<in> set ps. wf_outpoint p"
  shows "\<exists>found. lookup db ps = Inr found \<and> map_of found = view db |` set ps"
proof -
  have "map_of (List.map_filter (\<lambda>p. map_option (Pair p) (view db p)) ps) = view db |` set ps"
  proof (induction ps)
    case (Cons p ps)
    then show ?case
      by (cases "view db p") (auto simp: map_filter_simps restrict_map_def fun_eq_iff)
  qed (simp add: map_filter_simps restrict_map_def)
  with lookup_ok [OF assms] show ?thesis by blast
qed

lemma commit_then_lookup:
  assumes "good db" "\<forall>block \<in> set blocks. wf_applied block" "\<forall>p \<in> set ps. wf_outpoint p"
  shows "\<exists>db' found. commit blocks h hash uid db = Inr db' \<and> good db' \<and> lookup db' ps = Inr found
    \<and> map_of found = fold spec_commit blocks (view db) |` set ps"
  using commit_ok [OF assms(1,2)] lookup_map [OF _ assms(3)] by metis

lemma commit_in_batches:
  assumes "good db0" "\<forall>block \<in> set (blocks1 @ blocks2). wf_applied block"
  shows "\<exists>db1 db2 db. commit blocks1 h1 hash1 uid1 db0 = Inr db1 \<and> commit blocks2 h hash uid db1 = Inr db2
    \<and> commit (blocks1 @ blocks2) h hash uid db0 = Inr db \<and> view db2 = view db"
proof -
  have wf: "\<forall>block \<in> set blocks1. wf_applied block" "\<forall>block \<in> set blocks2. wf_applied block"
    using assms(2) by simp_all
  obtain db1 where db1: "commit blocks1 h1 hash1 uid1 db0 = Inr db1" "good db1"
      "view db1 = fold spec_commit blocks1 (view db0)"
    using commit_ok [OF assms(1) wf(1)] by blast
  moreover obtain db2 where "commit blocks2 h hash uid db1 = Inr db2"
      "view db2 = fold spec_commit blocks2 (view db1)"
    using commit_ok [OF db1(2) wf(2)] by blast
  moreover obtain db where "commit (blocks1 @ blocks2) h hash uid db0 = Inr db"
      "view db = fold spec_commit (blocks1 @ blocks2) (view db0)"
    using commit_ok [OF assms] by blast
  ultimately show ?thesis by auto
qed

end

definition store_good :: "'db rocks \<Rightarrow> ('db \<Rightarrow> content) \<Rightarrow> 'db \<Rightarrow> bool" where
  "store_good lib content db \<longleftrightarrow> db_ok lib content \<and> store_inv (content db)"

interpretation rs: spend_index "store_good lib content" "\<lambda>db. spend_view (content db)"
    "lookup_outpoint_uids lib" "commit_applied_blocks lib" for lib :: "'db rocks" and content
proof
  fix db :: 'db and blocks h hash uid
  assume good: "store_good lib content db" and wf: "\<forall>block \<in> set blocks. wf_applied block"
  then have ok: "db_ok lib content" "store_inv (content db)" by (simp_all add: store_good_def)
  obtain db' where "commit_applied_blocks lib blocks h hash uid db = Inr db'" "store_inv (content db')"
      "spend_view (content db') = fold spec_commit blocks (spend_view (content db))"
    using commit_applied_blocks_effect [OF ok wf] by metis
  then show "\<exists>db'. commit_applied_blocks lib blocks h hash uid db = Inr db' \<and> store_good lib content db'
      \<and> spend_view (content db') = fold spec_commit blocks (spend_view (content db))"
    using ok(1) by (auto simp: store_good_def)
next
  fix db :: 'db and ps
  assume "store_good lib content db" and wf: "\<forall>p \<in> set ps. wf_outpoint p"
  then have ok: "db_ok lib content" "store_inv (content db)" by (simp_all add: store_good_def)
  from lookup_effect [OF this wf, of "[]"]
  show "lookup_outpoint_uids lib db ps
      = Inr (List.map_filter (\<lambda>p. map_option (Pair p) (spend_view (content db) p)) ps)"
    by (simp add: lookup_outpoint_uids_def)
qed

section \<open>Properties\<close>

definition empty_content :: content where
  "empty_content = (\<lambda>_. None)"

lemma empty_store_good: "store_good map_rocks id empty_content"
  by (simp add: store_good_def map_rocks_ok store_inv_def empty_content_def)

definition sample_created :: "u32 \<Rightarrow> CreatedScopedUtxo" where
  "sample_created vout =
     \<lparr>cu_entry = \<lparr>su_outpoint = \<lparr>op_txid = replicate 32 7, op_vout = vout\<rparr>, su_uid = 5 + ucast vout,
        su_created_height = 100, su_created_block_hash = replicate 32 1, su_tx_index = 1,
        su_output_index = vout, su_value_sat = 1000, su_script_pubkey = [], su_p2tr_xonly_key = replicate 32 9\<rparr>,
      cu_is_nums = False, cu_is_reused = False, cu_reuse_count_at_creation = 0\<rparr>"

definition sample_applied :: AppliedBlock where
  "sample_applied =
     \<lparr>ab_light_block =
        \<lparr>lb_height = 100, lb_block_hash = replicate 32 1, lb_previous_block_hash = replicate 32 2,
         lb_first_uid = 7, lb_tx_count = 2, lb_skipped_txs_for_tweaks = [1], lb_tweaks = [],
         lb_truncated_output_hash_bits = 8, lb_truncated_output_hashes = [],
         lb_spent_id_codec = EliasDeltaAscendingAbsolute, lb_spent_count = 0, lb_spent_ids = []\<rparr>,
      ab_storage_block = sample_block, ab_stats = default_stats,
      ab_created_utxos = [sample_created 0, sample_created 1], ab_spent_utxos = []\<rparr>"

lemma sample_applied_wf: "wf_applied sample_applied"
  by (simp add: sample_applied_def sample_created_def wf_applied_def wf_outpoint_def)

text \<open>
  C13: a commit followed by a lookup. On a working database whose values are
  in order, committing a list of applied blocks succeeds, keeps the values in
  order, and a lookup of any outpoints then succeeds and returns exactly those
  that are live after the blocks in the abstract index (each block's outputs
  added under their UID, height, index and reuse flag, then its spends removed).
\<close>

theorem index_store_commit_lookup:
  assumes "store_good lib content db" and "\<forall>block \<in> set blocks. wf_applied block"
    and "\<forall>p \<in> set ps. wf_outpoint p"
  shows "\<exists>db' found. commit_applied_blocks lib blocks h hash uid db = Inr db' \<and> store_good lib content db'
    \<and> lookup_outpoint_uids lib db' ps = Inr found
    \<and> map_of found = fold spec_commit blocks (spend_view (content db)) |` set ps"
  by (rule rs.commit_then_lookup [OF assms])

theorem index_store_commit_lookup_witness:
  "\<exists>db' found. commit_applied_blocks map_rocks [sample_applied] 100 (replicate 32 1) 6 empty_content = Inr db'
    \<and> lookup_outpoint_uids map_rocks db' [\<lparr>op_txid = replicate 32 7, op_vout = 1\<rparr>] = Inr found
    \<and> map_of found \<lparr>op_txid = replicate 32 7, op_vout = 1\<rparr> = Some (created_lookup (sample_created 1))"
proof -
  let ?p = "\<lparr>op_txid = replicate 32 7, op_vout = 1\<rparr> :: OutPointKey"
  have "\<forall>block \<in> set [sample_applied]. wf_applied block" "\<forall>p \<in> set [?p]. wf_outpoint p"
    by (simp_all add: sample_applied_wf wf_outpoint_def)
  from index_store_commit_lookup [OF empty_store_good this, of 100 "replicate 32 1" 6]
  obtain db' found where "commit_applied_blocks map_rocks [sample_applied] 100 (replicate 32 1) 6 empty_content = Inr db'"
    "lookup_outpoint_uids map_rocks db' [?p] = Inr found"
    "map_of found = fold spec_commit [sample_applied] (spend_view empty_content) |` set [?p]"
    by auto
  moreover have "(fold spec_commit [sample_applied] (spend_view empty_content) |` set [?p]) ?p
      = Some (created_lookup (sample_created 1))"
    by (simp add: spec_commit_def sample_applied_def sample_created_def)
  ultimately show ?thesis by metis
qed

text \<open>
  Batching does not change the index: committing two lists of blocks one
  after the other represents the same live outpoints as committing them
  together.
\<close>

theorem index_store_batching:
  assumes "store_good lib content db0" and "\<forall>block \<in> set (blocks1 @ blocks2). wf_applied block"
  shows "\<exists>db1 db2 db. commit_applied_blocks lib blocks1 h1 hash1 uid1 db0 = Inr db1
    \<and> commit_applied_blocks lib blocks2 h hash uid db1 = Inr db2
    \<and> commit_applied_blocks lib (blocks1 @ blocks2) h hash uid db0 = Inr db
    \<and> spend_view (content db2) = spend_view (content db)"
  by (rule rs.commit_in_batches [OF assms])

theorem index_store_batching_witness:
  "\<exists>db1 db2 db. commit_applied_blocks map_rocks [sample_applied] 1 [] 2 empty_content = Inr db1
    \<and> commit_applied_blocks map_rocks [sample_applied] 3 [] 4 db1 = Inr db2
    \<and> commit_applied_blocks map_rocks [sample_applied, sample_applied] 3 [] 4 empty_content = Inr db
    \<and> spend_view db2 = spend_view db"
  using index_store_batching [OF empty_store_good, of "[sample_applied]" "[sample_applied]" 1 "[]" 2 3 "[]" 4]
  by (simp add: sample_applied_wf)

text \<open>
  after a commit the tip read back is the committed one, and its hash is
  the previous tip hash the next block is checked against.
\<close>

theorem index_store_tip_roundtrip:
  assumes "store_good lib content db" and "\<forall>block \<in> set blocks. wf_applied block" and "length hash = 32"
  shows "\<exists>db'. commit_applied_blocks lib blocks h hash uid db = Inr db'
    \<and> tip lib db' = Inr (Some \<lparr>it_height = h, it_block_hash = hash, it_last_uid = uid\<rparr>)
    \<and> previous_tip_hash lib db' = Inr (Some hash)"
proof -
  have ok: "db_ok lib content" "store_inv (content db)" using assms(1) by (simp_all add: store_good_def)
  obtain db' where db': "commit_applied_blocks lib blocks h hash uid db = Inr db'"
      "content db' KEY_TIP_HEIGHT = Some (to_be_bytes h)" "content db' KEY_TIP_HASH = Some hash"
      "content db' KEY_LAST_UID = Some (to_be_bytes uid)"
    using commit_applied_blocks_effect [OF ok assms(2)] by metis
  have get: "db_get lib db' k = Inr (content db' k)" for k using ok(1) unfolding db_ok_def by blast
  have "tip lib db' = Inr (Some \<lparr>it_height = h, it_block_hash = hash, it_last_uid = uid\<rparr>)"
    by (simp add: tip_def get db' read_32_def assms(3))
  with db'(1) show ?thesis by (simp add: previous_tip_hash_def)
qed

theorem index_store_tip_roundtrip_witness:
  "\<exists>db'. commit_applied_blocks map_rocks [sample_applied] 100 (replicate 32 1) 6 empty_content = Inr db'
    \<and> tip map_rocks db' = Inr (Some \<lparr>it_height = 100, it_block_hash = replicate 32 1, it_last_uid = 6\<rparr>)"
  using index_store_tip_roundtrip [OF empty_store_good, of "[sample_applied]" "replicate 32 1" 100 6]
  by (auto simp: sample_applied_wf)

text \<open>
  C26: how the counts of seen keys change: a commit raises the count of a key
  by one when any block of the batch creates an output with it, however many
  there are, and leaves the others alone. The counts are read from the
  database while the batch is filled, so repeated keys of one batch are
  counted once.
\<close>

theorem seen_count_after_commit:
  assumes "store_good lib content db" and "\<forall>block \<in> set blocks. wf_applied block"
  shows "\<exists>db'. commit_applied_blocks lib blocks h hash uid db = Inr db'
    \<and> (\<forall>k. seen_count (content db') k = (if \<exists>block \<in> set blocks. k \<in> block_keys block
         then saturating_add (seen_count (content db) k) 1 else seen_count (content db) k))"
proof -
  have ok: "db_ok lib content" "store_inv (content db)" using assms(1) by (simp_all add: store_good_def)
  obtain db' where db': "commit_applied_blocks lib blocks h hash uid db = Inr db'"
      "\<And>k. content db' (seen_key k) = (if k \<in> \<Union> (block_keys ` set blocks)
        then Some (to_be_bytes (saturating_add (seen_count (content db) k) 1)) else content db (seen_key k))"
    using commit_applied_blocks_effect [OF ok assms(2)] by metis
  have "seen_count (content db') k = (if \<exists>block \<in> set blocks. k \<in> block_keys block
      then saturating_add (seen_count (content db) k) 1 else seen_count (content db) k)" for k
    unfolding seen_count_def [of "content db'"] db'(2) by (auto simp: from_to_be_bytes seen_count_def)
  with db'(1) show ?thesis by blast
qed

theorem seen_count_after_commit_witness:
  "\<exists>db'. commit_applied_blocks map_rocks [sample_applied] 100 (replicate 32 1) 6 empty_content = Inr db'
    \<and> length (ab_created_utxos sample_applied) = 2
    \<and> (\<forall>created \<in> set (ab_created_utxos sample_applied). su_p2tr_xonly_key (cu_entry created) = replicate 32 9)
    \<and> seen_count db' (replicate 32 9) = 1"
proof -
  have zero: "seen_count empty_content (replicate 32 9) = 0" by (simp add: seen_count_def empty_content_def)
  have key: "replicate 32 9 \<in> block_keys sample_applied"
    by (simp add: block_keys_def sample_applied_def sample_created_def)
  have created: "length (ab_created_utxos sample_applied) = 2"
    "\<forall>created \<in> set (ab_created_utxos sample_applied). su_p2tr_xonly_key (cu_entry created) = replicate 32 9"
    by (simp_all add: sample_applied_def sample_created_def)
  have one: "saturating_add (0 :: u64) 1 = 1" by (simp add: saturating_add_def)
  obtain db' where "commit_applied_blocks map_rocks [sample_applied] 100 (replicate 32 1) 6 empty_content = Inr db'"
    "\<forall>k. seen_count db' k = (if k \<in> block_keys sample_applied
       then saturating_add (seen_count empty_content k) 1 else seen_count empty_content k)"
    using seen_count_after_commit [OF empty_store_good, of "[sample_applied]" 100 "replicate 32 1" 6]
    by (auto simp: sample_applied_wf)
  with created show ?thesis using zero key one by (intro exI [of _ db']) simp
qed

lemma spend_lookup_split:
  assumes "length bs = 21 \<or> length bs = 20"
  shows "bs = slice bs 0 8 @ slice bs 8 16 @ slice bs 16 20 @ (if length bs = 21 then [bs ! 20] else [])"
proof -
  have "bs = take 8 bs @ take 8 (drop 8 bs) @ take 4 (drop 16 bs) @ drop 20 bs"
    using append_take_drop_id [of 8 bs] append_take_drop_id [of 8 "drop 8 bs"]
      append_take_drop_id [of 4 "drop 16 bs"] by simp
  moreover have "drop 20 bs = (if length bs = 21 then [bs ! 20] else [])"
    using assms by (auto simp: Cons_nth_drop_Suc [symmetric, of 20])
  ultimately show ?thesis by (simp add: slice_def)
qed

text \<open>
  the spend references of the store: a stored value is readable as a
  reference if and only if it is its 21-byte encoding, or the 20-byte
  encoding of an earlier version without flags; every other length is refused.
\<close>

theorem spend_lookup_readable_iff:
  "read_spend_lookup bs = Inr s \<longleftrightarrow>
    bs = encode_spend_lookup s \<or> sl_flags s = 0 \<and> bs = butlast (encode_spend_lookup s)"
proof
  assume read: "read_spend_lookup bs = Inr s"
  then have len: "length bs = 21 \<or> length bs = 20"
    by (auto simp: read_spend_lookup_def Let_def split: if_splits)
  then have parts: "slice bs 0 8 = to_be_bytes (sl_uid s)" "slice bs 8 16 = to_be_bytes (sl_creation_height s)"
      "slice bs 16 20 = to_be_bytes (sl_output_index s)"
      "length bs = 21 \<Longrightarrow> bs ! 20 = sl_flags s" "length bs = 20 \<Longrightarrow> sl_flags s = 0"
    using read by (auto simp: read_spend_lookup_def Let_def result_simps read_u64_be_eq_Inr read_u32_be_eq_Inr)
  from spend_lookup_split [OF len] show "bs = encode_spend_lookup s \<or> sl_flags s = 0 \<and> bs = butlast (encode_spend_lookup s)"
    unfolding parts(1-3) using len parts(4,5) by (auto simp: encode_spend_lookup_def butlast_append)
next
  assume "bs = encode_spend_lookup s \<or> sl_flags s = 0 \<and> bs = butlast (encode_spend_lookup s)"
  then show "read_spend_lookup bs = Inr s"
  proof
    assume bs: "sl_flags s = 0 \<and> bs = butlast (encode_spend_lookup s)"
    then have "slice bs 0 8 = to_be_bytes (sl_uid s)" "slice bs 8 16 = to_be_bytes (sl_creation_height s)"
      "slice bs 16 20 = to_be_bytes (sl_output_index s)" "length bs = 20"
      by (simp_all add: encode_spend_lookup_def slice_def butlast_append)
    with bs show ?thesis by (simp add: read_spend_lookup_def Let_def)
  qed simp
qed

lemma ensure_meta_value_effect:
  assumes "db_ok lib content"
  shows "snd (ensure_meta_value lib k v db) = Inr () \<longleftrightarrow> content db k \<in> {None, Some v}"
    and "content (fst (ensure_meta_value lib k v db)) =
      (if content db k = None then (content db)(k \<mapsto> v) else content db)"
proof -
  have get: "db_get lib db k = Inr (content db k)" using assms unfolding db_ok_def by blast
  obtain db' where put: "db_put lib db k v = Inr db'" "content db' = (content db)(k \<mapsto> v)"
    using assms unfolding db_ok_def by blast
  show "snd (ensure_meta_value lib k v db) = Inr () \<longleftrightarrow> content db k \<in> {None, Some v}"
    by (cases "content db k") (simp_all add: ensure_meta_value_def get put)
  show "content (fst (ensure_meta_value lib k v db)) =
      (if content db k = None then (content db)(k \<mapsto> v) else content db)"
    by (cases "content db k") (simp_all add: ensure_meta_value_def get put)
qed

lemma ensure_meta_effect:
  assumes "db_ok lib content"
  shows "snd (ensure_meta lib network start db) = Inr () \<longleftrightarrow>
      content db KEY_NETWORK \<in> {None, Some network}
      \<and> content db KEY_START_HEIGHT \<in> {None, Some (to_be_bytes start)}"
    and "snd (ensure_meta lib network start db) = Inr () \<Longrightarrow>
      content (fst (ensure_meta lib network start db))
        = (content db)(KEY_NETWORK \<mapsto> network, KEY_START_HEIGHT \<mapsto> to_be_bytes start)"
proof -
  obtain db1 r where step: "ensure_meta_value lib KEY_NETWORK network db = (db1, r)" by fastforce
  note first = ensure_meta_value_effect [OF assms, of KEY_NETWORK network db, unfolded step, simplified]
  note second = ensure_meta_value_effect [OF assms, of KEY_START_HEIGHT "to_be_bytes start" db1]
  have neq: "KEY_NETWORK \<noteq> KEY_START_HEIGHT" using distinct_meta_keys by (simp add: meta_keys_def)
  have start: "content db1 KEY_START_HEIGHT = content db KEY_START_HEIGHT"
    using first(2) neq by auto
  show iff: "snd (ensure_meta lib network start db) = Inr () \<longleftrightarrow>
      content db KEY_NETWORK \<in> {None, Some network}
      \<and> content db KEY_START_HEIGHT \<in> {None, Some (to_be_bytes start)}"
    using first(1) second(1) by (cases r) (auto simp: ensure_meta_def step start)
  assume "snd (ensure_meta lib network start db) = Inr ()"
  with iff first second neq start show "content (fst (ensure_meta lib network start db))
      = (content db)(KEY_NETWORK \<mapsto> network, KEY_START_HEIGHT \<mapsto> to_be_bytes start)"
    by (cases r) (auto simp: ensure_meta_def step fun_eq_iff)
qed

text \<open>
  the metadata of an index is fixed by the first run: after a successful
  \<open>ensure_meta\<close>, a later call succeeds if and only if it names the same network and
  start height; the first call leaves the live outpoints alone.
\<close>

theorem index_metadata_fixed:
  assumes "db_ok lib content" and "snd (ensure_meta lib network start db) = Inr ()"
    and "fst (ensure_meta lib network start db) = db'"
  shows "(snd (ensure_meta lib network' start' db') = Inr () \<longleftrightarrow> network' = network \<and> start' = start)
    \<and> spend_view (content db') = spend_view (content db)"
proof -
  have c: "content db' = (content db)(KEY_NETWORK \<mapsto> network, KEY_START_HEIGHT \<mapsto> to_be_bytes start)"
    using ensure_meta_effect(2) [OF assms(1,2)] assms(3) by simp
  have "KEY_NETWORK \<noteq> KEY_START_HEIGHT" using distinct_meta_keys by (simp add: meta_keys_def)
  then have "content db' KEY_NETWORK = Some network" "content db' KEY_START_HEIGHT = Some (to_be_bytes start)"
    by (simp_all add: c)
  then have "snd (ensure_meta lib network' start' db') = Inr () \<longleftrightarrow> network' = network \<and> start' = start"
    using ensure_meta_effect(1) [OF assms(1), of network' start' db'] by (auto simp: to_be_bytes_eq)
  moreover have "spend_view (content db') = spend_view (content db)"
    unfolding c meta_updates(1) [OF tip_keys(5)] meta_updates(1) [OF tip_keys(4)] ..
  ultimately show ?thesis by blast
qed

theorem index_metadata_fixed_witness:
  "snd (ensure_meta map_rocks [1] 7 (fst (ensure_meta map_rocks [1] 7 empty_content))) = Inr ()
    \<and> snd (ensure_meta map_rocks [2] 7 (fst (ensure_meta map_rocks [1] 7 empty_content))) \<noteq> Inr ()"
proof -
  have "snd (ensure_meta map_rocks [1] 7 empty_content) = Inr ()"
    using ensure_meta_effect(1) [OF map_rocks_ok, of "[1]" 7 empty_content] by (simp add: empty_content_def)
  note fixed = index_metadata_fixed [OF map_rocks_ok this refl]
  from fixed [of "[1]" 7] fixed [of "[2]" 7] show ?thesis by simp
qed

end
