(* ===== verification/Store_Mirror.thy ===== *)
theory Store_Mirror
  imports P2tr_Properties Index_Store
begin

text \<open>
  The indexer (\<^verbatim>\<open>p2tr_indexer.rs\<close>) and its database (\<^verbatim>\<open>index_store.rs\<close>) together. The
  indexer updates its spend index transaction by transaction; the database
  gets all outputs of a block and then all its spends. Both agree on blocks
  in which no transaction spends an output of itself or of a later
  transaction, which the hash that names a transaction rules out.
\<close>

fun causal :: "bytes set \<Rightarrow> TxScanInput list \<Rightarrow> bool" where
  "causal spent [] \<longleftrightarrow> True"
| "causal spent (tx # txs) \<longleftrightarrow>
     (let spent' = spent \<union> (\<lambda>inp. op_txid (ti_previous_output inp)) ` set (tx_inputs tx)
      in tx_txid tx \<notin> spent' \<and> causal spent' txs)"

definition wf_txids :: "BlockScanInput \<Rightarrow> bool" where
  "wf_txids block \<longleftrightarrow>
     causal {} (bs_txs block)
     \<and> (\<forall>tx \<in> set (bs_txs block). length (tx_txid tx) = 32
          \<and> (\<forall>inp \<in> set (tx_inputs tx). wf_outpoint (ti_previous_output inp)))"

section \<open>The index of a block in closed form\<close>

definition put_created :: "CreatedScopedUtxo list \<Rightarrow> (OutPointKey \<Rightarrow> SpendLookup option)
    \<Rightarrow> OutPointKey \<Rightarrow> SpendLookup option" where
  "put_created createds m =
     fold (\<lambda>created m. m(su_outpoint (cu_entry created) \<mapsto> created_lookup created)) createds m"

lemma put_created_snoc [simp]:
  "put_created (cs @ [c]) m = (put_created cs m)(su_outpoint (cu_entry c) \<mapsto> created_lookup c)"
  by (simp add: put_created_def)

lemma fold_delete: "fold (\<lambda>spent m. m(sp_outpoint spent := None)) spents m = m |` (- sp_outpoint ` set spents)"
  by (induction spents arbitrary: m) (auto simp: restrict_map_def fun_eq_iff)

lemma spec_commit_closed:
  "spec_commit block m = put_created (ab_created_utxos block) m |` (- sp_outpoint ` set (ab_spent_utxos block))"
  by (simp add: spec_commit_def put_created_def fold_delete)

text \<open>The accumulator and what a commit of its block would write.\<close>

definition mirror :: "(OutPointKey \<Rightarrow> SpendLookup option) \<Rightarrow> bytes set \<Rightarrow> block_acc \<Rightarrow> bool" where
  "mirror m spent acc \<longleftrightarrow>
     acc_utxos acc = put_created (ba_created acc) m |` (- sp_outpoint ` set (ba_spent acc))
     \<and> (\<lambda>s. op_txid (sp_outpoint s)) ` set (ba_spent acc) \<subseteq> spent
     \<and> (\<forall>s \<in> set (ba_spent acc). wf_outpoint (sp_outpoint s))
     \<and> (\<forall>c \<in> set (ba_created acc). wf_outpoint (su_outpoint (cu_entry c)))"

lemma index_output_created:
  assumes "index_output block f tx out slot key reused acc = Inr acc'"
  obtains c where "ba_created acc' = ba_created acc @ [c]"
    and "su_outpoint (cu_entry c) = \<lparr>op_txid = tx_txid tx, op_vout = to_vout out\<rparr>"
    and "acc_utxos acc' = (acc_utxos acc)(su_outpoint (cu_entry c) \<mapsto> created_lookup c)"
    and "ba_spent acc' = ba_spent acc"
  using assms by (auto simp: index_output_def result_simps Let_def update_conv' created_lookup_def)

lemma apply_input_spent:
  assumes "apply_input block tx inp acc = Inr acc'"
  obtains "acc' = acc"
  | s where "ba_spent acc' = ba_spent acc @ [s]" and "sp_outpoint s = ti_previous_output inp"
    and "acc_utxos acc' = (acc_utxos acc)(ti_previous_output inp := None)" and "ba_created acc' = ba_created acc"
  using assms by (auto simp: apply_input_def result_simps Let_def delete_conv' split: option.splits)

lemma mirror_input:
  assumes "apply_input block tx inp acc = Inr acc'" and "mirror m spent acc"
    and "op_txid (ti_previous_output inp) \<in> spent" and "wf_outpoint (ti_previous_output inp)"
  shows "mirror m spent acc'"
  using assms(1)
proof (cases rule: apply_input_spent)
  case (2 s)
  have "(acc_utxos acc)(ti_previous_output inp := None)
      = put_created (ba_created acc) m |` (- sp_outpoint ` set (ba_spent acc @ [s]))"
    using assms(2) 2(2) by (auto simp: mirror_def restrict_map_def fun_eq_iff)
  with 2 assms show ?thesis by (simp add: mirror_def)
qed (use assms in simp)

lemma mirror_output:
  assumes "apply_output block f tx out (acc, has, k) = Inr (acc', has', k')" and "mirror m spent acc"
    and "tx_txid tx \<notin> spent" and "length (tx_txid tx) = 32"
  shows "mirror m spent acc'"
  using assms(1)
proof (cases rule: apply_output_cases)
  case (indexed key acc1 stats)
  have m1: "mirror m spent acc1" using assms(2) indexed(8) by (simp add: mirror_def)
  from indexed(9) obtain c where
    c: "ba_created acc' = ba_created acc1 @ [c]" "su_outpoint (cu_entry c) = \<lparr>op_txid = tx_txid tx, op_vout = to_vout out\<rparr>"
      "acc_utxos acc' = (acc_utxos acc1)(su_outpoint (cu_entry c) \<mapsto> created_lookup c)" "ba_spent acc' = ba_spent acc1"
    by (rule index_output_created)
  have fresh: "su_outpoint (cu_entry c) \<notin> sp_outpoint ` set (ba_spent acc1)"
  proof
    assume "su_outpoint (cu_entry c) \<in> sp_outpoint ` set (ba_spent acc1)"
    then have "op_txid (su_outpoint (cu_entry c)) \<in> spent" using m1 by (auto simp: mirror_def)
    with assms(3) c(2) show False by simp
  qed
  have "acc_utxos acc' = put_created (ba_created acc') m |` (- sp_outpoint ` set (ba_spent acc'))"
    using m1 fresh unfolding c put_created_snoc by (auto simp: mirror_def restrict_map_def fun_eq_iff)
  moreover have "wf_outpoint (su_outpoint (cu_entry c))" using assms(4) by (simp add: c(2) wf_outpoint_def)
  ultimately show ?thesis using m1 by (auto simp: mirror_def c(1,4))
qed (use assms in \<open>simp_all add: mirror_def\<close>)

lemma mirror_tx:
  assumes "apply_tx block f n tx acc = Inr acc'" and "mirror m spent acc"
    and "spent' = spent \<union> (\<lambda>inp. op_txid (ti_previous_output inp)) ` set (tx_inputs tx)"
    and "tx_txid tx \<notin> spent'" and "length (tx_txid tx) = 32"
    and "\<forall>inp \<in> set (tx_inputs tx). wf_outpoint (ti_previous_output inp)"
  shows "mirror m spent' acc'"
proof -
  from assms(1) obtain acc1 acc2 has k where
    ins: "try_fold (apply_input block tx) (tx_inputs tx) acc = Inr acc1"
    and outs: "try_fold (apply_output block f tx) (tx_outputs tx) (acc1, False, 0) = Inr (acc2, has, k)"
    and last: "finish_tx n tx (acc2, has, k) = Inr acc'"
    by (auto simp: apply_tx_def result_simps)
  have "mirror m spent' acc" using assms(2,3) by (auto simp: mirror_def)
  then have "mirror m spent' acc1"
    by (rule try_fold_invariant [OF ins]) (use assms(3,6) mirror_input in blast)
  then have "mirror m spent' (fst (acc1, False, 0 :: u16))" by simp
  then have "mirror m spent' (fst (acc2, has, k))"
    by (rule try_fold_invariant [OF outs, where P = "\<lambda>st. mirror m spent' (fst st)"])
      (metis assms(4,5) mirror_output prod.collapse)
  with finish_tx_state [OF last] show ?thesis by (simp add: mirror_def)
qed

lemma mirror_txs:
  "try_fold (apply_tx block f n) txs acc = Inr acc' \<Longrightarrow> mirror m spent acc \<Longrightarrow> causal spent txs \<Longrightarrow>
   \<forall>tx \<in> set txs. length (tx_txid tx) = 32 \<and> (\<forall>inp \<in> set (tx_inputs tx). wf_outpoint (ti_previous_output inp)) \<Longrightarrow>
   \<exists>spent'. mirror m spent' acc'"
proof (induction txs arbitrary: acc spent)
  case (Cons tx txs)
  then obtain acc1 where step: "apply_tx block f n tx acc = Inr acc1"
      "try_fold (apply_tx block f n) txs acc1 = Inr acc'" by (auto simp: result_simps)
  let ?spent = "spent \<union> (\<lambda>inp. op_txid (ti_previous_output inp)) ` set (tx_inputs tx)"
  have "mirror m ?spent acc1"
    using mirror_tx [OF step(1) Cons.prems(2) refl] Cons.prems(3,4) by (simp add: Let_def)
  with Cons.IH [OF step(2)] Cons.prems(3,4) show ?case by (simp add: Let_def)
qed auto

lemma commit_mirrors_block:
  assumes "apply_block_with_stats sha256 state block = Inr (state', ab)" and "wf_txids block"
  shows "utxos state' = spec_commit ab (utxos state)" and "wf_applied ab"
proof -
  from assms(1) obtain n bm acc where
    txs: "try_fold (apply_tx block (saturating_add (next_uid state) 1) n) (bs_txs block) (start_acc state n bm) = Inr acc"
    and adv: "advance_uid (saturating_add (next_uid state) 1) acc = Inr state'"
    and ab: "ab_created_utxos ab = ba_created acc" "ab_spent_utxos ab = ba_spent acc"
    by (auto simp: apply_block_with_stats_def Let_def result_simps start_acc_def)
  have "mirror (utxos state) {} (start_acc state n bm)"
    by (simp add: mirror_def start_acc_def put_created_def restrict_map_def)
  then obtain spent where "mirror (utxos state) spent acc"
    using mirror_txs [OF txs] assms(2) unfolding wf_txids_def by blast
  then show "utxos state' = spec_commit ab (utxos state)" "wf_applied ab"
    using advance_uid_utxos [OF adv] by (simp_all add: mirror_def spec_commit_closed ab wf_applied_def)
qed

lemma commit_mirrors_run:
  "apply_blocks sha256 state blocks = Inr (state', applied) \<Longrightarrow> \<forall>block \<in> set blocks. wf_txids block \<Longrightarrow>
   utxos state' = fold spec_commit applied (utxos state) \<and> (\<forall>ab \<in> set applied. wf_applied ab)"
proof (induction blocks arbitrary: state applied)
  case (Cons block blocks)
  then obtain state1 ab rest where
    step: "apply_block_with_stats sha256 state block = Inr (state1, ab)"
      "apply_blocks sha256 state1 blocks = Inr (state', rest)" "applied = ab # rest"
    by (auto simp: result_simps)
  have "wf_txids block" using Cons.prems(2) by simp
  with commit_mirrors_block [OF step(1)] Cons.IH [OF step(2)] Cons.prems(2) step(3) show ?case by simp
qed simp

section \<open>Property\<close>

text \<open>
  C10: the database follows the indexer over a run of blocks: if it represents
  the indexer's spend index before the run, then committing the applied
  blocks in one batch succeeds and the database represents the spend index
  after it, so that lookups return what the indexer itself would find.
\<close>

theorem index_store_mirrors_indexer:
  assumes "apply_blocks sha256 state blocks = Inr (state', applied)"
    and "\<forall>block \<in> set blocks. wf_txids block"
    and "store_good lib content db" and "spend_view (content db) = utxos state"
  shows "\<exists>db'. commit_applied_blocks lib applied h hash (next_uid state') db = Inr db'
    \<and> store_good lib content db' \<and> spend_view (content db') = utxos state'"
  using commit_mirrors_run [OF assms(1,2)] rs.commit_ok [OF assms(3)] assms(4) by metis

theorem index_store_mirrors_indexer_witness:
  "\<exists>state' applied db'. apply_blocks (\<lambda>_. replicate 32 0) new_state [sample_scan] = Inr (state', applied)
    \<and> commit_applied_blocks map_rocks applied 5 (replicate 32 1) (next_uid state') empty_content = Inr db'
    \<and> spend_view db' = utxos state'"
proof -
  have "unat (next_uid new_state) + 65536 < 2 ^ 64" "sha256_ok (\<lambda>_. replicate 32 0)"
    by (simp_all add: new_state_def sha256_ok_def)
  then obtain state' applied where
    run: "apply_blocks (\<lambda>_. replicate 32 0) new_state [sample_scan] = Inr (state', applied)"
    using apply_blocks_correct [OF _ new_state_inv, of "\<lambda>_. replicate 32 0" "[sample_scan]"] sample_scan_wf
    by (auto simp: ascending_heights_def)
  have wf: "\<forall>block \<in> set [sample_scan]. wf_txids block"
    by (simp add: wf_txids_def sample_scan_def)
  have "spend_view (id empty_content) = utxos new_state"
    by (auto simp: spend_view_def empty_content_def new_state_def fun_eq_iff)
  from index_store_mirrors_indexer [OF run wf empty_store_good, OF this, of 5 "replicate 32 1"] run
  show ?thesis by auto
qed

end
