(* ===== verification/Restart.thy ===== *)
theory Restart
  imports Store_Mirror
begin

text \<open>
  A restarted indexer (\<^verbatim>\<open>restore_at_uid\<close> of \<^verbatim>\<open>light-server/src/p2tr_indexer.rs\<close> with the candidate lookup of
  \<^verbatim>\<open>light_indexer.rs\<close>) against one that has kept its whole spend index in
  memory: they apply a block with the same result as long as they agree on
  the outpoints the block spends.
\<close>

section \<open>Related results\<close>

text \<open>Both computations fail with the same error, or both succeed with related values.\<close>

abbreviation same_result :: "('a \<Rightarrow> 'b \<Rightarrow> bool) \<Rightarrow> 'e + 'a \<Rightarrow> 'e + 'b \<Rightarrow> bool" where
  "same_result R \<equiv> rel_sum (=) R"

lemma same_result_and_then:
  assumes "same_result R x y" and "\<And>a b. R a b \<Longrightarrow> same_result Q (f a) (g b)"
  shows "same_result Q (and_then x f) (and_then y g)"
  using assms by (cases x; cases y) auto

lemma same_result_same:
  assumes "\<And>a. x = Inr a \<Longrightarrow> same_result Q (f a) (g a)"
  shows "same_result Q (and_then x f) (and_then x g)"
  using assms by (cases x) auto

lemma same_result_fold:
  assumes "\<And>x s t. x \<in> set xs \<Longrightarrow> R s t \<Longrightarrow> same_result R (f x s) (g x t)"
  shows "R s t \<Longrightarrow> same_result R (try_fold f xs s) (try_fold g xs t)"
  using assms
proof (induction xs arbitrary: s t)
  case (Cons x xs)
  have "same_result R (f x s) (g x t)" using Cons.prems by simp
  then show ?case unfolding try_fold.simps
  proof (rule same_result_and_then)
    fix a b
    assume "R a b"
    then show "same_result R (try_fold f xs a) (try_fold g xs b)" using Cons.IH Cons.prems(2) by simp
  qed
qed simp

section \<open>States that agree on a set of outpoints\<close>

definition state_agrees :: "OutPointKey set \<Rightarrow> P2trIndexerState \<Rightarrow> P2trIndexerState \<Rightarrow> bool" where
  "state_agrees D s t \<longleftrightarrow>
     next_uid s = next_uid t \<and> seen_p2tr_keys s = seen_p2tr_keys t \<and> (\<forall>p \<in> D. utxos s p = utxos t p)"

definition acc_agrees :: "OutPointKey set \<Rightarrow> block_acc \<Rightarrow> block_acc \<Rightarrow> bool" where
  "acc_agrees D a b \<longleftrightarrow> b = a\<lparr>ba_state := ba_state b\<rparr> \<and> state_agrees D (ba_state a) (ba_state b)"

lemma acc_agreesE:
  assumes "acc_agrees D a b"
  obtains t where "b = a\<lparr>ba_state := t\<rparr>" and "state_agrees D (ba_state a) t"
  using assms unfolding acc_agrees_def by blast

lemma input_agrees:
  assumes "acc_agrees D a b" and "ti_previous_output inp \<in> D"
  shows "same_result (acc_agrees D) (apply_input block tx inp a) (apply_input block tx inp b)"
proof -
  obtain t where b: "b = a\<lparr>ba_state := t\<rparr>" and t: "state_agrees D (ba_state a) t" by (rule acc_agreesE [OF assms(1)])
  have same: "utxos t (ti_previous_output inp) = acc_utxos a (ti_previous_output inp)"
    using t assms(2) by (simp add: state_agrees_def)
  show ?thesis
  proof (cases "acc_utxos a (ti_previous_output inp)")
    case None
    then show ?thesis using same assms(1) by (simp add: apply_input_def b)
  next
    case (Some spend)
    then show ?thesis using same t unfolding apply_input_def b
      by (auto simp: Let_def acc_agrees_def state_agrees_def delete_conv' intro!: same_result_same)
  qed
qed

lemma see_key_agrees:
  assumes "state_agrees D s t"
  shows "fst (see_key key s) = fst (see_key key t)" and "state_agrees D (snd (see_key key s)) (snd (see_key key t))"
  using assms by (auto simp: see_key_def state_agrees_def split: option.splits)

lemma index_output_agrees:
  assumes "acc_agrees D a b"
  shows "same_result (acc_agrees D) (index_output block f tx out slot key reused a) (index_output block f tx out slot key reused b)"
proof -
  obtain t where b: "b = a\<lparr>ba_state := t\<rparr>" and t: "state_agrees D (ba_state a) t" by (rule acc_agreesE [OF assms])
  show ?thesis unfolding index_output_def b
    using t by (auto simp: Let_def acc_agrees_def state_agrees_def update_conv' intro!: same_result_same)
qed

definition loop_agrees :: "OutPointKey set \<Rightarrow> block_acc \<times> bool \<times> u16 \<Rightarrow> block_acc \<times> bool \<times> u16 \<Rightarrow> bool" where
  "loop_agrees D x y \<longleftrightarrow> acc_agrees D (fst x) (fst y) \<and> snd x = snd y"

lemma output_agrees:
  assumes "loop_agrees D x y"
  shows "same_result (loop_agrees D) (apply_output block f tx out x) (apply_output block f tx out y)"
proof -
  obtain a has k t where x: "x = (a, has, k)" and y: "y = (a\<lparr>ba_state := t\<rparr>, has, k)"
    and t: "state_agrees D (ba_state a) t"
    using assms by (cases x; cases y) (auto simp: loop_agrees_def elim!: acc_agreesE)
  show ?thesis
  proof (cases "to_is_p2tr out")
    case False
    then show ?thesis using t by (simp add: apply_output_def x y loop_agrees_def acc_agrees_def Let_def)
  next
    case True
    show ?thesis
      unfolding apply_output_def x y Let_def prod.case fst_conv snd_conv case_prod_beta
      using True t see_key_agrees [OF t]
      by (auto simp: loop_agrees_def acc_agrees_def
        intro!: same_result_same same_result_and_then [OF index_output_agrees])
  qed
qed

lemma finish_tx_agrees:
  assumes "loop_agrees D x y"
  shows "same_result (acc_agrees D) (finish_tx n tx x) (finish_tx n tx y)"
proof -
  obtain a has k t where x: "x = (a, has, k)" and y: "y = (a\<lparr>ba_state := t\<rparr>, has, k)"
    and t: "state_agrees D (ba_state a) t"
    using assms by (cases x; cases y) (auto simp: loop_agrees_def elim!: acc_agreesE)
  show ?thesis unfolding finish_tx_def x y Let_def
    using t by (auto simp: acc_agrees_def split: option.split intro!: same_result_same)
qed

lemma tx_agrees:
  assumes "acc_agrees D a b" and "ti_previous_output ` set (tx_inputs tx) \<subseteq> D"
  shows "same_result (acc_agrees D) (apply_tx block f n tx a) (apply_tx block f n tx b)"
  unfolding apply_tx_def
proof (rule same_result_and_then [OF same_result_fold [of _ "acc_agrees D"]])
  show "same_result (acc_agrees D) (apply_input block tx inp s) (apply_input block tx inp t)"
    if "inp \<in> set (tx_inputs tx)" "acc_agrees D s t" for inp s t
    using input_agrees [OF that(2)] that(1) assms(2) by blast
  show "acc_agrees D a b" by (rule assms(1))
  fix s t
  assume "acc_agrees D s t"
  then have "loop_agrees D (s, False, 0) (t, False, 0)" by (simp add: loop_agrees_def)
  then show "same_result (acc_agrees D) (and_then (try_fold (apply_output block f tx) (tx_outputs tx) (s, False, 0)) (finish_tx n tx))
      (and_then (try_fold (apply_output block f tx) (tx_outputs tx) (t, False, 0)) (finish_tx n tx))"
    by (intro same_result_and_then [OF same_result_fold [of _ "loop_agrees D"]] output_agrees finish_tx_agrees)
qed

text \<open>The outpoints a block spends or tries to spend.\<close>

definition block_spends :: "BlockScanInput \<Rightarrow> OutPointKey set" where
  "block_spends block = (\<Union>tx \<in> set (bs_txs block). ti_previous_output ` set (tx_inputs tx))"

lemma advance_agrees:
  assumes "acc_agrees D a b"
  shows "same_result (state_agrees D) (advance_uid f a) (advance_uid f b)"
proof -
  obtain t where b: "b = a\<lparr>ba_state := t\<rparr>" and t: "state_agrees D (ba_state a) t" by (rule acc_agreesE [OF assms])
  show ?thesis unfolding advance_uid_def b Let_def using t
    by (auto simp: state_agrees_def intro!: same_result_same)
qed

lemma block_agrees:
  assumes "state_agrees D s t" and "block_spends block \<subseteq> D"
  shows "same_result (rel_prod (state_agrees D) (=)) (apply_block_with_stats sha256 s block) (apply_block_with_stats sha256 t block)"
proof -
  have uid: "next_uid t = next_uid s" using assms(1) by (simp add: state_agrees_def)
  show ?thesis
    unfolding apply_block_with_stats_def Let_def uid
  proof (intro same_result_same, rule same_result_and_then [OF same_result_fold [of _ "acc_agrees D"]], goal_cases)
    case (1 n bm tx a b)
    then show ?case using assms(2) by (intro tx_agrees) (auto simp: block_spends_def)
  next
    case (2 n bm)
    then show ?case using assms(1) by (simp add: acc_agrees_def)
  next
    case (3 n bm a b)
    then obtain t' where b: "b = a\<lparr>ba_state := t'\<rparr>" by (auto elim!: acc_agreesE)
    show ?case unfolding b
      by (rule same_result_and_then [OF advance_agrees [OF 3(3) [unfolded b]]]) (auto intro!: same_result_same)
  qed
qed

lemma run_agrees:
  "state_agrees D s t \<Longrightarrow> \<forall>block \<in> set blocks. block_spends block \<subseteq> D \<Longrightarrow>
   same_result (rel_prod (state_agrees D) (=)) (apply_blocks sha256 s blocks) (apply_blocks sha256 t blocks)"
proof (induction blocks arbitrary: s t)
  case (Cons block blocks)
  have first: "same_result (rel_prod (state_agrees D) (=)) (apply_block_with_stats sha256 s block)
      (apply_block_with_stats sha256 t block)"
    using Cons.prems by (intro block_agrees) simp_all
  show ?case unfolding apply_blocks.simps
  proof (rule same_result_and_then [OF first], goal_cases)
    case (1 x y)
    then obtain s1 t1 ab where xy: "x = (s1, ab)" "y = (t1, ab)" "state_agrees D s1 t1"
      by (cases x; cases y) auto
    have "same_result (rel_prod (state_agrees D) (=)) (apply_blocks sha256 s1 blocks) (apply_blocks sha256 t1 blocks)"
      using Cons.IH [OF xy(3)] Cons.prems(2) by simp
    then show ?case unfolding xy prod.case by (rule same_result_and_then) auto
  qed
qed simp

section \<open>Spent outpoints are gone\<close>

definition block_txids :: "BlockScanInput \<Rightarrow> bytes set" where
  "block_txids block = tx_txid ` set (bs_txs block)"

text \<open>What an accumulator has of a block: spends and creations named by its transactions.\<close>

definition acc_named :: "BlockScanInput \<Rightarrow> block_acc \<Rightarrow> bool" where
  "acc_named block acc \<longleftrightarrow>
     (\<forall>s \<in> set (ba_spent acc). sp_outpoint s \<in> block_spends block)
     \<and> (\<forall>c \<in> set (ba_created acc). op_txid (su_outpoint (cu_entry c)) \<in> block_txids block)"

lemma input_gone:
  assumes "apply_input block tx inp acc = Inr acc'"
  shows "acc_utxos acc' (ti_previous_output inp) = None"
    and "acc_utxos acc p = None \<Longrightarrow> acc_utxos acc' p = None"
  using assms by (cases rule: apply_input_cases; simp)+

lemma output_gone:
  assumes "apply_output block f tx out (acc, has, k) = Inr (acc', has', k')" and "op_txid p \<noteq> tx_txid tx"
    and "acc_utxos acc p = None"
  shows "acc_utxos acc' p = None"
  using assms(1)
proof (cases rule: apply_output_cases)
  case (indexed key acc1 stats)
  from indexed(9) obtain c where
    "su_outpoint (cu_entry c) = \<lparr>op_txid = tx_txid tx, op_vout = to_vout out\<rparr>"
    "acc_utxos acc' = (acc_utxos acc1)(su_outpoint (cu_entry c) \<mapsto> created_lookup c)"
    by (rule index_output_created)
  then show ?thesis using assms(2,3) indexed(8) by (auto simp: OutPointKey.ext_inject)
qed (use assms(3) in simp_all)

lemma inputs_gone:
  "try_fold (apply_input block tx) inps acc = Inr acc' \<Longrightarrow>
   acc_utxos acc p = None \<or> p \<in> ti_previous_output ` set inps \<Longrightarrow> acc_utxos acc' p = None"
proof (induction inps arbitrary: acc)
  case (Cons inp inps)
  then obtain acc1 where step: "apply_input block tx inp acc = Inr acc1"
      "try_fold (apply_input block tx) inps acc1 = Inr acc'" by (auto simp: result_simps)
  have "acc_utxos acc1 p = None \<or> p \<in> ti_previous_output ` set inps"
    using Cons.prems(2) input_gone [OF step(1)] by auto
  then show ?case by (rule Cons.IH [OF step(2)])
qed simp

lemma tx_gone:
  assumes "apply_tx block f n tx acc = Inr acc'" and "op_txid p \<noteq> tx_txid tx"
    and "acc_utxos acc p = None \<or> p \<in> ti_previous_output ` set (tx_inputs tx)"
  shows "acc_utxos acc' p = None"
proof -
  from assms(1) obtain acc1 acc2 has k where
    ins: "try_fold (apply_input block tx) (tx_inputs tx) acc = Inr acc1"
    and outs: "try_fold (apply_output block f tx) (tx_outputs tx) (acc1, False, 0) = Inr (acc2, has, k)"
    and last: "finish_tx n tx (acc2, has, k) = Inr acc'"
    by (auto simp: apply_tx_def result_simps)
  have "acc_utxos acc1 p = None" by (rule inputs_gone [OF ins assms(3)])
  then have "acc_utxos (fst (acc1, False, 0 :: u16)) p = None" by simp
  then have "acc_utxos (fst (acc2, has, k)) p = None"
    by (rule try_fold_invariant [OF outs, where P = "\<lambda>st. acc_utxos (fst st) p = None"])
      (metis assms(2) output_gone prod.collapse)
  with finish_tx_state [OF last] show ?thesis by simp
qed

lemma txs_gone:
  "try_fold (apply_tx block f n) txs acc = Inr acc' \<Longrightarrow> causal spent txs \<Longrightarrow>
   (acc_utxos acc p = None \<and> op_txid p \<in> spent) \<or> p \<in> (\<Union>tx \<in> set txs. ti_previous_output ` set (tx_inputs tx)) \<Longrightarrow>
   acc_utxos acc' p = None"
proof (induction txs arbitrary: acc spent)
  case (Cons tx txs)
  then obtain acc1 where step: "apply_tx block f n tx acc = Inr acc1"
      "try_fold (apply_tx block f n) txs acc1 = Inr acc'" by (auto simp: result_simps)
  let ?spent = "spent \<union> (\<lambda>inp. op_txid (ti_previous_output inp)) ` set (tx_inputs tx)"
  have c: "tx_txid tx \<notin> ?spent" "causal ?spent txs" using Cons.prems(2) by (simp_all add: Let_def)
  show ?case
  proof (cases "p \<in> (\<Union>tx \<in> set txs. ti_previous_output ` set (tx_inputs tx))")
    case False
    with Cons.prems(3) have here: "acc_utxos acc p = None \<and> op_txid p \<in> spent \<or> p \<in> ti_previous_output ` set (tx_inputs tx)"
      by auto
    then have spent: "op_txid p \<in> ?spent" by auto
    then have "op_txid p \<noteq> tx_txid tx" using c(1) by metis
    then have "acc_utxos acc1 p = None" by (rule tx_gone [OF step(1)]) (use here in argo)
    with spent show ?thesis by (intro Cons.IH [OF step(2) c(2)] disjI1 conjI)
  qed (rule Cons.IH [OF step(2) c(2)], rule disjI2)
qed simp

lemma block_run_start:
  assumes "apply_block_with_stats sha256 state block = Inr (state', ab)"
  obtains n bm acc where
    "try_fold (apply_tx block (saturating_add (next_uid state) 1) n) (bs_txs block) (start_acc state n bm) = Inr acc"
    and "advance_uid (saturating_add (next_uid state) 1) acc = Inr state'"
    and "ab_created_utxos ab = ba_created acc" "ab_spent_utxos ab = ba_spent acc"
    and "sb_outputs (ab_storage_block ab) = ba_outputs acc"
  using assms by (auto simp: apply_block_with_stats_def Let_def result_simps start_acc_def)

lemma block_gone:
  assumes "apply_block_with_stats sha256 state block = Inr (state', ab)" and "wf_txids block"
    and "p \<in> block_spends block"
  shows "utxos state' p = None"
proof -
  obtain n bm acc where
    txs: "try_fold (apply_tx block (saturating_add (next_uid state) 1) n) (bs_txs block) (start_acc state n bm) = Inr acc"
    and adv: "advance_uid (saturating_add (next_uid state) 1) acc = Inr state'"
    by (rule block_run_start [OF assms(1)])
  have "acc_utxos acc p = None"
    using txs_gone [OF txs, of "{}"] assms(2,3) by (simp add: wf_txids_def block_spends_def)
  then show ?thesis using advance_uid_utxos [OF adv] by simp
qed

lemma input_named:
  assumes "apply_input block tx inp acc = Inr acc'" and "acc_named block acc" and "ti_previous_output inp \<in> block_spends block"
  shows "acc_named block acc'"
  using assms(1) by (cases rule: apply_input_spent) (use assms(2,3) in \<open>auto simp: acc_named_def\<close>)

lemma output_named:
  assumes "apply_output block f tx out (acc, has, k) = Inr (acc', has', k')" and "acc_named block acc"
    and "tx_txid tx \<in> block_txids block"
  shows "acc_named block acc'"
  using assms(1)
proof (cases rule: apply_output_cases)
  case (indexed key acc1 stats)
  from indexed(9) obtain c where
    "ba_created acc' = ba_created acc1 @ [c]" "su_outpoint (cu_entry c) = \<lparr>op_txid = tx_txid tx, op_vout = to_vout out\<rparr>"
    "ba_spent acc' = ba_spent acc1"
    by (rule index_output_created)
  then show ?thesis using assms(2,3) indexed(8) by (auto simp: acc_named_def)
qed (use assms(2) in \<open>simp_all add: acc_named_def\<close>)

lemma tx_named:
  assumes "apply_tx block f n tx acc = Inr acc'" and "acc_named block acc" and "tx \<in> set (bs_txs block)"
  shows "acc_named block acc'"
proof -
  from assms(1) obtain acc1 acc2 has k where
    ins: "try_fold (apply_input block tx) (tx_inputs tx) acc = Inr acc1"
    and outs: "try_fold (apply_output block f tx) (tx_outputs tx) (acc1, False, 0) = Inr (acc2, has, k)"
    and last: "finish_tx n tx (acc2, has, k) = Inr acc'"
    by (auto simp: apply_tx_def result_simps)
  have named: "ti_previous_output inp \<in> block_spends block" if "inp \<in> set (tx_inputs tx)" for inp
    using that assms(3) by (auto simp: block_spends_def)
  have txid: "tx_txid tx \<in> block_txids block" using assms(3) by (simp add: block_txids_def)
  from assms(2) have "acc_named block acc1"
    by (rule try_fold_invariant [OF ins]) (use named input_named in blast)
  then have "acc_named block (fst (acc1, False, 0 :: u16))" by simp
  then have "acc_named block (fst (acc2, has, k))"
    by (rule try_fold_invariant [OF outs, where P = "\<lambda>st. acc_named block (fst st)"])
      (metis txid output_named prod.collapse)
  with finish_tx_state [OF last] show ?thesis by (simp add: acc_named_def)
qed

lemma block_named:
  assumes "apply_block_with_stats sha256 state block = Inr (state', ab)"
  shows "\<forall>s \<in> set (ab_spent_utxos ab). sp_outpoint s \<in> block_spends block"
    and "\<forall>c \<in> set (ab_created_utxos ab). op_txid (su_outpoint (cu_entry c)) \<in> block_txids block"
proof -
  obtain n bm acc where
    txs: "try_fold (apply_tx block (saturating_add (next_uid state) 1) n) (bs_txs block) (start_acc state n bm) = Inr acc"
    and ab: "ab_created_utxos ab = ba_created acc" "ab_spent_utxos ab = ba_spent acc"
    by (rule block_run_start [OF assms])
  have "acc_named block (start_acc state n bm)" by (simp add: acc_named_def start_acc_def)
  then have "acc_named block acc" by (rule try_fold_invariant [OF txs]) (use tx_named in blast)
  then show "\<forall>s \<in> set (ab_spent_utxos ab). sp_outpoint s \<in> block_spends block"
    and "\<forall>c \<in> set (ab_created_utxos ab). op_txid (su_outpoint (cu_entry c)) \<in> block_txids block"
    by (simp_all add: acc_named_def ab)
qed

section \<open>What a commit does at one outpoint\<close>

definition override :: "SpendLookup option \<Rightarrow> SpendLookup option \<Rightarrow> SpendLookup option" where
  "override c m = (case c of Some x \<Rightarrow> Some x | None \<Rightarrow> m)"

lemma put_created_point: "\<exists>c. \<forall>m. put_created cs m p = override c (m p)"
proof (induction cs rule: rev_induct)
  case (snoc x xs)
  then obtain c where c: "\<forall>m. put_created xs m p = override c (m p)" by blast
  show ?case
  proof (cases "su_outpoint (cu_entry x) = p")
    case True
    then have "put_created (xs @ [x]) m p = override (Some (created_lookup x)) (m p)" for m by (simp add: override_def)
    then show ?thesis by blast
  next
    case False
    then show ?thesis using c by auto
  qed
qed (auto simp: put_created_def override_def intro: exI [of _ None])

lemma spec_commit_point:
  assumes "p \<notin> sp_outpoint ` set (ab_spent_utxos ab)"
  shows "\<exists>c. \<forall>m. spec_commit ab m p = override c (m p)"
proof -
  obtain c where "\<forall>m. put_created (ab_created_utxos ab) m p = override c (m p)" using put_created_point by blast
  then show ?thesis using assms unfolding spec_commit_closed by (auto simp: restrict_map_def)
qed

lemma commits_point:
  "\<forall>ab \<in> set applied. p \<notin> sp_outpoint ` set (ab_spent_utxos ab) \<Longrightarrow>
   \<exists>c. \<forall>m. fold spec_commit applied m p = override c (m p)"
proof (induction applied rule: rev_induct)
  case (snoc ab applied)
  then obtain c where c: "\<forall>m. fold spec_commit applied m p = override c (m p)" by auto
  obtain d where d: "\<forall>m. spec_commit ab m p = override d (m p)" using spec_commit_point snoc.prems by fastforce
  have "fold spec_commit (applied @ [ab]) m p = override (override d c) (m p)" for m
    using c d by (simp add: override_def split: option.split)
  then show ?case by blast
qed (auto simp: override_def intro: exI [of _ None])

lemma uncreated_stays:
  assumes "\<forall>c \<in> set (ab_created_utxos ab). su_outpoint (cu_entry c) \<noteq> p" and "m p = None"
  shows "spec_commit ab m p = None"
proof -
  have "put_created cs m p = m p" if "\<forall>c \<in> set cs. su_outpoint (cu_entry c) \<noteq> p" for cs
    using that by (induction cs rule: rev_induct) (auto simp: put_created_def)
  then show ?thesis using assms unfolding spec_commit_closed by (simp add: restrict_map_def)
qed

section \<open>Runs of blocks\<close>

text \<open>No block has a transaction whose output an earlier block of the run has spent.\<close>

fun no_recreation :: "BlockScanInput list \<Rightarrow> bool" where
  "no_recreation [] \<longleftrightarrow> True"
| "no_recreation (block # blocks) \<longleftrightarrow>
     (\<forall>later \<in> set blocks. block_txids later \<inter> op_txid ` block_spends block = {}) \<and> no_recreation blocks"

abbreviation run_spends :: "BlockScanInput list \<Rightarrow> OutPointKey set" where
  "run_spends blocks \<equiv> \<Union> (block_spends ` set blocks)"

lemma apply_blocks_ConsE:
  assumes "apply_blocks sha256 state (block # blocks) = Inr (state', applied)"
  obtains state1 ab rest where "apply_block_with_stats sha256 state block = Inr (state1, ab)"
    and "apply_blocks sha256 state1 blocks = Inr (state', rest)" and "applied = ab # rest"
  using assms by (auto simp: result_simps)

lemma run_named:
  "apply_blocks sha256 state blocks = Inr (state', applied) \<Longrightarrow>
   \<forall>ab \<in> set applied. sp_outpoint ` set (ab_spent_utxos ab) \<subseteq> run_spends blocks"
proof (induction blocks arbitrary: state applied)
  case (Cons block blocks)
  from Cons.prems obtain state1 ab rest where
    step: "apply_block_with_stats sha256 state block = Inr (state1, ab)"
      "apply_blocks sha256 state1 blocks = Inr (state', rest)" "applied = ab # rest"
    by (rule apply_blocks_ConsE)
  from Cons.IH [OF step(2)] block_named(1) [OF step(1)] step(3) show ?case by auto
qed simp

lemma run_stays:
  "apply_blocks sha256 state blocks = Inr (state', applied) \<Longrightarrow> \<forall>block \<in> set blocks. wf_txids block \<Longrightarrow>
   \<forall>block \<in> set blocks. op_txid p \<notin> block_txids block \<Longrightarrow> utxos state p = None \<Longrightarrow> utxos state' p = None"
proof (induction blocks arbitrary: state applied)
  case (Cons block blocks)
  from Cons.prems(1) obtain state1 ab rest where
    step: "apply_block_with_stats sha256 state block = Inr (state1, ab)"
      "apply_blocks sha256 state1 blocks = Inr (state', rest)" "applied = ab # rest"
    by (rule apply_blocks_ConsE)
  have "\<forall>c \<in> set (ab_created_utxos ab). su_outpoint (cu_entry c) \<noteq> p"
    using block_named(2) [OF step(1)] Cons.prems(3) by auto
  then have "spec_commit ab (utxos state) p = None" using Cons.prems(4) by (rule uncreated_stays)
  moreover have "utxos state1 = spec_commit ab (utxos state)"
    using commit_mirrors_block(1) [OF step(1)] Cons.prems(2) by simp
  ultimately have "utxos state1 p = None" by simp
  then show ?case using Cons.IH [OF step(2)] Cons.prems(2,3) by simp
qed simp

lemma run_gone:
  "apply_blocks sha256 state blocks = Inr (state', applied) \<Longrightarrow> \<forall>block \<in> set blocks. wf_txids block \<Longrightarrow>
   no_recreation blocks \<Longrightarrow> p \<in> run_spends blocks \<Longrightarrow> utxos state' p = None"
proof (induction blocks arbitrary: state applied)
  case (Cons block blocks)
  from Cons.prems(1) obtain state1 ab rest where
    step: "apply_block_with_stats sha256 state block = Inr (state1, ab)"
      "apply_blocks sha256 state1 blocks = Inr (state', rest)" "applied = ab # rest"
    by (rule apply_blocks_ConsE)
  have wf: "wf_txids block" "\<forall>block \<in> set blocks. wf_txids block" using Cons.prems(2) by simp_all
  show ?case
  proof (cases "p \<in> block_spends block")
    case True
    then have "\<forall>block \<in> set blocks. op_txid p \<notin> block_txids block" using Cons.prems(3) by auto
    then show ?thesis using run_stays [OF step(2) wf(2)] block_gone [OF step(1) wf(1) True] by simp
  next
    case False
    then show ?thesis using Cons.IH [OF step(2) wf(2)] Cons.prems(3,4) by simp
  qed
qed simp

end
