(* ===== verification/Block_Source.thy ===== *)
theory Block_Source
  imports Prelude
begin

text \<open>
  The raw block frames of \<^verbatim>\<open>core/src/block.rs\<close> and the source interface of
  \<^verbatim>\<open>core/src/source.rs\<close>: what an implementation has to provide and the default
  methods that are written in terms of it.
\<close>

record SpentTxOut =
  sx_value_sat :: u64
  sx_script_pubkey :: bytes

record BlockSpentTxOuts =
  bt_txs :: "SpentTxOut list list"

record RawBlockFrame =
  rf_height :: u64
  rf_hash :: bytes
  rf_bytes :: bytes
  rf_spent_txouts :: "BlockSpentTxOuts option"

record BlockSource =
  src_get_block_hash :: "u64 \<Rightarrow> bytes result"
  src_get_block_raw :: "bytes \<Rightarrow> bytes result"
  src_get_block_spent_txouts :: "bytes \<Rightarrow> BlockSpentTxOuts option result"
  src_get_blocks_spent_txouts :: "bytes list \<Rightarrow> BlockSpentTxOuts option list result"
  src_get_best_height :: "u64 result"
  src_get_block_range_by_height :: "u64 \<Rightarrow> usize \<Rightarrow> RawBlockFrame list result"

text \<open>A source also has its own fetch by height and tells whether it serves ranges.\<close>

record ScanSource = BlockSource +
  src_get_block_by_height :: "u64 \<Rightarrow> RawBlockFrame result"
  src_supports_block_range_batches :: bool

definition default_get_blocks_spent_txouts ::
    "(bytes \<Rightarrow> BlockSpentTxOuts option result) \<Rightarrow> bytes list \<Rightarrow> BlockSpentTxOuts option list result" where
  "default_get_blocks_spent_txouts get_block_spent_txouts hashes =
     try_fold (\<lambda>hash out. and_then (get_block_spent_txouts hash) (\<lambda>undo. Inr (out @ [undo]))) hashes []"

definition default_get_block_by_height :: "BlockSource \<Rightarrow> u64 \<Rightarrow> RawBlockFrame result" where
  "default_get_block_by_height source height =
     and_then (src_get_block_hash source height) (\<lambda>hash.
     and_then (src_get_block_raw source hash) (\<lambda>bs.
     and_then (src_get_block_spent_txouts source hash) (\<lambda>spent_txouts.
     Inr \<lparr>rf_height = height, rf_hash = hash, rf_bytes = bs, rf_spent_txouts = spent_txouts\<rparr>)))"

definition default_get_block_range_by_height ::
    "(u64 \<Rightarrow> RawBlockFrame result) \<Rightarrow> u64 \<Rightarrow> usize \<Rightarrow> RawBlockFrame list result" where
  "default_get_block_range_by_height get_block_by_height start_height count =
     try_fold (\<lambda>offset frames.
       and_then (get_block_by_height (start_height + word_of_nat offset)) (\<lambda>frame. Inr (frames @ [frame])))
       [0..<count] []"

text \<open>A loop that collects the results of a fallible call.\<close>

lemma try_fold_collect:
  "try_fold (\<lambda>x out. and_then (f x) (\<lambda>y. Inr (out @ [y]))) xs acc
    = and_then (try_map f xs) (\<lambda>ys. Inr (acc @ ys))"
  by (induction xs arbitrary: acc) (auto simp: and_then_assoc intro!: and_then_cong)

lemma default_spent_txouts_length:
  "default_get_blocks_spent_txouts f hashes = Inr out \<Longrightarrow> length out = length hashes"
  by (auto simp: default_get_blocks_spent_txouts_def try_fold_collect result_simps dest: try_map_length)

lemma default_range_frames:
  assumes "default_get_block_range_by_height (default_get_block_by_height source) start count = Inr frames"
  shows "length frames = count" and "k < count \<Longrightarrow> rf_height (frames ! k) = start + word_of_nat k"
proof -
  have m: "try_map (\<lambda>k. default_get_block_by_height source (start + word_of_nat k)) [0..<count] = Inr frames"
    using assms by (simp add: default_get_block_range_by_height_def try_fold_collect result_simps)
  then show len: "length frames = count" using try_map_length by force
  show "rf_height (frames ! k) = start + word_of_nat k" if "k < count"
    using try_map_nth [OF m, of k] that len
    by (auto simp: default_get_block_by_height_def result_simps) (metis RawBlockFrame.select_convs(1))
qed

end
