(* ===== verification/Script_Classify.thy ===== *)
theory Script_Classify
  imports Prelude
begin

text \<open>
  The script classification of \<^verbatim>\<open>light-server/src/script_classify.rs\<close>. The template
  tests are methods of the \<^verbatim>\<open>bitcoin\<close> crate and are parameters of the model;
  \<open>script_tests_ok\<close> states the byte patterns the crate documents for them.
\<close>

record script_tests =
  test_p2pkh :: "bytes \<Rightarrow> bool"
  test_p2sh :: "bytes \<Rightarrow> bool"
  test_p2wpkh :: "bytes \<Rightarrow> bool"
  test_p2wsh :: "bytes \<Rightarrow> bool"
  test_p2tr :: "bytes \<Rightarrow> bool"
  test_witness_program :: "bytes \<Rightarrow> bool"
  test_op_return :: "bytes \<Rightarrow> bool"

datatype ScriptKind =
    P2pkh bytes
  | P2sh bytes
  | P2wpkh bytes
  | P2wsh bytes
  | P2tr bytes
  | WitnessUnknown u8 usize
  | OpReturn
  | Other

definition copy_20 :: "bytes \<Rightarrow> bytes" where
  "copy_20 bs = bs"

definition copy_32 :: "bytes \<Rightarrow> bytes" where
  "copy_32 bs = bs"

definition classify_script :: "script_tests \<Rightarrow> bytes \<Rightarrow> ScriptKind" where
  "classify_script lib script =
     (if test_p2pkh lib script then P2pkh (copy_20 (slice script 3 23))
      else if test_p2sh lib script then P2sh (copy_20 (slice script 2 22))
      else if test_p2wpkh lib script then P2wpkh (copy_20 (slice script 2 22))
      else if test_p2wsh lib script then P2wsh (copy_32 (slice script 2 34))
      else if test_p2tr lib script then P2tr (copy_32 (slice script 2 34))
      else if test_witness_program lib script then
        (let op = script ! 0;
             program_len = (case drop 1 script of [] \<Rightarrow> 0 | b # _ \<Rightarrow> unat b)
         in if op = 0x00 then WitnessUnknown 0 program_len
            else if 0x51 \<le> op \<and> op \<le> 0x60 then WitnessUnknown (op - 0x50) program_len
            else Other)
      else if test_op_return lib script then OpReturn
      else Other)"

definition extract_p2tr_xonly :: "script_tests \<Rightarrow> bytes \<Rightarrow> bytes option" where
  "extract_p2tr_xonly lib script =
     (case classify_script lib script of P2tr xonly_key \<Rightarrow> Some xonly_key | _ \<Rightarrow> None)"

definition is_p2tr :: "script_tests \<Rightarrow> bytes \<Rightarrow> bool" where
  "is_p2tr lib script = test_p2tr lib script"

definition is_op_return :: "script_tests \<Rightarrow> bytes \<Rightarrow> bool" where
  "is_op_return lib script = test_op_return lib script"

section \<open>The documented templates\<close>

definition script_tests_ok :: "script_tests \<Rightarrow> bool" where
  "script_tests_ok lib \<longleftrightarrow>
     (\<forall>s. test_p2pkh lib s \<longleftrightarrow> length s = 25 \<and> take 3 s = [0x76, 0xa9, 0x14] \<and> drop 23 s = [0x88, 0xac])
     \<and> (\<forall>s. test_p2sh lib s \<longleftrightarrow> length s = 23 \<and> take 2 s = [0xa9, 0x14] \<and> drop 22 s = [0x87])
     \<and> (\<forall>s. test_p2wpkh lib s \<longleftrightarrow> length s = 22 \<and> take 2 s = [0x00, 0x14])
     \<and> (\<forall>s. test_p2wsh lib s \<longleftrightarrow> length s = 34 \<and> take 2 s = [0x00, 0x20])
     \<and> (\<forall>s. test_p2tr lib s \<longleftrightarrow> length s = 34 \<and> take 2 s = [0x51, 0x20])
     \<and> (\<forall>s. test_witness_program lib s \<longleftrightarrow> 4 \<le> length s \<and> length s \<le> 42
          \<and> (s ! 0 = 0x00 \<or> 0x51 \<le> s ! 0 \<and> s ! 0 \<le> 0x60) \<and> unat (s ! 1) = length s - 2)
     \<and> (\<forall>s. test_op_return lib s \<longleftrightarrow> take 1 s = [0x6a])"

definition documented_tests :: script_tests where
  "documented_tests =
     \<lparr>test_p2pkh = \<lambda>s. length s = 25 \<and> take 3 s = [0x76, 0xa9, 0x14] \<and> drop 23 s = [0x88, 0xac],
      test_p2sh = \<lambda>s. length s = 23 \<and> take 2 s = [0xa9, 0x14] \<and> drop 22 s = [0x87],
      test_p2wpkh = \<lambda>s. length s = 22 \<and> take 2 s = [0x00, 0x14],
      test_p2wsh = \<lambda>s. length s = 34 \<and> take 2 s = [0x00, 0x20],
      test_p2tr = \<lambda>s. length s = 34 \<and> take 2 s = [0x51, 0x20],
      test_witness_program = \<lambda>s. 4 \<le> length s \<and> length s \<le> 42
        \<and> (s ! 0 = 0x00 \<or> 0x51 \<le> s ! 0 \<and> s ! 0 \<le> 0x60) \<and> unat (s ! 1) = length s - 2,
      test_op_return = \<lambda>s. take 1 s = [0x6a]\<rparr>"

lemma documented_tests_ok: "script_tests_ok documented_tests"
  by (simp add: script_tests_ok_def documented_tests_def)

text \<open>The script a kind with a payload stands for.\<close>

fun template :: "ScriptKind \<Rightarrow> bytes option" where
  "template (P2pkh h) = (if length h = 20 then Some ([0x76, 0xa9, 0x14] @ h @ [0x88, 0xac]) else None)"
| "template (P2sh h) = (if length h = 20 then Some ([0xa9, 0x14] @ h @ [0x87]) else None)"
| "template (P2wpkh h) = (if length h = 20 then Some ([0x00, 0x14] @ h) else None)"
| "template (P2wsh h) = (if length h = 32 then Some ([0x00, 0x20] @ h) else None)"
| "template (P2tr k) = (if length k = 32 then Some ([0x51, 0x20] @ k) else None)"
| "template _ = None"

fun has_template :: "ScriptKind \<Rightarrow> bool" where
  "has_template (WitnessUnknown v n) = False"
| "has_template OpReturn = False"
| "has_template Other = False"
| "has_template _ = True"

lemma sandwich:
  assumes "length pre = a" and "length post = b"
  shows "length s = a + n + b \<and> take a s = pre \<and> drop (a + n) s = post
    \<longleftrightarrow> (\<exists>h. length h = n \<and> s = pre @ h @ post)"
proof
  assume s: "length s = a + n + b \<and> take a s = pre \<and> drop (a + n) s = post"
  have "s = take a s @ take n (drop a s) @ drop n (drop a s)"
    by (simp only: append_take_drop_id)
  with s show "\<exists>h. length h = n \<and> s = pre @ h @ post"
    by (intro exI [of _ "take n (drop a s)"]) (simp add: add.commute)
qed (use assms in auto)

lemma template_tests:
  assumes "script_tests_ok lib"
  shows "test_p2pkh lib s \<longleftrightarrow> (\<exists>h. length h = 20 \<and> s = [0x76, 0xa9, 0x14] @ h @ [0x88, 0xac])"
    and "test_p2sh lib s \<longleftrightarrow> (\<exists>h. length h = 20 \<and> s = [0xa9, 0x14] @ h @ [0x87])"
    and "test_p2wpkh lib s \<longleftrightarrow> (\<exists>h. length h = 20 \<and> s = [0x00, 0x14] @ h @ [])"
    and "test_p2wsh lib s \<longleftrightarrow> (\<exists>h. length h = 32 \<and> s = [0x00, 0x20] @ h @ [])"
    and "test_p2tr lib s \<longleftrightarrow> (\<exists>h. length h = 32 \<and> s = [0x51, 0x20] @ h @ [])"
proof -
  have defs: "test_p2pkh lib s \<longleftrightarrow> length s = 25 \<and> take 3 s = [0x76, 0xa9, 0x14] \<and> drop 23 s = [0x88, 0xac]"
    "test_p2sh lib s \<longleftrightarrow> length s = 23 \<and> take 2 s = [0xa9, 0x14] \<and> drop 22 s = [0x87]"
    "test_p2wpkh lib s \<longleftrightarrow> length s = 22 \<and> take 2 s = [0x00, 0x14]"
    "test_p2wsh lib s \<longleftrightarrow> length s = 34 \<and> take 2 s = [0x00, 0x20]"
    "test_p2tr lib s \<longleftrightarrow> length s = 34 \<and> take 2 s = [0x51, 0x20]"
    using assms unfolding script_tests_ok_def by blast+
  have open_end: "length s = 2 + n \<and> take 2 s = pre
      \<longleftrightarrow> (\<exists>h. length h = n \<and> s = pre @ h @ [])" if "length pre = 2" for n and pre :: bytes
    using sandwich [OF that, of "[]" 0 s n] by auto
  show "test_p2pkh lib s \<longleftrightarrow> (\<exists>h. length h = 20 \<and> s = [0x76, 0xa9, 0x14] @ h @ [0x88, 0xac])"
    unfolding defs using sandwich [of "[0x76, 0xa9, 0x14]" 3 "[0x88, 0xac]" 2 s 20] by simp
  show "test_p2sh lib s \<longleftrightarrow> (\<exists>h. length h = 20 \<and> s = [0xa9, 0x14] @ h @ [0x87])"
    unfolding defs using sandwich [of "[0xa9, 0x14]" 2 "[0x87]" 1 s 20] by simp
  show "test_p2wpkh lib s \<longleftrightarrow> (\<exists>h. length h = 20 \<and> s = [0x00, 0x14] @ h @ [])"
    unfolding defs using open_end [of "[0x00, 0x14]" 20] by simp
  show "test_p2wsh lib s \<longleftrightarrow> (\<exists>h. length h = 32 \<and> s = [0x00, 0x20] @ h @ [])"
    unfolding defs using open_end [of "[0x00, 0x20]" 32] by simp
  show "test_p2tr lib s \<longleftrightarrow> (\<exists>h. length h = 32 \<and> s = [0x51, 0x20] @ h @ [])"
    unfolding defs using open_end [of "[0x51, 0x20]" 32] by simp
qed

lemma template_slice:
  "length h = 20 \<Longrightarrow> slice ([0x76, 0xa9, 0x14] @ h @ [0x88, 0xac]) 3 23 = h"
  "length h = 20 \<Longrightarrow> slice ([0xa9, 0x14] @ h @ [0x87]) 2 22 = h"
  "length h = 20 \<Longrightarrow> slice ([0x00, 0x14] @ h @ []) 2 22 = h"
  "length h = 32 \<Longrightarrow> slice ([0x00, 0x20] @ h @ []) 2 34 = h"
  "length h = 32 \<Longrightarrow> slice ([0x51, 0x20] @ h @ []) 2 34 = h"
  by (simp_all add: slice_def)

lemma classify_template:
  assumes "script_tests_ok lib" and "template kind = Some s"
  shows "classify_script lib s = kind"
proof (cases kind)
  case (P2pkh h)
  then have "length h = 20" "s = [0x76, 0xa9, 0x14] @ h @ [0x88, 0xac]"
    using assms(2) by (simp_all split: if_splits)
  then show ?thesis using P2pkh template_tests(1) [OF assms(1), of s] template_slice(1) [of h]
    by (auto simp: classify_script_def copy_20_def)
next
  case (P2sh h)
  then have "length h = 20" "s = [0xa9, 0x14] @ h @ [0x87]" using assms(2) by (simp_all split: if_splits)
  then show ?thesis using P2sh template_tests [OF assms(1), of s] template_slice(2) [of h]
    by (auto simp: classify_script_def copy_20_def)
next
  case (P2wpkh h)
  then have "length h = 20" "s = [0x00, 0x14] @ h @ []" using assms(2) by (simp_all split: if_splits)
  then show ?thesis using P2wpkh template_tests [OF assms(1), of s] template_slice(3) [of h]
    by (auto simp: classify_script_def copy_20_def)
next
  case (P2wsh h)
  then have "length h = 32" "s = [0x00, 0x20] @ h @ []" using assms(2) by (simp_all split: if_splits)
  then show ?thesis using P2wsh template_tests [OF assms(1), of s] template_slice(4) [of h]
    by (auto simp: classify_script_def copy_32_def)
next
  case (P2tr h)
  then have "length h = 32" "s = [0x51, 0x20] @ h @ []" using assms(2) by (simp_all split: if_splits)
  then show ?thesis using P2tr template_tests [OF assms(1), of s] template_slice(5) [of h]
    by (auto simp: classify_script_def copy_32_def)
qed (use assms(2) in simp_all)

lemma template_classify:
  assumes ok: "script_tests_ok lib" and kind: "has_template (classify_script lib s)"
  shows "template (classify_script lib s) = Some s"
proof -
  have "\<exists>kind'. template kind' = Some s"
  proof (rule ccontr)
    assume none: "\<nexists>kind'. template kind' = Some s"
    have "\<not> test_p2pkh lib s" "\<not> test_p2sh lib s" "\<not> test_p2wpkh lib s" "\<not> test_p2wsh lib s"
      "\<not> test_p2tr lib s"
      using none template.simps unfolding template_tests [OF ok] by (metis append_Nil2)+
    then show False using kind by (simp add: classify_script_def Let_def split: if_splits)
  qed
  with classify_template [OF ok] show ?thesis by metis
qed

section \<open>Properties\<close>

text \<open>
  classification is exact on the standard templates: under the documented
  tests a script is classified as a kind with a payload if and only if it is
  that kind's template around a payload of the right length; in particular
  the payload is always 20 or 32 bytes and no two templates are confused.
\<close>

theorem classifier_exact:
  assumes "script_tests_ok lib" and "has_template kind"
  shows "classify_script lib s = kind \<longleftrightarrow> template kind = Some s"
  using classify_template [OF assms(1)] template_classify [OF assms(1), of s] assms(2) by blast

theorem classifier_exact_witness:
  "classify_script documented_tests ([0x51, 0x20] @ replicate 32 5) = P2tr (replicate 32 5)"
  using classifier_exact [OF documented_tests_ok, of "P2tr (replicate 32 5)" "[0x51, 0x20] @ replicate 32 5"]
  by simp

end
