(* ===== verification/Sp_Tweak.thy ===== *)
theory Sp_Tweak
  imports Script_Classify P2tr_Indexer "HOL-Library.List_Lexorder" "HOL-Library.Multiset"
begin

text \<open>
  The BIP352 scan point of \<^verbatim>\<open>light-server/src/sp_tweak.rs\<close>: which inputs of a
  transaction contribute a public key, and the point computed from their sum
  and the smallest outpoint. Curve arithmetic and HASH160 are code of the
  \<^verbatim>\<open>bitcoin\<close> and \<^verbatim>\<open>secp256k1\<close> crates and are parameters (\<open>'x\<close> x-only keys,
  \<open>'pk\<close> public keys, \<open>'sc\<close> scalars); the push parser is modelled in full.
\<close>

section \<open>Data\<close>

record ('x, 'pk, 'sc) secp_lib =
  xonly_public_key_even :: "'x \<Rightarrow> 'pk"
  pk_from_slice :: "bytes \<Rightarrow> 'pk option"
  combine_keys :: "'pk list \<Rightarrow> 'pk option"
  pk_serialize :: "'pk \<Rightarrow> bytes"
  scalar_from_be_bytes :: "bytes \<Rightarrow> 'sc option"
  mul_tweak :: "'pk \<Rightarrow> 'sc \<Rightarrow> 'pk option"
  hash160_bytes :: "bytes \<Rightarrow> bytes"

text \<open>\<open>MissingPrevoutPanic\<close> is the panic of the \<open>expect\<close> in the loop over the inputs.\<close>

datatype SpTweakError =
    PublicKeySumInfinityError
  | EmptyNonCoinbaseInputSet
  | InvalidInputHashScalar
  | ScanPointMultiplication
  | InvalidCompressedInputPublicKey
  | MissingPrevoutPanic

datatype 'x PrevoutScript =
    PrevP2pkh bytes
  | PrevP2sh bytes
  | PrevP2wpkh bytes
  | PrevP2tr 'x
  | PrevWitnessUnknown u8
  | PrevOther

record 'x PrevoutInfo =
  pi_script :: "'x PrevoutScript"

record 'x TxInputContext =
  tc_previous_output :: OutPointKey
  tc_script_sig :: bytes
  tc_witness :: "bytes list"
  tc_prevout :: "'x PrevoutInfo option"

datatype ScanPointIneligibleReason =
  NoEligibleInputs | WitnessVersionGreaterThanOne | PublicKeySumInfinity

datatype ScanPointStatus =
  Ineligible ScanPointIneligibleReason | MissingPrevout usize | Computed bytes

section \<open>Script pushes\<close>

datatype push_step = Continue | Break | Push usize usize

text \<open>
  The \<open>match\<close> on the opcode, with \<open>i\<close> the position after it: the data length and
  the position of the data, or the \<open>break\<close> or \<open>continue\<close> of the loop.
\<close>

definition push_length :: "bytes \<Rightarrow> u8 \<Rightarrow> usize \<Rightarrow> push_step" where
  "push_length script opcode i =
     (if 0x01 \<le> opcode \<and> opcode \<le> 0x4b then Push (unat opcode) i
      else if opcode = 0x4c then
        (if i \<ge> length script then Break else Push (unat (script ! i)) (i + 1))
      else if opcode = 0x4d then
        (if i + 2 > length script then Break
         else Push (unat (from_le_bytes [script ! i, script ! (i + 1)] :: u16)) (i + 2))
      else if opcode = 0x4e then
        (if i + 4 > length script then Break
         else Push (unat (from_le_bytes
           [script ! i, script ! (i + 1), script ! (i + 2), script ! (i + 3)] :: u32)) (i + 4))
      else Continue)"

lemma push_length_forward: "push_length script opcode i = Push len j \<Longrightarrow> i \<le> j"
  by (auto simp: push_length_def split: if_splits)

function parse_pushes_loop :: "bytes \<Rightarrow> usize \<Rightarrow> bytes list \<Rightarrow> bytes list" where
  "parse_pushes_loop script i pushes =
     (if i < length script then
        (case push_length script (script ! i) (i + 1) of
           Continue \<Rightarrow> parse_pushes_loop script (i + 1) pushes
         | Break \<Rightarrow> pushes
         | Push len j \<Rightarrow>
             (if j + len > length script then pushes
              else parse_pushes_loop script (j + len) (pushes @ [slice script j (j + len)])))
      else pushes)"
  by pat_completeness auto
termination
proof (relation "measure (\<lambda>(script, i, pushes). length script - i)")
  fix script :: bytes and i :: usize and pushes :: "bytes list" and len j
  assume "i < length script" "push_length script (script ! i) (i + 1) = Push len j"
    "\<not> length script < j + len"
  then show "((script, j + len, pushes @ [slice script j (j + len)]), script, i, pushes)
      \<in> measure (\<lambda>(script, i, pushes). length script - i)"
    using push_length_forward [of script "script ! i" "i + 1" len j] by auto
qed auto

declare parse_pushes_loop.simps [simp del]

definition parse_script_pushes :: "bytes \<Rightarrow> bytes list" where
  "parse_script_pushes script = parse_pushes_loop script 0 []"

section \<open>Input public keys\<close>

definition parse_compressed_pubkey_matching_hash ::
    "('x, 'pk, 'sc) secp_lib \<Rightarrow> bytes \<Rightarrow> bytes \<Rightarrow> SpTweakError + 'pk option" where
  "parse_compressed_pubkey_matching_hash lib bs expected_hash =
     (if length bs \<noteq> 33 \<or> \<not> (hd bs = 0x02 \<or> hd bs = 0x03) then Inr None
      else if hash160_bytes lib bs \<noteq> expected_hash then Inr None
      else case pk_from_slice lib bs of
             None \<Rightarrow> Inl InvalidCompressedInputPublicKey
           | Some pk \<Rightarrow> Inr (Some pk))"

definition taproot_script_path_internal_key :: "bytes list \<Rightarrow> bytes option" where
  "taproot_script_path_internal_key witness =
     (if witness = [] then None
      else let control_block = last witness in
        if length control_block < 33 \<or> (length control_block - 33) mod 32 \<noteq> 0 \<or> length witness < 2
        then None else Some (slice control_block 1 33))"

definition extract_p2tr_input_pubkey ::
    "('x, 'pk, 'sc) secp_lib \<Rightarrow> 'x TxInputContext \<Rightarrow> 'x \<Rightarrow> SpTweakError + 'pk option" where
  "extract_p2tr_input_pubkey lib input xonly_key =
     (if taproot_script_path_internal_key (tc_witness input) = Some TAPROOT_NUMS_H_XONLY then Inr None
      else Inr (Some (xonly_public_key_even lib xonly_key)))"

definition extract_p2wpkh_input_pubkey ::
    "('x, 'pk, 'sc) secp_lib \<Rightarrow> 'x TxInputContext \<Rightarrow> bytes \<Rightarrow> SpTweakError + 'pk option" where
  "extract_p2wpkh_input_pubkey lib input expected_hash =
     (if tc_witness input = [] then Inr None
      else parse_compressed_pubkey_matching_hash lib (last (tc_witness input)) expected_hash)"

definition extract_p2sh_p2wpkh_input_pubkey :: "script_tests \<Rightarrow> ('x, 'pk, 'sc) secp_lib
    \<Rightarrow> 'x TxInputContext \<Rightarrow> bytes \<Rightarrow> SpTweakError + 'pk option" where
  "extract_p2sh_p2wpkh_input_pubkey tests lib input expected_script_hash =
     (case find (\<lambda>push. case classify_script tests push of P2wpkh _ \<Rightarrow> True | _ \<Rightarrow> False)
             (rev (parse_script_pushes (tc_script_sig input))) of
        None \<Rightarrow> Inr None
      | Some redeem_script \<Rightarrow>
          if hash160_bytes lib redeem_script \<noteq> expected_script_hash then Inr None
          else extract_p2wpkh_input_pubkey lib input (slice redeem_script 2 22))"

fun first_matching_pubkey ::
    "('x, 'pk, 'sc) secp_lib \<Rightarrow> bytes \<Rightarrow> bytes list \<Rightarrow> SpTweakError + 'pk option" where
  "first_matching_pubkey lib expected_hash [] = Inr None"
| "first_matching_pubkey lib expected_hash (push # pushes) =
     and_then (parse_compressed_pubkey_matching_hash lib push expected_hash) (\<lambda>r.
       case r of Some pk \<Rightarrow> Inr (Some pk)
               | None \<Rightarrow> first_matching_pubkey lib expected_hash pushes)"

definition extract_p2pkh_input_pubkey ::
    "('x, 'pk, 'sc) secp_lib \<Rightarrow> 'x TxInputContext \<Rightarrow> bytes \<Rightarrow> SpTweakError + 'pk option" where
  "extract_p2pkh_input_pubkey lib input expected_hash =
     first_matching_pubkey lib expected_hash (rev (parse_script_pushes (tc_script_sig input)))"

definition extract_bip352_input_pubkey :: "script_tests \<Rightarrow> ('x, 'pk, 'sc) secp_lib
    \<Rightarrow> 'x TxInputContext \<Rightarrow> 'x PrevoutInfo \<Rightarrow> SpTweakError + 'pk option" where
  "extract_bip352_input_pubkey tests lib input prevout =
     (case pi_script prevout of
        PrevP2tr xonly_key \<Rightarrow> extract_p2tr_input_pubkey lib input xonly_key
      | PrevP2wpkh hash \<Rightarrow> extract_p2wpkh_input_pubkey lib input hash
      | PrevP2sh hash \<Rightarrow> extract_p2sh_p2wpkh_input_pubkey tests lib input hash
      | PrevP2pkh hash \<Rightarrow> extract_p2pkh_input_pubkey lib input hash
      | PrevWitnessUnknown _ \<Rightarrow> Inr None
      | PrevOther \<Rightarrow> Inr None)"

section \<open>The scan point\<close>

definition spends_witness_version_greater_than_one :: "'x TxInputContext list \<Rightarrow> bool" where
  "spends_witness_version_greater_than_one inputs \<longleftrightarrow>
     list_ex (\<lambda>input. case tc_prevout input of None \<Rightarrow> False
       | Some prevout \<Rightarrow> (case pi_script prevout of
           PrevWitnessUnknown version \<Rightarrow> 2 \<le> version \<and> version \<le> 16 | _ \<Rightarrow> False)) inputs"

definition serialize_outpoint :: "'x TxInputContext \<Rightarrow> bytes" where
  "serialize_outpoint input =
     op_txid (tc_previous_output input) @ to_le_bytes (op_vout (tc_previous_output input))"

definition smallest_non_coinbase_outpoint :: "'x TxInputContext list \<Rightarrow> bytes option" where
  "smallest_non_coinbase_outpoint inputs =
     (let outpoints = map serialize_outpoint
            (filter (\<lambda>input. \<not> is_coinbase (tc_previous_output input)) inputs)
      in if outpoints = [] then None else Some (min_list outpoints))"

definition bip352_inputs_hasher :: TaggedSha256 where
  "bip352_inputs_hasher = from_tag_hash BIP352_INPUTS_TAG_HASH"

definition bip352_inputs_tagged_sha256 :: "sha256_fun \<Rightarrow> bytes \<Rightarrow> bytes" where
  "bip352_inputs_tagged_sha256 sha256 msg = digest_32 sha256 bip352_inputs_hasher msg"

definition collect_pubkey :: "script_tests \<Rightarrow> ('x, 'pk, 'sc) secp_lib \<Rightarrow> 'x TxInputContext
    \<Rightarrow> 'pk list \<Rightarrow> SpTweakError + 'pk list" where
  "collect_pubkey tests lib input eligible_pubkeys =
     (if is_coinbase (tc_previous_output input) then Inr eligible_pubkeys
      else case tc_prevout input of
        None \<Rightarrow> Inl MissingPrevoutPanic
      | Some prevout \<Rightarrow>
          and_then (extract_bip352_input_pubkey tests lib input prevout) (\<lambda>r.
            Inr (case r of Some pubkey \<Rightarrow> eligible_pubkeys @ [pubkey] | None \<Rightarrow> eligible_pubkeys)))"

definition compute_tx_scan_point :: "sha256_fun \<Rightarrow> script_tests \<Rightarrow> ('x, 'pk, 'sc) secp_lib
    \<Rightarrow> 'x TxInputContext list \<Rightarrow> SpTweakError + ScanPointStatus" where
  "compute_tx_scan_point sha256 tests lib inputs =
     (if inputs = [] \<or> list_all (\<lambda>input. is_coinbase (tc_previous_output input)) inputs
      then Inr (Ineligible NoEligibleInputs)
      else let missing_count = length (filter (\<lambda>input. \<not> is_coinbase (tc_previous_output input)
             \<and> tc_prevout input = None) inputs) in
      if missing_count > 0 then Inr (MissingPrevout missing_count)
      else if spends_witness_version_greater_than_one inputs
      then Inr (Ineligible WitnessVersionGreaterThanOne)
      else and_then (try_fold (collect_pubkey tests lib) inputs []) (\<lambda>eligible_pubkeys.
        if eligible_pubkeys = [] then Inr (Ineligible NoEligibleInputs)
        else case combine_keys lib eligible_pubkeys of
          None \<Rightarrow> Inr (Ineligible PublicKeySumInfinity)
        | Some key_sum \<Rightarrow>
          (case smallest_non_coinbase_outpoint inputs of
             None \<Rightarrow> Inl EmptyNonCoinbaseInputSet
           | Some outpoint_l \<Rightarrow>
             (let input_hash = bip352_inputs_tagged_sha256 sha256 (outpoint_l @ pk_serialize lib key_sum) in
              case scalar_from_be_bytes lib input_hash of
                None \<Rightarrow> Inl InvalidInputHashScalar
              | Some scalar \<Rightarrow>
                (case mul_tweak lib key_sum scalar of
                   None \<Rightarrow> Inl ScanPointMultiplication
                 | Some scan_point \<Rightarrow> Inr (Computed (pk_serialize lib scan_point)))))))"

section \<open>Pushes: a reference encoder\<close>

definition push_prefix :: "nat \<Rightarrow> bytes" where
  "push_prefix n =
     (if n \<le> 75 then [word_of_nat n]
      else if n < 256 then [0x4c, word_of_nat n]
      else if n < 65536 then 0x4d # to_le_bytes (word_of_nat n :: u16)
      else 0x4e # to_le_bytes (word_of_nat n :: u32))"

definition push_script :: "bytes \<Rightarrow> bytes" where
  "push_script bs = push_prefix (length bs) @ bs"

lemma list_two: "length xs = 2 \<Longrightarrow> [xs ! 0, xs ! 1] = xs"
  by (auto simp: numeral_eq_Suc length_Suc_conv)

lemma list_four: "length xs = 4 \<Longrightarrow> [xs ! 0, xs ! 1, xs ! 2, xs ! 3] = xs"
  by (auto simp: numeral_eq_Suc length_Suc_conv)

lemma push_length_direct:
  assumes "0 < n" "n \<le> 75"
  shows "push_length script (word_of_nat n) i = Push n i"
proof -
  have u: "unat (word_of_nat n :: u8) = n" using assms(2) by (simp add: unat_word_of_nat_small)
  have "(0x01 :: u8) \<le> word_of_nat n" "word_of_nat n \<le> (0x4b :: u8)"
    unfolding word_le_nat_alt u using assms by simp_all
  then show ?thesis by (simp add: push_length_def u)
qed

lemma push_opcodes: "\<not> (0x4c :: u8) \<le> 0x4b" "\<not> (0x4d :: u8) \<le> 0x4b" "\<not> (0x4e :: u8) \<le> 0x4b"
  by simp_all

lemma push_length_one:
  assumes "i < length script" "script ! i = word_of_nat n" "n < 256"
  shows "push_length script 0x4c i = Push n (i + 1)"
  using assms by (simp add: push_length_def push_opcodes unat_word_of_nat_small)

lemma push_length_two:
  assumes "i + 2 \<le> length script" "n < 65536"
    and "[script ! i, script ! (i + 1)] = to_le_bytes (word_of_nat n :: u16)"
  shows "push_length script 0x4d i = Push n (i + 2)"
proof -
  have "from_le_bytes [script ! i, script ! (i + 1)] = (word_of_nat n :: u16)"
    unfolding assms(3) by (rule from_to_le_bytes) simp
  then show ?thesis using assms(1, 2) by (simp add: push_length_def push_opcodes unat_word_of_nat_small)
qed

lemma push_length_four:
  assumes "i + 4 \<le> length script" "n < 2 ^ 32"
    and "[script ! i, script ! (i + 1), script ! (i + 2), script ! (i + 3)]
      = to_le_bytes (word_of_nat n :: u32)"
  shows "push_length script 0x4e i = Push n (i + 4)"
proof -
  have "from_le_bytes [script ! i, script ! (i + 1), script ! (i + 2), script ! (i + 3)]
      = (word_of_nat n :: u32)"
    unfolding assms(3) by (rule from_to_le_bytes) simp
  then show ?thesis using assms(1, 2) by (simp add: push_length_def push_opcodes unat_word_of_nat_small)
qed

lemma nth_after_Cons:
  "(pre @ x # xs @ rest) ! (length pre + 1) = (xs @ rest) ! 0"
  "(pre @ x # xs @ rest) ! (length pre + 1 + k) = (xs @ rest) ! k"
  by (simp_all add: nth_append)

lemma push_length_prefix:
  assumes "0 < n" and "n < 2 ^ 32" and script: "script = pre @ push_prefix n @ rest"
  shows "push_length script (script ! length pre) (length pre + 1)
      = Push n (length pre + length (push_prefix n))"
proof -
  consider (direct) "n \<le> 75" | (one) "75 < n" "n < 256" | (two) "256 \<le> n" "n < 65536" | (four) "65536 \<le> n"
    by linarith
  then show ?thesis
  proof cases
    case direct
    then show ?thesis using push_length_direct [OF assms(1)] by (simp add: script push_prefix_def)
  next
    case one
    then have s: "script = pre @ 0x4c # word_of_nat n # rest" by (simp add: script push_prefix_def)
    have "script ! (length pre + 1) = word_of_nat n" by (simp add: s nth_append)
    then have "push_length script 0x4c (length pre + 1) = Push n (length pre + 1 + 1)"
      by (intro push_length_one) (simp_all add: s one)
    then show ?thesis using one by (simp add: s push_prefix_def)
  next
    case two
    let ?w = "word_of_nat n :: u16"
    have s: "script = pre @ 0x4d # to_le_bytes ?w @ rest" using two by (simp add: script push_prefix_def)
    have bytes: "[script ! (length pre + 1), script ! (length pre + 1 + 1)] = to_le_bytes ?w"
      using list_two [of "to_le_bytes ?w"] unfolding s nth_after_Cons by (simp add: nth_append)
    have "push_length script 0x4d (length pre + 1) = Push n (length pre + 1 + 2)"
      by (rule push_length_two [OF _ two(2) bytes]) (simp add: s)
    then show ?thesis using two by (simp add: s push_prefix_def)
  next
    case four
    let ?w = "word_of_nat n :: u32"
    have s: "script = pre @ 0x4e # to_le_bytes ?w @ rest" using four by (simp add: script push_prefix_def)
    have bytes: "[script ! (length pre + 1), script ! (length pre + 1 + 1), script ! (length pre + 1 + 2),
        script ! (length pre + 1 + 3)] = to_le_bytes ?w"
      using list_four [of "to_le_bytes ?w"] unfolding s nth_after_Cons by (simp add: nth_append)
    have "push_length script 0x4e (length pre + 1) = Push n (length pre + 1 + 4)"
      by (rule push_length_four [OF _ assms(2) bytes]) (simp add: s)
    then show ?thesis using four by (simp add: s push_prefix_def)
  qed
qed

lemma push_prefix_nonempty: "0 < length (push_prefix n)"
  by (simp add: push_prefix_def)

lemma parse_pushes_encoded:
  assumes "\<forall>p \<in> set ps. 0 < length p \<and> length p < 2 ^ 32"
  shows "parse_pushes_loop (pre @ concat (map push_script ps)) (length pre) acc = acc @ ps"
  using assms
proof (induction ps arbitrary: pre acc)
  case Nil
  then show ?case by (subst parse_pushes_loop.simps) simp
next
  case (Cons p ps)
  let ?rest = "concat (map push_script ps)"
  let ?script = "pre @ push_prefix (length p) @ p @ ?rest"
  let ?j = "length pre + length (push_prefix (length p))"
  have item: "push_script p = push_prefix (length p) @ p" by (simp add: push_script_def)
  have p: "0 < length p" "length p < 2 ^ 32" using Cons.prems by simp_all
  have inside: "length pre < length ?script" using push_prefix_nonempty [of "length p"] by simp
  have data: "slice ?script ?j (?j + length p) = p"
    using slice_append_exact [of "pre @ push_prefix (length p)" ?j p "length p"] by simp
  have fits: "\<not> length ?script < ?j + length p" by simp
  have "parse_pushes_loop ?script (length pre) acc = parse_pushes_loop ?script (?j + length p) (acc @ [p])"
    by (subst parse_pushes_loop.simps)
      (simp only: inside push_length_prefix [OF p refl] push_step.case if_True data fits if_False)
  also have "\<dots> = acc @ p # ps"
    using Cons.IH [of "pre @ push_script p" "acc @ [p]"] Cons.prems by (simp add: item add.assoc)
  finally show ?case by (simp add: item)
qed

section \<open>The eligible keys\<close>

text \<open>The keys one input contributes when nothing fails.\<close>

definition input_keys :: "script_tests \<Rightarrow> ('x, 'pk, 'sc) secp_lib \<Rightarrow> 'x TxInputContext \<Rightarrow> 'pk list" where
  "input_keys tests lib input =
     (case collect_pubkey tests lib input [] of Inr ks \<Rightarrow> ks | Inl _ \<Rightarrow> [])"

lemma collect_pubkey_append:
  "collect_pubkey tests lib input acc
    = and_then (collect_pubkey tests lib input []) (\<lambda>ks. Inr (acc @ ks))"
  by (cases "tc_prevout input")
    (auto simp: collect_pubkey_def and_then_assoc split: option.splits intro!: and_then_cong)

lemma first_matching_error: "first_matching_pubkey lib h ps = Inl e \<Longrightarrow> e = InvalidCompressedInputPublicKey"
  by (induction ps)
    (auto simp: parse_compressed_pubkey_matching_hash_def and_then_eq_Inl split: if_splits option.splits)

lemma extract_error:
  "extract_bip352_input_pubkey tests lib input prevout = Inl e \<Longrightarrow> e = InvalidCompressedInputPublicKey"
  by (auto simp: extract_bip352_input_pubkey_def extract_p2tr_input_pubkey_def extract_p2wpkh_input_pubkey_def
      extract_p2sh_p2wpkh_input_pubkey_def extract_p2pkh_input_pubkey_def parse_compressed_pubkey_matching_hash_def
      first_matching_error split: PrevoutScript.splits if_splits option.splits)

lemma collect_error:
  assumes "is_coinbase (tc_previous_output input) \<or> tc_prevout input \<noteq> None"
    and "collect_pubkey tests lib input acc = Inl e"
  shows "e = InvalidCompressedInputPublicKey"
  using assms extract_error
  by (auto simp: collect_pubkey_def and_then_eq_Inl split: if_splits option.splits)

lemma collect_all:
  assumes "\<forall>input \<in> set inputs. is_coinbase (tc_previous_output input) \<or> tc_prevout input \<noteq> None"
  shows "try_fold (collect_pubkey tests lib) inputs acc =
    (if \<forall>input \<in> set inputs. is_ok (collect_pubkey tests lib input [])
     then Inr (acc @ concat (map (input_keys tests lib) inputs))
     else Inl InvalidCompressedInputPublicKey)"
  using assms
proof (induction inputs arbitrary: acc)
  case (Cons input inputs)
  show ?case
  proof (cases "collect_pubkey tests lib input []")
    case (Inl e)
    then have "e = InvalidCompressedInputPublicKey" using collect_error Cons.prems by fastforce
    with Inl show ?thesis by (simp add: collect_pubkey_append [of tests lib input acc])
  next
    case (Inr ks)
    then have "input_keys tests lib input = ks" by (simp add: input_keys_def)
    with Inr show ?thesis
      using Cons by (simp add: collect_pubkey_append [of tests lib input acc])
  qed
qed simp

definition eligible_keys :: "script_tests \<Rightarrow> ('x, 'pk, 'sc) secp_lib \<Rightarrow> 'x TxInputContext list \<Rightarrow> 'pk list" where
  "eligible_keys tests lib inputs = concat (map (input_keys tests lib) inputs)"

definition spent_outpoints :: "'x TxInputContext list \<Rightarrow> bytes list" where
  "spent_outpoints inputs =
     map serialize_outpoint (filter (\<lambda>input. \<not> is_coinbase (tc_previous_output input)) inputs)"

text \<open>The last part of the computation, on the keys and the outpoint.\<close>

definition point_of_keys :: "sha256_fun \<Rightarrow> ('x, 'pk, 'sc) secp_lib \<Rightarrow> bytes \<Rightarrow> 'pk list
    \<Rightarrow> SpTweakError + ScanPointStatus" where
  "point_of_keys sha256 lib outpoint_l keys =
     (if keys = [] then Inr (Ineligible NoEligibleInputs)
      else case combine_keys lib keys of
        None \<Rightarrow> Inr (Ineligible PublicKeySumInfinity)
      | Some key_sum \<Rightarrow>
          (case scalar_from_be_bytes lib
                  (bip352_inputs_tagged_sha256 sha256 (outpoint_l @ pk_serialize lib key_sum)) of
             None \<Rightarrow> Inl InvalidInputHashScalar
           | Some scalar \<Rightarrow>
             (case mul_tweak lib key_sum scalar of
                None \<Rightarrow> Inl ScanPointMultiplication
              | Some scan_point \<Rightarrow> Inr (Computed (pk_serialize lib scan_point)))))"

lemma smallest_outpoint:
  "spent_outpoints inputs \<noteq> [] \<Longrightarrow>
    smallest_non_coinbase_outpoint inputs = Some (Min (set (spent_outpoints inputs)))"
  by (simp add: smallest_non_coinbase_outpoint_def spent_outpoints_def min_list_Min Let_def)

lemma spent_outpoints_eq_Nil:
  "spent_outpoints inputs = [] \<longleftrightarrow> (\<forall>input \<in> set inputs. is_coinbase (tc_previous_output input))"
  by (simp add: spent_outpoints_def filter_empty_conv)

lemma compute_tx_scan_point_normal_form:
  "compute_tx_scan_point sha256 tests lib inputs =
     (if \<forall>input \<in> set inputs. is_coinbase (tc_previous_output input)
      then Inr (Ineligible NoEligibleInputs)
      else let missing = filter (\<lambda>input. \<not> is_coinbase (tc_previous_output input)
             \<and> tc_prevout input = None) inputs in
      if missing \<noteq> [] then Inr (MissingPrevout (length missing))
      else if spends_witness_version_greater_than_one inputs
      then Inr (Ineligible WitnessVersionGreaterThanOne)
      else if \<forall>input \<in> set inputs. is_ok (collect_pubkey tests lib input [])
      then point_of_keys sha256 lib (Min (set (spent_outpoints inputs))) (eligible_keys tests lib inputs)
      else Inl InvalidCompressedInputPublicKey)"
  (is "_ = (if ?coinbase then _ else let missing = ?missing in _)")
proof (cases "?coinbase \<or> ?missing \<noteq> [] \<or> spends_witness_version_greater_than_one inputs")
  case True
  then show ?thesis by (auto simp: compute_tx_scan_point_def list_all_iff Let_def)
next
  case False
  then have "\<forall>input \<in> set inputs. is_coinbase (tc_previous_output input) \<or> tc_prevout input \<noteq> None"
    by (auto simp: filter_empty_conv)
  note fold = collect_all [OF this, of tests lib "[]", simplified, folded eligible_keys_def]
  have start: "\<not> (inputs = [] \<or> list_all (\<lambda>input. is_coinbase (tc_previous_output input)) inputs)"
    using False by (auto simp: list_all_iff)
  have smallest: "smallest_non_coinbase_outpoint inputs = Some (Min (set (spent_outpoints inputs)))"
    using False smallest_outpoint spent_outpoints_eq_Nil by blast
  have missing: "?missing = []" using False by blast
  show ?thesis
    unfolding compute_tx_scan_point_def fold if_not_P [OF start] smallest missing
    using False by (simp add: point_of_keys_def Let_def split: option.split)
qed

lemma point_of_keys_error:
  "point_of_keys sha256 lib outpoint keys = Inl e \<Longrightarrow> e = InvalidInputHashScalar \<or> e = ScanPointMultiplication"
  by (auto simp: point_of_keys_def split: if_splits option.splits)

lemma point_of_keys_Computed:
  "point_of_keys sha256 lib outpoint keys = Inr (Computed p) \<longleftrightarrow>
    keys \<noteq> [] \<and> (\<exists>key_sum scalar point. combine_keys lib keys = Some key_sum
      \<and> scalar_from_be_bytes lib (bip352_inputs_tagged_sha256 sha256 (outpoint @ pk_serialize lib key_sum)) = Some scalar
      \<and> mul_tweak lib key_sum scalar = Some point \<and> p = pk_serialize lib point)"
  by (auto simp: point_of_keys_def split: if_splits option.splits)

text \<open>What the whole computation depends on: the inputs as a multiset.\<close>

lemma mset_concat_map: "mset (concat (map f xs)) = sum_mset (image_mset (\<lambda>x. mset (f x)) (mset xs))"
  by (induction xs) simp_all

lemma eligible_keys_mset:
  "mset inputs = mset inputs' \<Longrightarrow> mset (eligible_keys tests lib inputs) = mset (eligible_keys tests lib inputs')"
  unfolding eligible_keys_def mset_concat_map by simp

lemma point_of_keys_mset:
  assumes "\<And>ks ks'. mset ks = mset ks' \<Longrightarrow> combine_keys lib ks = combine_keys lib ks'"
    and "mset keys = mset keys'"
  shows "point_of_keys sha256 lib outpoint keys = point_of_keys sha256 lib outpoint keys'"
proof -
  have "keys = [] \<longleftrightarrow> keys' = []" using assms(2) by (metis mset_zero_iff)
  then show ?thesis by (simp add: point_of_keys_def assms(1) [OF assms(2)])
qed

text \<open>A toy group for the witnesses: the keys are 64-bit words under addition.\<close>

definition sample_secp :: "(u64, u64, u64) secp_lib" where
  "sample_secp =
     \<lparr>xonly_public_key_even = id, pk_from_slice = \<lambda>bs. Some (from_le_bytes bs),
      combine_keys = \<lambda>ks. if sum_list ks = 0 then None else Some (sum_list ks),
      pk_serialize = \<lambda>k. 2 # to_le_bytes k @ replicate 24 0,
      scalar_from_be_bytes = \<lambda>bs. Some (from_le_bytes bs), mul_tweak = \<lambda>k s. Some (k + s),
      hash160_bytes = take 20\<rparr>"

definition sample_input :: "u8 \<Rightarrow> u64 \<Rightarrow> u64 TxInputContext" where
  "sample_input t k = \<lparr>tc_previous_output = \<lparr>op_txid = replicate 32 t, op_vout = 0\<rparr>,
     tc_script_sig = [], tc_witness = [], tc_prevout = Some \<lparr>pi_script = PrevP2tr k\<rparr>\<rparr>"

section \<open>Properties\<close>

text \<open>
  the push parser inverts the canonical encoding: a script that pushes
  non-empty byte strings with the opcodes for their lengths (direct up to 75
  bytes, then one, two and four length bytes) is parsed to exactly these
  strings, in order.
\<close>

theorem push_parser_roundtrip:
  assumes "\<forall>p \<in> set ps. 0 < length p \<and> length p < 2 ^ 32"
  shows "parse_script_pushes (concat (map push_script ps)) = ps"
  using parse_pushes_encoded [OF assms, of "[]" "[]"] by (simp add: parse_script_pushes_def)

theorem push_parser_roundtrip_witness:
  "parse_script_pushes (concat (map push_script [replicate 71 1, replicate 100 2])) = [replicate 71 1, replicate 100 2]"
  using push_parser_roundtrip [of "[replicate 71 1, replicate 100 2]"] by simp

text \<open>
  C23: the scan point of a transaction does not depend on the order of its
  inputs: for any two orders the result is the same, errors and the count of
  missing previous outputs included, provided the key sum of the curve
  library is commutative.
\<close>

theorem scan_point_order_independent:
  assumes "\<And>ks ks'. mset ks = mset ks' \<Longrightarrow> combine_keys lib ks = combine_keys lib ks'"
    and "mset inputs = mset inputs'"
  shows "compute_tx_scan_point sha256 tests lib inputs = compute_tx_scan_point sha256 tests lib inputs'"
proof -
  have inputs: "set inputs = set inputs'" using assms(2) by (rule mset_eq_setD)
  have missing: "mset (filter P inputs) = mset (filter P inputs')" for P using assms(2) by simp
  have "length (filter P inputs) = length (filter P inputs')" for P
    using missing by (rule mset_eq_length)
  moreover have "filter P inputs = [] \<longleftrightarrow> filter P inputs' = []" for P
    using missing [of P] by (metis mset_zero_iff)
  moreover have "set (spent_outpoints inputs) = set (spent_outpoints inputs')"
    by (simp add: spent_outpoints_def inputs)
  moreover have "spends_witness_version_greater_than_one inputs = spends_witness_version_greater_than_one inputs'"
    by (simp add: spends_witness_version_greater_than_one_def list_ex_iff inputs)
  moreover have "point_of_keys sha256 lib outpoint (eligible_keys tests lib inputs)
      = point_of_keys sha256 lib outpoint (eligible_keys tests lib inputs')" for outpoint
    using point_of_keys_mset [OF assms(1) eligible_keys_mset [OF assms(2)]] by simp
  ultimately show ?thesis
    unfolding compute_tx_scan_point_normal_form inputs Let_def by simp
qed

lemma sample_secp_commutative:
  "mset ks = mset ks' \<Longrightarrow> combine_keys sample_secp ks = combine_keys sample_secp ks'"
  by (simp add: sample_secp_def flip: sum_mset_sum_list)

theorem scan_point_order_independent_witness:
  "\<forall>sha256 tests. compute_tx_scan_point sha256 tests sample_secp [sample_input 1 5, sample_input 2 7]
    = compute_tx_scan_point sha256 tests sample_secp [sample_input 2 7, sample_input 1 5]"
  by (intro allI scan_point_order_independent [OF sample_secp_commutative]) simp_all

text \<open>
  the scan-point computation raises only the three errors that stem from
  the curve library (an invalid compressed key, an input hash that is no
  scalar, a failing multiplication): the panic on a missing previous output
  and the empty-input error cannot happen, whatever the inputs.
\<close>

theorem scan_point_errors:
  "compute_tx_scan_point sha256 tests lib inputs
    \<notin> {Inl MissingPrevoutPanic, Inl EmptyNonCoinbaseInputSet, Inl PublicKeySumInfinityError}"
  unfolding compute_tx_scan_point_normal_form Let_def
  using point_of_keys_error by (auto split: if_splits) blast+



end
