(* ===== verification/Profile.thy ===== *)
theory Profile
  imports Prelude
begin

text \<open>
  The archive networks of \<^verbatim>\<open>light-server/src/profile.rs\<close>: their names, the
  names they are parsed from, and the height the archive starts at.
\<close>

definition MAINNET_TAPROOT_ACTIVATION_HEIGHT :: u64 where
  "MAINNET_TAPROOT_ACTIVATION_HEIGHT = 709632"

definition TESTNET_TAPROOT_ACTIVATION_HEIGHT :: u64 where
  "TESTNET_TAPROOT_ACTIVATION_HEIGHT = 2011968"

datatype ArchiveNetwork = Mainnet | Testnet | Signet | Regtest | Fixture

fun as_str :: "ArchiveNetwork \<Rightarrow> string" where
  "as_str Mainnet = ''mainnet''"
| "as_str Testnet = ''testnet''"
| "as_str Signet = ''signet''"
| "as_str Regtest = ''regtest''"
| "as_str Fixture = ''fixture''"

fun default_start_height :: "ArchiveNetwork \<Rightarrow> u64" where
  "default_start_height Mainnet = MAINNET_TAPROOT_ACTIVATION_HEIGHT"
| "default_start_height Testnet = TESTNET_TAPROOT_ACTIVATION_HEIGHT"
| "default_start_height Signet = 0"
| "default_start_height Regtest = 0"
| "default_start_height Fixture = 0"

definition to_ascii_lowercase :: "string \<Rightarrow> string" where
  "to_ascii_lowercase s =
     map (\<lambda>c. let n = of_char c :: nat in if 65 \<le> n \<and> n \<le> 90 then char_of (n + 32) else c) s"

definition from_str :: "string \<Rightarrow> ArchiveNetwork result" where
  "from_str s =
     (let s' = to_ascii_lowercase s in
      if s' = ''mainnet'' \<or> s' = ''bitcoin'' then Inr Mainnet
      else if s' = ''testnet'' \<or> s' = ''test'' then Inr Testnet
      else if s' = ''signet'' then Inr Signet
      else if s' = ''regtest'' then Inr Regtest
      else if s' = ''fixture'' then Inr Fixture
      else Inl (Error ''unknown archive network''))"

definition network_display :: "ArchiveNetwork \<Rightarrow> string" where
  "network_display network = as_str network"

lemma network_display_roundtrip: "from_str (network_display network) = Inr network"
  by (cases network) (simp_all add: from_str_def network_display_def to_ascii_lowercase_def Let_def)

lemma network_display_inject: "network_display a = network_display b \<longleftrightarrow> a = b"
  using network_display_roundtrip by (metis Inr_inject)

end
