(* ===== verification/Decimal.thy ===== *)
theory Decimal
  imports Prelude "HOL-Library.Sublist"
begin

text \<open>
  Decimal numbers as the code prints and parses them: \<open>to_string\<close> and the
  zero-padded format of a 64-bit integer, \<open>str::parse::<u64>\<close> with its optional
  plus sign and its overflow check, and \<open>strip_suffix\<close>.
\<close>

definition digit_char :: "nat \<Rightarrow> char" where
  "digit_char d = char_of (48 + d)"

fun digits :: "nat \<Rightarrow> string" where
  "digits n = (if n < 10 then [digit_char n] else digits (n div 10) @ [digit_char (n mod 10)])"

declare digits.simps [simp del]

definition show_u64 :: "u64 \<Rightarrow> string" where
  "show_u64 w = digits (unat w)"

definition pad10 :: "string \<Rightarrow> string" where
  "pad10 s = replicate (10 - length s) (CHR ''0'') @ s"

definition digit_value :: "char \<Rightarrow> nat option" where
  "digit_value c = (let n = of_char c in if 48 \<le> n \<and> n \<le> 57 then Some (n - 48) else None)"

fun digits_value :: "nat \<Rightarrow> string \<Rightarrow> nat option" where
  "digits_value acc [] = Some acc"
| "digits_value acc (c # cs) =
     (case digit_value c of None \<Rightarrow> None | Some d \<Rightarrow> digits_value (acc * 10 + d) cs)"

definition parse_u64 :: "string \<Rightarrow> u64 option" where
  "parse_u64 s =
     (let body = (if s \<noteq> [] \<and> hd s = CHR ''+'' then tl s else s)
      in if body = [] then None
         else case digits_value 0 body of None \<Rightarrow> None
           | Some n \<Rightarrow> if n < 2 ^ 64 then Some (word_of_nat n) else None)"

definition strip_suffix :: "string \<Rightarrow> string \<Rightarrow> string option" where
  "strip_suffix suf s = (if suffix suf s then Some (take (length s - length suf) s) else None)"

section \<open>Facts\<close>

lemma digit_value_char: "d < 10 \<Longrightarrow> digit_value (digit_char d) = Some d"
  by (simp add: digit_value_def digit_char_def)

lemma digits_value_append:
  "digits_value acc (xs @ ys) = Option.bind (digits_value acc xs) (\<lambda>a. digits_value a ys)"
  by (induction xs arbitrary: acc) (simp_all split: option.split)

lemma digits_value_digits: "digits_value 0 (digits n) = Some n"
proof (induction n rule: digits.induct)
  case (1 n)
  show ?case
  proof (cases "n < 10")
    case True
    then show ?thesis by (subst digits.simps) (simp add: digit_value_char)
  next
    case False
    then show ?thesis
      using 1 by (subst digits.simps) (simp add: digits_value_append digit_value_char)
  qed
qed

lemma digits_value_zeros: "digits_value 0 (replicate k (CHR ''0'') @ s) = digits_value 0 s"
  by (induction k) (simp_all add: digit_value_def)

lemma digits_not_plus: "c \<in> set (digits n) \<Longrightarrow> c \<noteq> CHR ''+''"
proof (induction n rule: digits.induct)
  case (1 n)
  have digit: "digit_char d \<noteq> CHR ''+''" if "d < 10" for d
    using digit_value_char [OF that] by (auto simp: digit_value_def)
  have "n mod 10 < 10" by simp
  from 1 digit [OF this] digit [of n] show ?case
    by (subst (asm) (2) digits.simps) (auto split: if_splits)
qed

lemma digits_nonempty: "digits n \<noteq> []"
  by (subst digits.simps) simp

lemma parse_digits:
  assumes "digits_value 0 s = Some n" and "n < 2 ^ 64" and "s \<noteq> []" and "hd s \<noteq> CHR ''+''"
  shows "parse_u64 s = Some (word_of_nat n)"
  using assms by (simp add: parse_u64_def)

lemma pad10_parts: "pad10 s \<noteq> []" if "s \<noteq> []"
  using that by (simp add: pad10_def)

lemma parse_pad10 [simp]: "parse_u64 (pad10 (show_u64 w)) = Some w"
proof -
  have "digits_value 0 (pad10 (show_u64 w)) = Some (unat w)"
    by (simp add: pad10_def show_u64_def digits_value_zeros digits_value_digits)
  moreover have "hd (pad10 (show_u64 w)) \<in> insert (CHR ''0'') (set (digits (unat w)))"
    by (cases "10 - length (digits (unat w))")
      (simp_all add: pad10_def show_u64_def digits_nonempty)
  then have "hd (pad10 (show_u64 w)) \<noteq> CHR ''+''" using digits_not_plus by auto
  ultimately have "parse_u64 (pad10 (show_u64 w)) = Some (word_of_nat (unat w))"
    using unat_bounds(4) [of w] by (intro parse_digits) (simp_all add: pad10_parts show_u64_def digits_nonempty)
  then show ?thesis by simp
qed

lemma strip_suffix_append [simp]: "strip_suffix suf (s @ suf) = Some s"
  by (simp add: strip_suffix_def suffix_def)

lemma strip_suffix_eq_Some: "strip_suffix suf s = Some p \<longleftrightarrow> s = p @ suf"
  by (auto simp: strip_suffix_def suffix_def)

end
