(* ===== verification/Light_Wire.thy ===== *)
theory Light_Wire
  imports Stored_Response
begin

text \<open>
  The wire and storage messages of \<^verbatim>\<open>light-server/src/index.rs\<close> over the schema
  \<^verbatim>\<open>light-server/schema/light.capnp\<close>. A message is the record of its schema
  fields; the packed Cap'n Proto serialization is code of the \<^verbatim>\<open>capnp\<close> crate and
  is a parameter, a pair of write and read functions per root type. Its reader
  checks pointers lazily in the getters; a malformed message is here an error of
  the read function. The theorems about round trips assume, for the one
  message at hand, that reading what was written returns it.
\<close>

section \<open>Messages\<close>

record light_block_msg =
  lm_version :: u16
  lm_height :: u64
  lm_block_hash :: bytes
  lm_previous_block_hash :: bytes
  lm_first_uid :: u64
  lm_tx_count :: u16
  lm_skipped_txs_for_tweaks :: bytes
  lm_tweak_count :: u32
  lm_tweak_output_counts :: bytes
  lm_tx_tweaks :: bytes
  lm_truncated_output_hash_bits :: u8
  lm_truncated_output_hashes :: bytes
  lm_spent_id_codec :: u16
  lm_spent_count :: u32
  lm_spent_ids :: bytes

record stored_tweak_msg =
  stm_output_count :: u16
  stm_tweak :: bytes

record stored_output_msg =
  som_key :: bytes
  som_spent_height :: u32
  som_flags :: u8

record stored_spend_msg =
  ssm_spent_uid :: u64
  ssm_creation_height :: u32

record stored_light_block_msg =
  sm_version :: u16
  sm_height :: u32
  sm_block_hash :: bytes
  sm_previous_block_hash :: bytes
  sm_first_uid :: u64
  sm_tx_count :: u16
  sm_skipped_txs_for_tweaks :: bytes
  sm_tweaks :: "stored_tweak_msg list"
  sm_skipped_outputs :: "u16 list"
  sm_outputs :: "stored_output_msg list"
  sm_spends :: "stored_spend_msg list"
  sm_raw_block_bytes :: u32
  sm_truncated_output_hash_for_two_labels :: bytes
  sm_truncated_output_hash_for_hundred_labels :: bytes

text \<open>The packed serialization of the two root types.\<close>

record capnp_io =
  write_light :: "light_block_msg \<Rightarrow> bytes result"
  read_light :: "bytes \<Rightarrow> light_block_msg result"
  write_stored :: "stored_light_block_msg \<Rightarrow> bytes result"
  read_stored :: "bytes \<Rightarrow> stored_light_block_msg result"

definition WIRE_VERSION :: u16 where
  "WIRE_VERSION = 1"

section \<open>Flat tweaks\<close>

definition encode_flat_tweaks :: "TweakEntryInput list \<Rightarrow> bytes \<times> bytes" where
  "encode_flat_tweaks tweaks =
     fold (\<lambda>entry (output_counts, tx_tweaks).
         (output_counts @ to_le_bytes (te_output_count entry),
          tx_tweaks @ tx_tweak_payload_bytes (te_tweak entry)))
       tweaks ([], [])"

definition tx_tweak_from_payload_bytes :: "bytes \<Rightarrow> bytes result" where
  "tx_tweak_from_payload_bytes bs =
     and_then (ensure (length bs = 32) ''tweak payload must be 32 bytes'') (\<lambda>_. Inr (0x02 # bs))"

definition decode_flat_tweaks :: "u32 \<Rightarrow> bytes \<Rightarrow> bytes \<Rightarrow> TweakEntryInput list result" where
  "decode_flat_tweaks tweak_count output_counts tx_tweaks =
     (let n = unat tweak_count in
      and_then (ok_or (usize_checked_mul n 2) ''flat tweak output-count byte length overflow'')
        (\<lambda>expected_output_count_bytes.
      and_then (ok_or (usize_checked_mul n 32) ''flat tweak payload byte length overflow'')
        (\<lambda>expected_tweak_bytes.
      and_then (ensure (length output_counts = expected_output_count_bytes)
        ''flat tweak output-count bytes length does not match expected'') (\<lambda>_.
      and_then (ensure (length tx_tweaks = expected_tweak_bytes)
        ''flat tweak payload bytes length does not match expected'') (\<lambda>_.
        try_map (\<lambda>i.
            let output_count = from_le_bytes [output_counts ! (i * 2), output_counts ! (i * 2 + 1)]
            in and_then (tx_tweak_from_payload_bytes (slice tx_tweaks (i * 32) (i * 32 + 32)))
                 (\<lambda>tweak. Inr \<lparr>te_output_count = output_count, te_tweak = tweak\<rparr>))
          [0..<n])))))"

section \<open>Encoding\<close>

definition spent_id_codec_to_capnp :: "SpentIdCodec \<Rightarrow> u16" where
  "spent_id_codec_to_capnp codec = (case codec of EliasDeltaAscendingAbsolute \<Rightarrow> 0)"

text \<open>An enum value outside the schema is an error of the getter.\<close>

definition spent_id_codec_from_capnp :: "u16 \<Rightarrow> SpentIdCodec result" where
  "spent_id_codec_from_capnp codec =
     (if codec = 0 then Inr EliasDeltaAscendingAbsolute
      else Inl (Error ''unsupported spent id codec''))"

definition encode_light_block :: "LightBlockInput \<Rightarrow> light_block_msg result" where
  "encode_light_block input =
     and_then (validate_light_block_input input) (\<lambda>_.
     let (tweak_output_counts, tx_tweaks) = encode_flat_tweaks (lb_tweaks input) in
     Inr \<lparr>lm_version = WIRE_VERSION, lm_height = lb_height input,
       lm_block_hash = lb_block_hash input, lm_previous_block_hash = lb_previous_block_hash input,
       lm_first_uid = lb_first_uid input, lm_tx_count = lb_tx_count input,
       lm_skipped_txs_for_tweaks = lb_skipped_txs_for_tweaks input,
       lm_tweak_count = word_of_nat (length (lb_tweaks input)),
       lm_tweak_output_counts = tweak_output_counts, lm_tx_tweaks = tx_tweaks,
       lm_truncated_output_hash_bits = lb_truncated_output_hash_bits input,
       lm_truncated_output_hashes = lb_truncated_output_hashes input,
       lm_spent_id_codec = spent_id_codec_to_capnp (lb_spent_id_codec input),
       lm_spent_count = lb_spent_count input, lm_spent_ids = lb_spent_ids input\<rparr>)"

definition encode_stored_light_block :: "StoredLightBlockInput \<Rightarrow> stored_light_block_msg result" where
  "encode_stored_light_block input =
     and_then (validate_stored_light_block_input input) (\<lambda>_.
     and_then (try_from_nat (unat (sb_height input))) (\<lambda>height.
     Inr \<lparr>sm_version = WIRE_VERSION, sm_height = height,
       sm_block_hash = sb_block_hash input, sm_previous_block_hash = sb_previous_block_hash input,
       sm_first_uid = sb_first_uid input, sm_tx_count = sb_tx_count input,
       sm_skipped_txs_for_tweaks = sb_skipped_txs_for_tweaks input,
       sm_tweaks = map (\<lambda>entry. \<lparr>stm_output_count = te_output_count entry,
          stm_tweak = tx_tweak_payload_bytes (te_tweak entry)\<rparr>) (sb_tweaks input),
       sm_skipped_outputs = sb_skipped_outputs input,
       sm_outputs = map (\<lambda>entry. \<lparr>som_key = so_key entry,
          som_spent_height = so_spent_height entry, som_flags = so_flags entry\<rparr>) (sb_outputs input),
       sm_spends = map (\<lambda>entry. \<lparr>ssm_spent_uid = ss_spent_uid entry,
          ssm_creation_height = ss_creation_height entry\<rparr>) (sb_spends input),
       sm_raw_block_bytes = sb_raw_block_bytes input,
       sm_truncated_output_hash_for_two_labels = sb_truncated_output_hash_for_two_labels input,
       sm_truncated_output_hash_for_hundred_labels = sb_truncated_output_hash_for_hundred_labels input\<rparr>))"

section \<open>Decoding\<close>

definition decode_light_block :: "capnp_io \<Rightarrow> bytes \<Rightarrow> LightBlockInput result" where
  "decode_light_block io bs =
     and_then (read_light io bs) (\<lambda>block.
     and_then (ensure (lm_version block = WIRE_VERSION) ''unsupported light block version'') (\<lambda>_.
     and_then (decode_flat_tweaks (lm_tweak_count block) (lm_tweak_output_counts block)
       (lm_tx_tweaks block)) (\<lambda>tweaks.
     and_then (spent_id_codec_from_capnp (lm_spent_id_codec block)) (\<lambda>spent_id_codec.
     and_then (read_32 (lm_block_hash block) ''block hash'') (\<lambda>block_hash.
     and_then (read_32 (lm_previous_block_hash block) ''previous block hash'') (\<lambda>previous_block_hash.
     let input =
       \<lparr>lb_height = lm_height block, lb_block_hash = block_hash,
        lb_previous_block_hash = previous_block_hash, lb_first_uid = lm_first_uid block,
        lb_tx_count = lm_tx_count block, lb_skipped_txs_for_tweaks = lm_skipped_txs_for_tweaks block,
        lb_tweaks = tweaks, lb_truncated_output_hash_bits = lm_truncated_output_hash_bits block,
        lb_truncated_output_hashes = lm_truncated_output_hashes block,
        lb_spent_id_codec = spent_id_codec, lb_spent_count = lm_spent_count block,
        lb_spent_ids = lm_spent_ids block\<rparr>
     in and_then (validate_light_block_input input) (\<lambda>_. Inr input)))))))"

definition decode_stored_tweak :: "stored_tweak_msg \<Rightarrow> TweakEntryInput result" where
  "decode_stored_tweak entry =
     and_then (ensure (length (stm_tweak entry) = 32) ''stored tweak entry is not 32 bytes'') (\<lambda>_.
     and_then (tx_tweak_from_payload_bytes (stm_tweak entry)) (\<lambda>tweak.
       Inr \<lparr>te_output_count = stm_output_count entry, te_tweak = tweak\<rparr>))"

definition decode_stored_output :: "stored_output_msg \<Rightarrow> StoredOutputEntryInput result" where
  "decode_stored_output entry =
     and_then (ensure (length (som_key entry) = 32) ''stored output entry key is not 32 bytes'') (\<lambda>_.
     and_then (read_32 (som_key entry) ''stored output key'') (\<lambda>key.
       Inr \<lparr>so_key = key, so_spent_height = som_spent_height entry, so_flags = som_flags entry\<rparr>))"

definition decode_stored_light_block :: "capnp_io \<Rightarrow> bytes \<Rightarrow> StoredLightBlockInput result" where
  "decode_stored_light_block io bs =
     and_then (read_stored io bs) (\<lambda>block.
     and_then (ensure (sm_version block = WIRE_VERSION) ''unsupported stored light block version'') (\<lambda>_.
     let skipped_outputs = read_u16_list (sm_skipped_outputs block) in
     and_then (try_map decode_stored_tweak (sm_tweaks block)) (\<lambda>tweaks.
     and_then (try_map decode_stored_output (sm_outputs block)) (\<lambda>outputs.
     let spends = map (\<lambda>entry. \<lparr>ss_spent_uid = ssm_spent_uid entry,
           ss_creation_height = ssm_creation_height entry\<rparr>) (sm_spends block) in
     and_then (read_32 (sm_block_hash block) ''stored block hash'') (\<lambda>block_hash.
     and_then (read_32 (sm_previous_block_hash block) ''stored previous block hash'')
       (\<lambda>previous_block_hash.
     let input =
       \<lparr>sb_height = ucast (sm_height block), sb_block_hash = block_hash,
        sb_previous_block_hash = previous_block_hash, sb_first_uid = sm_first_uid block,
        sb_tx_count = sm_tx_count block,
        sb_skipped_txs_for_tweaks = sm_skipped_txs_for_tweaks block, sb_tweaks = tweaks,
        sb_skipped_outputs = skipped_outputs, sb_outputs = outputs, sb_spends = spends,
        sb_raw_block_bytes = sm_raw_block_bytes block,
        sb_truncated_output_hash_for_two_labels = sm_truncated_output_hash_for_two_labels block,
        sb_truncated_output_hash_for_hundred_labels = sm_truncated_output_hash_for_hundred_labels block\<rparr>
     in and_then (validate_stored_light_block_input input) (\<lambda>_. Inr input)))))))"

section \<open>From the archive to the client\<close>

definition stored_light_block_to_filtered_response_bytes ::
    "sha256_fun \<Rightarrow> capnp_io \<Rightarrow> bytes \<Rightarrow> StoredBlockResponseFilter \<Rightarrow> (bytes \<times> bytes) result" where
  "stored_light_block_to_filtered_response_bytes sha256 io bs flt =
     and_then (decode_stored_light_block io bs) (\<lambda>stored.
     let block_hash = sb_block_hash stored in
     and_then (to_filtered_response_input sha256 stored flt) (\<lambda>response.
     and_then (encode_light_block response) (\<lambda>message.
     and_then (write_light io message) (\<lambda>out. Inr (out, block_hash)))))"

definition stored_light_block_to_response_bytes ::
    "sha256_fun \<Rightarrow> capnp_io \<Rightarrow> bytes \<Rightarrow> (bytes \<times> bytes) result" where
  "stored_light_block_to_response_bytes sha256 io bs =
     stored_light_block_to_filtered_response_bytes sha256 io bs default_filter"

section \<open>Round trips\<close>

text \<open>
  Only the 32-byte x-coordinate of a tweak is stored; decoding puts the
  even-y prefix in front of it.
\<close>

definition even_tweak :: "TweakEntryInput \<Rightarrow> TweakEntryInput" where
  "even_tweak t = t\<lparr>te_tweak := 0x02 # drop 1 (te_tweak t)\<rparr>"

definition even_light :: "LightBlockInput \<Rightarrow> LightBlockInput" where
  "even_light lb = lb\<lparr>lb_tweaks := map even_tweak (lb_tweaks lb)\<rparr>"

definition even_stored :: "StoredLightBlockInput \<Rightarrow> StoredLightBlockInput" where
  "even_stored sb = sb\<lparr>sb_tweaks := map even_tweak (sb_tweaks sb)\<rparr>"

lemma even_tweak_simps [simp]:
  "te_output_count (even_tweak t) = te_output_count t"
  "te_tweak (even_tweak t) = 0x02 # drop 1 (te_tweak t)"
  by (simp_all add: even_tweak_def)

lemma declared_even [simp]: "declared_outputs (map even_tweak ts) = declared_outputs ts"
  by (simp add: declared_outputs_def comp_def)

lemma valid_even_light: "valid_light_block lb \<Longrightarrow> valid_light_block (even_light lb)"
  by (simp add: valid_light_block_def even_light_def)

lemma valid_even_stored: "valid_stored sb \<Longrightarrow> valid_stored (even_stored sb)"
  by (simp add: valid_stored_def tweaks_fit_def slots_fit_def outputs_accounted_def
      stored_hash_len_def even_stored_def)

lemma even_tweak_id: "te_tweak t = 0x02 # bs \<Longrightarrow> even_tweak t = t"
  by (cases t) (simp add: even_tweak_def)

lemma slice_concat_uniform:
  "\<forall>x \<in> set xs. length (f x) = k \<Longrightarrow> i < length xs \<Longrightarrow>
     slice (concat (map f xs)) (i * k) (i * k + k) = f (xs ! i)"
proof (induction xs arbitrary: i)
  case (Cons x xs)
  show ?case
  proof (cases i)
    case 0
    with Cons.prems show ?thesis by (simp add: slice_def)
  next
    case (Suc j)
    with Cons.prems have "slice (f x @ concat (map f xs)) (k + j * k) (k + (j * k + k))
        = slice (concat (map f xs)) (j * k) (j * k + k)"
      by (intro slice_shift) simp
    with Cons Suc show ?thesis by (simp add: add.assoc)
  qed
qed simp

lemma length_concat_uniform: "\<forall>x \<in> set xs. length (f x) = k \<Longrightarrow> length (concat (map f xs)) = length xs * k"
  by (induction xs) simp_all

lemma slice_two: "i + 1 < length xs \<Longrightarrow> slice xs i (i + 2) = [xs ! i, xs ! (i + 1)]"
  using Cons_nth_drop_Suc [of i xs] Cons_nth_drop_Suc [of "Suc i" xs]
  by (simp add: slice_def) (metis take0 take_Suc_Cons numeral_2_eq_2)

lemma encode_flat_tweaks_eq:
  "encode_flat_tweaks ts = (concat (map (\<lambda>t. to_le_bytes (te_output_count t)) ts),
     concat (map (\<lambda>t. tx_tweak_payload_bytes (te_tweak t)) ts))"
proof -
  have "fold (\<lambda>entry (cs, ps). (cs @ to_le_bytes (te_output_count entry),
        ps @ tx_tweak_payload_bytes (te_tweak entry))) ts (cs, ps)
    = (cs @ concat (map (\<lambda>t. to_le_bytes (te_output_count t)) ts),
       ps @ concat (map (\<lambda>t. tx_tweak_payload_bytes (te_tweak t)) ts))" for cs ps
    by (induction ts arbitrary: cs ps) simp_all
  then show ?thesis by (simp add: encode_flat_tweaks_def)
qed

lemma flat_tweaks_decode:
  assumes "length ts < 2 ^ 32" and "\<forall>t \<in> set ts. length (te_tweak t) = 33"
  shows "decode_flat_tweaks (word_of_nat (length ts)) (fst (encode_flat_tweaks ts))
    (snd (encode_flat_tweaks ts)) = Inr (map even_tweak ts)"
proof -
  let ?c = "\<lambda>t. to_le_bytes (te_output_count t)" and ?p = "\<lambda>t. tx_tweak_payload_bytes (te_tweak t)"
  let ?cs = "concat (map ?c ts)" and ?ps = "concat (map ?p ts)"
  have n: "unat (word_of_nat (length ts) :: u32) = length ts"
    using assms(1) by (simp add: unat_word_of_nat_small)
  have cl: "\<forall>t \<in> set ts. length (?c t) = 2" by simp
  have pl: "\<forall>t \<in> set ts. length (?p t) = 32" using assms(2) by (simp add: tx_tweak_payload_bytes_def)
  have lens: "length ?cs = length ts * 2" "length ?ps = length ts * 32"
    using length_concat_uniform [OF cl] length_concat_uniform [OF pl] by simp_all
  let ?f = "\<lambda>i. let output_count = from_le_bytes [?cs ! (i * 2), ?cs ! (i * 2 + 1)]
      in and_then (tx_tweak_from_payload_bytes (slice ?ps (i * 32) (i * 32 + 32)))
        (\<lambda>tweak. Inr \<lparr>te_output_count = output_count, te_tweak = tweak\<rparr>)"
  have "?f i = Inr (even_tweak (ts ! i))" if i: "i < length ts" for i
  proof -
    have "[?cs ! (i * 2), ?cs ! (i * 2 + 1)] = ?c (ts ! i)"
      using slice_two [of "i * 2" ?cs] slice_concat_uniform [OF cl i] lens(1) i by simp
    moreover have "slice ?ps (i * 32) (i * 32 + 32) = ?p (ts ! i)"
      by (rule slice_concat_uniform [OF pl i])
    moreover have "length (?p (ts ! i)) = 32" using pl i by simp
    ultimately show ?thesis
      by (simp add: tx_tweak_from_payload_bytes_def from_to_le_bytes even_tweak_def
          tx_tweak_payload_bytes_def)
  qed
  then have "try_map ?f [0..<length ts] = Inr (map (\<lambda>i. even_tweak (ts ! i)) [0..<length ts])"
    by (intro try_map_Inr) simp
  also have "map (\<lambda>i. even_tweak (ts ! i)) [0..<length ts] = map even_tweak ts"
    by (rule nth_equalityI) simp_all
  finally show ?thesis
    using assms(1) lens
    by (simp add: decode_flat_tweaks_def encode_flat_tweaks_eq n usize_checked_mul_def usize_max_def)
qed

lemma codec_roundtrip [simp]: "spent_id_codec_from_capnp (spent_id_codec_to_capnp c) = Inr c"
  by (cases c) (simp add: spent_id_codec_from_capnp_def spent_id_codec_to_capnp_def)

text \<open>What decoding the message of a block returns, when the transport returns the message.\<close>

lemma decode_encoded_light:
  assumes enc: "encode_light_block lb = Inr m" and rd: "read_light io bs = Inr m"
    and "length (lb_block_hash lb) = 32" and "length (lb_previous_block_hash lb) = 32"
  shows "decode_light_block io bs = Inr (even_light lb)"
proof -
  have v: "valid_light_block lb" using enc by (auto simp: encode_light_block_def result_simps validate_light_iff)
  then have ts: "length (lb_tweaks lb) < 2 ^ 32" "\<forall>t \<in> set (lb_tweaks lb). length (te_tweak t) = 33"
    using unat_bounds(2) [of "lb_tx_count lb"] by (simp_all add: valid_light_block_def)
  have ok: "validate_light_block_input (even_light lb) = Inr ()"
    using valid_even_light [OF v] by (simp add: validate_light_iff)
  show ?thesis
    using enc rd assms(3,4) flat_tweaks_decode [OF ts] ok
    by (cases lb)
      (auto simp: encode_light_block_def decode_light_block_def result_simps Let_def read_32_def
        even_light_def split: prod.splits)
qed

lemma ucast_u64_u32_u64: "unat (h :: u64) < 2 ^ 32 \<Longrightarrow> ucast (ucast h :: u32) = h"
proof -
  assume "unat h < 2 ^ 32"
  then have "unat (word_of_nat (unat h) :: u32) = unat h" by (intro unat_word_of_nat_small) simp
  then have "(word_of_nat (unat (word_of_nat (unat h) :: u32)) :: u64) = word_of_nat (unat h)" by simp
  then show ?thesis by simp
qed

lemma spend_eta: "\<lparr>ss_spent_uid = ss_spent_uid x, ss_creation_height = ss_creation_height x\<rparr> = x"
  by (cases x) simp

lemma try_map_comp: "try_map f (map g xs) = try_map (\<lambda>x. f (g x)) xs"
  by (induction xs) simp_all

lemma decode_encoded_stored:
  assumes enc: "encode_stored_light_block sb = Inr m" and rd: "read_stored io bs = Inr m"
    and "length (sb_block_hash sb) = 32" and "length (sb_previous_block_hash sb) = 32"
    and keys: "\<forall>o' \<in> set (sb_outputs sb). length (so_key o') = 32"
  shows "decode_stored_light_block io bs = Inr (even_stored sb)"
proof -
  have v: "valid_stored sb"
    using enc by (auto simp: encode_stored_light_block_def result_simps validate_stored_iff)
  have tweaks: "try_map (\<lambda>entry. decode_stored_tweak \<lparr>stm_output_count = te_output_count entry,
      stm_tweak = tx_tweak_payload_bytes (te_tweak entry)\<rparr>) (sb_tweaks sb)
      = Inr (map even_tweak (sb_tweaks sb))"
    using v by (intro try_map_Inr)
      (auto simp: valid_stored_def tweaks_fit_def decode_stored_tweak_def tx_tweak_from_payload_bytes_def
        tx_tweak_payload_bytes_def even_tweak_def)
  have outputs: "try_map (\<lambda>entry. decode_stored_output \<lparr>som_key = so_key entry,
      som_spent_height = so_spent_height entry, som_flags = so_flags entry\<rparr>) (sb_outputs sb)
      = Inr (sb_outputs sb)"
    using keys
    by (subst try_map_Inr [where g = "\<lambda>x. x"]) (auto simp: decode_stored_output_def read_32_def)
  have h: "ucast (word_of_nat (unat (sb_height sb)) :: u32) = sb_height sb"
    using v by (simp add: valid_stored_def ucast_u64_u32_u64)
  have ok: "validate_stored_light_block_input (even_stored sb) = Inr ()"
    using valid_even_stored [OF v] by (simp add: validate_stored_iff)
  show ?thesis
    using enc rd assms(3,4) tweaks outputs ok h
    by (cases sb)
      (auto simp: encode_stored_light_block_def decode_stored_light_block_def result_simps Let_def
        read_32_def even_stored_def try_map_comp comp_def spend_eta)
qed

lemma encode_even_stored:
  assumes "encode_stored_light_block sb = Inr m"
  shows "encode_stored_light_block (even_stored sb) = Inr m"
proof -
  have v: "valid_stored sb"
    using assms by (auto simp: encode_stored_light_block_def result_simps validate_stored_iff)
  then have "validate_stored_light_block_input (even_stored sb) = Inr ()"
    using valid_even_stored by (simp add: validate_stored_iff)
  with assms show ?thesis
    by (auto simp: encode_stored_light_block_def result_simps even_stored_def
        tx_tweak_payload_bytes_def)
qed

lemma even_light_id: "\<forall>t \<in> set (lb_tweaks lb). \<exists>bs. te_tweak t = 0x02 # bs \<Longrightarrow> even_light lb = lb"
  unfolding even_light_def using even_tweak_id by (subst map_idI) auto

lemma encode_light_ok: "validate_light_block_input r = Inr () \<Longrightarrow> \<exists>m. encode_light_block r = Inr m"
  by (cases "encode_flat_tweaks (lb_tweaks r)") (simp add: encode_light_block_def)

text \<open>A response only holds tweak points of the stored block, and its two hashes.\<close>

lemma filtered_response_parts:
  assumes "to_filtered_response_input sha256 sb flt = Inr r"
  shows "te_tweak ` set (lb_tweaks r) \<subseteq> te_tweak ` set (sb_tweaks sb)
    \<and> lb_block_hash r = sb_block_hash sb \<and> lb_previous_block_hash r = sb_previous_block_hash sb
    \<and> validate_light_block_input r = Inr ()"
proof (cases "\<not> filter_reuse flt \<and> cutthrough_start flt = None")
  case True
  with assms show ?thesis
    by (auto simp: to_filtered_response_input_def to_response_Inr_iff validate_light_iff)
next
  case False
  let ?P = "\<lambda>st. te_tweak ` set (fs_tweaks st) \<subseteq> te_tweak ` set (sb_tweaks sb)"
  from False assms obtain idx st where
    loop: "try_fold (filter_tweak sb flt) (zip (sb_tweaks sb) idx)
       \<lparr>fs_output_keys = [], fs_tweaks = [], fs_output_cursor = 0,
        fs_skipped = sb_skipped_txs_for_tweaks sb\<rparr> = Inr st"
    and r: "lb_tweaks r = fs_tweaks st" "lb_block_hash r = sb_block_hash sb"
      "lb_previous_block_hash r = sb_previous_block_hash sb" "validate_light_block_input r = Inr ()"
    by (auto simp: to_filtered_response_input_def Let_def and_then_eq_Inr split: prod.splits)
  have "?P st"
  proof (rule try_fold_invariant [OF loop])
    fix x s s' assume "x \<in> set (zip (sb_tweaks sb) idx)" "?P s" "filter_tweak sb flt x s = Inr s'"
    moreover from this(3) have "te_tweak ` set (fs_tweaks s')
        \<subseteq> insert (te_tweak (fst x)) (te_tweak ` set (fs_tweaks s))"
      by (auto simp: filter_tweak_def Let_def result_simps split: prod.splits if_splits)
    moreover from calculation(1) have "fst x \<in> set (sb_tweaks sb)"
      by (metis prod.collapse set_zip_leftD)
    ultimately show "?P s'" by blast
  qed simp
  with r show ?thesis by simp
qed

definition light_transport :: "capnp_io \<Rightarrow> LightBlockInput \<Rightarrow> bool" where
  "light_transport io r \<longleftrightarrow>
     (\<forall>m. encode_light_block r = Inr m \<longrightarrow> (\<exists>out. write_light io m = Inr out \<and> read_light io out = Inr m))"

lemma sample_encodes: "\<exists>m. encode_stored_light_block sample_block = Inr m"
  using sample_valid validate_stored_iff [of sample_block]
  by (simp add: encode_stored_light_block_def try_from_nat_def sample_block_def)

lemma sample_widths:
  "length (sb_block_hash sample_block) = 32" "length (sb_previous_block_hash sample_block) = 32"
  "\<forall>x \<in> set (sb_outputs sample_block). length (so_key x) = 32" "even_stored sample_block = sample_block"
  "sb_block_hash sample_block = replicate 32 1"
proof -
  have "replicate 33 (2 :: u8) = 2 # replicate 32 2" by (simp add: numeral_eq_Suc)
  then show "even_stored sample_block = sample_block"
    by (simp add: sample_block_def even_stored_def even_tweak_def)
qed (simp_all add: sample_block_def)

lemma sample_response: "\<exists>r. to_filtered_response_input sha256 sample_block default_filter = Inr r"
proof -
  from sample_valid have "is_ok (to_response_input_for_labels sample_block None)"
    by (rule valid_stored_response_ok)
  then show ?thesis by (auto simp: is_ok_iff to_filtered_response_input_def default_filter_def)
qed

text \<open>What every block read from the archive is.\<close>

lemma decoded_stored_parts:
  assumes "decode_stored_light_block io bs = Inr sb"
  shows "validate_stored_light_block_input sb = Inr ()" and "length (sb_block_hash sb) = 32"
    and "length (sb_previous_block_hash sb) = 32"
    and "\<forall>output \<in> set (sb_outputs sb). length (so_key output) = 32"
    and "\<forall>t \<in> set (sb_tweaks sb). \<exists>bs. te_tweak t = 0x02 # bs"
proof -
  from assms obtain block :: stored_light_block_msg where
    parts: "try_map decode_stored_tweak (sm_tweaks block) = Inr (sb_tweaks sb)"
      "try_map decode_stored_output (sm_outputs block) = Inr (sb_outputs sb)"
    and rest: "validate_stored_light_block_input sb = Inr ()" "length (sb_block_hash sb) = 32"
      "length (sb_previous_block_hash sb) = 32"
    by (auto simp: decode_stored_light_block_def Let_def result_simps)
  show "\<forall>output \<in> set (sb_outputs sb). length (so_key output) = 32"
    using try_map_set [OF parts(2)] by (fastforce simp: decode_stored_output_def result_simps)
  show "\<forall>t \<in> set (sb_tweaks sb). \<exists>bs. te_tweak t = 0x02 # bs"
    using try_map_set [OF parts(1)]
    by (fastforce simp: decode_stored_tweak_def tx_tweak_from_payload_bytes_def result_simps)
  show "validate_stored_light_block_input sb = Inr ()" "length (sb_block_hash sb) = 32"
    "length (sb_previous_block_hash sb) = 32"
    by (rule rest)+
qed

lemma even_stored_id:
  assumes "\<forall>t \<in> set (sb_tweaks sb). \<exists>bs. te_tweak t = 0x02 # bs"
  shows "even_stored sb = sb"
proof -
  have "map even_tweak (sb_tweaks sb) = sb_tweaks sb" using even_tweak_id assms by (intro map_idI) blast
  then show ?thesis by (simp add: even_stored_def)
qed

section \<open>Properties\<close>

text \<open>
  C21: a stored block survives the archive: when the transport returns the
  written message, decoding gives back the block with every field, each tweak
  with the even-y prefix before its x-coordinate, and storing the
  decoded block again writes the same message.
\<close>

theorem stored_block_roundtrip:
  assumes "encode_stored_light_block sb = Inr m" and "read_stored io bs = Inr m"
    and "length (sb_block_hash sb) = 32" and "length (sb_previous_block_hash sb) = 32"
    and "\<forall>output \<in> set (sb_outputs sb). length (so_key output) = 32"
  shows "decode_stored_light_block io bs = Inr (even_stored sb)
    \<and> encode_stored_light_block (even_stored sb) = Inr m"
  using decode_encoded_stored [OF assms] encode_even_stored [OF assms(1)] by simp

theorem stored_block_roundtrip_witness:
  "\<exists>m. encode_stored_light_block sample_block = Inr m \<and>
     decode_stored_light_block \<lparr>write_light = \<lambda>_. Inr [], read_light = \<lambda>_. Inl (Error []),
       write_stored = \<lambda>_. Inr [], read_stored = \<lambda>_. Inr m\<rparr> [] = Inr sample_block"
proof -
  obtain m where m: "encode_stored_light_block sample_block = Inr m" using sample_encodes by blast
  let ?io = "\<lparr>write_light = \<lambda>_. Inr [], read_light = \<lambda>_. Inl (Error []),
       write_stored = \<lambda>_. Inr [], read_stored = \<lambda>_. Inr m\<rparr>"
  have "read_stored ?io [] = Inr m" by simp
  from stored_block_roundtrip [OF m this sample_widths(1-3)] m sample_widths(4) show ?thesis by auto
qed

text \<open>
  A light block survives the wire in the same sense.
\<close>

theorem light_block_roundtrip:
  assumes "encode_light_block lb = Inr m" and "read_light io bs = Inr m"
    and "length (lb_block_hash lb) = 32" and "length (lb_previous_block_hash lb) = 32"
  shows "decode_light_block io bs = Inr (even_light lb)"
  using assms by (rule decode_encoded_light)

theorem light_block_roundtrip_witness:
  "\<exists>lb m. encode_light_block lb = Inr m \<and>
     decode_light_block \<lparr>write_light = \<lambda>_. Inr [], read_light = \<lambda>_. Inr m,
       write_stored = \<lambda>_. Inr [], read_stored = \<lambda>_. Inl (Error [])\<rparr> [] = Inr (even_light lb)"
proof -
  obtain r where r: "to_filtered_response_input (\<lambda>_. []) sample_block default_filter = Inr r"
    using sample_response by blast
  note parts = filtered_response_parts [OF r]
  then obtain m where m: "encode_light_block r = Inr m" using encode_light_ok by blast
  let ?io = "\<lparr>write_light = \<lambda>_. Inr [], read_light = \<lambda>_. Inr m,
       write_stored = \<lambda>_. Inr [], read_stored = \<lambda>_. Inl (Error [])\<rparr>"
  have "read_light ?io [] = Inr m" by simp
  from light_block_roundtrip [OF m this] parts sample_widths m show ?thesis by auto
qed

text \<open>
  C4: end to end, from the archive to the client: for an archived block and any
  filter, when the transport returns the two messages it was given, the served
  bytes come with the block's hash and the client decodes from them
  exactly the filtered response of the archived block.
\<close>

theorem archive_to_client:
  assumes "encode_stored_light_block sb = Inr m" and "read_stored io bs = Inr m"
    and "length (sb_block_hash sb) = 32" and "length (sb_previous_block_hash sb) = 32"
    and "\<forall>output \<in> set (sb_outputs sb). length (so_key output) = 32"
    and resp: "to_filtered_response_input sha256 (even_stored sb) flt = Inr r"
    and tr: "light_transport io r"
  shows "\<exists>out. stored_light_block_to_filtered_response_bytes sha256 io bs flt = Inr (out, sb_block_hash sb)
    \<and> decode_light_block io out = Inr r"
proof -
  note parts = filtered_response_parts [OF resp]
  have dec: "decode_stored_light_block io bs = Inr (even_stored sb)"
    by (rule decode_encoded_stored [OF assms(1-5)])
  obtain lm where lm: "encode_light_block r = Inr lm"
    using parts encode_light_ok by blast
  with tr obtain out where out: "write_light io lm = Inr out" "read_light io out = Inr lm"
    by (auto simp: light_transport_def)
  have "te_tweak ` set (lb_tweaks r) \<subseteq> te_tweak ` set (map even_tweak (sb_tweaks sb))"
    using parts by (simp add: even_stored_def)
  then have "even_light r = r" by (intro even_light_id) (auto simp: subset_iff image_iff)
  moreover have "decode_light_block io out = Inr (even_light r)"
    using parts assms(3,4) by (intro decode_encoded_light [OF lm out(2)]) (simp_all add: even_stored_def)
  ultimately show ?thesis
    using dec resp lm out(1)
    by (simp add: stored_light_block_to_filtered_response_bytes_def even_stored_def)
qed

theorem archive_to_client_witness:
  "\<exists>io bs out r. stored_light_block_to_filtered_response_bytes (\<lambda>_. []) io bs default_filter
       = Inr (out, replicate 32 1) \<and> decode_light_block io out = Inr r"
proof -
  obtain m where m: "encode_stored_light_block sample_block = Inr m" using sample_encodes by blast
  obtain r where r: "to_filtered_response_input (\<lambda>_. []) sample_block default_filter = Inr r"
    using sample_response by blast
  let ?io = "\<lparr>write_light = \<lambda>_. Inr [], read_light = \<lambda>_. encode_light_block r,
       write_stored = \<lambda>_. Inr [], read_stored = \<lambda>_. Inr m\<rparr>"
  have "read_stored ?io [] = Inr m" "light_transport ?io r" by (simp_all add: light_transport_def)
  moreover have "to_filtered_response_input (\<lambda>_. []) (even_stored sample_block) default_filter = Inr r"
    using r sample_widths(4) by simp
  ultimately show ?thesis
    using archive_to_client [OF m _ sample_widths(1-3)] unfolding sample_widths(5) by blast
qed

text \<open>
  nothing invalid is ever read from the archive: a block that decodes passes
  the stored-block validator, its hashes and output keys have 32 bytes,
  and every tweak carries the even-y prefix and a 32-byte x-coordinate.
\<close>

theorem decoded_stored_block_valid:
  assumes "decode_stored_light_block io bs = Inr sb"
  shows "validate_stored_light_block_input sb = Inr ()
    \<and> length (sb_block_hash sb) = 32 \<and> length (sb_previous_block_hash sb) = 32
    \<and> (\<forall>output \<in> set (sb_outputs sb). length (so_key output) = 32) \<and> even_stored sb = sb"
  using decoded_stored_parts [OF assms] even_stored_id by simp

theorem decoded_stored_block_valid_witness:
  "\<exists>io bs sb. decode_stored_light_block io bs = Inr sb \<and> validate_stored_light_block_input sb = Inr ()"
proof -
  obtain m where m: "encode_stored_light_block sample_block = Inr m" using sample_encodes by blast
  let ?io = "\<lparr>write_light = \<lambda>_. Inr [], read_light = \<lambda>_. Inl (Error []),
       write_stored = \<lambda>_. Inr [], read_stored = \<lambda>_. Inr m\<rparr>"
  have "read_stored ?io [] = Inr m" by simp
  from decode_encoded_stored [OF m this sample_widths(1-3)]
  have "decode_stored_light_block ?io [] = Inr (even_stored sample_block)" .
  with decoded_stored_block_valid [OF this] show ?thesis by blast
qed

end
