(* ===== verification/File_Archive.thy ===== *)
theory File_Archive
  imports Decimal Light_Wire "HOL-Library.AList"
begin

text \<open>
  The file archive of \<^verbatim>\<open>light-server/src/storage/files.rs\<close> and its interface of
  \<^verbatim>\<open>storage/backend.rs\<close>. The archive is a directory with a manifest and a
  directory of block files; the file system below it is modelled as these two:
  the manifest's bytes, and the names and bytes of the block files in listing
  order. A missing file or directory is an error of the operation, other
  input/output failures are not modelled. JSON is code of the \<^verbatim>\<open>serde_json\<close>
  crate and is a parameter. An operation that writes returns the file system
  beside its result, since a failure leaves what was written before it.
\<close>

section \<open>Data\<close>

record ChainTip =
  ct_height :: u64
  ct_block_hash :: string

record Manifest =
  mf_version :: u16
  mf_network :: string
  mf_genesis_hash :: "string option"
  mf_finality_depth :: u64
  mf_suggested_reorg_cache_depth :: u64
  mf_max_range_count :: u32
  mf_tip :: "ChainTip option"

record ServedBlock =
  sv_payload :: bytes
  sv_block_hash :: bytes

record json_lib =
  manifest_to_json :: "Manifest \<Rightarrow> bytes result"
  manifest_from_json :: "bytes \<Rightarrow> Manifest result"

section \<open>The file system under the archive\<close>

record archive_fs =
  af_manifest :: "bytes option"
  af_blocks :: "(string \<times> bytes) list option"

definition no_such_file :: error where
  "no_such_file = Error ''No such file or directory''"

datatype fs_op = CreateBlocksDir | WriteBlockFile string bytes | RenameBlockFile string string

fun run_op :: "fs_op \<Rightarrow> archive_fs \<Rightarrow> archive_fs \<times> unit result" where
  "run_op CreateBlocksDir fs =
     (fs\<lparr>af_blocks := Some (case af_blocks fs of None \<Rightarrow> [] | Some files \<Rightarrow> files)\<rparr>, Inr ())"
| "run_op (WriteBlockFile name bs) fs =
     (case af_blocks fs of
        None \<Rightarrow> (fs, Inl no_such_file)
      | Some files \<Rightarrow> (fs\<lparr>af_blocks := Some (AList.update name bs files)\<rparr>, Inr ()))"
| "run_op (RenameBlockFile from to) fs =
     (case af_blocks fs of
        None \<Rightarrow> (fs, Inl no_such_file)
      | Some files \<Rightarrow>
          (case map_of files from of
             None \<Rightarrow> (fs, Inl no_such_file)
           | Some bs \<Rightarrow> (fs\<lparr>af_blocks := Some (AList.update to bs (AList.delete from files))\<rparr>, Inr ())))"

fun run_ops :: "fs_op list \<Rightarrow> archive_fs \<Rightarrow> archive_fs \<times> unit result" where
  "run_ops [] fs = (fs, Inr ())"
| "run_ops (op # ops) fs =
     (case run_op op fs of (fs', Inl e) \<Rightarrow> (fs', Inl e) | (fs', Inr _) \<Rightarrow> run_ops ops fs')"

definition block_file :: "archive_fs \<Rightarrow> string \<Rightarrow> bytes option" where
  "block_file fs name = (case af_blocks fs of None \<Rightarrow> None | Some files \<Rightarrow> map_of files name)"

section \<open>Operations\<close>

text \<open>The name of a block file inside the directory of block files.\<close>

definition block_path :: "u64 \<Rightarrow> string" where
  "block_path height = pad10 (show_u64 height) @ ''.capnp''"

definition read_stored_block :: "archive_fs \<Rightarrow> u64 \<Rightarrow> bytes result" where
  "read_stored_block fs height =
     (case block_file fs (block_path height) of None \<Rightarrow> Inl no_such_file | Some bs \<Rightarrow> Inr bs)"

definition read_block_with_hash :: "sha256_fun \<Rightarrow> capnp_io \<Rightarrow> archive_fs \<Rightarrow> u64 \<Rightarrow> ServedBlock result" where
  "read_block_with_hash sha256 io fs height =
     and_then (read_stored_block fs height) (\<lambda>stored.
     and_then (stored_light_block_to_response_bytes sha256 io stored) (\<lambda>(payload, block_hash).
     Inr \<lparr>sv_payload = payload, sv_block_hash = block_hash\<rparr>))"

definition read_block_filtered_with_hash :: "sha256_fun \<Rightarrow> capnp_io \<Rightarrow> archive_fs \<Rightarrow> u64
    \<Rightarrow> StoredBlockResponseFilter \<Rightarrow> ServedBlock result" where
  "read_block_filtered_with_hash sha256 io fs height flt =
     and_then (read_stored_block fs height) (\<lambda>stored.
     and_then (stored_light_block_to_filtered_response_bytes sha256 io stored flt) (\<lambda>(payload, block_hash).
     Inr \<lparr>sv_payload = payload, sv_block_hash = block_hash\<rparr>))"

text \<open>\<open>with_extension\<close> replaces the last extension of the name.\<close>

definition tmp_path :: "u64 \<Rightarrow> string" where
  "tmp_path height = pad10 (show_u64 height) @ ''.'' @ ''capnp.tmp''"

definition write_block_ops :: "u64 \<Rightarrow> bytes \<Rightarrow> fs_op list" where
  "write_block_ops height bs =
     [CreateBlocksDir, WriteBlockFile (tmp_path height) bs,
      RenameBlockFile (tmp_path height) (block_path height)]"

definition write_block_bytes :: "u64 \<Rightarrow> bytes \<Rightarrow> archive_fs \<Rightarrow> archive_fs \<times> unit result" where
  "write_block_bytes height bs fs = run_ops (write_block_ops height bs) fs"

text \<open>\<open>BTreeMap::entry(k).or_default().push(v)\<close>: the map is a list with ascending keys.\<close>

fun btree_push :: "u64 \<Rightarrow> 'v \<Rightarrow> (u64 \<times> 'v list) list \<Rightarrow> (u64 \<times> 'v list) list" where
  "btree_push k v [] = [(k, [v])]"
| "btree_push k v ((k', vs) # m) =
     (if k < k' then (k, [v]) # (k', vs) # m
      else if k = k' then (k', vs @ [v]) # m
      else (k', vs) # btree_push k v m)"

definition group_spend :: "u64 \<times> u32 \<times> u64 \<Rightarrow> (u64 \<times> (u32 \<times> u32) list) list
    \<Rightarrow> (u64 \<times> (u32 \<times> u32) list) list result" where
  "group_spend spend groups =
     (let (creation_height, output_index, spent_height) = spend in
      and_then (try_from_nat (unat spent_height)) (\<lambda>h. Inr (btree_push creation_height (output_index, h) groups)))"

definition mark_output :: "u32 \<times> u32 \<Rightarrow> StoredLightBlockInput \<times> usize
    \<Rightarrow> (StoredLightBlockInput \<times> usize) result" where
  "mark_output spend st =
     (let (output_index, spent_height) = spend; (stored, updated) = st; i = unat output_index in
      if i < length (sb_outputs stored)
      then let output = sb_outputs stored ! i in
        if so_spent_height output \<noteq> spent_height
        then Inr (stored\<lparr>sb_outputs := (sb_outputs stored)[i := output\<lparr>so_spent_height := spent_height\<rparr>]\<rparr>,
               updated + 1)
        else Inr (stored, updated)
      else Inl (Error ''storage output index maps outside storage outputs for block''))"

definition remark_bytes :: "capnp_io \<Rightarrow> bytes \<Rightarrow> (u32 \<times> u32) list \<Rightarrow> usize \<Rightarrow> (bytes \<times> usize) result" where
  "remark_bytes io stored_bytes spends updated =
     and_then (decode_stored_light_block io stored_bytes) (\<lambda>stored.
     and_then (try_fold mark_output spends (stored, updated)) (\<lambda>(stored', updated').
     and_then (encode_stored_light_block stored') (\<lambda>message.
     and_then (write_stored io message) (\<lambda>bs. Inr (bs, updated')))))"

definition mark_block :: "capnp_io \<Rightarrow> u64 \<times> (u32 \<times> u32) list \<Rightarrow> usize \<Rightarrow> archive_fs
    \<Rightarrow> archive_fs \<times> usize result" where
  "mark_block io grp updated fs =
     (let (creation_height, spends) = grp in
      case block_file fs (block_path creation_height) of
        None \<Rightarrow> (fs, Inr updated)
      | Some stored_bytes \<Rightarrow>
          (case remark_bytes io stored_bytes spends updated of
             Inl e \<Rightarrow> (fs, Inl e)
           | Inr (bs, updated') \<Rightarrow>
               (case write_block_bytes creation_height bs fs of
                  (fs', Inl e) \<Rightarrow> (fs', Inl e)
                | (fs', Inr _) \<Rightarrow> (fs', Inr updated'))))"

fun mark_blocks :: "capnp_io \<Rightarrow> (u64 \<times> (u32 \<times> u32) list) list \<Rightarrow> usize \<Rightarrow> archive_fs
    \<Rightarrow> archive_fs \<times> usize result" where
  "mark_blocks io [] updated fs = (fs, Inr updated)"
| "mark_blocks io (grp # groups) updated fs =
     (case mark_block io grp updated fs of
        (fs', Inl e) \<Rightarrow> (fs', Inl e)
      | (fs', Inr updated') \<Rightarrow> mark_blocks io groups updated' fs')"

definition mark_spent_outputs :: "capnp_io \<Rightarrow> (u64 \<times> u32 \<times> u64) list \<Rightarrow> archive_fs
    \<Rightarrow> archive_fs \<times> usize result" where
  "mark_spent_outputs io spends fs =
     (case try_fold group_spend spends [] of
        Inl e \<Rightarrow> (fs, Inl e)
      | Inr by_creation_height \<Rightarrow> mark_blocks io by_creation_height 0 fs)"

definition better_height :: "string \<Rightarrow> u64 option \<Rightarrow> u64 option" where
  "better_height name best =
     (case Option.bind (strip_suffix ''.capnp'' name) parse_u64 of
        None \<Rightarrow> best
      | Some height \<Rightarrow> (case best of None \<Rightarrow> Some height
          | Some b \<Rightarrow> if height > b then Some height else best))"

definition tip_from_files :: "archive_fs \<Rightarrow> ChainTip option result" where
  "tip_from_files fs =
     (case af_blocks fs of
        None \<Rightarrow> Inr None
      | Some files \<Rightarrow> Inr (map_option (\<lambda>height. \<lparr>ct_height = height, ct_block_hash = []\<rparr>)
          (fold better_height (map fst files) None)))"

definition read_manifest :: "json_lib \<Rightarrow> archive_fs \<Rightarrow> Manifest result" where
  "read_manifest json fs =
     (case af_manifest fs of None \<Rightarrow> Inl no_such_file | Some bs \<Rightarrow> manifest_from_json json bs)"

definition write_manifest :: "json_lib \<Rightarrow> Manifest \<Rightarrow> archive_fs \<Rightarrow> archive_fs \<times> unit result" where
  "write_manifest json manifest fs =
     (case manifest_to_json json manifest of
        Inl e \<Rightarrow> (fs, Inl e)
      | Inr bs \<Rightarrow> (fs\<lparr>af_manifest := Some bs\<rparr>, Inr ()))"

definition archive_tip :: "json_lib \<Rightarrow> archive_fs \<Rightarrow> ChainTip option result" where
  "archive_tip json fs =
     (case read_manifest json fs of
        Inr manifest \<Rightarrow> (if mf_tip manifest \<noteq> None then Inr (mf_tip manifest) else tip_from_files fs)
      | Inl _ \<Rightarrow> tip_from_files fs)"

section \<open>Block files\<close>

lemma block_path_eq [simp]: "block_path h = block_path h' \<longleftrightarrow> h = h'"
proof
  assume "block_path h = block_path h'"
  then have "parse_u64 (pad10 (show_u64 h)) = parse_u64 (pad10 (show_u64 h'))" by (simp add: block_path_def)
  then show "h = h'" by simp
qed simp

lemma tmp_not_block [simp]: "tmp_path h \<noteq> block_path h'" "block_path h' \<noteq> tmp_path h"
proof -
  have "rev (tmp_path h) \<noteq> rev (block_path h')" by (simp add: tmp_path_def block_path_def)
  then show "tmp_path h \<noteq> block_path h'" "block_path h' \<noteq> tmp_path h" by metis+
qed

abbreviation block_at :: "archive_fs \<Rightarrow> u64 \<Rightarrow> bytes option" where
  "block_at fs h \<equiv> block_file fs (block_path h)"

lemma run_create:
  "block_file (fst (run_op CreateBlocksDir fs)) = block_file fs"
  "af_manifest (fst (run_op CreateBlocksDir fs)) = af_manifest fs"
  by (auto simp: block_file_def fun_eq_iff split: option.split)

lemma run_write:
  assumes "af_blocks fs = Some files"
  shows "block_file (fst (run_op (WriteBlockFile name bs) fs)) = (block_file fs)(name \<mapsto> bs)"
    and "af_manifest (fst (run_op (WriteBlockFile name bs) fs)) = af_manifest fs"
  using assms by (auto simp: block_file_def fun_eq_iff update_conv')

lemma run_rename:
  assumes "af_blocks fs = Some files" and "block_file fs a = Some bs" and "a \<noteq> b"
  shows "block_file (fst (run_op (RenameBlockFile a b) fs)) = (block_file fs)(a := None, b \<mapsto> bs)"
    and "af_manifest (fst (run_op (RenameBlockFile a b) fs)) = af_manifest fs"
    and "snd (run_op (RenameBlockFile a b) fs) = Inr ()"
  using assms by (auto simp: block_file_def fun_eq_iff update_conv' delete_conv')

text \<open>The three file systems a write passes through.\<close>

lemma write_block_stages:
  obtains fs1 fs2 fs3 where "run_ops (take 1 (write_block_ops h bs)) fs = (fs1, Inr ())"
    and "run_ops (take 2 (write_block_ops h bs)) fs = (fs2, Inr ())"
    and "write_block_bytes h bs fs = (fs3, Inr ())"
    and "block_file fs1 = block_file fs" and "block_file fs2 = (block_file fs)(tmp_path h \<mapsto> bs)"
    and "block_file fs3 = (block_file fs)(tmp_path h := None, block_path h \<mapsto> bs)"
    and "af_manifest fs1 = af_manifest fs" "af_manifest fs2 = af_manifest fs" "af_manifest fs3 = af_manifest fs"
proof -
  define fs1 where "fs1 = fst (run_op CreateBlocksDir fs)"
  define fs2 where "fs2 = fst (run_op (WriteBlockFile (tmp_path h) bs) fs1)"
  define fs3 where "fs3 = fst (run_op (RenameBlockFile (tmp_path h) (block_path h)) fs2)"
  obtain files where files: "af_blocks fs1 = Some files" by (simp add: fs1_def)
  then have s2: "run_op (WriteBlockFile (tmp_path h) bs) fs1 = (fs2, Inr ())" by (simp add: fs2_def)
  then obtain files2 where files2: "af_blocks fs2 = Some files2" using files by auto
  note w = run_write [OF files, of "tmp_path h" bs, folded fs2_def]
  have "block_file fs2 (tmp_path h) = Some bs" by (simp add: w)
  note r = run_rename [OF files2 this tmp_not_block(1), of h, folded fs3_def]
  have s3: "run_op (RenameBlockFile (tmp_path h) (block_path h)) fs2 = (fs3, Inr ())"
    using r(3) fs3_def by (metis prod.collapse)
  have s1: "run_op CreateBlocksDir fs = (fs1, Inr ())" by (simp add: fs1_def)
  note c = run_create [of fs, folded fs1_def]
  show thesis
  proof (rule that)
    show "run_ops (take 1 (write_block_ops h bs)) fs = (fs1, Inr ())"
      unfolding write_block_ops_def by (simp del: run_op.simps add: s1)
    show "run_ops (take 2 (write_block_ops h bs)) fs = (fs2, Inr ())"
      unfolding write_block_ops_def by (simp del: run_op.simps add: s1 s2 numeral_2_eq_2)
    show "write_block_bytes h bs fs = (fs3, Inr ())"
      unfolding write_block_bytes_def write_block_ops_def by (simp del: run_op.simps add: s1 s2 s3)
  qed (simp_all add: w r c)
qed

lemma write_block_effect:
  obtains fs' where "write_block_bytes h bs fs = (fs', Inr ())" and "block_at fs' = (block_at fs)(h \<mapsto> bs)"
    and "af_manifest fs' = af_manifest fs"
proof -
  obtain fs3 where "write_block_bytes h bs fs = (fs3, Inr ())"
    "block_file fs3 = (block_file fs)(tmp_path h := None, block_path h \<mapsto> bs)" "af_manifest fs3 = af_manifest fs"
    using write_block_stages [of h bs fs] by metis
  then show thesis by (intro that [of fs3]) (auto simp: fun_eq_iff)
qed

section \<open>Marking spent outputs\<close>

text \<open>
  The reference: the spends are applied one by one, in their order, to the
  block that created the output.
\<close>

definition set_spent :: "u32 \<Rightarrow> u32 \<Rightarrow> StoredLightBlockInput \<Rightarrow> StoredLightBlockInput" where
  "set_spent i h sb =
     sb\<lparr>sb_outputs := (sb_outputs sb)[unat i := (sb_outputs sb ! unat i)\<lparr>so_spent_height := h\<rparr>]\<rparr>"

definition spec_mark :: "(u64 \<times> u32 \<times> u64) list \<Rightarrow> u64 \<Rightarrow> StoredLightBlockInput \<Rightarrow> StoredLightBlockInput" where
  "spec_mark spends h =
     fold (\<lambda>(creation_height, i, spent_height) sb.
       if creation_height = h then set_spent i (ucast spent_height) sb else sb) spends"

definition spends_of :: "(u64 \<times> u32 \<times> u64) list \<Rightarrow> u64 \<Rightarrow> (u32 \<times> u32) list" where
  "spends_of spends h = map (\<lambda>(_, i, s). (i, ucast s)) (filter (\<lambda>(creation_height, _). creation_height = h) spends)"

lemma spec_mark_spends_of: "spec_mark spends h sb = fold (\<lambda>(i, s). set_spent i s) (spends_of spends h) sb"
  by (induction spends arbitrary: sb) (auto simp: spec_mark_def spends_of_def)

lemma set_spent_length [simp]: "length (sb_outputs (set_spent i h sb)) = length (sb_outputs sb)"
  by (simp add: set_spent_def)

lemma mark_output_eq:
  assumes "unat i < length (sb_outputs sb)"
  shows "\<exists>n'. mark_output (i, h) (sb, n) = Inr (set_spent i h sb, n')"
proof (cases "so_spent_height (sb_outputs sb ! unat i) = h")
  case True
  then have "(sb_outputs sb ! unat i)\<lparr>so_spent_height := h\<rparr> = sb_outputs sb ! unat i" by auto
  then have "set_spent i h sb = sb" by (simp add: set_spent_def)
  with True assms show ?thesis by (simp add: mark_output_def)
qed (use assms in \<open>simp add: mark_output_def set_spent_def Let_def\<close>)

lemma mark_outputs_eq:
  "\<forall>(i, h) \<in> set spends. unat i < length (sb_outputs sb) \<Longrightarrow>
     \<exists>n'. try_fold mark_output spends (sb, n) = Inr (fold (\<lambda>(i, h). set_spent i h) spends sb, n')"
proof (induction spends arbitrary: sb n)
  case (Cons spend spends)
  obtain i h where spend: "spend = (i, h)" by fastforce
  with Cons.prems have "unat i < length (sb_outputs sb)" by simp
  then obtain n1 where "mark_output (i, h) (sb, n) = Inr (set_spent i h sb, n1)" using mark_output_eq by blast
  with Cons.IH [of "set_spent i h sb" n1] Cons.prems spend show ?case by simp
qed simp

text \<open>Grouping by the creation height keeps the order of the spends of one block.\<close>

lemma btree_push_keys: "set (map fst (btree_push k v m)) = insert k (set (map fst m))"
  by (induction m rule: btree_push.induct) auto

lemma btree_push_sorted: "sorted_wrt (<) (map fst m) \<Longrightarrow> sorted_wrt (<) (map fst (btree_push k v m))"
proof (induction k v m rule: btree_push.induct)
  case (2 k v k' vs m)
  have "\<forall>x \<in> set (map fst (btree_push k v m)). k' < x" if "\<not> k < k'" "k \<noteq> k'"
    using that 2(2) unfolding btree_push_keys by auto
  with 2 show ?case by auto
qed simp

definition groups_at :: "(u64 \<times> 'v list) list \<Rightarrow> u64 \<Rightarrow> 'v list" where
  "groups_at m k = (case map_of m k of None \<Rightarrow> [] | Some vs \<Rightarrow> vs)"

lemma btree_push_at:
  "sorted_wrt (<) (map fst m) \<Longrightarrow> groups_at (btree_push k v m) j = groups_at m j @ (if j = k then [v] else [])"
proof (induction k v m rule: btree_push.induct)
  case (2 k v k' vs m)
  have "k < k' \<Longrightarrow> map_of m k = None"
    using 2(2) by (fastforce simp: map_of_eq_None_iff)
  with 2 show ?case by (auto simp: groups_at_def)
qed (simp add: groups_at_def)

lemma group_spends_eq:
  assumes "\<forall>(c, i, s) \<in> set spends. unat s < 2 ^ 32" and "sorted_wrt (<) (map fst m)"
  shows "\<exists>m'. try_fold group_spend spends m = Inr m' \<and> sorted_wrt (<) (map fst m')
    \<and> (\<forall>h. groups_at m' h = groups_at m h @ spends_of spends h)
    \<and> set (map fst m') = set (map fst m) \<union> fst ` set spends"
  using assms
proof (induction spends arbitrary: m)
  case (Cons spend spends)
  obtain c i s where spend: "spend = (c, i, s)" by (metis prod_cases3)
  let ?m = "btree_push c (i, ucast s) m"
  have step: "group_spend spend m = Inr ?m"
    using Cons.prems(1) by (simp add: spend group_spend_def try_from_nat_def)
  have "\<forall>(c, i, s) \<in> set spends. unat s < 2 ^ 32" using Cons.prems(1) by simp
  from Cons.IH [OF this btree_push_sorted [OF Cons.prems(2)], of c "(i, ucast s)"] step
  show ?case
    using btree_push_at [OF Cons.prems(2), of c "(i, ucast s)"] btree_push_keys [of c "(i, ucast s)" m]
    by (auto simp: spend spends_of_def)
qed (simp add: spends_of_def)

definition archive_view :: "capnp_io \<Rightarrow> archive_fs \<Rightarrow> u64 \<Rightarrow> StoredLightBlockInput option" where
  "archive_view io fs h =
     (case block_at fs h of None \<Rightarrow> None | Some bs \<Rightarrow>
       (case decode_stored_light_block io bs of Inl _ \<Rightarrow> None | Inr sb \<Rightarrow> Some sb))"

definition archive_ok :: "capnp_io \<Rightarrow> archive_fs \<Rightarrow> bool" where
  "archive_ok io fs \<longleftrightarrow> (\<forall>h bs. block_at fs h = Some bs \<longrightarrow> is_ok (decode_stored_light_block io bs))"

definition stored_transport :: "capnp_io \<Rightarrow> StoredLightBlockInput \<Rightarrow> bool" where
  "stored_transport io sb \<longleftrightarrow>
     (\<forall>m. encode_stored_light_block sb = Inr m \<longrightarrow> (\<exists>out. write_stored io m = Inr out \<and> read_stored io out = Inr m))"

abbreviation set_spents :: "(u32 \<times> u32) list \<Rightarrow> StoredLightBlockInput \<Rightarrow> StoredLightBlockInput" where
  "set_spents spends \<equiv> fold (\<lambda>(i, s). set_spent i s) spends"

text \<open>What a stored block that was read from the archive is, and that marking keeps it.\<close>

definition archived :: "StoredLightBlockInput \<Rightarrow> bool" where
  "archived sb \<longleftrightarrow> valid_stored sb \<and> length (sb_block_hash sb) = 32 \<and> length (sb_previous_block_hash sb) = 32
     \<and> (\<forall>output \<in> set (sb_outputs sb). length (so_key output) = 32)
     \<and> (\<forall>t \<in> set (sb_tweaks sb). \<exists>bs. te_tweak t = 0x02 # bs)"

lemma decoded_archived: "decode_stored_light_block io bs = Inr sb \<Longrightarrow> archived sb"
  using decoded_stored_parts [of io bs sb] by (simp add: archived_def validate_stored_iff)

lemma archived_even: "archived sb \<Longrightarrow> even_stored sb = sb"
  by (rule even_stored_id) (simp add: archived_def)

lemma archived_set_spent:
  assumes "archived sb" "unat i < length (sb_outputs sb)"
  shows "archived (set_spent i h sb)"
proof -
  have "valid_stored (set_spent i h sb)"
    using assms(1) by (simp add: archived_def valid_stored_def tweaks_fit_def slots_fit_def outputs_accounted_def
        stored_hash_len_def set_spent_def)
  moreover have "\<forall>output \<in> set (sb_outputs (set_spent i h sb)). length (so_key output) = 32"
    using assms set_update_subset_insert [of "sb_outputs sb" "unat i" "(sb_outputs sb ! unat i)\<lparr>so_spent_height := h\<rparr>"]
    by (auto simp: archived_def set_spent_def)
  ultimately show ?thesis using assms(1) by (simp add: archived_def set_spent_def)
qed

lemma archived_set_spents:
  "archived sb \<Longrightarrow> \<forall>(i, h) \<in> set spends. unat i < length (sb_outputs sb) \<Longrightarrow> archived (set_spents spends sb)"
  by (induction spends arbitrary: sb) (auto simp: archived_set_spent)

lemma archived_reread:
  assumes "archived sb" and "stored_transport io sb"
  obtains m out where "encode_stored_light_block sb = Inr m" "write_stored io m = Inr out"
    and "decode_stored_light_block io out = Inr sb"
proof -
  have v: "valid_stored sb" using assms(1) by (simp add: archived_def)
  then have "validate_stored_light_block_input sb = Inr ()" "unat (sb_height sb) < 2 ^ 32"
    by (simp_all add: validate_stored_iff valid_stored_def)
  then obtain m where m: "encode_stored_light_block sb = Inr m"
    by (simp add: encode_stored_light_block_def try_from_nat_def)
  with assms(2) obtain out where out: "write_stored io m = Inr out" "read_stored io out = Inr m"
    unfolding stored_transport_def by blast
  have "decode_stored_light_block io out = Inr (even_stored sb)"
    using assms(1) by (intro decode_encoded_stored [OF m out(2)]) (simp_all add: archived_def)
  with m out archived_even [OF assms(1)] show thesis by (intro that) simp_all
qed

lemma archive_view_cases:
  assumes "archive_ok io fs"
  obtains (none) "block_at fs h = None" "archive_view io fs h = None"
  | (some) bs sb where "block_at fs h = Some bs" "decode_stored_light_block io bs = Inr sb"
      "archive_view io fs h = Some sb" "archived sb"
proof (cases "block_at fs h")
  case None
  then show thesis by (intro none) (simp_all add: archive_view_def)
next
  case (Some bs)
  then obtain sb where "decode_stored_light_block io bs = Inr sb"
    using assms by (auto simp: archive_ok_def is_ok_iff)
  with Some decoded_archived [OF this] show thesis by (intro some) (simp_all add: archive_view_def)
qed

text \<open>The spends of a group fit the block they belong to.\<close>

definition markable :: "capnp_io \<Rightarrow> archive_fs \<Rightarrow> u64 \<Rightarrow> (u32 \<times> u32) list \<Rightarrow> bool" where
  "markable io fs h spends \<longleftrightarrow> (\<forall>sb. archive_view io fs h = Some sb \<longrightarrow>
     (\<forall>(i, _) \<in> set spends. unat i < length (sb_outputs sb)) \<and> stored_transport io (set_spents spends sb))"

lemma mark_block_effect:
  assumes "archive_ok io fs" and "markable io fs h spends"
  obtains fs' n' where "mark_block io (h, spends) n fs = (fs', Inr n')" and "archive_ok io fs'"
    and "archive_view io fs' = (archive_view io fs)(h := map_option (set_spents spends) (archive_view io fs h))"
    and "af_manifest fs' = af_manifest fs"
  using assms(1)
proof (cases rule: archive_view_cases [of io fs h])
  case none
  then have "mark_block io (h, spends) n fs = (fs, Inr n)" by (simp add: mark_block_def)
  then show thesis using none assms(1) by (intro that [of fs n]) auto
next
  case (some bs sb)
  then have fit: "\<forall>(i, _) \<in> set spends. unat i < length (sb_outputs sb)"
    and tr: "stored_transport io (set_spents spends sb)"
    using assms(2) by (auto simp: markable_def)
  obtain n' where n': "try_fold mark_output spends (sb, n) = Inr (set_spents spends sb, n')"
    using mark_outputs_eq fit by blast
  have "archived (set_spents spends sb)" using archived_set_spents [OF some(4)] fit by blast
  then obtain m out where mo: "encode_stored_light_block (set_spents spends sb) = Inr m"
    "write_stored io m = Inr out" "decode_stored_light_block io out = Inr (set_spents spends sb)"
    using archived_reread [OF _ tr] by metis
  obtain fs' where w: "write_block_bytes h out fs = (fs', Inr ())" "block_at fs' = (block_at fs)(h \<mapsto> out)"
      "af_manifest fs' = af_manifest fs"
    using write_block_effect by blast
  note at = fun_cong [OF w(2)]
  have "remark_bytes io bs spends n = Inr (out, n')" by (simp add: remark_bytes_def some n' mo)
  then have "mark_block io (h, spends) n fs = (fs', Inr n')" by (simp add: mark_block_def some w(1))
  moreover have "archive_ok io fs'" using assms(1) by (auto simp: archive_ok_def at mo(3))
  moreover have "archive_view io fs' = (archive_view io fs)(h := map_option (set_spents spends) (archive_view io fs h))"
    by (auto simp: fun_eq_iff archive_view_def at mo(3) some)
  ultimately show thesis using that w(3) by blast
qed

lemma mark_blocks_effect:
  assumes "archive_ok io fs" and "distinct (map fst groups)"
    and "\<forall>(h, spends) \<in> set groups. markable io fs h spends"
  shows "\<exists>fs' n'. mark_blocks io groups n fs = (fs', Inr n') \<and> archive_ok io fs'
    \<and> (\<forall>h. archive_view io fs' h = map_option (set_spents (groups_at groups h)) (archive_view io fs h))
    \<and> af_manifest fs' = af_manifest fs"
  using assms
proof (induction groups arbitrary: n fs)
  case Nil
  then show ?case by (simp add: groups_at_def option.map_id0 [unfolded id_def])
next
  case (Cons grp groups)
  obtain h spends where grp: "grp = (h, spends)" by fastforce
  with Cons.prems have "markable io fs h spends" by simp
  from mark_block_effect [OF Cons.prems(1) this] obtain fs1 n1 where
    one: "mark_block io (h, spends) n fs = (fs1, Inr n1)" "archive_ok io fs1"
      "archive_view io fs1 = (archive_view io fs)(h := map_option (set_spents spends) (archive_view io fs h))"
      "af_manifest fs1 = af_manifest fs"
    by metis
  have fresh: "h \<notin> fst ` set groups" "distinct (map fst groups)" using Cons.prems(2) grp by simp_all
  then have other: "archive_view io fs1 h' = archive_view io fs h'" if "h' \<in> fst ` set groups" for h'
    using that one(3) by auto
  have "\<forall>(h', spends') \<in> set groups. markable io fs1 h' spends'"
    using Cons.prems(3) other by (force simp: markable_def)
  from Cons.IH [OF one(2) fresh(2) this] obtain fs' n' where
    "mark_blocks io groups n1 fs1 = (fs', Inr n')" "archive_ok io fs'" "af_manifest fs' = af_manifest fs1"
    and view: "\<forall>h. archive_view io fs' h = map_option (set_spents (groups_at groups h)) (archive_view io fs1 h)"
    by blast
  moreover have "archive_view io fs' h' = map_option (set_spents (groups_at (grp # groups) h')) (archive_view io fs h')" for h'
  proof -
    have "map_of groups h = None" using fresh(1) by (simp add: map_of_eq_None_iff)
    then show ?thesis using view by (simp add: one(3) grp groups_at_def option.map_comp)
  qed
  ultimately show ?case using one(1,4) grp by auto
qed

section \<open>The greatest block file\<close>

definition name_height :: "string \<Rightarrow> u64 option" where
  "name_height name = Option.bind (strip_suffix ''.capnp'' name) parse_u64"

lemma name_height_block [simp]: "name_height (block_path h) = Some h"
  by (simp add: name_height_def block_path_def)

lemma name_height_tmp [simp]: "name_height (tmp_path h) = None"
proof -
  have "strip_suffix ''.capnp'' (tmp_path h) \<noteq> Some p" for p
  proof
    assume "strip_suffix ''.capnp'' (tmp_path h) = Some p"
    then have "rev (tmp_path h) = rev (p @ ''.capnp'')" by (simp add: strip_suffix_eq_Some)
    then show False by (simp add: tmp_path_def)
  qed
  then show ?thesis by (auto simp: name_height_def bind_eq_None_conv)
qed

lemma better_height_max:
  "better_height name best = (case name_height name of None \<Rightarrow> best
     | Some h \<Rightarrow> (case best of None \<Rightarrow> Some h | Some b \<Rightarrow> Some (max b h)))"
  by (auto simp: better_height_def name_height_def max_def split: option.split)

lemma fold_better_height:
  "case fold better_height names best of
     None \<Rightarrow> best = None \<and> (\<forall>name \<in> set names. name_height name = None)
   | Some t \<Rightarrow> (best = Some t \<or> (\<exists>name \<in> set names. name_height name = Some t))
       \<and> (\<forall>b. best = Some b \<longrightarrow> b \<le> t)
       \<and> (\<forall>name \<in> set names. \<forall>h. name_height name = Some h \<longrightarrow> h \<le> t)"
proof (induction names arbitrary: best)
  case (Cons name names)
  from Cons.IH [of "better_height name best"] show ?case
    by (cases "name_height name"; cases best)
      (auto simp: better_height_max max_def split: option.splits if_splits)
qed (simp split: option.split)

text \<open>Directories that only hold what the archive itself writes.\<close>

definition canonical :: "archive_fs \<Rightarrow> bool" where
  "canonical fs \<longleftrightarrow> (\<forall>files. af_blocks fs = Some files \<longrightarrow>
     (\<forall>name \<in> fst ` set files. (\<exists>h. name = block_path h) \<or> (\<exists>h. name = tmp_path h)))"

lemma canonical_heights:
  assumes "canonical fs" and "af_blocks fs = Some files"
  shows "(\<exists>name \<in> set (map fst files). name_height name = Some h) \<longleftrightarrow> block_at fs h \<noteq> None"
proof -
  have "block_at fs h \<noteq> None \<longleftrightarrow> block_path h \<in> fst ` set files"
    using assms(2) by (simp add: block_file_def map_of_eq_None_iff)
  moreover have "name = block_path h" if "name \<in> fst ` set files" "name_height name = Some h" for name
    using that assms by (auto simp: canonical_def)
  moreover have "name_height (block_path h) = Some h" by simp
  ultimately show ?thesis unfolding set_map by metis
qed

section \<open>The interface of the server\<close>

record ArchiveBackend =
  be_manifest :: "Manifest result"
  be_tip :: "ChainTip option result"
  be_read_block :: "u64 \<Rightarrow> ServedBlock result"
  be_read_block_filtered :: "u64 \<Rightarrow> StoredBlockResponseFilter \<Rightarrow> ServedBlock result"

definition file_backend :: "sha256_fun \<Rightarrow> capnp_io \<Rightarrow> json_lib \<Rightarrow> archive_fs \<Rightarrow> ArchiveBackend" where
  "file_backend sha256 io json fs =
     \<lparr>be_manifest = read_manifest json fs, be_tip = archive_tip json fs,
      be_read_block = read_block_with_hash sha256 io fs,
      be_read_block_filtered = read_block_filtered_with_hash sha256 io fs\<rparr>"

text \<open>
  What the server relies on: an archive in order has a manifest with a tip,
  and every height from the first to the tip can be read under every filter, as a
  payload short enough to frame that decodes to the light block of that
  height.
\<close>

locale served_archive =
  fixes backend :: "'a \<Rightarrow> ArchiveBackend" and decode :: "bytes \<Rightarrow> LightBlockInput result"
    and good :: "u64 \<Rightarrow> 'a \<Rightarrow> bool"
  assumes tip_ok: "good start a \<Longrightarrow>
      \<exists>m t. be_manifest (backend a) = Inr m \<and> be_tip (backend a) = Inr (Some t)"
    and read_ok: "good start a \<Longrightarrow> be_tip (backend a) = Inr (Some t) \<Longrightarrow> start \<le> h \<Longrightarrow> h \<le> ct_height t \<Longrightarrow>
      \<exists>s. be_read_block_filtered (backend a) h flt = Inr s \<and> length (sv_payload s) < 2 ^ 32
        \<and> (\<exists>r. decode (sv_payload s) = Inr r \<and> lb_height r = h)"

definition response_transport :: "capnp_io \<Rightarrow> LightBlockInput \<Rightarrow> bool" where
  "response_transport io r \<longleftrightarrow>
     (\<forall>m. encode_light_block r = Inr m \<longrightarrow>
       (\<exists>out. write_light io m = Inr out \<and> read_light io out = Inr m \<and> length out < 2 ^ 32))"

definition servable :: "sha256_fun \<Rightarrow> capnp_io \<Rightarrow> u64 \<Rightarrow> StoredLightBlockInput \<Rightarrow> bool" where
  "servable sha256 io h sb \<longleftrightarrow>
     sb_height sb = h \<and> sb_raw_block_bytes sb \<noteq> 0 \<and> (\<forall>spend \<in> set (sb_spends sb). ss_spent_uid spend \<noteq> - 1)
     \<and> (\<forall>flt r. to_filtered_response_input sha256 sb flt = Inr r \<longrightarrow> response_transport io r)"

definition archive_good :: "sha256_fun \<Rightarrow> capnp_io \<Rightarrow> json_lib \<Rightarrow> u64 \<Rightarrow> archive_fs \<Rightarrow> bool" where
  "archive_good sha256 io json start fs \<longleftrightarrow>
     sha256_ok sha256
     \<and> (\<exists>m t. read_manifest json fs = Inr m \<and> mf_tip m = Some t
          \<and> (\<forall>h. start \<le> h \<longrightarrow> h \<le> ct_height t \<longrightarrow>
               (\<exists>sb. archive_view io fs h = Some sb \<and> servable sha256 io h sb)))"

lemma filtered_response_total:
  assumes "sha256_ok sha256" "archived sb" "sb_raw_block_bytes sb \<noteq> 0"
    and "\<forall>spend \<in> set (sb_spends sb). ss_spent_uid spend \<noteq> - 1"
  shows "\<exists>r. to_filtered_response_input sha256 sb flt = Inr r"
proof (cases "filter_reuse flt \<or> cutthrough_start flt \<noteq> None")
  case True
  then show ?thesis using filtered_response_meets_spec [of sha256 sb flt] assms by (auto simp: archived_def)
next
  case False
  then show ?thesis
    using valid_stored_response_ok [of sb "labels flt"] assms(2)
    by (simp add: to_filtered_response_input_def archived_def is_ok_iff)
qed

lemma archive_view_eq_Some:
  "archive_view io fs h = Some sb \<longleftrightarrow> (\<exists>bs. block_at fs h = Some bs \<and> decode_stored_light_block io bs = Inr sb)"
  by (auto simp: archive_view_def split: option.splits sum.splits)

lemma read_filtered_ok:
  assumes "sha256_ok sha256" "archive_view io fs h = Some sb" "servable sha256 io h sb"
  obtains r out where "to_filtered_response_input sha256 sb flt = Inr r"
    and "read_block_filtered_with_hash sha256 io fs h flt = Inr \<lparr>sv_payload = out, sv_block_hash = sb_block_hash sb\<rparr>"
    and "decode_light_block io out = Inr r" and "length out < 2 ^ 32" and "lb_height r = h"
proof -
  obtain bs where bs: "block_at fs h = Some bs" "decode_stored_light_block io bs = Inr sb"
    using assms(2) unfolding archive_view_eq_Some by blast
  have a: "archived sb" by (rule decoded_archived [OF bs(2)])
  obtain r where r: "to_filtered_response_input sha256 sb flt = Inr r"
    using filtered_response_total [OF assms(1) a] assms(3) unfolding servable_def by metis
  note parts = filtered_response_parts [OF r]
  obtain m where m: "encode_light_block r = Inr m" using parts encode_light_ok by blast
  with assms(3) r obtain out where out: "write_light io m = Inr out" "read_light io out = Inr m" "length out < 2 ^ 32"
    unfolding servable_def response_transport_def by blast
  have "even_light r = r"
    using parts a by (intro even_light_id) (auto simp: archived_def subset_iff image_iff)
  then have "decode_light_block io out = Inr r"
    using decode_encoded_light [OF m out(2)] parts a by (simp add: archived_def)
  moreover have "lb_height r = h"
    using r assms(3) by (auto simp: servable_def to_filtered_response_input_def to_response_input_for_labels_def
        Let_def result_simps split: if_splits)
  ultimately show thesis
    by (intro that [OF r _ _ out(3)]) (simp_all add: read_block_filtered_with_hash_def read_stored_block_def bs
        stored_light_block_to_filtered_response_bytes_def r m out)
qed

interpretation fa: served_archive "file_backend sha256 io json" "decode_light_block io"
    "archive_good sha256 io json" for sha256 io json
proof
  fix start a
  assume "archive_good sha256 io json start a"
  then show "\<exists>m t. be_manifest (file_backend sha256 io json a) = Inr m
      \<and> be_tip (file_backend sha256 io json a) = Inr (Some t)"
    by (auto simp: archive_good_def file_backend_def archive_tip_def)
next
  fix start a t h flt
  assume good: "archive_good sha256 io json start a" and "be_tip (file_backend sha256 io json a) = Inr (Some t)"
    and h: "start \<le> h" "h \<le> ct_height t"
  then have sha: "sha256_ok sha256"
    and "\<exists>sb. archive_view io a h = Some sb \<and> servable sha256 io h sb"
    by (auto simp: archive_good_def file_backend_def archive_tip_def)
  then obtain sb where sb: "archive_view io a h = Some sb" "servable sha256 io h sb" by blast
  obtain r out where "read_block_filtered_with_hash sha256 io a h flt
      = Inr \<lparr>sv_payload = out, sv_block_hash = sb_block_hash sb\<rparr>"
    "decode_light_block io out = Inr r" "length out < 2 ^ 32" "lb_height r = h"
    using read_filtered_ok [OF sha sb, of flt] by metis
  then show "\<exists>s. be_read_block_filtered (file_backend sha256 io json a) h flt = Inr s
      \<and> length (sv_payload s) < 2 ^ 32 \<and> (\<exists>r. decode_light_block io (sv_payload s) = Inr r \<and> lb_height r = h)"
    by (auto simp: file_backend_def)
qed

section \<open>Properties\<close>


text \<open>
  the tip taken from the files is the greatest height whose block file
  exists, and there is none exactly when there is no block file, in a directory
  that holds only files the archive writes (a temporary file of an
  interrupted write is never taken for a block).
\<close>

theorem tip_from_files_greatest:
  assumes "canonical fs"
  shows "(tip_from_files fs = Inr None \<and> (\<forall>h. block_at fs h = None))
    \<or> (\<exists>t. tip_from_files fs = Inr (Some \<lparr>ct_height = t, ct_block_hash = []\<rparr>)
        \<and> block_at fs t \<noteq> None \<and> (\<forall>h. block_at fs h = None \<or> h \<le> t))"
proof (cases "af_blocks fs")
  case None
  then show ?thesis by (simp add: tip_from_files_def block_file_def)
next
  case (Some files)
  note heights = canonical_heights [OF assms Some]
  show ?thesis
  proof (cases "fold better_height (map fst files) None")
    case None
    then have "block_at fs h = None" for h
      using fold_better_height [of None "map fst files"] heights [of h] by auto
    with None Some show ?thesis by (simp add: tip_from_files_def)
  next
    case (Some t)
    then have "\<exists>name \<in> set (map fst files). name_height name = Some t"
      "\<And>h name. name \<in> set (map fst files) \<Longrightarrow> name_height name = Some h \<Longrightarrow> h \<le> t"
      using fold_better_height [of None "map fst files"] by auto
    then have "block_at fs t \<noteq> None" "\<forall>h. block_at fs h = None \<or> h \<le> t"
      using heights by blast+
    with Some \<open>af_blocks fs = Some files\<close> show ?thesis by (simp add: tip_from_files_def)
  qed
qed

theorem tip_from_files_greatest_witness:
  "\<exists>t. tip_from_files \<lparr>af_manifest = None,
      af_blocks = Some [(block_path 7, [1]), (tmp_path 9, [2]), (block_path 3, [])]\<rparr>
    = Inr (Some \<lparr>ct_height = t, ct_block_hash = []\<rparr>) \<and> 7 \<le> t"
proof -
  let ?fs = "\<lparr>af_manifest = None, af_blocks = Some [(block_path 7, [1]), (tmp_path 9, [2]), (block_path 3, [])]\<rparr>"
  have "canonical ?fs" by (auto simp: canonical_def)
  moreover have "block_at ?fs 7 \<noteq> None" by (simp add: block_file_def)
  ultimately show ?thesis using tip_from_files_greatest [of ?fs] by metis
qed

text \<open>
  C11: marking spent outputs by groups of creation heights is the same as
  applying the spends one by one: on an archive whose files decode, spends
  with 32-bit heights that point at existing outputs are all applied, every
  block that is archived afterwards is the block before with the spent heights
  of its outputs set in the order of the spends, creation heights without
  a file are passed over, and the manifest is untouched.
\<close>

theorem mark_spent_outputs_refines:
  assumes "archive_ok io fs" and "\<forall>(c, i, s) \<in> set spends. unat s < 2 ^ 32"
    and "\<forall>(c, i, s) \<in> set spends. \<forall>sb. archive_view io fs c = Some sb \<longrightarrow>
      unat i < length (sb_outputs sb) \<and> stored_transport io (spec_mark spends c sb)"
  shows "\<exists>fs' n. mark_spent_outputs io spends fs = (fs', Inr n) \<and> archive_ok io fs'
    \<and> archive_view io fs' = (\<lambda>h. map_option (spec_mark spends h) (archive_view io fs h))
    \<and> af_manifest fs' = af_manifest fs"
proof -
  obtain groups where g: "try_fold group_spend spends [] = Inr groups" "sorted_wrt (<) (map fst groups)"
    "\<And>h. groups_at groups h = spends_of spends h" "set (map fst groups) = fst ` set spends"
    using group_spends_eq [OF assms(2), of "[]"] by (auto simp: groups_at_def)
  have distinct: "distinct (map fst groups)"
    using g(2) by (simp add: strict_sorted_iff)
  have "markable io fs h sps" if "(h, sps) \<in> set groups" for h sps
  proof -
    have sps: "sps = spends_of spends h"
      using that distinct g(3) [of h] by (simp add: groups_at_def map_of_is_SomeI)
    have "unat i < length (sb_outputs sb)" if "archive_view io fs h = Some sb" "(i, s) \<in> set sps" for sb i s
      using that assms(3) by (auto simp: sps spends_of_def)
    moreover have "h \<in> fst ` set spends" using that g(4) by force
    then have "stored_transport io (spec_mark spends h sb)" if "archive_view io fs h = Some sb" for sb
      using that assms(3) by auto
    ultimately show ?thesis by (auto simp: markable_def sps spec_mark_spends_of)
  qed
  then have "\<forall>(h, sps) \<in> set groups. markable io fs h sps" by blast
  from mark_blocks_effect [OF assms(1) distinct this, of 0] show ?thesis
    by (auto simp: mark_spent_outputs_def g fun_eq_iff spec_mark_spends_of [abs_def])
qed

lemma sample_marked: "spec_mark [(100, 0, 130)] 100 sample_block = set_spent 0 130 sample_block"
  by (simp add: spec_mark_def)

theorem mark_spent_outputs_refines_witness:
  "\<exists>io fs fs' n sb. mark_spent_outputs io [(100, 0, 130)] fs = (fs', Inr n)
    \<and> archive_view io fs' 100 = Some sb \<and> so_spent_height (sb_outputs sb ! 0) = 130"
proof -
  obtain m where m: "encode_stored_light_block sample_block = Inr m" using sample_encodes by blast
  let ?marked = "set_spent 0 130 sample_block"
  let ?io = "\<lparr>write_light = \<lambda>_. Inr [], read_light = \<lambda>_. Inl (Error []), write_stored = \<lambda>_. Inr [1],
    read_stored = \<lambda>bs. if bs = [] then Inr m else encode_stored_light_block ?marked\<rparr>"
  let ?fs = "\<lparr>af_manifest = None, af_blocks = Some [(block_path 100, [])]\<rparr>"
  have "read_stored ?io [] = Inr m" by simp
  from decode_encoded_stored [OF m this sample_widths(1-3)]
  have dec: "decode_stored_light_block ?io [] = Inr sample_block" by (simp only: sample_widths(4))
  have at: "block_at ?fs h = (if h = 100 then Some [] else None)" for h by (simp add: block_file_def)
  have view: "archive_view ?io ?fs h = (if h = 100 then Some sample_block else None)" for h
    unfolding archive_view_def at using dec by (cases "h = 100") (simp_all del: capnp_io.simps)
  have ok: "archive_ok ?io ?fs" unfolding archive_ok_def at using dec by (auto simp del: capnp_io.simps)
  have "stored_transport ?io ?marked" by (simp add: stored_transport_def)
  moreover have "length (sb_outputs sample_block) = 2" by (simp add: sample_block_def)
  ultimately have "\<forall>(c, i, s) \<in> set [(100, 0, 130)]. \<forall>sb. archive_view ?io ?fs c = Some sb \<longrightarrow>
      unat i < length (sb_outputs sb) \<and> stored_transport ?io (spec_mark [(100, 0, 130)] c sb)"
    by (simp add: view sample_marked del: capnp_io.simps)
  from mark_spent_outputs_refines [OF ok _ this] obtain fs' n where
    "mark_spent_outputs ?io [(100, 0, 130)] ?fs = (fs', Inr n)"
    "archive_view ?io fs' = (\<lambda>h. map_option (spec_mark [(100, 0, 130)] h) (archive_view ?io ?fs h))"
    by auto
  moreover from this(2) have "archive_view ?io fs' 100 = Some ?marked"
    by (simp add: view sample_marked del: capnp_io.simps)
  moreover have "so_spent_height (sb_outputs ?marked ! 0) = 130" by (simp add: set_spent_def sample_block_def)
  ultimately show ?thesis by blast
qed

end
