(* ===== verification/Json_Wire.thy ===== *)
theory Json_Wire
  imports Light_Wire
begin

text \<open>
  The JSON view of a light block of \<^verbatim>\<open>light-server/src/json_wire.rs\<close>. A JSON
  document is a value of \<open>json\<close>; hexadecimal text is code of the \<^verbatim>\<open>hex\<close> crate and
  is a parameter. \<open>json_of_block\<close> is what the derived serializer gives for the
  structure.
\<close>

datatype json =
  JNull | JBool bool | JNum nat | JString string | JArray "json list" | JObject "(string \<times> json) list"

record JsonTweakEntry =
  jt_output_count :: u16
  jt_tweak :: string

record JsonLightBlock =
  jb_version :: u16
  jb_height :: u64
  jb_block_hash :: string
  jb_previous_block_hash :: string
  jb_first_uid :: u64
  jb_tx_count :: u16
  jb_skipped_txs_for_tweaks_bitmap :: string
  jb_tweaks :: "JsonTweakEntry list"
  jb_truncated_output_hash_bits :: u8
  jb_truncated_output_hash_bytes :: usize
  jb_truncated_output_hashes :: string
  jb_spent_id_codec :: string
  jb_spent_count :: u32
  jb_spent_id_bytes :: usize
  jb_spent_ids :: string
  jb_decoded_spent_ids :: "u64 list"

fun spent_id_codec_name :: "SpentIdCodec \<Rightarrow> string" where
  "spent_id_codec_name EliasDeltaAscendingAbsolute = ''eliasDeltaAscendingAbsolute''"

definition light_block_input_to_json :: "(bytes \<Rightarrow> string) \<Rightarrow> LightBlockInput \<Rightarrow> JsonLightBlock result" where
  "light_block_input_to_json hex input =
     and_then (decode_light_block_spent_ids input) (\<lambda>decoded_spends.
     Inr \<lparr>jb_version = WIRE_VERSION, jb_height = lb_height input,
       jb_block_hash = hex (lb_block_hash input),
       jb_previous_block_hash = hex (lb_previous_block_hash input),
       jb_first_uid = lb_first_uid input, jb_tx_count = lb_tx_count input,
       jb_skipped_txs_for_tweaks_bitmap = hex (lb_skipped_txs_for_tweaks input),
       jb_tweaks = map (\<lambda>entry. \<lparr>jt_output_count = te_output_count entry,
         jt_tweak = hex (drop 1 (te_tweak entry))\<rparr>) (lb_tweaks input),
       jb_truncated_output_hash_bits = lb_truncated_output_hash_bits input,
       jb_truncated_output_hash_bytes = length (lb_truncated_output_hashes input),
       jb_truncated_output_hashes = hex (lb_truncated_output_hashes input),
       jb_spent_id_codec = spent_id_codec_name (lb_spent_id_codec input),
       jb_spent_count = lb_spent_count input, jb_spent_id_bytes = length (lb_spent_ids input),
       jb_spent_ids = hex (lb_spent_ids input), jb_decoded_spent_ids = decoded_spends\<rparr>)"

definition light_block_to_json :: "(bytes \<Rightarrow> string) \<Rightarrow> capnp_io \<Rightarrow> bytes \<Rightarrow> JsonLightBlock result" where
  "light_block_to_json hex io bs = and_then (decode_light_block io bs) (light_block_input_to_json hex)"

definition json_of_tweak :: "JsonTweakEntry \<Rightarrow> json" where
  "json_of_tweak t = JObject
     [(''output_count'', JNum (unat (jt_output_count t))), (''tweak'', JString (jt_tweak t))]"

definition json_of_block :: "JsonLightBlock \<Rightarrow> json" where
  "json_of_block b = JObject
     [(''version'', JNum (unat (jb_version b))), (''height'', JNum (unat (jb_height b))),
      (''block_hash'', JString (jb_block_hash b)),
      (''previous_block_hash'', JString (jb_previous_block_hash b)),
      (''first_uid'', JNum (unat (jb_first_uid b))), (''tx_count'', JNum (unat (jb_tx_count b))),
      (''skipped_txs_for_tweaks_bitmap'', JString (jb_skipped_txs_for_tweaks_bitmap b)),
      (''tweaks'', JArray (map json_of_tweak (jb_tweaks b))),
      (''truncated_output_hash_bits'', JNum (unat (jb_truncated_output_hash_bits b))),
      (''truncated_output_hash_bytes'', JNum (jb_truncated_output_hash_bytes b)),
      (''truncated_output_hashes'', JString (jb_truncated_output_hashes b)),
      (''spent_id_codec'', JString (jb_spent_id_codec b)),
      (''spent_count'', JNum (unat (jb_spent_count b))),
      (''spent_id_bytes'', JNum (jb_spent_id_bytes b)), (''spent_ids'', JString (jb_spent_ids b)),
      (''decoded_spent_ids'', JArray (map (\<lambda>uid. JNum (unat uid)) (jb_decoded_spent_ids b)))]"

lemma light_block_to_json_height:
  "light_block_to_json hex io bs = Inr b \<Longrightarrow>
     \<exists>lb. decode_light_block io bs = Inr lb \<and> jb_height b = lb_height lb
       \<and> decode_light_block_spent_ids lb = Inr (jb_decoded_spent_ids b)"
  by (auto simp: light_block_to_json_def light_block_input_to_json_def result_simps)

end
