(* ===== verification/Range.thy ===== *)
theory Range
  imports Helper
begin

text \<open>
  The range frame of \<^verbatim>\<open>light-server/src/range.rs\<close>: a magic number, a version, an
  item count and length-prefixed items. The server frames a range of block
  payloads with \<open>frame_range\<close>; a client parses it with \<open>parse_range\<close>.
\<close>

text \<open>\<open>RANGE_MAGIC\<close> is \<open>b"BDSR"\<close>.\<close>

definition RANGE_MAGIC :: bytes where
  "RANGE_MAGIC = [0x42, 0x44, 0x53, 0x52]"

definition RANGE_VERSION :: u16 where
  "RANGE_VERSION = 1"

fun frame_items :: "bytes list \<Rightarrow> bytes \<Rightarrow> bytes result" where
  "frame_items [] out = Inr out"
| "frame_items (msg # msgs) out =
     and_then (try_from_nat (length msg) :: u32 result) (\<lambda>len.
       frame_items msgs (out @ to_le_bytes len @ msg))"

definition frame_range :: "bytes list \<Rightarrow> bytes result" where
  "frame_range messages =
     and_then (try_from_nat (length messages) :: u32 result) (\<lambda>count.
       frame_items messages (RANGE_MAGIC @ to_le_bytes RANGE_VERSION @ to_le_bytes count))"

fun parse_items :: "nat \<Rightarrow> bytes \<Rightarrow> usize \<Rightarrow> bytes list \<Rightarrow> (bytes list \<times> usize) result" where
  "parse_items 0 bs pos out = Inr (out, pos)"
| "parse_items (Suc n) bs pos out =
     and_then (ensure (pos + 4 \<le> length bs) ''truncated range item length'') (\<lambda>_.
     and_then (read_u32_le (slice bs pos (pos + 4)) ''range item length'') (\<lambda>len32.
     let len = unat len32; pos' = pos + 4 in
     and_then (ensure (pos' + len \<le> length bs) ''truncated range item body'') (\<lambda>_.
       parse_items n bs (pos' + len) (out @ [slice bs pos' (pos' + len)]))))"

definition parse_range :: "bytes \<Rightarrow> bytes list result" where
  "parse_range bs =
     and_then (ensure (length bs \<ge> 10) ''range frame too short'') (\<lambda>_.
     and_then (ensure (slice bs 0 4 = RANGE_MAGIC) ''bad range magic'') (\<lambda>_.
     and_then (read_u16_le (slice bs 4 6) ''range version'') (\<lambda>version.
     and_then (ensure (version = RANGE_VERSION) ''unsupported range version'') (\<lambda>_.
     and_then (read_u32_le (slice bs 6 10) ''range item count'') (\<lambda>count.
     and_then (parse_items (unat count) bs 10 []) (\<lambda>(out, pos).
     and_then (ensure (pos = length bs) ''trailing bytes after range frame'') (\<lambda>_.
       Inr out)))))))"

section \<open>The layout of a frame\<close>

definition frame_item :: "bytes \<Rightarrow> bytes" where
  "frame_item msg = to_le_bytes (word_of_nat (length msg) :: u32) @ msg"

definition frame_layout :: "bytes list \<Rightarrow> bytes" where
  "frame_layout msgs = RANGE_MAGIC @ to_le_bytes RANGE_VERSION
     @ to_le_bytes (word_of_nat (length msgs) :: u32) @ concat (map frame_item msgs)"

definition frameable :: "bytes list \<Rightarrow> bool" where
  "frameable msgs \<longleftrightarrow> length msgs < 2 ^ 32 \<and> (\<forall>m \<in> set msgs. length m < 2 ^ 32)"

lemma frame_items_layout:
  "frame_items msgs out = Inr bs \<longleftrightarrow>
     (\<forall>m \<in> set msgs. length m < 2 ^ 32) \<and> bs = out @ concat (map frame_item msgs)"
  by (induction msgs arbitrary: out) (auto simp: result_simps frame_item_def)

lemma frame_range_layout: "frame_range msgs = Inr bs \<longleftrightarrow> frameable msgs \<and> bs = frame_layout msgs"
  by (auto simp: frame_range_def result_simps frame_items_layout frameable_def frame_layout_def)

lemma length_frame_item [simp]: "length (frame_item m) = 4 + length m"
  by (simp add: frame_item_def)

lemma length_frame_layout:
  "length (frame_layout msgs) = 10 + (\<Sum>m \<leftarrow> msgs. 4 + length m)"
  by (simp add: frame_layout_def RANGE_MAGIC_def length_concat comp_def)

lemma parse_items_layout:
  assumes "\<forall>m \<in> set msgs. length m < 2 ^ 32"
  shows "parse_items (length msgs) (pre @ concat (map frame_item msgs) @ rest) (length pre) out
    = Inr (out @ msgs, length pre + length (concat (map frame_item msgs)))"
  using assms
proof (induction msgs arbitrary: pre out)
  case (Cons m msgs)
  let ?len = "word_of_nat (length m) :: u32"
  let ?tail = "concat (map frame_item msgs) @ rest"
  have u: "unat ?len = length m" using Cons.prems by (simp add: unat_word_of_nat_small)
  have item: "frame_item m = to_le_bytes ?len @ m" by (simp add: frame_item_def)
  let ?all = "pre @ to_le_bytes ?len @ m @ ?tail"
  have "slice ?all (length pre) (length pre + 4) = to_le_bytes ?len"
    by (rule slice_append_exact) simp_all
  moreover have "slice ?all (length pre + 4) (length pre + 4 + length m) = m"
    using slice_append_exact [of "pre @ to_le_bytes ?len" "length pre + 4" m "length m" ?tail] by simp
  moreover have "parse_items (length msgs) ?all (length pre + 4 + length m) (out @ [m])
      = Inr (out @ m # msgs, length pre + 4 + length m + length (concat (map frame_item msgs)))"
    using Cons.IH [of "pre @ to_le_bytes ?len @ m" "out @ [m]"] Cons.prems by (simp add: add.assoc)
  ultimately have "parse_items (Suc (length msgs)) ?all (length pre) out
      = Inr (out @ m # msgs, length pre + 4 + length m + length (concat (map frame_item msgs)))"
    using u by (simp add: Let_def del: append_assoc)
  then show ?case by (simp add: item)
qed simp

lemma parse_header:
  "slice (frame_layout msgs) 0 4 = RANGE_MAGIC"
  "slice (frame_layout msgs) 4 6 = to_le_bytes RANGE_VERSION"
  "slice (frame_layout msgs) 6 10 = to_le_bytes (word_of_nat (length msgs) :: u32)"
  by (simp_all add: frame_layout_def RANGE_MAGIC_def slice_def)

lemma parse_frame_layout:
  assumes "frameable msgs"
  shows "parse_range (frame_layout msgs @ extra) =
    (if extra = [] then Inr msgs else Inl (Error ''trailing bytes after range frame''))"
proof -
  have h: "slice (frame_layout msgs @ extra) a b = slice (frame_layout msgs) a b" if "b \<le> 10" for a b
    using that by (simp add: slice_def length_frame_layout)
  let ?pre = "RANGE_MAGIC @ to_le_bytes RANGE_VERSION @ to_le_bytes (word_of_nat (length msgs) :: u32)"
  have "frame_layout msgs @ extra = ?pre @ concat (map frame_item msgs) @ extra"
    by (simp add: frame_layout_def)
  moreover have "length ?pre = 10" by (simp add: RANGE_MAGIC_def)
  ultimately have "parse_items (length msgs) (frame_layout msgs @ extra) 10 []
      = Inr (msgs, length (frame_layout msgs))"
    using parse_items_layout [of msgs ?pre extra "[]"] assms
    by (simp add: frameable_def length_frame_layout length_concat comp_def)
  moreover have "unat (word_of_nat (length msgs) :: u32) = length msgs"
    using assms by (simp add: frameable_def unat_word_of_nat_small)
  ultimately show ?thesis
    by (simp add: parse_range_def h parse_header length_frame_layout)
qed

text \<open>Conversely, only frames parse.\<close>

lemma parse_items_inv:
  assumes "parse_items n bs pos out = Inr (msgs, pos')" and "pos \<le> length bs"
  shows "\<exists>ms. msgs = out @ ms \<and> length ms = n \<and> pos' \<le> length bs
    \<and> (\<forall>m \<in> set ms. length m < 2 ^ 32)
    \<and> take pos' bs = take pos bs @ concat (map frame_item ms)"
  using assms
proof (induction n arbitrary: pos out)
  case (Suc n)
  from Suc.prems obtain len where len: "slice bs pos (pos + 4) = to_le_bytes (len :: u32)"
      "pos + 4 \<le> length bs" "pos + 4 + unat len \<le> length bs"
      and rec: "parse_items n bs (pos + 4 + unat len)
        (out @ [slice bs (pos + 4) (pos + 4 + unat len)]) = Inr (msgs, pos')"
    by (auto simp: result_simps Let_def read_u32_le_eq_Inr)
  let ?m = "slice bs (pos + 4) (pos + 4 + unat len)"
  have lm: "length ?m = unat len" using len(3) by simp
  then have m: "length ?m < 2 ^ 32" "word_of_nat (length ?m) = len"
    using unsigned_less [of len] by simp_all
  have "take (pos + 4 + unat len) bs = take pos bs @ slice bs pos (pos + 4) @ ?m"
    by (simp add: slice_def take_add)
  then have "take (pos + 4 + unat len) bs = take pos bs @ frame_item ?m"
    using len(1) m(2) by (simp add: frame_item_def)
  moreover obtain ms where "msgs = (out @ [?m]) @ ms" "length ms = n" "pos' \<le> length bs"
      "\<forall>m \<in> set ms. length m < 2 ^ 32"
      "take pos' bs = take (pos + 4 + unat len) bs @ concat (map frame_item ms)"
    using Suc.IH [OF rec len(3)] by blast
  ultimately show ?case using m(1) by (intro exI [of _ "?m # ms"]) simp
qed simp

lemma parse_range_inv:
  assumes "parse_range bs = Inr msgs"
  shows "frameable msgs \<and> bs = frame_layout msgs"
proof -
  from assms obtain count :: u32 where len: "10 \<le> length bs" and hd: "slice bs 0 4 = RANGE_MAGIC"
      "slice bs 4 6 = to_le_bytes RANGE_VERSION" "slice bs 6 10 = to_le_bytes count"
      and items: "parse_items (unat count) bs 10 [] = Inr (msgs, length bs)"
    by (auto simp: parse_range_def result_simps read_u16_le_eq_Inr read_u32_le_eq_Inr)
  from parse_items_inv [OF items] len have ms: "length msgs = unat count"
      "\<forall>m \<in> set msgs. length m < 2 ^ 32" "bs = take 10 bs @ concat (map frame_item msgs)"
    by auto
  have "take 10 bs = slice bs 0 4 @ slice bs 4 6 @ slice bs 6 10"
    using take_add [of 4 2 bs] take_add [of 6 4 bs] by (simp add: slice_def)
  moreover have "count = word_of_nat (length msgs)" "length msgs < 2 ^ 32"
    using ms(1) unsigned_less [of count] by simp_all
  ultimately have "take 10 bs @ concat (map frame_item msgs) = frame_layout msgs"
    using hd by (simp add: frame_layout_def)
  with ms(3) have "bs = frame_layout msgs" by (rule trans)
  with ms(2) \<open>length msgs < 2 ^ 32\<close> show ?thesis by (simp add: frameable_def)
qed

section \<open>Properties\<close>

text \<open>
  C25: the range parser is the exact inverse of the framer: a byte string
  parses to a list of messages if and only if it is the frame the server
  produces for that list.
\<close>

theorem parse_range_iff_frame_range:
  "parse_range bs = Inr msgs \<longleftrightarrow> frame_range msgs = Inr bs"
  using parse_frame_layout [of msgs "[]"] parse_range_inv [of bs msgs]
  by (auto simp: frame_range_layout)

text \<open>
  Bytes appended to a valid frame are never ignored: the parser rejects the
  frame with the trailing-bytes error.
\<close>

theorem parse_range_rejects_trailing:
  "frame_range msgs = Inr bs \<Longrightarrow> extra \<noteq> [] \<Longrightarrow>
     parse_range (bs @ extra) = Inl (Error ''trailing bytes after range frame'')"
  using parse_frame_layout [of msgs extra] by (auto simp: frame_range_layout)

theorem parse_range_rejects_trailing_witness:
  "\<exists>bs. frame_range [[0x61]] = Inr bs
    \<and> parse_range (bs @ [0]) = Inl (Error ''trailing bytes after range frame'')"
proof -
  have "frame_range [[0x61]] = Inr (frame_layout [[0x61]])"
    by (simp add: frame_range_layout frameable_def)
  with parse_range_rejects_trailing [OF this, of "[0]"] show ?thesis by simp
qed

end
