(* ===== verification/Server.thy ===== *)
theory Server
  imports File_Archive Json_Wire Range
begin

text \<open>
  The HTTP handlers of \<^verbatim>\<open>light-server/src/server.rs\<close>. A handler is a function of
  the archive interface, the parsed query and the \<open>Accept\<close> header; it returns a
  response or an error with its status. The archive is read at one moment
  per request. Routing, query parsing and the transport are code of the \<^verbatim>\<open>axum\<close>
  crate. The text of JSON documents, hexadecimal text and the check of header
  values are code of other crates and are parameters (\<open>web_lib\<close>).
\<close>

section \<open>Data\<close>

record web_lib =
  hex_encode :: "bytes \<Rightarrow> string"
  to_vec_pretty :: "json \<Rightarrow> bytes result"
  header_value_from_str :: "string \<Rightarrow> string result"

definition DEFAULT_MAX_RANGE_COUNT :: u32 where
  "DEFAULT_MAX_RANGE_COUNT = 1000"

definition DEFAULT_MAX_RESPONSE_BYTES :: usize where
  "DEFAULT_MAX_RESPONSE_BYTES = 4 * 1024 * 1024"

record ServerConfig =
  sc_bind :: string
  sc_max_range_count :: u32
  sc_max_response_bytes :: usize

definition new_config :: "string \<Rightarrow> ServerConfig" where
  "new_config bind =
     \<lparr>sc_bind = bind, sc_max_range_count = DEFAULT_MAX_RANGE_COUNT,
      sc_max_response_bytes = DEFAULT_MAX_RESPONSE_BYTES\<rparr>"

record AppState =
  ap_archive :: ArchiveBackend
  ap_max_range_count :: u32
  ap_max_response_bytes :: usize

definition app_state :: "ServerConfig \<Rightarrow> ArchiveBackend \<Rightarrow> AppState" where
  "app_state config archive =
     \<lparr>ap_archive = archive, ap_max_range_count = sc_max_range_count config,
      ap_max_response_bytes = sc_max_response_bytes config\<rparr>"

datatype StatusCode = BAD_REQUEST | INTERNAL_SERVER_ERROR

datatype ApiError = ApiError (ae_status: StatusCode) (ae_error: string)

type_synonym 'a api_result = "ApiError + 'a"

definition bad_request :: "string \<Rightarrow> ApiError" where
  "bad_request message = ApiError BAD_REQUEST message"

fun internal :: "error \<Rightarrow> ApiError" where
  "internal (Error message) = ApiError INTERNAL_SERVER_ERROR message"

text \<open>The question-mark operator on an \<open>anyhow::Result\<close> in a handler.\<close>

definition api :: "'a result \<Rightarrow> 'a api_result" where
  "api r = (case r of Inl e \<Rightarrow> Inl (internal e) | Inr x \<Rightarrow> Inr x)"

text \<open>The status and the JSON body an error is turned into.\<close>

definition error_response :: "ApiError \<Rightarrow> StatusCode \<times> json" where
  "error_response e = (ae_status e, JObject [(''error'', JString (ae_error e))])"

record SyncRangeQuery =
  sq_start :: u64
  sq_count :: "u32 option"
  sq_cutthrough :: bool
  sq_cutthrough_start :: "u64 option"
  sq_cutthrough_tip :: "u64 option"
  sq_filter_reuse :: bool
  sq_labels :: "u16 option"
  sq_max_bytes :: "usize option"

record SingleBlockQuery =
  bq_cutthrough :: bool
  bq_cutthrough_start :: "u64 option"
  bq_cutthrough_tip :: "u64 option"
  bq_filter_reuse :: bool
  bq_labels :: "u16 option"

text \<open>A successful response: its body and its headers, a later one replacing an earlier.\<close>

record Response =
  rs_body :: bytes
  rs_headers :: "(string \<times> string) list"

definition insert_header :: "string \<Rightarrow> string \<Rightarrow> Response \<Rightarrow> Response" where
  "insert_header name value response =
     response\<lparr>rs_headers := AList.update name value (rs_headers response)\<rparr>"

section \<open>Formats and headers\<close>

datatype ResponseFormat = Capnp | Json

fun split_at_char :: "char \<Rightarrow> string \<Rightarrow> string list" where
  "split_at_char c [] = [[]]"
| "split_at_char c (x # xs) =
     (if x = c then [] # split_at_char c xs
      else (x # hd (split_at_char c xs)) # tl (split_at_char c xs))"

definition is_space :: "char \<Rightarrow> bool" where
  "is_space c \<longleftrightarrow> (let n = of_char c :: nat in n = 32 \<or> 9 \<le> n \<and> n \<le> 13)"

definition trim :: "string \<Rightarrow> string" where
  "trim s = rev (dropWhile is_space (rev (dropWhile is_space s)))"

fun media_format :: "string list \<Rightarrow> ResponseFormat result" where
  "media_format [] =
     Inl (Error ''unsupported Accept header; use application/octet-stream or application/json'')"
| "media_format (media_type # rest) =
     (if media_type = ''application/json'' \<or> media_type = ''text/json'' then Inr Json
      else if media_type = ''application/octet-stream'' \<or> media_type = ''*/*'' then Inr Capnp
      else media_format rest)"

definition response_format :: "string option \<Rightarrow> ResponseFormat result" where
  "response_format accept =
     (case accept of
        None \<Rightarrow> Inr Capnp
      | Some value \<Rightarrow>
          media_format (map (\<lambda>part. trim (hd (split_at_char (CHR '';'') part))) (split_at_char (CHR '','') value)))"

definition response_with_content_type :: "bytes \<Rightarrow> string \<Rightarrow> string \<Rightarrow> Response" where
  "response_with_content_type body cache_control content_type =
     insert_header ''vary'' ''Accept'' (insert_header ''cache-control'' cache_control
       (insert_header ''content-type'' content_type \<lparr>rs_body = body, rs_headers = []\<rparr>))"

definition binary_response :: "bytes \<Rightarrow> string \<Rightarrow> Response" where
  "binary_response body cache_control =
     response_with_content_type body cache_control ''application/octet-stream''"

definition json_response :: "bytes \<Rightarrow> string \<Rightarrow> Response" where
  "json_response body cache_control =
     response_with_content_type body cache_control ''application/json; charset=utf-8''"

definition put_header :: "web_lib \<Rightarrow> string \<Rightarrow> string \<Rightarrow> Response \<Rightarrow> Response result" where
  "put_header lib name value response =
     and_then (header_value_from_str lib value) (\<lambda>v. Inr (insert_header name v response))"

definition show_word :: "'a::len word \<Rightarrow> string" where
  "show_word w = digits (unat w)"

definition add_block_headers :: "web_lib \<Rightarrow> u64 \<Rightarrow> bytes \<Rightarrow> Response \<Rightarrow> Response result" where
  "add_block_headers lib height block_hash response =
     and_then (put_header lib ''x-bitcoindata-light-version'' (show_word WIRE_VERSION) response) (\<lambda>r1.
     and_then (put_header lib ''x-bitcoin-block-height'' (show_word height) r1) (\<lambda>r2.
     if block_hash \<noteq> [] then put_header lib ''x-bitcoin-block-hash'' (hex_encode lib block_hash) r2
     else Inr r2))"

record RangeHeaderInfo =
  ri_start :: u64
  ri_end :: u64
  ri_requested_end :: u64
  ri_count :: u32
  ri_complete :: bool
  ri_next_start :: "u64 option"

definition add_range_headers :: "web_lib \<Rightarrow> RangeHeaderInfo \<Rightarrow> Response \<Rightarrow> Response result" where
  "add_range_headers lib info response =
     and_then (put_header lib ''x-bitcoindata-range-start'' (show_word (ri_start info)) response) (\<lambda>r1.
     and_then (put_header lib ''x-bitcoindata-range-end'' (show_word (ri_end info)) r1) (\<lambda>r2.
     and_then (put_header lib ''x-bitcoindata-range-count'' (show_word (ri_count info)) r2) (\<lambda>r3.
     and_then (put_header lib ''x-bitcoindata-requested-range-end'' (show_word (ri_requested_end info)) r3) (\<lambda>r4.
     let r5 = insert_header ''x-bitcoindata-range-complete''
           (if ri_complete info then ''true'' else ''false'') r4
     in case ri_next_start info of
          None \<Rightarrow> Inr r5
        | Some next_start \<Rightarrow> put_header lib ''x-bitcoindata-next-start'' (show_word next_start) r5))))"

section \<open>Checks\<close>

definition cache_control :: "Manifest \<Rightarrow> ChainTip \<Rightarrow> u64 \<Rightarrow> string" where
  "cache_control manifest tip height =
     (if saturating_sub (ct_height tip) height \<ge> mf_finality_depth manifest
      then ''public, max-age=31536000, immutable'' else ''no-cache'')"

definition filtered_cache_control :: "Manifest \<Rightarrow> ChainTip \<Rightarrow> u64 \<Rightarrow> u64 option \<Rightarrow> u64 option \<Rightarrow> string" where
  "filtered_cache_control manifest tip height cut_start requested_cutthrough_tip =
     (if cut_start \<noteq> None \<and> requested_cutthrough_tip = None then ''no-cache''
      else cache_control manifest tip height)"

definition range_frame_header_len :: usize where
  "range_frame_header_len = 4 + 2 + 4"

definition range_frame_item_len :: "usize \<Rightarrow> usize" where
  "range_frame_item_len payload_len = 4 + payload_len"

definition served_tip :: "ArchiveBackend \<Rightarrow> ChainTip result" where
  "served_tip archive = and_then (be_tip archive) (\<lambda>t. ok_or t ''archive has no served tip'')"

definition ensure_height_served :: "u64 \<Rightarrow> ChainTip \<Rightarrow> unit result" where
  "ensure_height_served height tip = ensure (height \<le> ct_height tip) ''height is above served tip''"

definition resolve_cutthrough_tip :: "u64 option \<Rightarrow> u64 option \<Rightarrow> ChainTip \<Rightarrow> u64 option api_result" where
  "resolve_cutthrough_tip cut_start cut_tip tip =
     (case cut_start of
        None \<Rightarrow> Inr None
      | Some s \<Rightarrow>
          if s > ct_height tip then Inl (bad_request ''cutthrough_start is above served tip'')
          else let t = (case cut_tip of None \<Rightarrow> ct_height tip | Some t \<Rightarrow> t) in
            if t < s then Inl (bad_request ''cutthrough_tip is below cutthrough_start'')
            else if t > ct_height tip then Inl (bad_request ''cutthrough_tip is above served tip'')
            else Inr (Some t))"

definition ensure_cutthrough_tip_covers_height :: "u64 option \<Rightarrow> u64 \<Rightarrow> unit api_result" where
  "ensure_cutthrough_tip_covers_height cut_tip required_height =
     (case cut_tip of
        None \<Rightarrow> Inr ()
      | Some t \<Rightarrow> if t < required_height
          then Inl (bad_request ''cutthrough_tip is below required response height'') else Inr ())"

section \<open>Handlers\<close>

definition health :: json where
  "health = JObject [(''ok'', JBool True), (''version'', JNum (unat WIRE_VERSION))]"

definition tip_json :: "ChainTip \<Rightarrow> json" where
  "tip_json t = JObject
     [(''height'', JNum (unat (ct_height t))), (''block_hash'', JString (ct_block_hash t))]"

definition manifest_json :: "Manifest \<Rightarrow> json" where
  "manifest_json m = JObject
     [(''version'', JNum (unat (mf_version m))), (''network'', JString (mf_network m)),
      (''genesis_hash'', case mf_genesis_hash m of None \<Rightarrow> JNull | Some h \<Rightarrow> JString h),
      (''finality_depth'', JNum (unat (mf_finality_depth m))),
      (''suggested_reorg_cache_depth'', JNum (unat (mf_suggested_reorg_cache_depth m))),
      (''max_range_count'', JNum (unat (mf_max_range_count m))),
      (''tip'', case mf_tip m of None \<Rightarrow> JNull | Some t \<Rightarrow> tip_json t)]"

definition manifest_handler :: "AppState \<Rightarrow> json api_result" where
  "manifest_handler state =
     and_then (api (be_manifest (ap_archive state))) (\<lambda>m. Inr (manifest_json m))"

definition tip_handler :: "AppState \<Rightarrow> json api_result" where
  "tip_handler state =
     and_then (api (be_tip (ap_archive state))) (\<lambda>t.
     and_then (api (ok_or t ''archive has no served tip'')) (\<lambda>tip. Inr (tip_json tip)))"

definition single_block :: "web_lib \<Rightarrow> capnp_io \<Rightarrow> AppState \<Rightarrow> u64 \<Rightarrow> SingleBlockQuery \<Rightarrow> string option
    \<Rightarrow> Response api_result" where
  "single_block lib io state height q accept =
     and_then (api (response_format accept)) (\<lambda>format.
     and_then (api (served_tip (ap_archive state))) (\<lambda>tip.
     and_then (api (ensure_height_served height tip)) (\<lambda>_.
     and_then (api (be_manifest (ap_archive state))) (\<lambda>manifest.
     let cut_start = (case bq_cutthrough_start q of Some s \<Rightarrow> Some s
           | None \<Rightarrow> if bq_cutthrough q then Some height else None) in
     and_then (resolve_cutthrough_tip cut_start (bq_cutthrough_tip q) tip) (\<lambda>cut_tip.
     and_then (ensure_cutthrough_tip_covers_height cut_tip height) (\<lambda>_.
     let flt = \<lparr>cutthrough_start = cut_start, cutthrough_tip = cut_tip,
           filter_reuse = bq_filter_reuse q, labels = bq_labels q\<rparr> in
     and_then (api (be_read_block_filtered (ap_archive state) height flt)) (\<lambda>served.
     let cc = filtered_cache_control manifest tip height cut_start (bq_cutthrough_tip q) in
     and_then (case format of
         Capnp \<Rightarrow> Inr (binary_response (sv_payload served) cc)
       | Json \<Rightarrow> and_then (api (light_block_to_json (hex_encode lib) io (sv_payload served))) (\<lambda>b.
           and_then (api (to_vec_pretty lib (json_of_block b))) (\<lambda>body. Inr (json_response body cc)))) (\<lambda>response.
     api (add_block_headers lib height (sv_block_hash served) response)))))))))"

text \<open>
  The loop of the range handler over the offsets left. Its result is the messages
  and the length of their frame.
\<close>

fun range_loop :: "ArchiveBackend \<Rightarrow> StoredBlockResponseFilter \<Rightarrow> u64 \<Rightarrow> usize \<Rightarrow> nat list
    \<Rightarrow> bytes list \<Rightarrow> usize \<Rightarrow> (bytes list \<times> usize) result" where
  "range_loop archive flt start max_bytes [] messages framed_bytes = Inr (messages, framed_bytes)"
| "range_loop archive flt start max_bytes (offset # offsets) messages framed_bytes =
     and_then (be_read_block_filtered archive (start + word_of_nat offset) flt) (\<lambda>served.
     and_then (ok_or (usize_checked_add framed_bytes (range_frame_item_len (length (sv_payload served))))
         ''range response size overflow'') (\<lambda>projected.
     if messages \<noteq> [] \<and> projected > max_bytes then Inr (messages, framed_bytes)
     else if projected > max_bytes then Inr (messages @ [sv_payload served], projected)
     else range_loop archive flt start max_bytes offsets (messages @ [sv_payload served]) projected))"

definition range_body_json :: "RangeHeaderInfo \<Rightarrow> JsonLightBlock list \<Rightarrow> json" where
  "range_body_json info blocks = JObject
     [(''version'', JNum (unat WIRE_VERSION)), (''format'', JString ''light-block-range''),
      (''start'', JNum (unat (ri_start info))), (''end'', JNum (unat (ri_end info))),
      (''requested_end'', JNum (unat (ri_requested_end info))),
      (''count'', JNum (unat (ri_count info))), (''complete'', JBool (ri_complete info)),
      (''next_start'', case ri_next_start info of None \<Rightarrow> JNull | Some n \<Rightarrow> JNum (unat n)),
      (''blocks'', JArray (map json_of_block blocks))]"

text \<open>The end of the range handler, from the collected messages to the response.\<close>

definition finish_range :: "web_lib \<Rightarrow> capnp_io \<Rightarrow> ResponseFormat \<Rightarrow> string \<Rightarrow> RangeHeaderInfo
    \<Rightarrow> bytes list \<Rightarrow> Response api_result" where
  "finish_range lib io format cc info messages =
     and_then (case format of
         Capnp \<Rightarrow> and_then (api (frame_range messages)) (\<lambda>body. Inr (binary_response body cc))
       | Json \<Rightarrow> and_then (api (try_map (light_block_to_json (hex_encode lib) io) messages)) (\<lambda>blocks.
           and_then (api (to_vec_pretty lib (range_body_json info blocks))) (\<lambda>body.
           Inr (json_response body cc)))) (\<lambda>response.
     api (add_range_headers lib info response))"

definition block_range :: "web_lib \<Rightarrow> capnp_io \<Rightarrow> AppState \<Rightarrow> SyncRangeQuery \<Rightarrow> string option
    \<Rightarrow> Response api_result" where
  "block_range lib io state q accept =
     (let requested_count = (case sq_count q of None \<Rightarrow> ap_max_range_count state | Some n \<Rightarrow> n) in
      if requested_count = 0 then Inl (bad_request ''count must be greater than zero'')
      else if requested_count > ap_max_range_count state then Inl (bad_request ''count exceeds max_range_count'')
      else
        let max_bytes = (case sq_max_bytes q of None \<Rightarrow> ap_max_response_bytes state | Some n \<Rightarrow> n) in
        if max_bytes = 0 then Inl (bad_request ''max_bytes must be greater than zero'')
        else if max_bytes > ap_max_response_bytes state
        then Inl (bad_request ''max_bytes exceeds server max_response_bytes'')
        else
          and_then (api (response_format accept)) (\<lambda>format.
          and_then (api (served_tip (ap_archive state))) (\<lambda>tip.
          and_then (api (be_manifest (ap_archive state))) (\<lambda>manifest.
          if sq_start q > ct_height tip then Inl (bad_request ''start height is above served tip'')
          else
            let available = ct_height tip - sq_start q + 1;
                count = min requested_count (if unat available < 2 ^ 32 then ucast available else - 1);
                requested_end = sq_start q + ucast count - 1;
                cut_start = (case sq_cutthrough_start q of Some s \<Rightarrow> Some s
                  | None \<Rightarrow> if sq_cutthrough q then Some (sq_start q) else None) in
            and_then (resolve_cutthrough_tip cut_start (sq_cutthrough_tip q) tip) (\<lambda>cut_tip.
            and_then (ensure_cutthrough_tip_covers_height cut_tip requested_end) (\<lambda>_.
            let flt = \<lparr>cutthrough_start = cut_start, cutthrough_tip = cut_tip,
                  filter_reuse = sq_filter_reuse q, labels = sq_labels q\<rparr> in
            and_then (api (range_loop (ap_archive state) flt (sq_start q) max_bytes [0..<unat count] []
              range_frame_header_len)) (\<lambda>(messages, _).
            if messages = [] then Inl (internal (Error ''range response builder made no progress''))
            else
              and_then (api (try_from_nat (length messages))) (\<lambda>n.
              let end' = sq_start q + ucast (n :: u32) - 1;
                  complete = (end' \<ge> requested_end);
                  next_start = (if complete then None else Some (end' + 1))
              in finish_range lib io format
                   (filtered_cache_control manifest tip end' cut_start (sq_cutthrough_tip q))
                   \<lparr>ri_start = sq_start q, ri_end = end', ri_requested_end = requested_end, ri_count = n,
                    ri_complete = complete, ri_next_start = next_start\<rparr> messages))))))))"

text \<open>
  The routes. A request is what the router and the extractors hand over: the
  matched route with its path and query parameters.
\<close>

datatype Request =
    GetHealth
  | GetManifest
  | GetTip
  | GetBlocksLight SyncRangeQuery
  | GetBlockLight u64 SingleBlockQuery

datatype Reply = ReplyJson json | ReplyResponse Response | ReplyError StatusCode json

definition reply :: "('a \<Rightarrow> Reply) \<Rightarrow> 'a api_result \<Rightarrow> Reply" where
  "reply f r = (case r of Inr x \<Rightarrow> f x | Inl e \<Rightarrow> (case error_response e of (status, body) \<Rightarrow> ReplyError status body))"

definition serve :: "web_lib \<Rightarrow> capnp_io \<Rightarrow> ServerConfig \<Rightarrow> ArchiveBackend \<Rightarrow> Request \<Rightarrow> string option \<Rightarrow> Reply" where
  "serve lib io config archive request accept =
     (let state = app_state config archive in
      case request of
        GetHealth \<Rightarrow> ReplyJson health
      | GetManifest \<Rightarrow> reply ReplyJson (manifest_handler state)
      | GetTip \<Rightarrow> reply ReplyJson (tip_handler state)
      | GetBlocksLight q \<Rightarrow> reply ReplyResponse (block_range lib io state q accept)
      | GetBlockLight height q \<Rightarrow> reply ReplyResponse (single_block lib io state height q accept))"

section \<open>The range loop\<close>

text \<open>The payload of a height, and the payloads of the first heights of a range.\<close>

definition payload_at :: "ArchiveBackend \<Rightarrow> StoredBlockResponseFilter \<Rightarrow> u64 \<Rightarrow> bytes" where
  "payload_at archive flt h =
     (case be_read_block_filtered archive h flt of Inl _ \<Rightarrow> [] | Inr s \<Rightarrow> sv_payload s)"

definition payloads :: "ArchiveBackend \<Rightarrow> StoredBlockResponseFilter \<Rightarrow> u64 \<Rightarrow> nat \<Rightarrow> bytes list" where
  "payloads archive flt start n = map (\<lambda>k. payload_at archive flt (start + word_of_nat k)) [0..<n]"

definition frame_len :: "bytes list \<Rightarrow> nat" where
  "frame_len msgs = length (frame_layout msgs)"

lemma payloads_Suc:
  "payloads archive flt start (Suc n) = payloads archive flt start n @ [payload_at archive flt (start + word_of_nat n)]"
  by (simp add: payloads_def)

lemma payloads_0 [simp]: "payloads archive flt start 0 = []"
  and length_payloads [simp]: "length (payloads archive flt start n) = n"
  by (simp_all add: payloads_def)

lemma frame_len_snoc: "frame_len (msgs @ [m]) = frame_len msgs + range_frame_item_len (length m)"
  by (simp add: frame_len_def length_frame_layout range_frame_item_len_def)

lemma frame_len_Nil: "frame_len [] = range_frame_header_len"
  by (simp add: frame_len_def length_frame_layout range_frame_header_len_def)

lemma unat_start_plus:
  fixes start t :: u64
  assumes "start \<le> t" and "k \<le> unat t - unat start"
  shows "unat (start + word_of_nat k) = unat start + k" and "start + word_of_nat k \<le> t"
    and "start \<le> start + word_of_nat k"
proof -
  have st: "unat start \<le> unat t" using assms(1) by (simp add: word_le_nat_alt)
  have "unat start + k < 2 ^ LENGTH(64)" using assms(2) st unat_bounds(4) [of t] by simp
  moreover from this have "unat (word_of_nat k :: u64) = k" by (intro unat_word_of_nat_small) simp
  ultimately show u: "unat (start + word_of_nat k) = unat start + k" by (simp add: unat_word_ariths)
  show "start + word_of_nat k \<le> t" "start \<le> start + word_of_nat k"
    unfolding word_le_nat_alt u using assms(2) st by simp_all
qed

text \<open>What the loop returns: the longest prefix that fits, but at least one message.\<close>

definition fitting_prefix :: "(nat \<Rightarrow> bytes list) \<Rightarrow> usize \<Rightarrow> nat \<Rightarrow> nat \<Rightarrow> bool" where
  "fitting_prefix msgs max_bytes n j \<longleftrightarrow>
     1 \<le> j \<and> j \<le> n \<and> (j = 1 \<or> frame_len (msgs j) \<le> max_bytes)
     \<and> (j = n \<or> max_bytes < frame_len (msgs (Suc j)))"

context served_archive
begin

lemma read_payload:
  assumes "good first a" "be_tip (backend a) = Inr (Some t)" "first \<le> h" "h \<le> ct_height t"
  shows "\<exists>s. be_read_block_filtered (backend a) h flt = Inr s \<and> sv_payload s = payload_at (backend a) flt h"
    and "length (payload_at (backend a) flt h) < 2 ^ 32"
    and "\<exists>r. decode (payload_at (backend a) flt h) = Inr r \<and> lb_height r = h"
  using read_ok [OF assms, of flt] by (auto simp: payload_at_def)

lemma range_loop_prefix:
  assumes "good first a" "be_tip (backend a) = Inr (Some t)" "first \<le> start" "start \<le> ct_height t"
    and "n \<le> unat (ct_height t) - unat start + 1" and "max_bytes + 2 ^ 33 \<le> usize_max"
  shows "i < n \<Longrightarrow> i = 0 \<or> frame_len (payloads (backend a) flt start i) \<le> max_bytes \<Longrightarrow>
    \<exists>j. range_loop (backend a) flt start max_bytes [i..<n] (payloads (backend a) flt start i)
        (frame_len (payloads (backend a) flt start i))
      = Inr (payloads (backend a) flt start j, frame_len (payloads (backend a) flt start j))
      \<and> fitting_prefix (payloads (backend a) flt start) max_bytes n j \<and> i \<le> j"
proof (induction "n - i" arbitrary: i)
  case (Suc d)
  let ?p = "payloads (backend a) flt start"
  let ?h = "start + word_of_nat i :: u64"
  have "i \<le> unat (ct_height t) - unat start" using Suc.prems(1) assms(5) by simp
  note h = unat_start_plus [OF assms(4) this]
  from h(2,3) assms(3) have "first \<le> ?h" "?h \<le> ct_height t" by auto
  note read = read_payload [OF assms(1,2) this, of flt]
  obtain s where s: "be_read_block_filtered (backend a) ?h flt = Inr s" "sv_payload s = payload_at (backend a) flt ?h"
    using read(1) by blast
  have next_p: "?p i @ [sv_payload s] = ?p (Suc i)" by (simp add: payloads_Suc s(2))
  have len: "frame_len (?p i) + range_frame_item_len (length (sv_payload s)) = frame_len (?p (Suc i))"
    unfolding next_p [symmetric] frame_len_snoc ..
  have "frame_len (?p i) \<le> max max_bytes 10"
    using Suc.prems(2) by (auto simp: frame_len_Nil range_frame_header_len_def)
  then have "frame_len (?p (Suc i)) \<le> usize_max"
    using assms(6) read(2) unfolding len [symmetric] s(2) range_frame_item_len_def by simp
  then have add: "usize_checked_add (frame_len (?p i)) (range_frame_item_len (length (sv_payload s)))
      = Some (frame_len (?p (Suc i)))"
    by (simp add: usize_checked_add_def len)
  have upt: "[i..<n] = i # [Suc i..<n]" using Suc.prems(1) by (rule upt_conv_Cons)
  have loop: "range_loop (backend a) flt start max_bytes [i..<n] (?p i) (frame_len (?p i)) =
      (if ?p i \<noteq> [] \<and> frame_len (?p (Suc i)) > max_bytes then Inr (?p i, frame_len (?p i))
       else if frame_len (?p (Suc i)) > max_bytes then Inr (?p (Suc i), frame_len (?p (Suc i)))
       else range_loop (backend a) flt start max_bytes [Suc i..<n] (?p (Suc i)) (frame_len (?p (Suc i))))"
    by (simp only: upt range_loop.simps s(1) and_then_Inr add ok_or_simps next_p)
  have nil: "?p i = [] \<longleftrightarrow> i = 0" using length_payloads [of "backend a" flt start i] by fastforce
  show ?case
  proof (cases "frame_len (?p (Suc i)) > max_bytes")
    case big: True
    show ?thesis
    proof (cases "i = 0")
      case False
      then show ?thesis using big loop nil Suc.prems by (intro exI [of _ i]) (simp add: fitting_prefix_def)
    next
      case True
      have "frame_len (?p (Suc (Suc 0))) \<ge> frame_len (?p (Suc 0))"
        unfolding payloads_Suc [of _ _ _ "Suc 0"] frame_len_snoc by simp
      with True big loop nil Suc.prems show ?thesis
        by (intro exI [of _ "Suc 0"]) (auto simp: fitting_prefix_def)
    qed
  next
    case False
    show ?thesis
    proof (cases "Suc i = n")
      case True
      with False loop show ?thesis by (intro exI [of _ n]) (simp add: fitting_prefix_def)
    next
      case more: False
      have "d = n - Suc i" "Suc i < n" using Suc.hyps(2) Suc.prems(1) more by simp_all
      from Suc.hyps(1) [OF this] False show ?thesis using loop by auto
    qed
  qed
qed simp

end

section \<open>Accepted requests\<close>

text \<open>The count, the byte cap and the cut-through boundary a range query asks for.\<close>

definition query_count :: "AppState \<Rightarrow> SyncRangeQuery \<Rightarrow> u32" where
  "query_count state q = (case sq_count q of None \<Rightarrow> ap_max_range_count state | Some n \<Rightarrow> n)"

definition query_bytes :: "AppState \<Rightarrow> SyncRangeQuery \<Rightarrow> usize" where
  "query_bytes state q = (case sq_max_bytes q of None \<Rightarrow> ap_max_response_bytes state | Some n \<Rightarrow> n)"

definition query_cut_start :: "SyncRangeQuery \<Rightarrow> u64 option" where
  "query_cut_start q = (case sq_cutthrough_start q of Some s \<Rightarrow> Some s
     | None \<Rightarrow> if sq_cutthrough q then Some (sq_start q) else None)"

definition query_filter :: "SyncRangeQuery \<Rightarrow> ChainTip \<Rightarrow> StoredBlockResponseFilter" where
  "query_filter q tip =
     \<lparr>cutthrough_start = query_cut_start q,
      cutthrough_tip = (case query_cut_start q of None \<Rightarrow> None
        | Some _ \<Rightarrow> Some (case sq_cutthrough_tip q of None \<Rightarrow> ct_height tip | Some t \<Rightarrow> t)),
      filter_reuse = sq_filter_reuse q, labels = sq_labels q\<rparr>"

text \<open>The number of blocks a query asks for, cut at the tip.\<close>

definition served_count :: "AppState \<Rightarrow> SyncRangeQuery \<Rightarrow> ChainTip \<Rightarrow> nat" where
  "served_count state q tip = min (unat (query_count state q)) (unat (ct_height tip) - unat (sq_start q) + 1)"

definition cutthrough_ok :: "SyncRangeQuery \<Rightarrow> ChainTip \<Rightarrow> nat \<Rightarrow> bool" where
  "cutthrough_ok q tip last_height \<longleftrightarrow>
     (case query_cut_start q of
        None \<Rightarrow> True
      | Some s \<Rightarrow> s \<le> ct_height tip
          \<and> (case sq_cutthrough_tip q of None \<Rightarrow> True
             | Some t \<Rightarrow> s \<le> t \<and> t \<le> ct_height tip \<and> last_height \<le> unat t))"

definition range_query_ok :: "AppState \<Rightarrow> SyncRangeQuery \<Rightarrow> ChainTip \<Rightarrow> bool" where
  "range_query_ok state q tip \<longleftrightarrow>
     query_count state q \<noteq> 0 \<and> query_count state q \<le> ap_max_range_count state
     \<and> query_bytes state q \<noteq> 0 \<and> query_bytes state q \<le> ap_max_response_bytes state
     \<and> sq_start q \<le> ct_height tip
     \<and> cutthrough_ok q tip (unat (sq_start q) + served_count state q tip - 1)"

definition web_ok :: "web_lib \<Rightarrow> bool" where
  "web_ok lib \<longleftrightarrow> (\<forall>s. (\<forall>c \<in> set s. 32 \<le> (of_char c :: nat) \<and> (of_char c :: nat) < 127) \<longrightarrow>
     header_value_from_str lib s = Inr s)"

lemma digits_visible: "c \<in> set (digits n) \<Longrightarrow> 32 \<le> (of_char c :: nat) \<and> (of_char c :: nat) < 127"
proof (induction n rule: digits.induct)
  case (1 n)
  have digit: "32 \<le> (of_char (digit_char d) :: nat) \<and> (of_char (digit_char d) :: nat) < 127" if "d < 10" for d
    using that by (simp add: digit_char_def)
  have "n mod 10 < 10" by simp
  from 1 digit [OF this] digit [of n] show ?case
    by (subst (asm) (2) digits.simps) (auto split: if_splits)
qed

lemma put_header_number:
  "web_ok lib \<Longrightarrow> put_header lib name (show_word w) r = Inr (insert_header name (show_word w) r)"
  using digits_visible by (simp add: web_ok_def put_header_def show_word_def)

lemma insert_header_lookup [simp]:
  "map_of (rs_headers (insert_header name v r)) k = (if k = name then Some v else map_of (rs_headers r) k)"
  "rs_body (insert_header name v r) = rs_body r"
  by (simp_all add: insert_header_def update_conv')

lemma add_range_headers_ok:
  assumes "web_ok lib"
  obtains r' where "add_range_headers lib info r = Inr r'" and "rs_body r' = rs_body r"
    and "map_of (rs_headers r') ''x-bitcoindata-range-end'' = Some (show_word (ri_end info))"
    and "map_of (rs_headers r) ''x-bitcoindata-next-start'' = None \<Longrightarrow>
      map_of (rs_headers r') ''x-bitcoindata-next-start'' = map_option show_word (ri_next_start info)"
    and "map_of (rs_headers r') ''cache-control'' = map_of (rs_headers r) ''cache-control''"
proof -
  define r5 where "r5 = insert_header ''x-bitcoindata-range-complete'' (if ri_complete info then ''true'' else ''false'')
    (insert_header ''x-bitcoindata-requested-range-end'' (show_word (ri_requested_end info))
    (insert_header ''x-bitcoindata-range-count'' (show_word (ri_count info))
    (insert_header ''x-bitcoindata-range-end'' (show_word (ri_end info))
    (insert_header ''x-bitcoindata-range-start'' (show_word (ri_start info)) r))))"
  define r6 where "r6 = (case ri_next_start info of None \<Rightarrow> r5
    | Some n \<Rightarrow> insert_header ''x-bitcoindata-next-start'' (show_word n) r5)"
  have "add_range_headers lib info r = Inr r6"
    unfolding add_range_headers_def put_header_number [OF assms] and_then_Inr Let_def r5_def [symmetric]
    by (simp add: r6_def split: option.split)
  then show thesis
    by (rule that) (simp_all add: r6_def r5_def insert_header_lookup split: option.split)
qed

lemma unat_min_word: "unat (min a b) = min (unat a) (unat (b :: 'a::len word))"
  by (simp add: min_def word_le_nat_alt)

lemma unat_ucast_small: "unat (x :: u64) < 2 ^ 32 \<Longrightarrow> unat (ucast x :: u32) = unat x"
proof -
  assume "unat x < 2 ^ 32"
  then have "unat (word_of_nat (unat x) :: u32) = unat x" by (intro unat_word_of_nat_small) simp
  then show ?thesis by simp
qed

lemma served_count_word:
  assumes "sq_start q \<le> ct_height tip" and "ct_height tip \<noteq> - 1"
  shows "unat (min (query_count state q) (if unat (ct_height tip - sq_start q + 1) < 2 ^ 32
      then ucast (ct_height tip - sq_start q + 1) else - 1)) = served_count state q tip"
proof -
  let ?av = "ct_height tip - sq_start q + 1"
  have "unat (ct_height tip) \<noteq> 2 ^ 64 - 1"
    using assms(2) checked_add_1 [of "ct_height tip"] by (auto simp: checked_add_def split: if_splits)
  then have lt: "unat (ct_height tip) + 1 < 2 ^ 64" using unat_bounds(4) [of "ct_height tip"] by simp
  have sub: "unat (ct_height tip - sq_start q) = unat (ct_height tip) - unat (sq_start q)"
    using assms(1) by (simp add: unat_sub)
  then have av: "unat ?av = unat (ct_height tip) - unat (sq_start q) + 1"
    using lt by (simp add: unat_word_ariths)
  show ?thesis
  proof (cases "unat ?av < 2 ^ 32")
    case True
    then show ?thesis by (simp add: unat_min_word unat_ucast_small served_count_def av)
  next
    case False
    have "unat (- 1 :: u32) = 2 ^ 32 - 1" by (simp add: unsigned_minus_1_eq_mask mask_eq_exp_minus_1)
    moreover have "unat (query_count state q) \<le> 2 ^ 32 - 1" using unat_bounds(3) [of "query_count state q"] by simp
    ultimately show ?thesis using False by (simp add: unat_min_word served_count_def av)
  qed
qed

lemma resolve_cutthrough_ok:
  assumes "cutthrough_ok q tip (unat required)" and "required \<le> ct_height tip"
  shows "resolve_cutthrough_tip (query_cut_start q) (sq_cutthrough_tip q) tip = Inr (cutthrough_tip (query_filter q tip))"
    and "ensure_cutthrough_tip_covers_height (cutthrough_tip (query_filter q tip)) required = Inr ()"
  using assms
  by (auto simp: cutthrough_ok_def resolve_cutthrough_tip_def ensure_cutthrough_tip_covers_height_def query_filter_def
      Let_def word_le_nat_alt word_less_nat_alt split: option.splits)

lemma end_word: "1 \<le> n \<Longrightarrow> (start :: u64) + word_of_nat n - 1 = start + word_of_nat (n - 1)"
  by (simp add: of_nat_diff)

lemma ucast_word_of_nat: "n < 2 ^ 32 \<Longrightarrow> (ucast (word_of_nat n :: u32) :: u64) = word_of_nat n"
proof -
  assume "n < 2 ^ 32"
  then have "unat (word_of_nat n :: u32) = n" by (intro unat_word_of_nat_small) simp
  then have "(word_of_nat (unat (word_of_nat n :: u32)) :: u64) = word_of_nat n" by simp
  then show ?thesis by simp
qed

text \<open>A handler run to its end, once every check of the request passes.\<close>

lemma block_range_eq:
  assumes ok: "range_query_ok state q t" and tip: "be_tip (ap_archive state) = Inr (Some t)" "ct_height t \<noteq> - 1"
    and manifest: "be_manifest (ap_archive state) = Inr m" and format: "response_format accept = Inr format"
    and n: "n = served_count state q t"
    and loop: "range_loop (ap_archive state) (query_filter q t) (sq_start q) (query_bytes state q) [0..<n] []
      range_frame_header_len = Inr (messages, len)"
    and j: "length messages = j" "1 \<le> j" "j \<le> n"
  shows "block_range lib io state q accept =
    finish_range lib io format
      (filtered_cache_control m t (sq_start q + word_of_nat (j - 1)) (query_cut_start q) (sq_cutthrough_tip q))
      \<lparr>ri_start = sq_start q, ri_end = sq_start q + word_of_nat (j - 1),
       ri_requested_end = sq_start q + word_of_nat (n - 1), ri_count = word_of_nat j, ri_complete = (j = n),
       ri_next_start = (if j = n then None else Some (sq_start q + word_of_nat j))\<rparr> messages"
proof -
  have start: "sq_start q \<le> ct_height t" using ok by (simp add: range_query_ok_def)
  define count where "count = min (query_count state q) (if unat (ct_height t - sq_start q + 1) < 2 ^ 32
      then ucast (ct_height t - sq_start q + 1) else - 1)"
  have cnt: "unat count = n" using served_count_word [OF start tip(2), of state] by (simp add: count_def n)
  have n32: "n < 2 ^ 32" using unat_bounds(3) [of count] by (simp add: cnt)
  have n1: "1 \<le> n" using j by simp
  have "ucast count = (word_of_nat n :: u64)" using cnt by (metis of_nat_unat)
  then have req_end: "sq_start q + ucast count - 1 = sq_start q + word_of_nat (n - 1)"
    using end_word [OF n1, of "sq_start q"] by simp
  have bound: "n - 1 \<le> unat (ct_height t) - unat (sq_start q)" by (simp add: n served_count_def)
  note last = unat_start_plus [OF start bound]
  have "unat (sq_start q + word_of_nat (n - 1)) = unat (sq_start q) + n - 1" using last(1) n1 by simp
  then have "cutthrough_ok q t (unat (sq_start q + word_of_nat (n - 1)))"
    using ok by (simp add: range_query_ok_def n)
  note cut = resolve_cutthrough_ok [OF this last(2)]
  have j32: "j < 2 ^ 32" using j n32 by simp
  have num: "try_from_nat (length messages) = Inr (word_of_nat j :: u32)" using j32 by (simp add: try_from_nat_def j)
  have end_j: "sq_start q + ucast (word_of_nat j :: u32) - 1 = sq_start q + word_of_nat (j - 1)"
    unfolding ucast_word_of_nat [OF j32] by (rule end_word [OF j(2)])
  have "j - 1 \<le> unat (ct_height t) - unat (sq_start q)" using bound j by simp
  note at_j = unat_start_plus(1) [OF start this]
  have complete: "sq_start q + word_of_nat (n - 1) \<le> sq_start q + word_of_nat (j - 1) \<longleftrightarrow> j = n"
    unfolding word_le_nat_alt last(1) at_j using j by auto
  have step: "sq_start q + word_of_nat (j - 1) + 1 = sq_start q + word_of_nat j"
    using j(2) by (simp add: of_nat_diff)
  have nonempty: "messages \<noteq> []" using j by auto
  have checks: "query_count state q \<noteq> 0" "\<not> query_count state q > ap_max_range_count state"
    "query_bytes state q \<noteq> 0" "\<not> query_bytes state q > ap_max_response_bytes state" "\<not> sq_start q > ct_height t"
    using ok by (simp_all add: range_query_ok_def not_less)
  have flt: "\<lparr>cutthrough_start = query_cut_start q, cutthrough_tip = cutthrough_tip (query_filter q t),
      filter_reuse = sq_filter_reuse q, labels = sq_labels q\<rparr> = query_filter q t"
    by (simp add: query_filter_def)
  have api_Inr: "api (Inr x) = Inr x" for x by (simp add: api_def)
  show ?thesis
    unfolding block_range_def Let_def query_count_def [symmetric] query_bytes_def [symmetric]
      query_cut_start_def [symmetric] count_def [symmetric] served_tip_def tip(1) manifest format
      api_Inr and_then_Inr ok_or_simps if_not_P [OF checks(1)] if_not_P [OF checks(2)] if_not_P [OF checks(3)]
      if_not_P [OF checks(4)] if_not_P [OF checks(5)] req_end cut flt cnt loop prod.case
      if_not_P [OF nonempty] num end_j complete step ..
qed

lemma finish_range_capnp:
  assumes "web_ok lib" and "frameable msgs"
  obtains r where "finish_range lib io Capnp cc info msgs = Inr r" and "rs_body r = frame_layout msgs"
    and "map_of (rs_headers r) ''x-bitcoindata-range-end'' = Some (show_word (ri_end info))"
    and "map_of (rs_headers r) ''x-bitcoindata-next-start'' = map_option show_word (ri_next_start info)"
    and "map_of (rs_headers r) ''cache-control'' = Some cc"
proof -
  let ?r = "binary_response (frame_layout msgs) cc"
  have frame: "frame_range msgs = Inr (frame_layout msgs)" using assms(2) by (simp add: frame_range_layout)
  obtain r' where r': "add_range_headers lib info ?r = Inr r'" "rs_body r' = rs_body ?r"
    "map_of (rs_headers r') ''x-bitcoindata-range-end'' = Some (show_word (ri_end info))"
    "map_of (rs_headers ?r) ''x-bitcoindata-next-start'' = None \<Longrightarrow>
       map_of (rs_headers r') ''x-bitcoindata-next-start'' = map_option show_word (ri_next_start info)"
    "map_of (rs_headers r') ''cache-control'' = map_of (rs_headers ?r) ''cache-control''"
    using add_range_headers_ok [OF assms(1), of info ?r] by metis
  have "map_of (rs_headers ?r) ''x-bitcoindata-next-start'' = None"
    "map_of (rs_headers ?r) ''cache-control'' = Some cc" "rs_body ?r = frame_layout msgs"
    by (simp_all add: binary_response_def response_with_content_type_def)
  with r' show thesis by (intro that [of r']) (simp_all add: finish_range_def frame api_def)
qed

text \<open>The state of a server that may answer: its archive, tip and caps.\<close>

definition serving :: "AppState \<Rightarrow> ChainTip \<Rightarrow> bool" where
  "serving state t \<longleftrightarrow> be_tip (ap_archive state) = Inr (Some t) \<and> ct_height t \<noteq> - 1
     \<and> ap_max_response_bytes state + 2 ^ 33 \<le> usize_max"

text \<open>
  What a range response holds: the frame of the longest prefix of the requested
  blocks that fits the byte cap, at least one, and the height to go on from.
\<close>

definition range_response :: "AppState \<Rightarrow> SyncRangeQuery \<Rightarrow> ChainTip \<Rightarrow> nat \<Rightarrow> Response \<Rightarrow> bool" where
  "range_response state q t j r \<longleftrightarrow>
     (let msgs = payloads (ap_archive state) (query_filter q t) (sq_start q) in
      parse_range (rs_body r) = Inr (msgs j)
      \<and> fitting_prefix msgs (query_bytes state q) (served_count state q t) j
      \<and> map_of (rs_headers r) ''x-bitcoindata-range-end'' = Some (show_word (sq_start q + word_of_nat (j - 1)))
      \<and> map_of (rs_headers r) ''x-bitcoindata-next-start'' =
          (if j = served_count state q t then None else Some (show_word (sq_start q + word_of_nat j))))"

context served_archive
begin

lemma block_range_served:
  assumes "good first a" and "serving state t" and "ap_archive state = backend a"
    and "first \<le> sq_start q" and "range_query_ok state q t" and "web_ok lib" and "response_format accept = Inr Capnp"
  shows "\<exists>j r. block_range lib io state q accept = Inr r \<and> range_response state q t j r"
proof -
  let ?n = "served_count state q t" and ?p = "payloads (backend a) (query_filter q t) (sq_start q)"
  have tip: "be_tip (backend a) = Inr (Some t)" "ct_height t \<noteq> - 1"
    using assms(2,3) by (simp_all add: serving_def)
  obtain m where m: "be_manifest (backend a) = Inr m" using tip_ok [OF assms(1)] by blast
  have q: "sq_start q \<le> ct_height t" "query_bytes state q + 2 ^ 33 \<le> usize_max" "0 < ?n"
    using assms(2,5) by (auto simp: range_query_ok_def serving_def served_count_def unat_gt_0)
  have n: "?n \<le> unat (ct_height t) - unat (sq_start q) + 1" by (simp add: served_count_def)
  obtain j where loop: "range_loop (backend a) (query_filter q t) (sq_start q) (query_bytes state q) [0..<?n] []
        range_frame_header_len = Inr (?p j, frame_len (?p j))"
      and fit: "fitting_prefix ?p (query_bytes state q) ?n j"
    using range_loop_prefix [OF assms(1) tip(1) assms(4) q(1) n q(2) q(3), of "query_filter q t"]
    by (auto simp: frame_len_Nil)
  have j: "1 \<le> j" "j \<le> ?n" using fit by (simp_all add: fitting_prefix_def)
  have n32: "?n < 2 ^ 32" using unat_bounds(3) [of "query_count state q"] by (simp add: served_count_def)
  have small: "length (payload_at (backend a) (query_filter q t) (sq_start q + word_of_nat k)) < 2 ^ 32" if "k < j" for k
  proof -
    have "k \<le> unat (ct_height t) - unat (sq_start q)" using that j n by simp
    note h = unat_start_plus [OF q(1) this]
    from h(3) assms(4) have "first \<le> sq_start q + word_of_nat k" by auto
    then show ?thesis using read_payload(2) [OF assms(1) tip(1) _ h(2)] by blast
  qed
  have frameable: "frameable (?p j)" using j n32 small by (auto simp: frameable_def payloads_def)
  let ?info = "\<lparr>ri_start = sq_start q, ri_end = sq_start q + word_of_nat (j - 1),
       ri_requested_end = sq_start q + word_of_nat (?n - 1), ri_count = word_of_nat j, ri_complete = (j = ?n),
       ri_next_start = (if j = ?n then None else Some (sq_start q + word_of_nat j))\<rparr>"
  let ?cc = "filtered_cache_control m t (sq_start q + word_of_nat (j - 1)) (query_cut_start q) (sq_cutthrough_tip q)"
  have eq: "block_range lib io state q accept = finish_range lib io Capnp ?cc ?info (?p j)"
    by (rule block_range_eq [OF assms(5) _ tip(2) _ assms(7) refl, unfolded assms(3), OF tip(1) m loop
        length_payloads j])
  obtain r where r: "block_range lib io state q accept = Inr r" "rs_body r = frame_layout (?p j)"
      "map_of (rs_headers r) ''x-bitcoindata-range-end'' = Some (show_word (ri_end ?info))"
      "map_of (rs_headers r) ''x-bitcoindata-next-start'' = map_option show_word (ri_next_start ?info)"
    using finish_range_capnp [OF assms(6) frameable, of io ?cc ?info] eq by metis
  have "parse_range (rs_body r) = Inr (?p j)"
    using parse_frame_layout [OF frameable, of "[]"] by (simp add: r(2))
  with r fit show ?thesis by (intro exI [of _ j] exI [of _ r]) (simp add: range_response_def assms(3))
qed

end

section \<open>A client that follows the ranges\<close>

text \<open>
  The client repeats a range request from the height after the last block it
  got until it has the blocks up to the height \<open>last_height\<close>.
\<close>

fun sync :: "nat \<Rightarrow> web_lib \<Rightarrow> capnp_io \<Rightarrow> AppState \<Rightarrow> u64 \<Rightarrow> SyncRangeQuery \<Rightarrow> bytes list option" where
  "sync 0 lib io state last_height q = None"
| "sync (Suc fuel) lib io state last_height q =
     (if sq_start q > last_height then Some []
      else case block_range lib io state q None of
          Inl _ \<Rightarrow> None
        | Inr r \<Rightarrow> (case parse_range (rs_body r) of
              Inl _ \<Rightarrow> None
            | Inr msgs \<Rightarrow> map_option (append msgs)
                (sync fuel lib io state last_height (q\<lparr>sq_start := sq_start q + word_of_nat (length msgs)\<rparr>))))"

text \<open>Queries whose filter is the same for every start height.\<close>

definition steady_query :: "AppState \<Rightarrow> SyncRangeQuery \<Rightarrow> ChainTip \<Rightarrow> bool" where
  "steady_query state q t \<longleftrightarrow>
     query_count state q \<noteq> 0 \<and> query_count state q \<le> ap_max_range_count state
     \<and> query_bytes state q \<noteq> 0 \<and> query_bytes state q \<le> ap_max_response_bytes state
     \<and> \<not> sq_cutthrough q \<and> sq_cutthrough_tip q = None
     \<and> (case sq_cutthrough_start q of None \<Rightarrow> True | Some s \<Rightarrow> s \<le> ct_height t)"

lemma steady_query_start:
  "steady_query state (q\<lparr>sq_start := s\<rparr>) t = steady_query state q t"
  "steady_query state q t \<Longrightarrow> query_filter (q\<lparr>sq_start := s\<rparr>) t = query_filter q t"
  by (simp_all add: steady_query_def query_count_def query_bytes_def query_filter_def query_cut_start_def
      split: option.split)

lemma steady_query_ok: "steady_query state q t \<Longrightarrow> sq_start q \<le> ct_height t \<Longrightarrow> range_query_ok state q t"
  by (auto simp: steady_query_def range_query_ok_def cutthrough_ok_def query_cut_start_def split: option.splits)

lemma payloads_append:
  "payloads archive flt start m @ payloads archive flt (start + word_of_nat m) n = payloads archive flt start (m + n)"
  by (induction n) (simp_all add: payloads_Suc add.assoc flip: of_nat_add)

context served_archive
begin

lemma sync_all:
  assumes "good first a" and "serving state t" and "ap_archive state = backend a" and "web_ok lib"
  shows "first \<le> sq_start q \<Longrightarrow> steady_query state q t \<Longrightarrow>
    unat (sq_start q) \<le> unat (ct_height t) + 1 \<Longrightarrow> unat (ct_height t) + 1 - unat (sq_start q) < fuel \<Longrightarrow>
    sync fuel lib io state (ct_height t) q = Some (payloads (backend a) (query_filter q t) (sq_start q)
      (unat (ct_height t) + 1 - unat (sq_start q)))"
proof (induction fuel arbitrary: q)
  case (Suc fuel)
  let ?todo = "unat (ct_height t) + 1 - unat (sq_start q)"
  show ?case
  proof (cases "sq_start q > ct_height t")
    case True
    then show ?thesis by (simp add: word_less_nat_alt)
  next
    case False
    then have start: "sq_start q \<le> ct_height t" by simp
    have none: "response_format None = Inr Capnp" by (simp add: response_format_def)
    obtain j r where r: "block_range lib io state q None = Inr r" "range_response state q t j r"
      using block_range_served [OF assms(1-3) Suc.prems(1) steady_query_ok [OF Suc.prems(2) start] assms(4) none]
      by blast
    then have body: "parse_range (rs_body r) = Inr (payloads (backend a) (query_filter q t) (sq_start q) j)"
      and j: "1 \<le> j" "j \<le> ?todo"
      using start by (auto simp: range_response_def assms(3) fitting_prefix_def Let_def served_count_def word_le_nat_alt)
    let ?q = "q\<lparr>sq_start := sq_start q + word_of_nat j\<rparr>"
    have "ct_height t \<noteq> - 1" using assms(2) by (simp add: serving_def)
    then have "unat (ct_height t) + 1 < 2 ^ 64"
      using checked_add_1 [of "ct_height t"] by (auto simp: checked_add_def split: if_splits)
    then have s: "unat (sq_start ?q) = unat (sq_start q) + j"
      using j start unat_word_of_nat_small [of j, where 'a = 64] by (simp add: unat_word_ariths word_le_nat_alt)
    have "first \<le> sq_start ?q" using Suc.prems(1) s by (simp add: word_le_nat_alt)
    moreover have "steady_query state ?q t" using Suc.prems(2) by (simp add: steady_query_start)
    moreover have "unat (sq_start ?q) \<le> unat (ct_height t) + 1"
      "unat (ct_height t) + 1 - unat (sq_start ?q) < fuel"
      unfolding s using j Suc.prems(3,4) start by (simp_all add: word_le_nat_alt)
    ultimately have "sync fuel lib io state (ct_height t) ?q = Some (payloads (backend a) (query_filter q t)
        (sq_start q + word_of_nat j) (?todo - j))"
      using Suc.IH [of ?q] steady_query_start(2) [OF Suc.prems(2)] unfolding s by simp
    then show ?thesis
      using False r(1) body j payloads_append [of "backend a" "query_filter q t" "sq_start q" j "?todo - j"] by simp
  qed
qed simp

end

section \<open>A small archive\<close>

text \<open>An archived block without transactions at height 100, its manifest, and libraries that serve it.\<close>

definition empty_block :: StoredLightBlockInput where
  "empty_block =
     \<lparr>sb_height = 100, sb_block_hash = replicate 32 1, sb_previous_block_hash = replicate 32 2,
      sb_first_uid = 7, sb_tx_count = 0, sb_skipped_txs_for_tweaks = [], sb_tweaks = [], sb_skipped_outputs = [],
      sb_outputs = [], sb_spends = [], sb_raw_block_bytes = 1,
      sb_truncated_output_hash_for_two_labels = [], sb_truncated_output_hash_for_hundred_labels = []\<rparr>"

lemma empty_valid: "valid_stored empty_block"
  by (simp add: valid_stored_def tweaks_fit_def slots_fit_def outputs_accounted_def stored_hash_len_def
      empty_block_def valid_bitmap_def skipped_set_def encodable_ids_def declared_outputs_def)

lemma empty_archived: "archived empty_block"
  using empty_valid by (simp add: archived_def empty_block_def)

text \<open>Its response is the same for every filter.\<close>

lemma empty_filtered:
  assumes "sha256_ok sha256"
  shows "\<exists>r. \<forall>flt. to_filtered_response_input sha256 empty_block flt = Inr r"
proof -
  obtain count ids where e: "encode_spent_ids_elias_delta_ascending_absolute [] = Inr (count, ids)"
    using valid_stored_response_ok [OF empty_valid, of None]
    by (auto simp: is_ok_iff to_response_input_for_labels_def empty_block_def Let_def result_simps)
  let ?r = "response_of empty_block [] [] 0 [] (count, ids)"
  have active: "\<exists>r. to_filtered_response_input sha256 empty_block flt = Inr r" for flt
    using filtered_response_total [OF assms empty_archived] by (simp add: empty_block_def)
  have "r = ?r" if "to_filtered_response_input sha256 empty_block flt = Inr r" for flt r
    using that e by (auto simp: to_filtered_response_input_def to_response_input_for_labels_def empty_block_def Let_def
        result_simps response_of_def choose_truncated_output_hash_bits_def pack_truncated_output_hash_from_keys_def
        split: if_splits)
  with active show ?thesis by (metis)
qed

definition sample_tip :: ChainTip where
  "sample_tip = \<lparr>ct_height = 100, ct_block_hash = []\<rparr>"

definition sample_manifest :: Manifest where
  "sample_manifest = \<lparr>mf_version = 1, mf_network = ''fixture'', mf_genesis_hash = None, mf_finality_depth = 6,
     mf_suggested_reorg_cache_depth = 144, mf_max_range_count = 1000, mf_tip = Some sample_tip\<rparr>"

definition sample_json :: json_lib where
  "sample_json = \<lparr>manifest_to_json = \<lambda>_. Inr [], manifest_from_json = \<lambda>_. Inr sample_manifest\<rparr>"

definition sample_web :: web_lib where
  "sample_web = \<lparr>hex_encode = \<lambda>_. [], to_vec_pretty = \<lambda>_. Inr [], header_value_from_str = Inr\<rparr>"

definition sample_fs :: archive_fs where
  "sample_fs = \<lparr>af_manifest = Some [], af_blocks = Some [(block_path 100, [])]\<rparr>"

definition sample_query :: SyncRangeQuery where
  "sample_query = \<lparr>sq_start = 100, sq_count = None, sq_cutthrough = False, sq_cutthrough_start = None,
     sq_cutthrough_tip = None, sq_filter_reuse = False, sq_labels = None, sq_max_bytes = None\<rparr>"

lemma sample_web_ok: "web_ok sample_web"
  by (simp add: web_ok_def sample_web_def)

lemma sample_archive:
  obtains io where "archive_good (\<lambda>_. replicate 32 0) io sample_json 100 sample_fs"
proof -
  have sha: "sha256_ok (\<lambda>_. replicate 32 0)" by (simp add: sha256_ok_def)
  obtain r where r: "\<And>flt. to_filtered_response_input (\<lambda>_. replicate 32 0) empty_block flt = Inr r"
    using empty_filtered [OF sha] by blast
  let ?io = "\<lparr>write_light = \<lambda>_. Inr [], read_light = \<lambda>_. encode_light_block r, write_stored = \<lambda>_. Inr [],
    read_stored = \<lambda>_. encode_stored_light_block empty_block\<rparr>"
  have "stored_transport ?io empty_block" by (simp add: stored_transport_def)
  then obtain m out where "encode_stored_light_block empty_block = Inr m"
    "write_stored ?io m = Inr out" "decode_stored_light_block ?io out = Inr empty_block"
    using archived_reread [OF empty_archived] by metis
  then have dec: "decode_stored_light_block ?io [] = Inr empty_block" by simp
  have "block_at sample_fs 100 = Some []" by (simp add: block_file_def sample_fs_def)
  with dec have "archive_view ?io sample_fs 100 = Some empty_block" unfolding archive_view_eq_Some by blast
  moreover have "servable (\<lambda>_. replicate 32 0) ?io 100 empty_block"
    unfolding servable_def r by (simp add: response_transport_def empty_block_def)
  moreover have "h = 100" if "100 \<le> h" "h \<le> ct_height sample_tip" for h :: u64
    using that by (simp add: sample_tip_def)
  moreover have "read_manifest sample_json sample_fs = Inr sample_manifest" "mf_tip sample_manifest = Some sample_tip"
    by (simp_all add: read_manifest_def sample_fs_def sample_json_def sample_manifest_def)
  ultimately have "archive_good (\<lambda>_. replicate 32 0) ?io sample_json 100 sample_fs"
    unfolding archive_good_def using sha by metis
  then show thesis by (rule that)
qed

definition sample_state :: "capnp_io \<Rightarrow> AppState" where
  "sample_state io = app_state (new_config []) (file_backend (\<lambda>_. replicate 32 0) io sample_json sample_fs)"

lemma sample_serving: "serving (sample_state io) sample_tip"
  by (simp add: serving_def sample_state_def app_state_def file_backend_def archive_tip_def read_manifest_def
      sample_fs_def sample_json_def sample_manifest_def sample_tip_def new_config_def DEFAULT_MAX_RESPONSE_BYTES_def
      usize_max_def)

lemma sample_query_steady: "steady_query (sample_state io) sample_query sample_tip"
  by (simp add: steady_query_def sample_query_def query_count_def query_bytes_def sample_state_def app_state_def
      new_config_def DEFAULT_MAX_RESPONSE_BYTES_def DEFAULT_MAX_RANGE_COUNT_def)

lemma sample_state_archive:
  "ap_archive (sample_state io) = file_backend (\<lambda>_. replicate 32 0) io sample_json sample_fs"
  by (simp add: sample_state_def app_state_def)

section \<open>Properties\<close>

text \<open>
  C6: a range request that passes the handler's checks is answered from an
  archive in order: the body is the frame of the longest prefix of the
  requested blocks whose frame fits the byte cap, and at least of the first
  block; each of its payloads decodes to the light block of its height,
  consecutively from the start; the headers carry the last height and, exactly
  when blocks are left, the height to go on from.
\<close>

theorem range_request_served:
  assumes "archive_good sha256 io json first_height fs" and "serving state t"
    and "ap_archive state = file_backend sha256 io json fs" and "first_height \<le> sq_start q"
    and "range_query_ok state q t" and "web_ok lib" and "response_format accept = Inr Capnp"
  shows "\<exists>j r. block_range lib io state q accept = Inr r \<and> range_response state q t j r
    \<and> (\<forall>k < j. \<exists>lb. decode_light_block io (payload_at (ap_archive state) (query_filter q t)
          (sq_start q + word_of_nat k)) = Inr lb \<and> lb_height lb = sq_start q + word_of_nat k)"
proof -
  obtain j r where r: "block_range lib io state q accept = Inr r" "range_response state q t j r"
    using fa.block_range_served [OF assms] by blast
  have tip: "be_tip (file_backend sha256 io json fs) = Inr (Some t)"
    using assms(2,3) by (simp add: serving_def)
  have start: "sq_start q \<le> ct_height t" using assms(5) by (simp add: range_query_ok_def)
  have "\<exists>lb. decode_light_block io (payload_at (ap_archive state) (query_filter q t)
          (sq_start q + word_of_nat k)) = Inr lb \<and> lb_height lb = sq_start q + word_of_nat k" if "k < j" for k
  proof -
    have "k \<le> unat (ct_height t) - unat (sq_start q)"
      using that r(2) by (auto simp: range_response_def fitting_prefix_def served_count_def Let_def)
    note h = unat_start_plus [OF start this]
    from h(3) assms(4) have "first_height \<le> sq_start q + word_of_nat k" by auto
    then show ?thesis unfolding assms(3) using fa.read_payload(3) [OF assms(1) tip _ h(2)] by blast
  qed
  with r show ?thesis by blast
qed

theorem range_request_served_witness:
  "\<exists>io j r. block_range sample_web io (sample_state io) sample_query None = Inr r
    \<and> range_response (sample_state io) sample_query sample_tip j r"
proof -
  obtain io where good: "archive_good (\<lambda>_. replicate 32 0) io sample_json 100 sample_fs" by (rule sample_archive)
  have "range_query_ok (sample_state io) sample_query sample_tip"
    by (rule steady_query_ok [OF sample_query_steady]) (simp add: sample_query_def sample_tip_def)
  moreover have "(100 :: u64) \<le> sq_start sample_query" by (simp add: sample_query_def)
  moreover have "response_format None = Inr Capnp" by (simp add: response_format_def)
  ultimately show ?thesis
    using range_request_served [OF good sample_serving sample_state_archive _ _ sample_web_ok] by blast
qed

text \<open>
  C7: a client that repeats range requests, each from the height after the
  last block it received, ends with every block from its start to the served
  tip, once each and in order, whatever the byte cap: one request per missing
  block is enough.
\<close>

theorem sync_reaches_tip:
  assumes "archive_good sha256 io json first_height fs" and "serving state t"
    and "ap_archive state = file_backend sha256 io json fs" and "web_ok lib"
    and "first_height \<le> sq_start q" and "steady_query state q t" and "sq_start q \<le> ct_height t"
    and "unat (ct_height t) + 1 - unat (sq_start q) < fuel"
  shows "sync fuel lib io state (ct_height t) q = Some (payloads (ap_archive state) (query_filter q t) (sq_start q)
    (unat (ct_height t) + 1 - unat (sq_start q)))"
  unfolding assms(3)
  by (rule fa.sync_all [OF assms(1-6) _ assms(8)]) (use assms(7) in \<open>simp add: word_le_nat_alt\<close>)

theorem sync_reaches_tip_witness:
  "\<exists>io. sync 2 sample_web io (sample_state io) 100 sample_query
    = Some (payloads (ap_archive (sample_state io)) (query_filter sample_query sample_tip) 100 1)"
proof -
  obtain io where good: "archive_good (\<lambda>_. replicate 32 0) io sample_json 100 sample_fs" by (rule sample_archive)
  have "sq_start sample_query = 100" "ct_height sample_tip = 100" by (simp_all add: sample_query_def sample_tip_def)
  then show ?thesis
    using sync_reaches_tip [OF good sample_serving sample_state_archive sample_web_ok _ sample_query_steady, of 2]
    by (intro exI [of _ io]) simp
qed

end
