(* ===== verification/Light_Indexer.thy ===== *)
theory Light_Indexer
  imports Block_Source Sp_Tweak Store_Mirror Profile Server "HOL-Library.Product_Lexorder"
begin

text \<open>
  The indexer binary of \<^verbatim>\<open>light-server/src/bin/light_indexer.rs\<close>: decoding of block
  frames, scan points from undo data, validation of a fetched chunk, the
  candidate lookup, the catch-up pass that applies, archives and commits a
  range of blocks, and the fixture archive. The parsing of consensus bytes and of x-only keys are
  code of the \<^verbatim>\<open>bitcoin\<close> and \<^verbatim>\<open>secp256k1\<close> crates (\<open>chain_lib\<close>). Timing, logging
  and command-line parsing are left out. A pass returns the file system and the
  database beside its result; an error leaves them as written so far.
\<close>

section \<open>Decoding a block frame\<close>

record btc_tx_in =
  bi_txid :: bytes
  bi_vout :: u32
  bi_script_sig :: bytes
  bi_witness :: "bytes list"

record btc_tx_out =
  bo_value_sat :: u64
  bo_script_pubkey :: bytes

record btc_tx =
  bx_txid :: bytes
  bx_input :: "btc_tx_in list"
  bx_output :: "btc_tx_out list"

record btc_block =
  bb_block_hash :: bytes
  bb_prev_blockhash :: bytes
  bb_txdata :: "btc_tx list"

record ('x, 'pk, 'sc) chain_lib =
  cl_sha256 :: sha256_fun
  cl_tests :: script_tests
  cl_secp :: "('x, 'pk, 'sc) secp_lib"
  cl_deserialize :: "bytes \<Rightarrow> btc_block result"
  cl_xonly_from_slice :: "bytes \<Rightarrow> 'x result"

definition sp_error :: "SpTweakError \<Rightarrow> error" where
  "sp_error e = (case e of
       PublicKeySumInfinityError \<Rightarrow> Error ''eligible input public-key sum is infinity''
     | EmptyNonCoinbaseInputSet \<Rightarrow> Error ''non-empty non-coinbase input set expected''
     | InvalidInputHashScalar \<Rightarrow> Error ''BIP352 input hash is not a valid secp256k1 scalar''
     | ScanPointMultiplication \<Rightarrow> Error ''BIP352 scan point multiplication failed''
     | InvalidCompressedInputPublicKey \<Rightarrow> Error ''invalid compressed input public key''
     | MissingPrevoutPanic \<Rightarrow> Error ''missing prevout handled before scan-point computation'')"

definition prevout_info_from_spent_txout ::
    "('x, 'pk, 'sc) chain_lib \<Rightarrow> SpentTxOut \<Rightarrow> 'x PrevoutInfo result" where
  "prevout_info_from_spent_txout lib prevout =
     and_then (case classify_script (cl_tests lib) (sx_script_pubkey prevout) of
         P2pkh hash160 \<Rightarrow> Inr (PrevP2pkh hash160)
       | P2sh hash160 \<Rightarrow> Inr (PrevP2sh hash160)
       | P2wpkh hash160 \<Rightarrow> Inr (PrevP2wpkh hash160)
       | P2tr xonly_key \<Rightarrow> and_then (cl_xonly_from_slice lib xonly_key) (\<lambda>key. Inr (PrevP2tr key))
       | WitnessUnknown version _ \<Rightarrow>
           Inr (if version \<ge> 2 then PrevWitnessUnknown version else PrevOther)
       | P2wsh _ \<Rightarrow> Inr PrevOther
       | OpReturn \<Rightarrow> Inr PrevOther
       | Other \<Rightarrow> Inr PrevOther) (\<lambda>script. Inr \<lparr>pi_script = script\<rparr>)"

definition input_context :: "('x, 'pk, 'sc) chain_lib \<Rightarrow> TxInputScan \<times> SpentTxOut \<Rightarrow> 'x TxInputContext result" where
  "input_context lib pair =
     and_then (prevout_info_from_spent_txout lib (snd pair)) (\<lambda>prevout.
       Inr \<lparr>tc_previous_output = ti_previous_output (fst pair), tc_script_sig = ti_script_sig (fst pair),
            tc_witness = ti_witness (fst pair), tc_prevout = Some prevout\<rparr>)"

definition compute_sp_tweak_from_undo :: "('x, 'pk, 'sc) chain_lib \<Rightarrow> usize \<Rightarrow> TxInputScan list
    \<Rightarrow> TxOutputScan list \<Rightarrow> BlockSpentTxOuts option \<Rightarrow> bytes option result" where
  "compute_sp_tweak_from_undo lib tx_index inputs outputs spent_txouts =
     (if \<not> list_ex to_is_p2tr outputs then Inr None
      else if tx_index = 0 then Inr None
      else
        and_then (ok_or spent_txouts ''missing spenttxouts undo data'') (\<lambda>spent_txouts.
        and_then (ok_or (if tx_index < length (bt_txs spent_txouts) then Some (bt_txs spent_txouts ! tx_index) else None)
          ''spenttxouts missing undo tx entry'') (\<lambda>undo_inputs.
        and_then (ensure (length undo_inputs = length inputs) ''spenttxouts input count mismatch'') (\<lambda>_.
        and_then (try_map (input_context lib) (zip inputs undo_inputs)) (\<lambda>context.
        case compute_tx_scan_point (cl_sha256 lib) (cl_tests lib) (cl_secp lib) context of
          Inl e \<Rightarrow> Inl (sp_error e)
        | Inr (Computed tweak) \<Rightarrow> Inr (Some tweak)
        | Inr (Ineligible _) \<Rightarrow> Inr None
        | Inr (MissingPrevout _) \<Rightarrow> Inr None)))))"

definition decode_input :: "btc_tx_in \<Rightarrow> TxInputScan" where
  "decode_input input =
     \<lparr>ti_previous_output = \<lparr>op_txid = bi_txid input, op_vout = bi_vout input\<rparr>,
      ti_script_sig = bi_script_sig input, ti_witness = bi_witness input\<rparr>"

definition decode_output :: "script_tests \<Rightarrow> nat \<times> btc_tx_out \<Rightarrow> TxOutputScan result" where
  "decode_output tests vo =
     and_then (try_from_nat (fst vo)) (\<lambda>vout.
     let script_bytes = bo_script_pubkey (snd vo); p2tr_key = extract_p2tr_xonly tests script_bytes
     in Inr \<lparr>to_vout = vout, to_value_sat = bo_value_sat (snd vo), to_script_pubkey = script_bytes,
          to_p2tr_xonly_key = p2tr_key, to_is_p2tr = (p2tr_key \<noteq> None), to_is_nums = False\<rparr>)"

definition decode_tx :: "('x, 'pk, 'sc) chain_lib \<Rightarrow> BlockSpentTxOuts option \<Rightarrow> nat \<times> btc_tx
    \<Rightarrow> TxScanInput result" where
  "decode_tx lib spent_txouts it =
     (let (tx_index, tx) = it; inputs = map decode_input (bx_input tx) in
      and_then (try_map (decode_output (cl_tests lib)) (List.enumerate 0 (bx_output tx))) (\<lambda>outputs.
      and_then (compute_sp_tweak_from_undo lib tx_index inputs outputs spent_txouts) (\<lambda>tweak.
      Inr \<lparr>tx_txid = bx_txid tx, tx_tx_index = word_of_nat tx_index, tx_inputs = inputs,
           tx_outputs = outputs, tx_silent_payment_tweak = tweak\<rparr>)))"

definition decode_block_frame :: "('x, 'pk, 'sc) chain_lib \<Rightarrow> u64 \<Rightarrow> bytes \<Rightarrow> bytes
    \<Rightarrow> BlockSpentTxOuts option \<Rightarrow> BlockScanInput result" where
  "decode_block_frame lib height source_hash bs spent_txouts =
     and_then (cl_deserialize lib bs) (\<lambda>block.
     and_then (ensure (bb_block_hash block = source_hash) ''source hash mismatch'') (\<lambda>_.
     and_then (try_map (decode_tx lib spent_txouts) (List.enumerate 0 (bb_txdata block))) (\<lambda>txs.
     and_then (try_from_nat (length bs)) (\<lambda>raw_block_bytes.
     Inr \<lparr>bs_height = height, bs_block_hash = source_hash, bs_previous_block_hash = bb_prev_blockhash block,
          bs_raw_block_bytes = raw_block_bytes, bs_txs = txs\<rparr>))))"

section \<open>Fetching a chunk\<close>

record DecodedChunk =
  dc_blocks :: "BlockScanInput list"
  dc_raw_bytes :: usize

fun attach_undo :: "RawBlockFrame list \<Rightarrow> BlockSpentTxOuts option list \<Rightarrow> RawBlockFrame list" where
  "attach_undo [] fetched = []"
| "attach_undo (frame # frames) fetched =
     (case rf_spent_txouts frame of
        Some _ \<Rightarrow> frame # attach_undo frames fetched
      | None \<Rightarrow> (case fetched of
            [] \<Rightarrow> frame # attach_undo frames []
          | undo # rest \<Rightarrow> frame\<lparr>rf_spent_txouts := undo\<rparr> # attach_undo frames rest))"

definition decode_frame :: "('x, 'pk, 'sc) chain_lib \<Rightarrow> RawBlockFrame \<Rightarrow> BlockScanInput result" where
  "decode_frame lib frame =
     and_then (ok_or (rf_spent_txouts frame) ''undo source did not return spenttxouts'') (\<lambda>spent_txouts.
       decode_block_frame lib (rf_height frame) (rf_hash frame) (rf_bytes frame) (Some spent_txouts))"

text \<open>The frames are decoded concurrently; the result does not depend on the order but for the choice of the error.\<close>

definition fetch_and_decode_chunk :: "('x, 'pk, 'sc) chain_lib \<Rightarrow> BlockSource \<Rightarrow> BlockSource \<Rightarrow> u64 \<Rightarrow> usize
    \<Rightarrow> DecodedChunk result" where
  "fetch_and_decode_chunk lib source undo_source chunk_start chunk_count =
     and_then (src_get_block_range_by_height source chunk_start chunk_count) (\<lambda>frames.
     and_then (ensure (frames \<noteq> []) ''source returned an empty block range'') (\<lambda>_.
     let missing_undo = filter (\<lambda>frame. rf_spent_txouts frame = None) frames in
     and_then (if missing_undo = [] then Inr frames
       else and_then (src_get_blocks_spent_txouts undo_source (map rf_hash missing_undo)) (\<lambda>fetched.
         and_then (ensure (length fetched = length missing_undo)
           ''undo source returned a wrong number of spenttxouts entries'') (\<lambda>_.
         Inr (attach_undo frames fetched)))) (\<lambda>frames.
     and_then (try_map (decode_frame lib) frames) (\<lambda>blocks.
     Inr \<lparr>dc_blocks = sort_key bs_height blocks, dc_raw_bytes = (\<Sum>frame \<leftarrow> frames. length (rf_bytes frame))\<rparr>))))"

fun validate_links :: "BlockScanInput list \<Rightarrow> unit result" where
  "validate_links (prev # current # rest) =
     and_then (ensure (bs_height current = bs_height prev + 1) ''decoded block heights are not contiguous'') (\<lambda>_.
     and_then (ensure (bs_previous_block_hash current = bs_block_hash prev)
       ''decoded block does not connect to height'') (\<lambda>_.
     validate_links (current # rest)))"
| "validate_links _ = Inr ()"

definition validate_decoded_chunk :: "BlockScanInput list \<Rightarrow> u64 \<Rightarrow> bytes option \<Rightarrow> unit result" where
  "validate_decoded_chunk decoded expected_start_height expected_previous_hash =
     and_then (ensure (decoded \<noteq> []) ''decoded block chunk is empty'') (\<lambda>_.
     and_then (ensure (bs_height (hd decoded) = expected_start_height)
       ''decoded block chunk starts at an unexpected height'') (\<lambda>_.
     and_then (case expected_previous_hash of
         None \<Rightarrow> Inr ()
       | Some hash \<Rightarrow> ensure (bs_previous_block_hash (hd decoded) = hash)
           ''decoded block does not connect to previous chunk tip'') (\<lambda>_.
     validate_links decoded)))"

definition chunk_outpoints :: "P2trIndexerState \<Rightarrow> BlockScanInput list \<Rightarrow> OutPointKey list" where
  "chunk_outpoints state decoded =
     filter (\<lambda>outpoint. \<not> is_coinbase outpoint \<and> \<not> contains_outpoint state outpoint)
       (map ti_previous_output (concat (map tx_inputs (concat (map bs_txs decoded)))))"

definition lookup_spend_uids_for_chunk :: "'db rocks \<Rightarrow> 'db \<Rightarrow> BlockScanInput list \<Rightarrow> P2trIndexerState
    \<Rightarrow> (P2trIndexerState \<times> OutPointKey list) result" where
  "lookup_spend_uids_for_chunk rocks db decoded state =
     (let outpoints = remdups_adj (sort_key (\<lambda>p. (op_txid p, op_vout p)) (chunk_outpoints state decoded)) in
      if outpoints = [] then Inr (state, [])
      else and_then (lookup_outpoint_uids rocks db outpoints) (\<lambda>found.
        Inr (cache_spend_uid_candidates found state [])))"

section \<open>A catch-up pass\<close>

definition usize_saturating_mul :: "usize \<Rightarrow> usize \<Rightarrow> usize" where
  "usize_saturating_mul a b = min (a * b) usize_max"

definition usize_saturating_add :: "usize \<Rightarrow> usize \<Rightarrow> usize" where
  "usize_saturating_add a b = min (a + b) usize_max"

definition DEFAULT_CATCHUP_BATCH_SIZE :: usize where
  "DEFAULT_CATCHUP_BATCH_SIZE = 16"

definition DEFAULT_FLUSH_BLOCKS :: usize where
  "DEFAULT_FLUSH_BLOCKS = 128"

definition DEFAULT_MEMORY_BUDGET_MB :: usize where
  "DEFAULT_MEMORY_BUDGET_MB = 4096"

definition mb_to_bytes :: "usize \<Rightarrow> usize" where
  "mb_to_bytes mb = usize_saturating_mul (usize_saturating_mul mb 1024) 1024"

definition ESTIMATED_PENDING_RAW_MULTIPLIER :: usize where
  "ESTIMATED_PENDING_RAW_MULTIPLIER = 4"

definition ESTIMATED_PENDING_PAYLOAD_MULTIPLIER :: usize where
  "ESTIMATED_PENDING_PAYLOAD_MULTIPLIER = 2"

definition ESTIMATED_PENDING_BLOCK_OVERHEAD_BYTES :: usize where
  "ESTIMATED_PENDING_BLOCK_OVERHEAD_BYTES = 64 * 1024"

definition estimate_pending_memory_bytes :: "usize \<Rightarrow> usize \<Rightarrow> usize \<Rightarrow> usize" where
  "estimate_pending_memory_bytes processed_raw_bytes_since_flush pending_payload_bytes pending_blocks =
     usize_saturating_add
       (usize_saturating_add
         (usize_saturating_mul processed_raw_bytes_since_flush ESTIMATED_PENDING_RAW_MULTIPLIER)
         (usize_saturating_mul pending_payload_bytes ESTIMATED_PENDING_PAYLOAD_MULTIPLIER))
       (usize_saturating_mul pending_blocks ESTIMATED_PENDING_BLOCK_OVERHEAD_BYTES)"

record CatchUpConfig =
  cc_emit_start_height :: u64
  cc_finality_depth :: u64
  cc_fetch_batch_size :: usize
  cc_flush_blocks :: usize
  cc_memory_budget_bytes :: usize

record Pending =
  pd_applied :: AppliedBlock
  pd_payload :: bytes

text \<open>The variables of the chunk loop.\<close>

record pass_vars =
  pv_state :: P2trIndexerState
  pv_pending :: "Pending list"
  pv_raw_bytes :: usize
  pv_payload_bytes :: usize
  pv_last :: "(u64 \<times> bytes) option"
  pv_previous_tip_hash :: "bytes option"

definition apply_scan :: "sha256_fun \<Rightarrow> capnp_io \<Rightarrow> u64 \<Rightarrow> BlockScanInput \<Rightarrow> pass_vars \<Rightarrow> pass_vars result" where
  "apply_scan sha256 io emit_start_height scan v =
     (if bs_height scan \<ge> emit_start_height
      then
        and_then (apply_block_with_stats sha256 (pv_state v) scan) (\<lambda>(state, applied).
        and_then (encode_stored_light_block (ab_storage_block applied)) (\<lambda>message.
        and_then (write_stored io message) (\<lambda>payload.
        Inr (v\<lparr>pv_state := state,
          pv_payload_bytes := usize_saturating_add (pv_payload_bytes v) (length payload),
          pv_pending := pv_pending v @ [\<lparr>pd_applied = applied, pd_payload = payload\<rparr>]\<rparr>))))
      else Inr v)"

definition process_chunk :: "('x, 'pk, 'sc) chain_lib \<Rightarrow> capnp_io \<Rightarrow> 'db rocks \<Rightarrow> BlockSource \<Rightarrow> BlockSource
    \<Rightarrow> CatchUpConfig \<Rightarrow> 'db \<Rightarrow> u64 \<Rightarrow> usize \<Rightarrow> pass_vars \<Rightarrow> pass_vars result" where
  "process_chunk lib io rocks source undo_source config db chunk_start chunk_count v =
     and_then (fetch_and_decode_chunk lib source undo_source chunk_start chunk_count) (\<lambda>chunk.
     let decoded = dc_blocks chunk in
     and_then (validate_decoded_chunk decoded chunk_start (pv_previous_tip_hash v)) (\<lambda>_.
     let chunk_last = last decoded;
         v1 = v\<lparr>pv_raw_bytes := pv_raw_bytes v + dc_raw_bytes chunk,
                pv_last := Some (bs_height chunk_last, bs_block_hash chunk_last),
                pv_previous_tip_hash := Some (bs_block_hash chunk_last)\<rparr> in
     and_then (lookup_spend_uids_for_chunk rocks db decoded (pv_state v1)) (\<lambda>(state, candidates).
     and_then (try_fold (apply_scan (cl_sha256 lib) io (cc_emit_start_height config)) decoded
       (v1\<lparr>pv_state := state\<rparr>)) (\<lambda>v2.
     Inr (v2\<lparr>pv_state := fst (evict_spend_uid_candidates candidates (pv_state v2) 0)\<rparr>)))))"

text \<open>
  The chunk loop. A validated chunk moves the start height on, so that one unit
  of fuel per height is enough; \<open>None\<close> stands for a loop out of fuel.
\<close>

fun chunk_loop :: "nat \<Rightarrow> ('x, 'pk, 'sc) chain_lib \<Rightarrow> capnp_io \<Rightarrow> 'db rocks \<Rightarrow> BlockSource \<Rightarrow> BlockSource
    \<Rightarrow> CatchUpConfig \<Rightarrow> 'db \<Rightarrow> u64 \<Rightarrow> u64 \<Rightarrow> pass_vars \<Rightarrow> pass_vars result option" where
  "chunk_loop 0 lib io rocks source undo_source config db flush_end_height chunk_start v =
     (if chunk_start \<le> flush_end_height then None else Some (Inr v))"
| "chunk_loop (Suc fuel) lib io rocks source undo_source config db flush_end_height chunk_start v =
     (if chunk_start \<le> flush_end_height
      then
        let chunk_remaining = flush_end_height - chunk_start + 1;
            chunk_count = min (unat chunk_remaining) (cc_fetch_batch_size config) in
        case process_chunk lib io rocks source undo_source config db chunk_start chunk_count v of
          Inl e \<Rightarrow> Some (Inl e)
        | Inr v1 \<Rightarrow>
            (case pv_last v1 of
               None \<Rightarrow> Some (Inl (Error ''panic: last height set''))
             | Some (chunk_last_height, _) \<Rightarrow>
                 let chunk_start1 = chunk_last_height + 1 in
                 if cc_memory_budget_bytes config > 0 \<and> chunk_start1 \<le> flush_end_height
                    \<and> estimate_pending_memory_bytes (pv_raw_bytes v1) (pv_payload_bytes v1) (length (pv_pending v1))
                        \<ge> cc_memory_budget_bytes config
                 then Some (Inr v1)
                 else chunk_loop fuel lib io rocks source undo_source config db flush_end_height chunk_start1 v1)
      else Some (Inr v))"

fun write_pending :: "Pending list \<Rightarrow> archive_fs \<Rightarrow> archive_fs \<times> unit result" where
  "write_pending [] fs = (fs, Inr ())"
| "write_pending (p # ps) fs =
     (case write_block_bytes (lb_height (ab_light_block (pd_applied p))) (pd_payload p) fs of
        (fs', Inl e) \<Rightarrow> (fs', Inl e)
      | (fs', Inr _) \<Rightarrow> write_pending ps fs')"

definition pending_spends :: "Pending list \<Rightarrow> (u64 \<times> u32 \<times> u64) list" where
  "pending_spends pending =
     concat (map (\<lambda>p. map (\<lambda>spent. (sp_creation_height spent, sp_output_index spent, sp_spent_height spent))
       (ab_spent_utxos (pd_applied p))) pending)"

definition display_hash :: "(bytes \<Rightarrow> string) \<Rightarrow> bytes \<Rightarrow> string" where
  "display_hash hex hash = hex (rev hash)"

definition pass_manifest :: "(bytes \<Rightarrow> string) \<Rightarrow> ArchiveNetwork \<Rightarrow> CatchUpConfig \<Rightarrow> u64 \<Rightarrow> bytes \<Rightarrow> Manifest" where
  "pass_manifest hex network config last_height last_hash =
     \<lparr>mf_version = WIRE_VERSION, mf_network = network_display network, mf_genesis_hash = None,
      mf_finality_depth = cc_finality_depth config,
      mf_suggested_reorg_cache_depth = max (cc_finality_depth config) 144,
      mf_max_range_count = DEFAULT_MAX_RANGE_COUNT,
      mf_tip = Some \<lparr>ct_height = last_height, ct_block_hash = display_hash hex last_hash\<rparr>\<rparr>"

text \<open>The end of a pass: block files, spent heights, database, manifest, in this order.\<close>

definition finish_pass :: "(bytes \<Rightarrow> string) \<Rightarrow> capnp_io \<Rightarrow> json_lib \<Rightarrow> 'db rocks \<Rightarrow> ArchiveNetwork
    \<Rightarrow> CatchUpConfig \<Rightarrow> pass_vars \<Rightarrow> archive_fs \<times> 'db \<Rightarrow> (archive_fs \<times> 'db) \<times> (P2trIndexerState \<times> u64) result" where
  "finish_pass hex io json rocks network config v st =
     (let (fs, db) = st in
      case pv_last v of
        None \<Rightarrow> ((fs, db), Inl (Error ''panic: last height set''))
      | Some (last_height, last_hash) \<Rightarrow>
          (case write_pending (pv_pending v) fs of
             (fs1, Inl e) \<Rightarrow> ((fs1, db), Inl e)
           | (fs1, Inr _) \<Rightarrow>
               (case mark_spent_outputs io (pending_spends (pv_pending v)) fs1 of
                  (fs2, Inl e) \<Rightarrow> ((fs2, db), Inl e)
                | (fs2, Inr _) \<Rightarrow>
                    (case commit_applied_blocks rocks (map pd_applied (pv_pending v)) last_height last_hash
                        (last_uid (pv_state v)) db of
                       Inl e \<Rightarrow> ((fs2, db), Inl e)
                     | Inr db1 \<Rightarrow>
                         (case flush rocks db1 of
                            Inl e \<Rightarrow> ((fs2, db1), Inl e)
                          | Inr db2 \<Rightarrow>
                              (case write_manifest json (pass_manifest hex network config last_height last_hash) fs2 of
                                 (fs3, Inl e) \<Rightarrow> ((fs3, db2), Inl e)
                               | (fs3, Inr _) \<Rightarrow> ((fs3, db2), Inr (pv_state v, last_height + 1))))))))"

definition catch_up_ranges :: "(bytes \<Rightarrow> string) \<Rightarrow> ('x, 'pk, 'sc) chain_lib \<Rightarrow> capnp_io \<Rightarrow> json_lib \<Rightarrow> 'db rocks
    \<Rightarrow> ArchiveNetwork \<Rightarrow> BlockSource \<Rightarrow> BlockSource \<Rightarrow> CatchUpConfig \<Rightarrow> u64 \<Rightarrow> u64 \<Rightarrow> P2trIndexerState
    \<Rightarrow> archive_fs \<times> 'db \<Rightarrow> ((archive_fs \<times> 'db) \<times> (P2trIndexerState \<times> u64) result) option" where
  "catch_up_ranges hex lib io json rocks network source undo_source config start_height finalized_tip state st =
     (let remaining = finalized_tip - start_height + 1;
          flush_count = min (unat remaining) (cc_flush_blocks config);
          flush_end_height = start_height + word_of_nat flush_count - 1
      in case previous_tip_hash rocks (snd st) of
           Inl e \<Rightarrow> Some (st, Inl e)
         | Inr previous \<Rightarrow>
             (case chunk_loop flush_count lib io rocks source undo_source config (snd st) flush_end_height start_height
                 \<lparr>pv_state = state, pv_pending = [], pv_raw_bytes = 0, pv_payload_bytes = 0, pv_last = None,
                  pv_previous_tip_hash = previous\<rparr> of
                None \<Rightarrow> None
              | Some (Inl e) \<Rightarrow> Some (st, Inl e)
              | Some (Inr v) \<Rightarrow> Some (finish_pass hex io json rocks network config v st)))"

section \<open>The run command\<close>

text \<open>
  Start-up: the settings are checked, the metadata is fixed, and the state is
  restored at the committed tip with the height to go on from.
\<close>

definition run_start :: "'db rocks \<Rightarrow> ArchiveNetwork \<Rightarrow> u64 \<Rightarrow> usize \<Rightarrow> usize \<Rightarrow> bool \<Rightarrow> 'db
    \<Rightarrow> 'db \<times> (P2trIndexerState \<times> u64) result" where
  "run_start rocks network emit_start_height catchup_batch_size flush_blocks undo_supported db =
     (if \<not> catchup_batch_size > 0 then (db, Inl (Error ''catchup_batch_size must be greater than zero''))
      else if \<not> flush_blocks > 0 then (db, Inl (Error ''flush_blocks must be greater than zero''))
      else if \<not> undo_supported
      then (db, Inl (Error ''light-indexer requires a REST undo source with /rest/spenttxouts enabled''))
      else case ensure_meta rocks (ascii (network_display network)) emit_start_height db of
          (db1, Inl e) \<Rightarrow> (db1, Inl e)
        | (db1, Inr _) \<Rightarrow>
            (db1, and_then (tip rocks db1) (\<lambda>t.
               let initial_next_height = (case t of None \<Rightarrow> emit_start_height | Some t \<Rightarrow> it_height t + 1);
                   state = restore_at_uid (case t of None \<Rightarrow> 0 | Some t \<Rightarrow> it_last_uid t)
               in Inr (state, initial_next_height))))"

datatype run_outcome = Caught_Up | Progressed P2trIndexerState u64

text \<open>One round of the loop: a catch-up pass when a finalized height is missing, else nothing to do.\<close>

definition run_step :: "(bytes \<Rightarrow> string) \<Rightarrow> ('x, 'pk, 'sc) chain_lib \<Rightarrow> capnp_io \<Rightarrow> json_lib \<Rightarrow> 'db rocks
    \<Rightarrow> ArchiveNetwork \<Rightarrow> BlockSource \<Rightarrow> BlockSource \<Rightarrow> CatchUpConfig \<Rightarrow> P2trIndexerState \<Rightarrow> u64
    \<Rightarrow> archive_fs \<times> 'db \<Rightarrow> ((archive_fs \<times> 'db) \<times> run_outcome result) option" where
  "run_step hex lib io json rocks network source undo_source config state next_height st =
     (case src_get_best_height source of
        Inl e \<Rightarrow> Some (st, Inl e)
      | Inr best_height \<Rightarrow>
          (case src_get_block_hash source best_height of
             Inl e \<Rightarrow> Some (st, Inl e)
           | Inr _ \<Rightarrow>
               let finalized_tip = saturating_sub best_height (cc_finality_depth config) in
               if next_height \<le> finalized_tip
               then map_option (\<lambda>(st', r). (st', and_then r (\<lambda>(state', next_height'). Inr (Progressed state' next_height'))))
                 (catch_up_ranges hex lib io json rocks network source undo_source config next_height finalized_tip state st)
               else Some (st, Inr Caught_Up)))"

section \<open>The fixture archive\<close>

definition deterministic_txid :: "u64 \<Rightarrow> u8 \<Rightarrow> bytes" where
  "deterministic_txid height n = (to_le_bytes height @ replicate 24 n)[8 := n]"

definition fixture_output :: "u32 \<Rightarrow> bytes option \<Rightarrow> TxOutputScan" where
  "fixture_output vout key =
     \<lparr>to_vout = vout, to_value_sat = 0, to_script_pubkey = [], to_p2tr_xonly_key = key,
      to_is_p2tr = (key \<noteq> None), to_is_nums = False\<rparr>"

definition fixture_txs :: "u64 \<Rightarrow> OutPointKey option \<Rightarrow> TxScanInput list" where
  "fixture_txs height previous =
     [\<lparr>tx_txid = deterministic_txid height 0, tx_tx_index = 0, tx_inputs = [],
       tx_outputs = [fixture_output 0 None, fixture_output 1 (Some (replicate 32 (ucast height)))],
       tx_silent_payment_tweak = Some (replicate 33 1)\<rparr>,
      \<lparr>tx_txid = deterministic_txid height 1, tx_tx_index = 1,
       tx_inputs = (case previous of None \<Rightarrow> []
         | Some p \<Rightarrow> [\<lparr>ti_previous_output = p, ti_script_sig = [], ti_witness = []\<rparr>]),
       tx_outputs = [fixture_output 0 (Some (replicate 32 (ucast (height + 1))))],
       tx_silent_payment_tweak = Some (replicate 33 2)\<rparr>]"

definition fixture_hash :: "u64 \<Rightarrow> bytes" where
  "fixture_hash height = to_le_bytes height @ replicate 24 0"

definition fixture_scan :: "u64 \<Rightarrow> bytes \<Rightarrow> OutPointKey option \<Rightarrow> BlockScanInput" where
  "fixture_scan height prev_hash previous =
     \<lparr>bs_height = height, bs_block_hash = fixture_hash height, bs_previous_block_hash = prev_hash,
      bs_raw_block_bytes = 1000, bs_txs = fixture_txs height previous\<rparr>"

fun fixture_loop :: "sha256_fun \<Rightarrow> capnp_io \<Rightarrow> nat \<Rightarrow> u64 \<Rightarrow> P2trIndexerState \<Rightarrow> bytes \<Rightarrow> OutPointKey option
    \<Rightarrow> (u64 \<times> bytes) list result" where
  "fixture_loop sha256 io 0 height state tip_hash previous = Inr []"
| "fixture_loop sha256 io (Suc n) height state tip_hash previous =
     and_then (apply_block_with_stats sha256 state (fixture_scan height tip_hash previous)) (\<lambda>(state', applied).
     and_then (encode_stored_light_block (ab_storage_block applied)) (\<lambda>message.
     and_then (write_stored io message) (\<lambda>bs.
     and_then (fixture_loop sha256 io n (height + 1) state' (fixture_hash height)
       (Some \<lparr>op_txid = deterministic_txid height 1, op_vout = 0\<rparr>)) (\<lambda>blocks.
     Inr ((height, bs) # blocks)))))"

definition fixture_blocks :: "sha256_fun \<Rightarrow> capnp_io \<Rightarrow> u64 \<Rightarrow> u64 \<Rightarrow> ((u64 \<times> bytes) list \<times> u64 \<times> bytes) result" where
  "fixture_blocks sha256 io start_height n_blocks =
     and_then (ensure (n_blocks > 0) ''count must be greater than zero'') (\<lambda>_.
     and_then (fixture_loop sha256 io (unat n_blocks) start_height new_state (replicate 32 0) None) (\<lambda>blocks.
     let tip_height = start_height + n_blocks - 1 in Inr (blocks, tip_height, fixture_hash tip_height)))"

fun write_blocks :: "(u64 \<times> bytes) list \<Rightarrow> archive_fs \<Rightarrow> archive_fs \<times> unit result" where
  "write_blocks [] fs = (fs, Inr ())"
| "write_blocks ((height, bs) # blocks) fs =
     (case write_block_bytes height bs fs of
        (fs', Inl e) \<Rightarrow> (fs', Inl e)
      | (fs', Inr _) \<Rightarrow> write_blocks blocks fs')"

definition write_fixture_archive :: "(bytes \<Rightarrow> string) \<Rightarrow> sha256_fun \<Rightarrow> capnp_io \<Rightarrow> json_lib \<Rightarrow> ArchiveNetwork
    \<Rightarrow> u64 \<Rightarrow> u64 \<Rightarrow> archive_fs \<Rightarrow> archive_fs \<times> unit result" where
  "write_fixture_archive hex sha256 io json network start_height n_blocks fs =
     (case fixture_blocks sha256 io start_height n_blocks of
        Inl e \<Rightarrow> (fs, Inl e)
      | Inr (blocks, tip_height, tip_hash) \<Rightarrow>
          (case write_blocks blocks fs of
             (fs1, Inl e) \<Rightarrow> (fs1, Inl e)
           | (fs1, Inr _) \<Rightarrow>
               write_manifest json
                 \<lparr>mf_version = WIRE_VERSION, mf_network = network_display network, mf_genesis_hash = None,
                  mf_finality_depth = 6, mf_suggested_reorg_cache_depth = 144,
                  mf_max_range_count = DEFAULT_MAX_RANGE_COUNT,
                  mf_tip = Some \<lparr>ct_height = tip_height, ct_block_hash = hex tip_hash\<rparr>\<rparr> fs1))"

end
