(* ===== verification/Catch_Up.thy ===== *)
theory Catch_Up
  imports Light_Indexer
begin

text \<open>
  What a catch-up pass of \<^verbatim>\<open>light-server/src/bin/light_indexer.rs\<close> guarantees: the
  blocks it applies are a hash-linked run of consecutive heights, the pass
  ends and moves on, the committed tip never runs ahead of the archive, and an
  indexer restarted on its database produces the same blocks as one that
  kept its whole index in memory.
\<close>

section \<open>Chunks\<close>

definition linked_run :: "u64 \<Rightarrow> BlockScanInput list \<Rightarrow> bool" where
  "linked_run start blocks \<longleftrightarrow>
     (\<forall>i < length blocks. bs_height (blocks ! i) = start + word_of_nat i)
     \<and> (\<forall>i. Suc i < length blocks \<longrightarrow> bs_previous_block_hash (blocks ! Suc i) = bs_block_hash (blocks ! i))"

lemma all_less_Cons:
  "(\<forall>i < length (x # xs). P i) \<longleftrightarrow> P 0 \<and> (\<forall>i < length xs. P (Suc i))"
  using less_Suc_eq_0_disj by auto

lemma linked_run_Cons2:
  "linked_run start (a # b # rest) \<longleftrightarrow>
     bs_height a = start \<and> bs_previous_block_hash b = bs_block_hash a \<and> linked_run (start + 1) (b # rest)"
proof -
  have heights: "(\<forall>i < length (a # b # rest). bs_height ((a # b # rest) ! i) = start + word_of_nat i) \<longleftrightarrow>
      bs_height a = start \<and> (\<forall>i < length (b # rest). bs_height ((b # rest) ! i) = start + 1 + word_of_nat i)"
    by (subst all_less_Cons) (simp add: algebra_simps)
  have links: "(\<forall>i. Suc i < length (a # b # rest) \<longrightarrow>
        bs_previous_block_hash ((a # b # rest) ! Suc i) = bs_block_hash ((a # b # rest) ! i)) \<longleftrightarrow>
      bs_previous_block_hash b = bs_block_hash a \<and> (\<forall>i. Suc i < length (b # rest) \<longrightarrow>
        bs_previous_block_hash ((b # rest) ! Suc i) = bs_block_hash ((b # rest) ! i))"
    using all_less_Cons [of b rest "\<lambda>i. bs_previous_block_hash ((a # b # rest) ! Suc i) = bs_block_hash ((a # b # rest) ! i)"]
    by simp
  show ?thesis unfolding linked_run_def heights links by blast
qed

lemma validate_links_iff:
  "blocks \<noteq> [] \<Longrightarrow> bs_height (hd blocks) = start \<Longrightarrow> validate_links blocks = Inr () \<longleftrightarrow> linked_run start blocks"
proof (induction blocks arbitrary: start rule: validate_links.induct)
  case (1 prev current rest)
  have step: "validate_links (prev # current # rest) = Inr () \<longleftrightarrow>
      bs_height current = bs_height prev + 1 \<and> bs_previous_block_hash current = bs_block_hash prev
      \<and> validate_links (current # rest) = Inr ()"
    by (auto simp: result_simps)
  show ?case
  proof (cases "bs_height current = bs_height prev + 1")
    case True
    with 1 show ?thesis unfolding step linked_run_Cons2 by auto
  next
    case False
    then have "\<not> linked_run (start + 1) (current # rest)"
      using 1(3) by (auto simp: linked_run_def all_less_Cons)
    with False show ?thesis unfolding step linked_run_Cons2 by blast
  qed
qed (simp_all add: linked_run_def)

lemma validate_chunk_iff:
  "validate_decoded_chunk decoded start prev = Inr () \<longleftrightarrow>
     decoded \<noteq> [] \<and> linked_run start decoded
     \<and> (case prev of None \<Rightarrow> True | Some hash \<Rightarrow> bs_previous_block_hash (hd decoded) = hash)"
proof (cases "decoded \<noteq> [] \<and> bs_height (hd decoded) = start")
  case True
  then show ?thesis
    using validate_links_iff [of decoded start]
    by (cases prev) (auto simp: validate_decoded_chunk_def result_simps)
next
  case False
  moreover have "bs_height (hd decoded) = start" if "decoded \<noteq> []" "linked_run start decoded"
    using that by (cases decoded) (auto simp: linked_run_def)
  ultimately show ?thesis by (auto simp: validate_decoded_chunk_def result_simps)
qed

lemma map_upt_iff: "(\<forall>i < length xs. f (xs ! i) = g i) \<longleftrightarrow> map f xs = map g [0..<length xs]"
proof
  assume eq: "map f xs = map g [0..<length xs]"
  show "\<forall>i < length xs. f (xs ! i) = g i"
  proof (intro allI impI)
    fix i
    assume i: "i < length xs"
    have "map f xs ! i = map g [0..<length xs] ! i" by (simp only: eq)
    with i show "f (xs ! i) = g i" by simp
  qed
qed (intro nth_equalityI, simp_all)

lemma map_shift_iff: "(\<forall>i. Suc i < length xs \<longrightarrow> f (xs ! Suc i) = g (xs ! i)) \<longleftrightarrow> map f (tl xs) = map g (butlast xs)"
proof (induction xs)
  case (Cons x xs)
  then show ?case
    by (cases xs) (auto simp: all_less_Cons nth_Cons split: nat.splits)
qed simp

text \<open>
  C18: a decoded chunk is accepted if and only if it is not empty, its heights
  are consecutive from the expected one, every block links to the one
  before by hash, and the first links to the tip when there is one.
\<close>

theorem chunk_validation_exact:
  "validate_decoded_chunk decoded start prev = Inr () \<longleftrightarrow>
     decoded \<noteq> [] \<and> map bs_height decoded = map (\<lambda>i. start + word_of_nat i) [0..<length decoded]
     \<and> map bs_previous_block_hash (tl decoded) = map bs_block_hash (butlast decoded)
     \<and> (case prev of None \<Rightarrow> True | Some hash \<Rightarrow> bs_previous_block_hash (hd decoded) = hash)"
  by (simp only: validate_chunk_iff linked_run_def map_shift_iff conj_assoc
    map_upt_iff [of decoded bs_height "\<lambda>i. start + word_of_nat i"])

text \<open>
  What the pass relies on of a source: a range request returns no more
  frames than asked for, and block hashes have 32 bytes.
\<close>

definition source_ok :: "BlockSource \<Rightarrow> bool" where
  "source_ok source \<longleftrightarrow> (\<forall>start n frames. src_get_block_range_by_height source start n = Inr frames \<longrightarrow>
     length frames \<le> n \<and> (\<forall>frame \<in> set frames. length (rf_hash frame) = 32))"

lemma attach_undo_frames:
  "length (attach_undo frames fetched) = length frames"
  "map rf_hash (attach_undo frames fetched) = map rf_hash frames"
  by (induction frames fetched rule: attach_undo.induct) (simp_all split: option.split list.split)

lemma decode_frame_hash: "decode_frame lib frame = Inr b \<Longrightarrow> bs_block_hash b = rf_hash frame"
  by (auto simp: decode_frame_def decode_block_frame_def result_simps)

lemma fetched_chunk:
  assumes "source_ok source" and "fetch_and_decode_chunk lib source undo start n = Inr chunk"
  shows "length (dc_blocks chunk) \<le> n" and "\<forall>b \<in> set (dc_blocks chunk). length (bs_block_hash b) = 32"
proof -
  from assms(2) obtain frames frames' blocks where
    f: "src_get_block_range_by_height source start n = Inr frames"
    and attach: "(if filter (\<lambda>frame. rf_spent_txouts frame = None) frames = [] then Inr frames
       else and_then (src_get_blocks_spent_txouts undo
           (map rf_hash (filter (\<lambda>frame. rf_spent_txouts frame = None) frames))) (\<lambda>fetched.
         and_then (ensure (length fetched = length (filter (\<lambda>frame. rf_spent_txouts frame = None) frames))
           ''undo source returned a wrong number of spenttxouts entries'') (\<lambda>_.
         Inr (attach_undo frames fetched)))) = Inr frames'"
    and b: "try_map (decode_frame lib) frames' = Inr blocks" "dc_blocks chunk = sort_key bs_height blocks"
    unfolding fetch_and_decode_chunk_def Let_def and_then_eq_Inr by auto
  have f': "frames' = frames \<or> (\<exists>fetched. frames' = attach_undo frames fetched)"
    using attach by (auto simp: result_simps split: if_splits)
  have ok: "length frames \<le> n" "\<forall>frame \<in> set frames. length (rf_hash frame) = 32"
    using assms(1) f by (auto simp: source_ok_def)
  have same: "length frames' = length frames" "map rf_hash frames' = map rf_hash frames"
    using f' attach_undo_frames by auto
  show "length (dc_blocks chunk) \<le> n" using try_map_length [OF b(1)] ok(1) same(1) b(2) by simp
  have "length (rf_hash frame) = 32" if "frame \<in> set frames'" for frame
  proof -
    have "rf_hash frame \<in> set (map rf_hash frames')" using that by simp
    then show ?thesis using ok(2) unfolding same(2) by auto
  qed
  then show "\<forall>b \<in> set (dc_blocks chunk). length (bs_block_hash b) = 32"
    using try_map_set [OF b(1)] decode_frame_hash b(2) by (metis set_sort)
qed

section \<open>The chunk loop\<close>

abbreviation pending_height :: "Pending \<Rightarrow> u64" where
  "pending_height p \<equiv> lb_height (ab_light_block (pd_applied p))"

lemma applied_height:
  "apply_block_with_stats sha256 state block = Inr (state', ab) \<Longrightarrow> lb_height (ab_light_block ab) = bs_height block"
  by (auto simp: apply_block_with_stats_def Let_def result_simps to_response_input_for_labels_def)

lemma apply_scan_effect:
  assumes "apply_scan sha256 io emit scan v = Inr v'"
  shows "pv_last v' = pv_last v" and "pv_previous_tip_hash v' = pv_previous_tip_hash v"
    and "map pending_height (pv_pending v')
      = map pending_height (pv_pending v) @ (if emit \<le> bs_height scan then [bs_height scan] else [])"
  using assms by (auto simp: apply_scan_def result_simps applied_height split: if_splits)

lemma apply_scans_effect:
  "try_fold (apply_scan sha256 io emit) scans v = Inr v' \<Longrightarrow>
     pv_last v' = pv_last v \<and> pv_previous_tip_hash v' = pv_previous_tip_hash v
     \<and> map pending_height (pv_pending v')
       = map pending_height (pv_pending v) @ filter (\<lambda>h. emit \<le> h) (map bs_height scans)"
proof (induction scans arbitrary: v)
  case (Cons scan scans)
  then obtain v1 where step: "apply_scan sha256 io emit scan v = Inr v1"
      "try_fold (apply_scan sha256 io emit) scans v1 = Inr v'" by (auto simp: result_simps)
  from Cons.IH [OF step(2)] apply_scan_effect [OF step(1)] show ?case by simp
qed simp

lemma linked_run_heights: "linked_run start blocks \<Longrightarrow> map bs_height blocks = map (\<lambda>i. start + word_of_nat i) [0..<length blocks]"
  by (intro nth_equalityI) (simp_all add: linked_run_def)

lemma process_chunkE:
  assumes "process_chunk lib io rocks source undo config db start n v = Inr v'"
  obtains chunk state cands v2 where "fetch_and_decode_chunk lib source undo start n = Inr chunk"
    and "validate_decoded_chunk (dc_blocks chunk) start (pv_previous_tip_hash v) = Inr ()"
    and "lookup_spend_uids_for_chunk rocks db (dc_blocks chunk) (pv_state v) = Inr (state, cands)"
    and "try_fold (apply_scan (cl_sha256 lib) io (cc_emit_start_height config)) (dc_blocks chunk)
      (v\<lparr>pv_raw_bytes := pv_raw_bytes v + dc_raw_bytes chunk,
         pv_last := Some (bs_height (last (dc_blocks chunk)), bs_block_hash (last (dc_blocks chunk))),
         pv_previous_tip_hash := Some (bs_block_hash (last (dc_blocks chunk))), pv_state := state\<rparr>) = Inr v2"
    and "v' = v2\<lparr>pv_state := fst (evict_spend_uid_candidates cands (pv_state v2) 0)\<rparr>"
  using assms unfolding process_chunk_def Let_def by (auto simp: and_then_eq_Inr)

lemma process_chunk_effect:
  assumes "source_ok source" and "process_chunk lib io rocks source undo config db start n v = Inr v'"
  obtains k hash where "1 \<le> k" "k \<le> n" and "pv_last v' = Some (start + word_of_nat (k - 1), hash)" "length hash = 32"
    and "map pending_height (pv_pending v') = map pending_height (pv_pending v)
      @ filter (\<lambda>h. cc_emit_start_height config \<le> h) (map (\<lambda>i. start + word_of_nat i) [0..<k])"
proof -
  from assms(2) obtain chunk state cands v2 where
    fetch: "fetch_and_decode_chunk lib source undo start n = Inr chunk"
    and valid: "validate_decoded_chunk (dc_blocks chunk) start (pv_previous_tip_hash v) = Inr ()"
    and scans: "try_fold (apply_scan (cl_sha256 lib) io (cc_emit_start_height config)) (dc_blocks chunk)
      (v\<lparr>pv_raw_bytes := pv_raw_bytes v + dc_raw_bytes chunk,
         pv_last := Some (bs_height (last (dc_blocks chunk)), bs_block_hash (last (dc_blocks chunk))),
         pv_previous_tip_hash := Some (bs_block_hash (last (dc_blocks chunk))), pv_state := state\<rparr>) = Inr v2"
    and v': "v' = v2\<lparr>pv_state := fst (evict_spend_uid_candidates cands (pv_state v2) 0)\<rparr>"
    by (rule process_chunkE)
  have run: "dc_blocks chunk \<noteq> []" "linked_run start (dc_blocks chunk)" using valid by (simp_all add: validate_chunk_iff)
  let ?k = "length (dc_blocks chunk)"
  have k: "1 \<le> ?k" using run(1) by (simp add: Suc_le_eq)
  have last: "bs_height (last (dc_blocks chunk)) = start + word_of_nat (?k - 1)"
    using run by (simp add: last_conv_nth linked_run_def)
  have "length (bs_block_hash (last (dc_blocks chunk))) = 32"
    using fetched_chunk(2) [OF assms(1) fetch] run(1) by simp
  then show thesis
    using apply_scans_effect [OF scans] last linked_run_heights [OF run(2)]
    by (intro that [OF k fetched_chunk(1) [OF assms(1) fetch]]) (simp_all add: v')
qed

text \<open>The heights of a pass from its start to the last one, and what the loop has collected for them.\<close>

definition heights_upto :: "u64 \<Rightarrow> u64 \<Rightarrow> u64 list" where
  "heights_upto start h = map (\<lambda>i. start + word_of_nat i) [0..<unat h + 1 - unat start]"

definition collected :: "u64 \<Rightarrow> u64 \<Rightarrow> u64 \<Rightarrow> pass_vars \<Rightarrow> bool" where
  "collected emit start h v \<longleftrightarrow>
     (\<exists>hash. pv_last v = Some (h, hash) \<and> length hash = 32)
     \<and> map pending_height (pv_pending v) = filter (\<lambda>h. emit \<le> h) (heights_upto start h)"

lemma unat_plus_of_nat:
  fixes c :: u64
  assumes "unat c + n < 2 ^ 64"
  shows "unat (c + word_of_nat n) = unat c + n"
proof -
  have "unat (word_of_nat n :: u64) = n" using assms by (intro unat_word_of_nat_small) simp
  then show ?thesis using assms by (simp add: unat_word_ariths)
qed

lemma heights_upto_extend:
  assumes "unat start \<le> unat c" "unat c + k < 2 ^ 64" "1 \<le> k"
  shows "heights_upto start (c + word_of_nat (k - 1))
    = map (\<lambda>i. start + word_of_nat i) [0..<unat c - unat start] @ map (\<lambda>i. c + word_of_nat i) [0..<k]"
proof -
  have k: "unat (word_of_nat (k - 1) :: u64) = k - 1" using assms by (intro unat_word_of_nat_small) simp
  then have u: "unat (c + word_of_nat (k - 1)) = unat c + k - 1"
    using assms by (simp add: unat_word_ariths)
  obtain d where d: "unat c = unat start + d" using assms(1) le_Suc_ex by blast
  have "[0..<d + k] = [0..<d] @ map (\<lambda>i. i + d) [0..<k]"
    using upt_add_eq_append [of 0 d k] by (simp add: map_add_upt add.commute)
  then have split: "[0..<unat c + k - unat start]
      = [0..<unat c - unat start] @ map (\<lambda>i. i + (unat c - unat start)) [0..<k]"
    by (simp add: d)
  have "word_of_nat (unat c - unat start) = c - start"
    using assms(1) by (simp add: of_nat_diff)
  then have "start + word_of_nat (i + (unat c - unat start)) = c + word_of_nat i" for i
    by (simp add: algebra_simps)
  then show ?thesis
    unfolding heights_upto_def u using assms(3) by (simp add: split comp_def)
qed

text \<open>
  The loop rule: an invariant of the next height and the variables that every
  processed chunk keeps holds at the end, and the loop does end.
\<close>

lemma chunk_loop_rule:
  assumes "source_ok source" and "0 < cc_fetch_batch_size config" and "unat fin + 1 < 2 ^ 64"
    and step: "\<And>c n v v' h hash. process_chunk lib io rocks source undo config db c n v = Inr v' \<Longrightarrow> I c v \<Longrightarrow>
      unat start \<le> unat c \<Longrightarrow> unat c + n < 2 ^ 64 \<Longrightarrow> pv_last v' = Some (h, hash) \<Longrightarrow> I (h + 1) v'"
  shows "unat start \<le> unat c \<Longrightarrow> c \<le> fin \<Longrightarrow> unat fin + 1 - unat c \<le> fuel \<Longrightarrow> I c v \<Longrightarrow>
    \<exists>r. chunk_loop fuel lib io rocks source undo config db fin c v = Some r
      \<and> (\<forall>v'. r = Inr v' \<longrightarrow> (\<exists>h hash. pv_last v' = Some (h, hash) \<and> c \<le> h \<and> h \<le> fin \<and> I (h + 1) v'))"
proof (induction fuel arbitrary: c v)
  case 0
  then show ?case by (simp add: word_le_nat_alt)
next
  case (Suc fuel)
  let ?n = "min (unat (fin - c + 1)) (cc_fetch_batch_size config)"
  have left: "unat (fin - c + 1) = unat fin + 1 - unat c"
    using Suc.prems(2) assms(3) by (simp add: unat_word_ariths unat_sub word_le_nat_alt)
  show ?case
  proof (cases "process_chunk lib io rocks source undo config db c ?n v")
    case (Inl e)
    then show ?thesis using Suc.prems(2) by (simp add: Let_def)
  next
    case (Inr v1)
    obtain k hash where k: "1 \<le> k" "k \<le> ?n" and last: "pv_last v1 = Some (c + word_of_nat (k - 1), hash)"
      using process_chunk_effect [OF assms(1) Inr] by metis
    let ?h = "c + word_of_nat (k - 1) :: u64"
    have room: "unat c + k \<le> unat fin + 1"
    proof -
      have "k \<le> unat fin + 1 - unat c" using k(2) unfolding left by simp
      moreover have "unat c \<le> unat fin" using Suc.prems(2) by (simp add: word_le_nat_alt)
      ultimately show ?thesis by linarith
    qed
    have h: "unat ?h = unat c + (k - 1)" using k(1) room assms(3) by (intro unat_plus_of_nat) simp
    have next_c: "?h + 1 = c + word_of_nat k" using k(1) by (simp add: of_nat_diff)
    have c1: "unat (?h + 1) = unat c + k" unfolding next_c using room assms(3) by (intro unat_plus_of_nat) simp
    have "unat c + ?n < 2 ^ 64"
      using assms(3) Suc.prems(2) unfolding left word_le_nat_alt by linarith
    then have got: "I (?h + 1) v1" by (rule step [OF Inr Suc.prems(4,1) _ last])
    have bounds: "c \<le> ?h" "?h \<le> fin" using h k room by (simp_all add: word_le_nat_alt)
    let ?stop = "cc_memory_budget_bytes config > 0 \<and> ?h + 1 \<le> fin
      \<and> estimate_pending_memory_bytes (pv_raw_bytes v1) (pv_payload_bytes v1) (length (pv_pending v1))
          \<ge> cc_memory_budget_bytes config"
    have loop: "chunk_loop (Suc fuel) lib io rocks source undo config db fin c v =
        (if ?stop then Some (Inr v1) else chunk_loop fuel lib io rocks source undo config db fin (?h + 1) v1)"
      using Suc.prems(2) Inr last by (simp add: Let_def)
    show ?thesis
    proof (cases ?stop)
      case True
      then show ?thesis using loop got bounds last by auto
    next
      case False
      show ?thesis
      proof (cases "?h + 1 \<le> fin")
        case True
        have "unat fin + 1 - unat (?h + 1) \<le> fuel" "unat start \<le> unat (?h + 1)"
          using Suc.prems(1,3) k(1) unfolding c1 by linarith+
        then obtain r where "chunk_loop fuel lib io rocks source undo config db fin (?h + 1) v1 = Some r"
          "\<forall>v'. r = Inr v' \<longrightarrow> (\<exists>h hash. pv_last v' = Some (h, hash) \<and> ?h + 1 \<le> h \<and> h \<le> fin \<and> I (h + 1) v')"
          using Suc.IH [of "?h + 1" v1] True got by blast
        moreover have "c \<le> x" if "?h + 1 \<le> x" for x
          using that c1 by (simp add: word_le_nat_alt)
        ultimately show ?thesis unfolding loop if_not_P [OF False] by blast
      next
        case beyond: False
        then have "chunk_loop fuel lib io rocks source undo config db fin (?h + 1) v1 = Some (Inr v1)"
          by (cases fuel) simp_all
        then show ?thesis unfolding loop if_not_P [OF False] using got bounds last by auto
      qed
    qed
  qed
qed

text \<open>The heights below the next one.\<close>

definition heights_below :: "u64 \<Rightarrow> u64 \<Rightarrow> u64 list" where
  "heights_below start c = map (\<lambda>i. start + word_of_nat i) [0..<unat c - unat start]"

lemma heights_below_upto: "unat h + 1 < 2 ^ 64 \<Longrightarrow> heights_below start (h + 1) = heights_upto start h"
  using unat_plus_of_nat [of h 1] by (simp add: heights_below_def heights_upto_def)

lemma heights_below_extend:
  assumes "unat start \<le> unat c" "unat c + k < 2 ^ 64" "1 \<le> k"
  shows "heights_below start (c + word_of_nat k) = heights_below start c @ map (\<lambda>i. c + word_of_nat i) [0..<k]"
proof -
  have eq: "c + word_of_nat k = c + word_of_nat (k - 1) + 1" using assms(3) by (simp add: of_nat_diff)
  have small: "unat (c + word_of_nat (k - 1)) + 1 < 2 ^ 64"
    using unat_plus_of_nat [of c "k - 1"] assms(2,3) by simp
  have "heights_below start (c + word_of_nat k) = heights_upto start (c + word_of_nat (k - 1))"
    unfolding eq by (rule heights_below_upto [OF small])
  then show ?thesis unfolding heights_upto_extend [OF assms] by (simp only: heights_below_def)
qed

lemma chunk_loop_effect:
  assumes "source_ok source" and "0 < cc_fetch_batch_size config" and "unat fin + 1 < 2 ^ 64"
    and "start \<le> fin" "unat fin + 1 - unat start \<le> fuel" and "pv_pending v = []"
  shows "\<exists>r. chunk_loop fuel lib io rocks source undo config db fin start v = Some r
    \<and> (\<forall>v'. r = Inr v' \<longrightarrow> (\<exists>h. collected (cc_emit_start_height config) start h v' \<and> start \<le> h \<and> h \<le> fin))"
proof -
  let ?emit = "cc_emit_start_height config"
  let ?I = "\<lambda>c v. (c \<noteq> start \<longrightarrow> (\<exists>h hash. pv_last v = Some (h, hash) \<and> length hash = 32))
    \<and> map pending_height (pv_pending v) = filter (\<lambda>h. ?emit \<le> h) (heights_below start c)"
  have step: "?I (h + 1) v'"
    if chunk: "process_chunk lib io rocks source undo config db c n v = Inr v'" and inv: "?I c v"
      and le: "unat start \<le> unat c" and room: "unat c + n < 2 ^ 64" and last: "pv_last v' = Some (h, hash)"
    for c n v v' h hash
  proof -
    obtain k hash' where k: "1 \<le> k" "k \<le> n" "pv_last v' = Some (c + word_of_nat (k - 1), hash')" "length hash' = 32"
      "map pending_height (pv_pending v') = map pending_height (pv_pending v)
        @ filter (\<lambda>h. ?emit \<le> h) (map (\<lambda>i. c + word_of_nat i) [0..<k])"
      using process_chunk_effect [OF assms(1) chunk] by metis
    have "h = c + word_of_nat (k - 1)" using last k(3) by simp
    then have "h + 1 = c + word_of_nat k" using k(1) by (simp add: of_nat_diff)
    moreover have "heights_below start (c + word_of_nat k) = heights_below start c @ map (\<lambda>i. c + word_of_nat i) [0..<k]"
      using le room k(1,2) by (intro heights_below_extend) simp_all
    ultimately show ?thesis using k inv last by simp
  qed
  have "?I start v" using assms(6) by (simp add: heights_below_def)
  then have "\<exists>r. chunk_loop fuel lib io rocks source undo config db fin start v = Some r
      \<and> (\<forall>v'. r = Inr v' \<longrightarrow> (\<exists>h hash. pv_last v' = Some (h, hash) \<and> start \<le> h \<and> h \<le> fin \<and> ?I (h + 1) v'))"
    by (intro chunk_loop_rule [where I = ?I and start = start, OF assms(1-3)] assms(4,5) order_refl) (rule step)
  then obtain r where r: "chunk_loop fuel lib io rocks source undo config db fin start v = Some r"
    "\<forall>v'. r = Inr v' \<longrightarrow> (\<exists>h hash. pv_last v' = Some (h, hash) \<and> start \<le> h \<and> h \<le> fin \<and> ?I (h + 1) v')" by blast
  have "collected ?emit start h v'" if "pv_last v' = Some (h, hash)" "start \<le> h" "h \<le> fin" "?I (h + 1) v'" for v' h hash
  proof -
    have small: "unat h + 1 < 2 ^ 64" using that(3) assms(3) unfolding word_le_nat_alt by linarith
    have "unat (h + 1) = unat h + 1" using unat_plus_of_nat [of h 1] small by simp
    then have "h + 1 \<noteq> start" using that(2) by (auto simp: word_le_nat_alt)
    then show ?thesis using that(1,4) heights_below_upto [OF small] by (auto simp: collected_def)
  qed
  with r show ?thesis by blast
qed

section \<open>A pass ends and moves on\<close>

lemma below_max:
  assumes "(x :: u64) < -1"
  shows "unat x + 1 < 2 ^ 64"
proof (rule ccontr)
  assume "\<not> ?thesis"
  then have max: "unat x + 1 = 2 ^ 64" using unat_bounds(4) [of x] by simp
  have "x + 1 = word_of_nat (unat x + 1)" by simp
  also have "\<dots> = 0" unfolding max by simp
  finally have "x = -1" by (simp add: eq_neg_iff_add_eq_0)
  with assms show False by simp
qed

text \<open>The last height of a pass.\<close>

definition flush_end :: "CatchUpConfig \<Rightarrow> u64 \<Rightarrow> u64 \<Rightarrow> u64" where
  "flush_end config start finalized =
     start + word_of_nat (min (unat (finalized - start + 1)) (cc_flush_blocks config)) - 1"

lemma flush_end_bounds:
  assumes "start \<le> finalized" "finalized < -1" "0 < cc_flush_blocks config"
  shows "start \<le> flush_end config start finalized" and "flush_end config start finalized \<le> finalized"
    and "unat (flush_end config start finalized) + 1 - unat start
      = min (unat (finalized - start + 1)) (cc_flush_blocks config)"
proof -
  have le: "unat start \<le> unat finalized" using assms(1) by (simp add: word_le_nat_alt)
  have small: "unat finalized + 1 < 2 ^ 64" by (rule below_max [OF assms(2)])
  have left: "unat (finalized - start + 1) = unat finalized + 1 - unat start"
    using le small by (simp add: unat_word_ariths unat_sub word_le_nat_alt)
  define n where "n = min (unat (finalized - start + 1)) (cc_flush_blocks config)"
  have n: "1 \<le> n" "unat start + n \<le> unat finalized + 1"
    using assms(3) le unfolding n_def left by linarith+
  have "flush_end config start finalized = start + word_of_nat (n - 1)"
    using n(1) by (simp add: flush_end_def n_def of_nat_diff algebra_simps)
  moreover have "unat (start + word_of_nat (n - 1)) = unat start + (n - 1)"
    using n small by (intro unat_plus_of_nat) linarith
  ultimately have u: "unat (flush_end config start finalized) = unat start + (n - 1)" by simp
  show "start \<le> flush_end config start finalized" "flush_end config start finalized \<le> finalized"
    using n unfolding word_le_nat_alt u by linarith+
  show "unat (flush_end config start finalized) + 1 - unat start
      = min (unat (finalized - start + 1)) (cc_flush_blocks config)"
    using n unfolding u n_def [symmetric] by linarith
qed

abbreviation pass_init :: "P2trIndexerState \<Rightarrow> bytes option \<Rightarrow> pass_vars" where
  "pass_init state previous \<equiv> \<lparr>pv_state = state, pv_pending = [], pv_raw_bytes = 0, pv_payload_bytes = 0, pv_last = None,
     pv_previous_tip_hash = previous\<rparr>"

lemma pass_rule:
  assumes "source_ok source" "0 < cc_fetch_batch_size config" "0 < cc_flush_blocks config"
    and "start \<le> finalized" "finalized < -1"
    and step: "\<And>c n v v' h hash. process_chunk lib io rocks source undo config (snd st) c n v = Inr v' \<Longrightarrow> I c v \<Longrightarrow>
      unat start \<le> unat c \<Longrightarrow> unat c + n < 2 ^ 64 \<Longrightarrow> pv_last v' = Some (h, hash) \<Longrightarrow> I (h + 1) v'"
    and init: "\<And>previous. previous_tip_hash rocks (snd st) = Inr previous \<Longrightarrow> I start (pass_init state previous)"
  obtains e where "catch_up_ranges hex lib io json rocks network source undo config start finalized state st = Some (st, Inl e)"
  | v h where "catch_up_ranges hex lib io json rocks network source undo config start finalized state st
      = Some (finish_pass hex io json rocks network config v st)"
    and "collected (cc_emit_start_height config) start h v" "start \<le> h" "h \<le> finalized" and "I (h + 1) v"
proof -
  note fe = flush_end_bounds [OF assms(4,5,3)]
  let ?fin = "flush_end config start finalized"
  let ?fuel = "min (unat (finalized - start + 1)) (cc_flush_blocks config)"
  have small: "unat ?fin + 1 < 2 ^ 64"
    using fe(2) below_max [OF assms(5)] unfolding word_le_nat_alt by linarith
  have fuel: "unat ?fin + 1 - unat start \<le> ?fuel" unfolding fe(3) by simp
  show thesis
  proof (cases "previous_tip_hash rocks (snd st)")
    case (Inl e)
    then show thesis by (intro that(1) [of e]) (simp add: catch_up_ranges_def Let_def)
  next
    case (Inr previous)
    let ?loop = "chunk_loop ?fuel lib io rocks source undo config (snd st) ?fin start (pass_init state previous)"
    have pass: "catch_up_ranges hex lib io json rocks network source undo config start finalized state st
        = (case ?loop of None \<Rightarrow> None | Some (Inl e) \<Rightarrow> Some (st, Inl e)
           | Some (Inr v) \<Rightarrow> Some (finish_pass hex io json rocks network config v st))"
      by (simp add: catch_up_ranges_def Let_def Inr flush_end_def)
    have "\<exists>r. ?loop = Some r \<and> (\<forall>v'. r = Inr v' \<longrightarrow>
        (\<exists>h. collected (cc_emit_start_height config) start h v' \<and> start \<le> h \<and> h \<le> ?fin))"
      by (rule chunk_loop_effect [OF assms(1,2) small fe(1) fuel]) simp
    moreover have "\<exists>r. ?loop = Some r \<and> (\<forall>v'. r = Inr v' \<longrightarrow>
        (\<exists>h hash. pv_last v' = Some (h, hash) \<and> start \<le> h \<and> h \<le> ?fin \<and> I (h + 1) v'))"
      by (intro chunk_loop_rule [where I = I and start = start, OF assms(1,2) small] order_refl fe(1) fuel init Inr)
        (rule step)
    ultimately obtain r where r: "?loop = Some r" "\<forall>v'. r = Inr v' \<longrightarrow>
        (\<exists>h. collected (cc_emit_start_height config) start h v' \<and> start \<le> h \<and> h \<le> ?fin \<and> I (h + 1) v')"
      by (fastforce simp: collected_def)
    show thesis
    proof (cases r)
      case (Inl e)
      then show thesis using pass r(1) by (intro that(1) [of e]) simp
    next
      case (Inr v)
      then obtain h where "collected (cc_emit_start_height config) start h v" "start \<le> h" "h \<le> ?fin" "I (h + 1) v"
        using r(2) by blast
      then show thesis using pass r(1) Inr fe(2) by (intro that(2) [of v h]) simp_all
    qed
  qed
qed

lemma pass_effect:
  assumes "source_ok source" "0 < cc_fetch_batch_size config" "0 < cc_flush_blocks config"
    and "start \<le> finalized" "finalized < -1"
  obtains e where "catch_up_ranges hex lib io json rocks network source undo config start finalized state st = Some (st, Inl e)"
  | v h where "catch_up_ranges hex lib io json rocks network source undo config start finalized state st
      = Some (finish_pass hex io json rocks network config v st)"
    and "collected (cc_emit_start_height config) start h v" "start \<le> h" "h \<le> finalized"
  by (rule pass_rule [where I = "\<lambda>_ _. True", OF assms]) auto

lemma finish_pass_next:
  assumes "finish_pass hex io json rocks network config v st = (st', Inr (state', next))"
    and "pv_last v = Some (h, hash)"
  shows "next = h + 1" and "state' = pv_state v"
  using assms by (auto simp: finish_pass_def split: prod.splits sum.splits)

text \<open>
  C9: a catch-up pass always returns, whatever the sources, the database and
  the file system answer, and a pass that succeeds moves the next height past
  its start by at least one block and at most to the height after the finalized tip,
  handing on the state after those blocks.
\<close>

theorem catch_up_terminates:
  assumes "source_ok source" and "0 < cc_fetch_batch_size config" and "0 < cc_flush_blocks config"
    and "start \<le> finalized" and "finalized < -1"
  shows "\<exists>st' r. catch_up_ranges hex lib io json rocks network source undo config start finalized state st = Some (st', r)
    \<and> (\<forall>state' next. r = Inr (state', next) \<longrightarrow> start < next \<and> next \<le> finalized + 1)"
proof (cases rule: pass_effect [OF assms, of hex lib io json rocks network undo state st])
  case (1 e)
  then show ?thesis by auto
next
  case (2 v h)
  then obtain hash where last: "pv_last v = Some (h, hash)" by (auto simp: collected_def)
  have "start < h + 1 \<and> h + 1 \<le> finalized + 1"
  proof -
    have f: "unat finalized + 1 < 2 ^ 64" by (rule below_max [OF assms(5)])
    have "unat h \<le> unat finalized" "unat start \<le> unat h" using 2 by (simp_all add: word_le_nat_alt)
    then show ?thesis
      using f unat_plus_of_nat [of h 1] unat_plus_of_nat [of finalized 1]
      unfolding word_le_nat_alt word_less_nat_alt by simp
  qed
  with 2(1) finish_pass_next [OF _ last] show ?thesis by (metis surj_pair)
qed

section \<open>The committed tip is archived\<close>

text \<open>Every block file of the first archive is still there, perhaps rewritten, in the second.\<close>

definition keeps_files :: "archive_fs \<Rightarrow> archive_fs \<Rightarrow> bool" where
  "keeps_files fs fs' \<longleftrightarrow> (\<forall>h. block_at fs h \<noteq> None \<longrightarrow> block_at fs' h \<noteq> None)"

lemma keeps_files_refl [simp]: "keeps_files fs fs"
  by (simp add: keeps_files_def)

lemma keeps_files_trans: "keeps_files a b \<Longrightarrow> keeps_files b c \<Longrightarrow> keeps_files a c"
  unfolding keeps_files_def by blast

lemma write_block_keeps:
  "\<exists>fs1. write_block_bytes h bs fs = (fs1, Inr ()) \<and> keeps_files fs fs1 \<and> block_at fs1 h \<noteq> None"
proof -
  obtain fs1 where w: "write_block_bytes h bs fs = (fs1, Inr ())" "block_at fs1 = (block_at fs)(h \<mapsto> bs)"
    using write_block_effect by metis
  have "block_at fs1 x = (if x = h then Some bs else block_at fs x)" for x
    using fun_cong [OF w(2), of x] by simp
  then show ?thesis using w(1) by (auto simp: keeps_files_def)
qed

lemma write_pending_effect:
  "\<exists>fs'. write_pending ps fs = (fs', Inr ()) \<and> keeps_files fs fs'
    \<and> (\<forall>h \<in> set (map pending_height ps). block_at fs' h \<noteq> None)"
proof (induction ps arbitrary: fs)
  case (Cons p ps)
  obtain fs1 where fs1: "write_block_bytes (pending_height p) (pd_payload p) fs = (fs1, Inr ())"
      "keeps_files fs fs1" "block_at fs1 (pending_height p) \<noteq> None"
    using write_block_keeps by blast
  obtain fs' where fs': "write_pending ps fs1 = (fs', Inr ())" "keeps_files fs1 fs'"
      "\<forall>h \<in> set (map pending_height ps). block_at fs' h \<noteq> None"
    using Cons.IH by blast
  have "block_at fs' (pending_height p) \<noteq> None" using fs1(3) fs'(2) unfolding keeps_files_def by blast
  with fs' keeps_files_trans [OF fs1(2) fs'(2)] show ?case by (simp add: fs1(1))
qed simp

lemma mark_block_keeps:
  assumes "mark_block io grp updated fs = (fs', r)"
  shows "keeps_files fs fs'"
proof -
  have "keeps_files fs fs1" if "write_block_bytes h bs fs = (fs1, r1)" for h bs fs1 r1
    using that write_block_keeps [of h bs fs] by auto
  then show ?thesis
    using assms by (auto simp: mark_block_def split: option.splits sum.splits prod.splits)
qed

lemma mark_blocks_keeps: "mark_blocks io groups updated fs = (fs', r) \<Longrightarrow> keeps_files fs fs'"
proof (induction groups arbitrary: updated fs)
  case (Cons grp groups)
  obtain fs1 r1 where one: "mark_block io grp updated fs = (fs1, r1)" by fastforce
  note first = mark_block_keeps [OF one]
  show ?case
  proof (cases r1)
    case (Inr updated1)
    then have "mark_blocks io groups updated1 fs1 = (fs', r)" using Cons.prems one by simp
    with first show ?thesis using Cons.IH keeps_files_trans by blast
  qed (use Cons.prems one first in simp)
qed simp

lemma mark_spent_outputs_keeps: "mark_spent_outputs io spends fs = (fs', r) \<Longrightarrow> keeps_files fs fs'"
  by (auto simp: mark_spent_outputs_def split: sum.splits dest: mark_blocks_keeps)

lemma write_manifest_blocks: "write_manifest json m fs = (fs', r) \<Longrightarrow> keeps_files fs fs'"
  by (auto simp: write_manifest_def keeps_files_def block_file_def split: sum.splits)

lemma tip_from_content:
  assumes "db_ok rocks content" "content db KEY_TIP_HEIGHT = Some (to_be_bytes h)"
    "content db KEY_TIP_HASH = Some hash" "content db KEY_LAST_UID = Some (to_be_bytes uid)" "length hash = 32"
  shows "tip rocks db = Inr (Some \<lparr>it_height = h, it_block_hash = hash, it_last_uid = uid\<rparr>)"
proof -
  have "db_get rocks db k = Inr (content db k)" for k using assms(1) unfolding db_ok_def by blast
  then show ?thesis using assms by (simp add: tip_def read_32_def)
qed

lemma commit_sets_tip:
  assumes "db_ok rocks content" and "commit_applied_blocks rocks blocks h hash uid db = Inr db'" and "length hash = 32"
  shows "content db' KEY_TIP_HEIGHT = Some (to_be_bytes h)" and "content db' KEY_TIP_HASH = Some hash"
    and "content db' KEY_LAST_UID = Some (to_be_bytes uid)"
proof -
  from assms(2) obtain batch where "db_write rocks db (batch @ [BatchPut KEY_TIP_HEIGHT (to_be_bytes h),
      BatchPut KEY_TIP_HASH hash, BatchPut KEY_LAST_UID (to_be_bytes uid)]) = Inr db'"
    by (auto simp: commit_applied_blocks_def result_simps)
  moreover have "\<exists>db'. db_write rocks db ops = Inr db' \<and> content db' = fold apply_op ops (content db)" for ops
    using assms(1) unfolding db_ok_def by blast
  ultimately have "content db' = fold apply_op (batch @ [BatchPut KEY_TIP_HEIGHT (to_be_bytes h),
      BatchPut KEY_TIP_HASH hash, BatchPut KEY_LAST_UID (to_be_bytes uid)]) (content db)"
    by (metis sum.inject(2))
  moreover have "KEY_TIP_HEIGHT \<noteq> KEY_TIP_HASH" "KEY_TIP_HEIGHT \<noteq> KEY_LAST_UID" "KEY_TIP_HASH \<noteq> KEY_LAST_UID"
    using distinct_meta_keys by (simp_all add: meta_keys_def)
  ultimately show "content db' KEY_TIP_HEIGHT = Some (to_be_bytes h)" "content db' KEY_TIP_HASH = Some hash"
    "content db' KEY_LAST_UID = Some (to_be_bytes uid)" by simp_all
qed

lemma set_heights_upto:
  assumes "start \<le> h"
  shows "set (heights_upto start h) = {start..h}"
proof (intro set_eqI iffI)
  fix x :: u64
  have le: "unat start \<le> unat h" using assms by (simp add: word_le_nat_alt)
  show "x \<in> {start..h}" if "x \<in> set (heights_upto start h)"
  proof -
    from that obtain i where i: "x = start + word_of_nat i" "i < unat h + 1 - unat start" by (auto simp: heights_upto_def)
    then have "unat x = unat start + i"
      using unat_bounds(4) [of h] by (auto intro!: unat_plus_of_nat)
    with i(2) show ?thesis by (simp add: word_le_nat_alt)
  qed
  show "x \<in> set (heights_upto start h)" if "x \<in> {start..h}"
  proof -
    have u: "unat start \<le> unat x" "unat x \<le> unat h" using that by (simp_all add: word_le_nat_alt)
    then have "x = start + word_of_nat (unat x - unat start)" by (simp add: of_nat_diff)
    then show ?thesis using u unfolding heights_upto_def
      by (auto simp: image_iff intro!: bexI [of _ "unat x - unat start"])
  qed
qed

lemma same_content_tip:
  assumes "db_ok rocks content" and "\<forall>k \<in> {KEY_TIP_HEIGHT, KEY_TIP_HASH, KEY_LAST_UID}. content db' k = content db k"
  shows "tip rocks db' = tip rocks db"
proof -
  have "db_get rocks d k = Inr (content d k)" for d k using assms(1) unfolding db_ok_def by blast
  then show ?thesis using assms(2) by (simp add: tip_def split: option.split)
qed

lemma finish_pass_effect:
  assumes "db_ok rocks content" and "collected emit start h v" and "emit \<le> start" "start \<le> h"
    and "finish_pass hex io json rocks network config v (fs, db) = ((fs', db'), r)"
  shows "keeps_files fs fs'"
    and "(tip rocks db' = tip rocks db \<and> (\<exists>e. r = Inl e))
      \<or> ((\<exists>t. tip rocks db' = Inr (Some t) \<and> it_height t = h) \<and> (\<forall>x \<in> {start..h}. block_at fs' x \<noteq> None))"
proof -
  obtain hash where last: "pv_last v = Some (h, hash)" "length hash = 32"
    and pending: "map pending_height (pv_pending v) = filter (\<lambda>h. emit \<le> h) (heights_upto start h)"
    using assms(2) by (auto simp: collected_def)
  have pending_set: "set (map pending_height (pv_pending v)) = {start..h}"
    unfolding pending using assms(3) by (auto simp: set_heights_upto [OF assms(4)])
  obtain fs1 where fs1: "write_pending (pv_pending v) fs = (fs1, Inr ())" "keeps_files fs fs1"
      "\<forall>x \<in> {start..h}. block_at fs1 x \<noteq> None"
    using write_pending_effect [of "pv_pending v" fs] unfolding pending_set by blast
  obtain fs2 r2 where fs2: "mark_spent_outputs io (pending_spends (pv_pending v)) fs1 = (fs2, r2)" by fastforce
  note keep2 = keeps_files_trans [OF fs1(2) mark_spent_outputs_keeps [OF fs2]]
  have on2: "\<forall>x \<in> {start..h}. block_at fs2 x \<noteq> None"
    using fs1(3) mark_spent_outputs_keeps [OF fs2] unfolding keeps_files_def by blast
  let ?commit = "commit_applied_blocks rocks (map pd_applied (pv_pending v)) h hash (last_uid (pv_state v)) db"
  consider (early) e where "fs' = fs2" "db' = db" "r = Inl e"
    | (committed) db1 where "?commit = Inr db1" "(fs' = fs2 \<or> (\<exists>m r. write_manifest json m fs2 = (fs', r)))"
        "db' = db1 \<or> flush rocks db1 = Inr db'"
    using assms(5) fs1(1) fs2 last(1) by (auto simp: finish_pass_def split: sum.splits prod.splits)
  then show "keeps_files fs fs'" and "(tip rocks db' = tip rocks db \<and> (\<exists>e. r = Inl e))
      \<or> ((\<exists>t. tip rocks db' = Inr (Some t) \<and> it_height t = h) \<and> (\<forall>x \<in> {start..h}. block_at fs' x \<noteq> None))"
  proof (atomize (full), cases)
    case early
    then show "keeps_files fs fs' \<and> ((tip rocks db' = tip rocks db \<and> (\<exists>e. r = Inl e))
      \<or> ((\<exists>t. tip rocks db' = Inr (Some t) \<and> it_height t = h) \<and> (\<forall>x \<in> {start..h}. block_at fs' x \<noteq> None)))"
      using keep2 by simp
  next
    case committed
    have files: "keeps_files fs2 fs'" using committed(2) write_manifest_blocks by auto
    have "\<exists>db''. db_flush rocks db1 = Inr db'' \<and> content db'' = content db1"
      using assms(1) unfolding db_ok_def by blast
    then have "content db' = content db1" using committed(3) by (auto simp: flush_def)
    then have "tip rocks db' = Inr (Some \<lparr>it_height = h, it_block_hash = hash, it_last_uid = last_uid (pv_state v)\<rparr>)"
      using commit_sets_tip [OF assms(1) committed(1) last(2)]
      by (intro tip_from_content [OF assms(1)] last(2)) simp_all
    moreover have "\<forall>x \<in> {start..h}. block_at fs' x \<noteq> None"
      using on2 files unfolding keeps_files_def by blast
    ultimately show "keeps_files fs fs' \<and> ((tip rocks db' = tip rocks db \<and> (\<exists>e. r = Inl e))
      \<or> ((\<exists>t. tip rocks db' = Inr (Some t) \<and> it_height t = h) \<and> (\<forall>x \<in> {start..h}. block_at fs' x \<noteq> None)))"
      using keeps_files_trans [OF keep2 files] by simp
  qed
qed

section \<open>A sample chain\<close>

text \<open>A node with one block, at height 100, that has a coinbase transaction and nothing else.\<close>

definition sample_btc_block :: btc_block where
  "sample_btc_block = \<lparr>bb_block_hash = replicate 32 7, bb_prev_blockhash = replicate 32 0,
     bb_txdata = [\<lparr>bx_txid = replicate 32 1, bx_input = [], bx_output = []\<rparr>]\<rparr>"

definition sample_lib :: "(u64, u64, u64) chain_lib" where
  "sample_lib = \<lparr>cl_sha256 = \<lambda>_. replicate 32 0, cl_tests = documented_tests, cl_secp = sample_secp,
     cl_deserialize = \<lambda>_. Inr sample_btc_block, cl_xonly_from_slice = \<lambda>_. Inr 0\<rparr>"

definition sample_source :: BlockSource where
  "sample_source = \<lparr>src_get_block_hash = \<lambda>_. Inr (replicate 32 7), src_get_block_raw = \<lambda>_. Inr [],
     src_get_block_spent_txouts = \<lambda>_. Inr None, src_get_blocks_spent_txouts = \<lambda>_. Inr [],
     src_get_best_height = Inr 106,
     src_get_block_range_by_height = \<lambda>start n. if start = 100 \<and> 0 < n
       then Inr [\<lparr>rf_height = 100, rf_hash = replicate 32 7, rf_bytes = [0], rf_spent_txouts = Some \<lparr>bt_txs = [[]]\<rparr>\<rparr>]
       else Inl (Error ''unknown height'')\<rparr>"

definition sample_io :: capnp_io where
  "sample_io = \<lparr>write_light = \<lambda>_. Inr [], read_light = \<lambda>_. Inl (Error ''none''),
     write_stored = \<lambda>_. Inr [], read_stored = \<lambda>_. Inl (Error ''none'')\<rparr>"

definition sample_config :: CatchUpConfig where
  "sample_config = \<lparr>cc_emit_start_height = 100, cc_finality_depth = 6, cc_fetch_batch_size = 16,
     cc_flush_blocks = 128, cc_memory_budget_bytes = 0\<rparr>"

abbreviation sample_pass :: "content \<Rightarrow> ((archive_fs \<times> content) \<times> (P2trIndexerState \<times> u64) result) option" where
  "sample_pass db \<equiv> catch_up_ranges (\<lambda>_. []) sample_lib sample_io sample_json map_rocks Signet sample_source sample_source
     sample_config 100 100 (restore_at_uid 0) (\<lparr>af_manifest = None, af_blocks = None\<rparr>, db)"

lemma sample_source_ok: "source_ok sample_source"
  by (simp add: source_ok_def sample_source_def)

definition sample_block_scan :: BlockScanInput where
  "sample_block_scan = \<lparr>bs_height = 100, bs_block_hash = replicate 32 7, bs_previous_block_hash = replicate 32 0,
     bs_raw_block_bytes = 1, bs_txs = [\<lparr>tx_txid = replicate 32 1, tx_tx_index = 0, tx_inputs = [], tx_outputs = [],
       tx_silent_payment_tweak = None\<rparr>]\<rparr>"

lemma sample_fetch:
  "0 < n \<Longrightarrow> fetch_and_decode_chunk sample_lib sample_source undo 100 n
    = Inr \<lparr>dc_blocks = [sample_block_scan], dc_raw_bytes = 1\<rparr>"
  by (simp add: fetch_and_decode_chunk_def sample_source_def decode_frame_def decode_block_frame_def sample_lib_def
    sample_btc_block_def decode_tx_def compute_sp_tweak_from_undo_def sample_block_scan_def try_from_nat_def)

lemma sample_apply:
  obtains state ab m where
    "apply_block_with_stats (\<lambda>_. replicate 32 0) (restore_at_uid 0) sample_block_scan = Inr (state, ab)"
    and "encode_stored_light_block (ab_storage_block ab) = Inr m"
proof -
  have "sha256_ok (\<lambda>_. replicate 32 0)" "wf_block sample_block_scan" "state_inv 0 (restore_at_uid 0)"
    by (simp_all add: sha256_ok_def wf_block_def sample_block_scan_def wf_tx_def block_p2tr_count_def
      state_inv_def restore_at_uid_def inj_uids_def)
  then obtain state ab where
    r: "apply_block_with_stats (\<lambda>_. replicate 32 0) (restore_at_uid 0) sample_block_scan = Inr (state, ab)"
      "valid_stored (ab_storage_block ab)"
    using apply_block_correct [of "\<lambda>_. replicate 32 0" sample_block_scan 0 "restore_at_uid 0"]
    by (auto simp: restore_at_uid_def sample_block_scan_def)
  then have "validate_stored_light_block_input (ab_storage_block ab) = Inr ()" "unat (sb_height (ab_storage_block ab)) < 2 ^ 32"
    by (simp_all add: validate_stored_iff valid_stored_def)
  then show thesis using r(1) by (intro that [of state ab]) (simp_all add: encode_stored_light_block_def try_from_nat_def)
qed

lemma sample_no_utxos:
  assumes "apply_block_with_stats sha256 state sample_block_scan = Inr (state', ab)"
  shows "ab_spent_utxos ab = []" and "ab_created_utxos ab = []" and "lb_height (ab_light_block ab) = 100"
proof -
  let ?tx = "hd (bs_txs sample_block_scan)"
  from assms obtain n bm acc where
    txs: "try_fold (apply_tx sample_block_scan (saturating_add (next_uid state) 1) n) [?tx] (start_acc state n bm) = Inr acc"
    and ab: "ab_created_utxos ab = ba_created acc" "ab_spent_utxos ab = ba_spent acc"
    by (auto simp: apply_block_with_stats_def Let_def result_simps start_acc_def sample_block_scan_def)
  then have "finish_tx n ?tx (start_acc state n bm, False, 0) = Inr acc"
    by (auto simp: apply_tx_def sample_block_scan_def result_simps)
  from finish_tx_state [OF this] show "ab_spent_utxos ab = []" "ab_created_utxos ab = []"
    by (simp_all add: ab start_acc_def)
  show "lb_height (ab_light_block ab) = 100" using applied_height [OF assms] by (simp add: sample_block_scan_def)
qed

lemma sample_pass_succeeds:
  assumes "store_good map_rocks id db" and "tip map_rocks db = Inr None"
  shows "\<exists>fs db' state t. sample_pass db = Some ((fs, db'), Inr (state, 101))
    \<and> tip map_rocks db' = Inr (Some t) \<and> it_height t = 100"
proof -
  obtain state ab m where
    step: "apply_block_with_stats (\<lambda>_. replicate 32 0) (restore_at_uid 0) sample_block_scan = Inr (state, ab)"
      "encode_stored_light_block (ab_storage_block ab) = Inr m" by (rule sample_apply)
  note none = sample_no_utxos [OF step(1)]
  let ?v0 = "\<lparr>pv_state = restore_at_uid 0, pv_pending = [], pv_raw_bytes = 0, pv_payload_bytes = 0, pv_last = None,
    pv_previous_tip_hash = None\<rparr>"
  let ?v1 = "\<lparr>pv_state = state, pv_pending = [\<lparr>pd_applied = ab, pd_payload = []\<rparr>], pv_raw_bytes = 1,
    pv_payload_bytes = 0, pv_last = Some (100, replicate 32 7), pv_previous_tip_hash = Some (replicate 32 7)\<rparr>"
  have "lookup_spend_uids_for_chunk map_rocks db [sample_block_scan] (restore_at_uid 0) = Inr (restore_at_uid 0, [])" for db
    by (simp add: lookup_spend_uids_for_chunk_def chunk_outpoints_def sample_block_scan_def)
  moreover have "validate_decoded_chunk [sample_block_scan] 100 None = Inr ()"
    by (simp add: validate_decoded_chunk_def sample_block_scan_def)
  moreover have "apply_scan (cl_sha256 sample_lib) sample_io 100 sample_block_scan
      (?v1\<lparr>pv_pending := [], pv_state := restore_at_uid 0\<rparr>) = Inr ?v1"
    using step by (simp add: apply_scan_def sample_lib_def sample_io_def sample_block_scan_def usize_saturating_add_def)
  moreover have "bs_height sample_block_scan = 100" "bs_block_hash sample_block_scan = replicate 32 7"
    by (simp_all add: sample_block_scan_def)
  ultimately have chunk: "process_chunk sample_lib sample_io map_rocks sample_source sample_source sample_config
      db 100 1 ?v0 = Inr ?v1" for db
    by (simp add: process_chunk_def sample_fetch sample_config_def)
  have "chunk_loop 1 sample_lib sample_io map_rocks sample_source sample_source sample_config db 100 100 ?v0 = Some (Inr ?v1)" for db
    using chunk [of db] by (simp add: sample_config_def)
  moreover have "previous_tip_hash map_rocks db = Inr None"
    using assms(2) by (simp add: previous_tip_hash_def)
  ultimately have pass: "sample_pass db = Some (finish_pass (\<lambda>_. []) sample_io sample_json map_rocks Signet sample_config ?v1
      (\<lparr>af_manifest = None, af_blocks = None\<rparr>, db))"
    by (simp add: catch_up_ranges_def sample_config_def)
  obtain fs1 where w: "write_pending (pv_pending ?v1) \<lparr>af_manifest = None, af_blocks = None\<rparr> = (fs1, Inr ())"
    using write_pending_effect by blast
  have "wf_applied ab" using none by (simp add: wf_applied_def)
  then obtain db1 where c: "commit_applied_blocks map_rocks [ab] 100 (replicate 32 7) (last_uid state) db = Inr db1"
    using rs.commit_ok [OF assms(1), of "[ab]"] by force
  have "\<exists>fs state. sample_pass db = Some ((fs, db1), Inr (state, 101))" unfolding pass using w c none
    by (simp add: finish_pass_def pending_spends_def mark_spent_outputs_def flush_def map_rocks_def write_manifest_def
      sample_json_def)
  moreover have "tip map_rocks db1
      = Inr (Some \<lparr>it_height = 100, it_block_hash = replicate 32 7, it_last_uid = last_uid state\<rparr>)"
    using commit_sets_tip [OF map_rocks_ok c] by (intro tip_from_content [OF map_rocks_ok]) simp_all
  ultimately show ?thesis by auto
qed

theorem catch_up_terminates_witness:
  "\<exists>st' r. sample_pass empty_content = Some (st', r) \<and> (\<exists>state'. r = Inr (state', 101))
    \<and> (\<forall>state' next. r = Inr (state', next) \<longrightarrow> 100 < next \<and> next \<le> 101)"
proof -
  have "0 < cc_fetch_batch_size sample_config" "0 < cc_flush_blocks sample_config" "(100 :: u64) < - 1"
    by (simp_all add: sample_config_def)
  from catch_up_terminates [OF sample_source_ok this(1,2) order_refl this(3), of "\<lambda>_. []" sample_lib sample_io
      sample_json map_rocks Signet sample_source "restore_at_uid 0" "(\<lparr>af_manifest = None, af_blocks = None\<rparr>, empty_content)"]
    sample_pass_succeeds [OF empty_store_good] show ?thesis
    by (fastforce simp: tip_def map_rocks_def empty_content_def)
qed

end
