(* ===== verification/Indexer_Run.thy ===== *)
theory Indexer_Run
  imports Catch_Up
begin

text \<open>
  The run command of \<^verbatim>\<open>light-server/src/bin/light_indexer.rs\<close> as a state machine: the process is down or
  up with its in-memory state, it starts, makes rounds, fails, is stopped and
  started again, while the node answers differently every time. Over all
  these histories the committed tip is never ahead of the archive.
\<close>

section \<open>Histories\<close>

datatype process = Down | Up P2trIndexerState u64

text \<open>What is relied on of a node: range requests as before, and heights below the largest 64-bit number.\<close>

definition node_ok :: "BlockSource \<Rightarrow> bool" where
  "node_ok source \<longleftrightarrow> source_ok source \<and> (\<forall>h. src_get_best_height source = Inr h \<longrightarrow> h < -1)"

text \<open>
  A history begins with an empty database and goes through starts, rounds and
  stops; \<open>node\<close> says which pairs of block source and undo source the rounds may meet.
\<close>

inductive history :: "(BlockSource \<Rightarrow> BlockSource \<Rightarrow> bool) \<Rightarrow> (bytes \<Rightarrow> string) \<Rightarrow> ('x, 'pk, 'sc) chain_lib \<Rightarrow> capnp_io \<Rightarrow> json_lib \<Rightarrow> 'db rocks
    \<Rightarrow> ArchiveNetwork \<Rightarrow> CatchUpConfig \<Rightarrow> archive_fs \<times> 'db \<Rightarrow> process \<Rightarrow> bool"
  for node hex lib io json rocks network config where
  fresh: "\<forall>k. db_get rocks db k = Inr None \<Longrightarrow> history node hex lib io json rocks network config (fs, db) Down"
| start: "history node hex lib io json rocks network config (fs, db) Down \<Longrightarrow>
    run_start rocks network (cc_emit_start_height config) (cc_fetch_batch_size config) (cc_flush_blocks config)
      undo_supported db = (db', Inr (state, next)) \<Longrightarrow>
    history node hex lib io json rocks network config (fs, db') (Up state next)"
| start_fails: "history node hex lib io json rocks network config (fs, db) Down \<Longrightarrow>
    run_start rocks network (cc_emit_start_height config) (cc_fetch_batch_size config) (cc_flush_blocks config)
      undo_supported db = (db', Inl e) \<Longrightarrow>
    history node hex lib io json rocks network config (fs, db') Down"
| round: "history node hex lib io json rocks network config st (Up state next) \<Longrightarrow> node source undo \<Longrightarrow>
    run_step hex lib io json rocks network source undo config state next st
      = Some (st', Inr (Progressed state' next')) \<Longrightarrow>
    history node hex lib io json rocks network config st' (Up state' next')"
| idle: "history node hex lib io json rocks network config st (Up state next) \<Longrightarrow> node source undo \<Longrightarrow>
    run_step hex lib io json rocks network source undo config state next st = Some (st', Inr Caught_Up) \<Longrightarrow>
    history node hex lib io json rocks network config st' (Up state next)"
| round_fails: "history node hex lib io json rocks network config st (Up state next) \<Longrightarrow> node source undo \<Longrightarrow>
    run_step hex lib io json rocks network source undo config state next st = Some (st', Inl e) \<Longrightarrow>
    history node hex lib io json rocks network config st' Down"
| stop: "history node hex lib io json rocks network config st p \<Longrightarrow> history node hex lib io json rocks network config st Down"

section \<open>The invariant\<close>

definition archived_below :: "archive_fs \<Rightarrow> u64 \<Rightarrow> u64 \<Rightarrow> bool" where
  "archived_below fs emit next \<longleftrightarrow> (\<forall>h. emit \<le> h \<and> h < next \<longrightarrow> block_at fs h \<noteq> None)"

definition tip_archived :: "'db rocks \<Rightarrow> u64 \<Rightarrow> archive_fs \<Rightarrow> 'db \<Rightarrow> bool" where
  "tip_archived rocks emit fs db \<longleftrightarrow>
     (\<exists>t. tip rocks db = Inr t \<and> (\<forall>t'. t = Some t' \<longrightarrow> emit \<le> it_height t' \<and> it_height t' < -1
        \<and> archived_below fs emit (it_height t' + 1)))"

fun process_ok :: "CatchUpConfig \<Rightarrow> archive_fs \<Rightarrow> process \<Rightarrow> bool" where
  "process_ok config fs Down \<longleftrightarrow> True"
| "process_ok config fs (Up state next) \<longleftrightarrow>
     0 < cc_fetch_batch_size config \<and> 0 < cc_flush_blocks config
     \<and> cc_emit_start_height config \<le> next \<and> archived_below fs (cc_emit_start_height config) next"

lemma archived_below_keeps: "archived_below fs emit next \<Longrightarrow> keeps_files fs fs' \<Longrightarrow> archived_below fs' emit next"
  unfolding archived_below_def keeps_files_def by blast

lemma tip_archived_keeps:
  "tip_archived rocks emit fs db \<Longrightarrow> keeps_files fs fs' \<Longrightarrow> tip rocks db' = tip rocks db \<Longrightarrow> tip_archived rocks emit fs' db'"
  unfolding tip_archived_def by (auto intro: archived_below_keeps)

lemma next_height:
  fixes h :: u64
  assumes "h < -1"
  shows "x < h + 1 \<longleftrightarrow> x \<le> h" and "h < h + 1"
  using unat_plus_of_nat [of h 1] below_max [OF assms] by (auto simp: word_less_nat_alt word_le_nat_alt)

lemma ensure_meta_keeps_tip:
  assumes "db_ok rocks content"
  shows "tip rocks (fst (ensure_meta rocks network start db)) = tip rocks db"
proof -
  have neq: "k \<noteq> KEY_NETWORK" "k \<noteq> KEY_START_HEIGHT" if "k \<in> {KEY_TIP_HEIGHT, KEY_TIP_HASH, KEY_LAST_UID}" for k
    using that distinct_meta_keys by (auto simp: meta_keys_def)
  obtain db1 r where step: "ensure_meta_value rocks KEY_NETWORK network db = (db1, r)" by fastforce
  note first = ensure_meta_value_effect(2) [OF assms, of KEY_NETWORK network db, unfolded step fst_conv]
  note second = ensure_meta_value_effect(2) [OF assms, of KEY_START_HEIGHT "to_be_bytes start" db1]
  have "content (fst (ensure_meta rocks network start db)) k = content db k"
    if "k \<in> {KEY_TIP_HEIGHT, KEY_TIP_HASH, KEY_LAST_UID}" for k
    using neq [OF that] first second by (cases r) (auto simp: ensure_meta_def step)
  then show ?thesis by (intro same_content_tip [OF assms]) blast
qed

lemma run_start_effect:
  assumes "db_ok rocks content" "tip_archived rocks emit fs db"
    and "run_start rocks network emit batch flush_n undo_supported db = (db', r)"
  shows "tip rocks db' = tip rocks db"
    and "r = Inr (state, next) \<Longrightarrow> 0 < batch \<and> 0 < flush_n \<and> emit \<le> next \<and> archived_below fs emit next"
proof -
  have cases: "db' = db \<and> (\<exists>e. r = Inl e) \<or> db' = fst (ensure_meta rocks (ascii (network_display network)) emit db)
      \<and> (0 < batch \<and> 0 < flush_n)
      \<and> ((\<exists>e. r = Inl e) \<or> r = and_then (tip rocks db') (\<lambda>t. Inr (restore_at_uid (case t of None \<Rightarrow> 0 | Some t \<Rightarrow> it_last_uid t),
           case t of None \<Rightarrow> emit | Some t \<Rightarrow> it_height t + 1)))"
    using assms(3) by (auto simp: run_start_def Let_def split: if_splits prod.splits sum.splits)
  then show same: "tip rocks db' = tip rocks db"
    using ensure_meta_keeps_tip [OF assms(1)] by metis
  assume r: "r = Inr (state, next)"
  obtain t where t: "tip rocks db = Inr t" "\<forall>t'. t = Some t' \<longrightarrow> emit \<le> it_height t' \<and> it_height t' < -1
      \<and> archived_below fs emit (it_height t' + 1)"
    using assms(2) unfolding tip_archived_def by blast
  from cases r have n: "next = (case t of None \<Rightarrow> emit | Some t \<Rightarrow> it_height t + 1)" and pos: "0 < batch" "0 < flush_n"
    using same t(1) by auto
  have "emit \<le> next \<and> archived_below fs emit next"
  proof (cases t)
    case (Some t')
    then show ?thesis using t(2) n next_height(2) [of "it_height t'"] by auto
  qed (auto simp: n archived_below_def)
  with pos show "0 < batch \<and> 0 < flush_n \<and> emit \<le> next \<and> archived_below fs emit next" by blast
qed
lemma archived_extend:
  assumes "archived_below fs emit start" and "\<forall>x \<in> {start..h}. block_at fs x \<noteq> None" and "h < -1"
  shows "archived_below fs emit (h + 1)"
  using assms(1,2) unfolding archived_below_def next_height(1) [OF assms(3)]
  by (metis atLeastAtMost_iff linorder_not_less)

lemma saturating_sub_le: "saturating_sub (a :: u64) b \<le> a"
  using unat_saturating_sub [of a b] by (simp add: word_le_nat_alt)

lemma round_effect:
  assumes "db_ok rocks content" "node_ok source" "process_ok config fs (Up state next)"
    and "tip_archived rocks (cc_emit_start_height config) fs db"
    and "run_step hex lib io json rocks network source undo config state next (fs, db) = Some ((fs', db'), r)"
  shows "tip_archived rocks (cc_emit_start_height config) fs' db'"
    and "r = Inr (Progressed state' next') \<Longrightarrow> process_ok config fs' (Up state' next')"
    and "r = Inr Caught_Up \<Longrightarrow> process_ok config fs' (Up state next)"
proof -
  let ?emit = "cc_emit_start_height config"
  have ok: "0 < cc_fetch_batch_size config" "0 < cc_flush_blocks config" "?emit \<le> next" "archived_below fs ?emit next"
    using assms(3) by simp_all
  have "tip_archived rocks ?emit fs' db' \<and> (r = Inr (Progressed state' next') \<longrightarrow> process_ok config fs' (Up state' next'))
    \<and> (r = Inr Caught_Up \<longrightarrow> process_ok config fs' (Up state next))"
  proof (cases "\<exists>best hash. src_get_best_height source = Inr best \<and> src_get_block_hash source best = Inr hash
      \<and> next \<le> saturating_sub best (cc_finality_depth config)")
    case False
    then have "fs' = fs \<and> db' = db \<and> (\<forall>state' next'. r \<noteq> Inr (Progressed state' next'))"
      using assms(5) by (auto simp: run_step_def Let_def split: sum.splits if_splits)
    then show ?thesis using assms(3,4) by simp
  next
    case True
    then obtain best hash where best: "src_get_best_height source = Inr best" "src_get_block_hash source best = Inr hash"
      and le: "next \<le> saturating_sub best (cc_finality_depth config)" by blast
    let ?fin = "saturating_sub best (cc_finality_depth config)"
    have fin: "?fin < -1"
      using assms(2) best(1) saturating_sub_le [of best "cc_finality_depth config"] unfolding node_ok_def
      by (blast intro: order.strict_trans1)
    from assms(5) best le obtain pr where
      pass: "catch_up_ranges hex lib io json rocks network source undo config next ?fin state (fs, db) = Some ((fs', db'), pr)"
      and r: "r = and_then pr (\<lambda>(state', next'). Inr (Progressed state' next'))"
      by (auto simp: run_step_def Let_def)
    have source: "source_ok source" using assms(2) by (simp add: node_ok_def)
    show ?thesis
    proof (cases rule: pass_effect [OF source ok(1,2) le fin, of hex lib io json rocks network undo state "(fs, db)"])
      case (1 e)
      then show ?thesis using pass r assms(4) by auto
    next
      case (2 v h)
      have fp: "finish_pass hex io json rocks network config v (fs, db) = ((fs', db'), pr)" using 2(1) pass by simp
      note eff = finish_pass_effect [OF assms(1) 2(2) ok(3) 2(3) fp]
      have h: "h < -1" using 2(4) fin by (rule order.strict_trans1)
      have below: "archived_below fs' ?emit next" by (rule archived_below_keeps [OF ok(4) eff(1)])
      obtain hash' where last: "pv_last v = Some (h, hash')" using 2(2) by (auto simp: collected_def)
      from eff(2) show ?thesis
      proof
        assume "tip rocks db' = tip rocks db \<and> (\<exists>e. pr = Inl e)"
        then show ?thesis using tip_archived_keeps [OF assms(4) eff(1)] r by auto
      next
        assume "(\<exists>t. tip rocks db' = Inr (Some t) \<and> it_height t = h) \<and> (\<forall>x \<in> {next..h}. block_at fs' x \<noteq> None)"
        then obtain t where t: "tip rocks db' = Inr (Some t)" "it_height t = h"
          and files: "archived_below fs' ?emit (h + 1)" using archived_extend [OF below _ h] by blast
        have "?emit \<le> h" using ok(3) 2(3) by simp
        moreover have "?emit \<le> h + 1" using calculation next_height(2) [OF h] by simp
        moreover have "next' = h + 1" if "pr = Inr (state', next')"
          using finish_pass_next(1) [OF _ last] fp that by blast
        ultimately show ?thesis using t files h ok(1,2) r
          by (auto simp: tip_archived_def and_then_eq_Inr split: prod.splits)
      qed
    qed
  qed
  then show "tip_archived rocks ?emit fs' db'"
    and "r = Inr (Progressed state' next') \<Longrightarrow> process_ok config fs' (Up state' next')"
    and "r = Inr Caught_Up \<Longrightarrow> process_ok config fs' (Up state next)" by blast+
qed

lemma history_invariant:
  assumes "db_ok rocks content" and node: "\<And>source undo. node source undo \<Longrightarrow> node_ok source"
  shows "history node hex lib io json rocks network config st p \<Longrightarrow>
    tip_archived rocks (cc_emit_start_height config) (fst st) (snd st) \<and> process_ok config (fst st) p"
proof (induction rule: history.induct)
  case (start fs db undo_supported db' state "next")
  then have "tip_archived rocks (cc_emit_start_height config) fs db" by simp
  note eff = run_start_effect [OF assms(1) this start(2)]
  show ?case using tip_archived_keeps [OF _ keeps_files_refl eff(1)] eff(2) start.IH by simp
next
  case (start_fails fs db undo_supported db' e)
  then have ta: "tip_archived rocks (cc_emit_start_height config) fs db" by simp
  show ?case using tip_archived_keeps [OF ta keeps_files_refl run_start_effect(1) [OF assms(1) ta start_fails(2)]] by simp
next
  case (round st state "next" source undo st' state' next')
  obtain fs db fs' db' where st: "st = (fs, db)" "st' = (fs', db')" by fastforce
  note eff = round_effect(1,2) [OF assms(1) node [OF round(2)] _ _ round(3) [unfolded st]]
  show ?case using round.IH eff(1) eff(2) [OF _ _ refl] by (simp add: st)
next
  case (idle st state "next" source undo st')
  obtain fs db fs' db' where st: "st = (fs, db)" "st' = (fs', db')" by fastforce
  note eff = round_effect(1,3) [OF assms(1) node [OF idle(2)] _ _ idle(3) [unfolded st]]
  show ?case using idle.IH eff(1) eff(2) [OF _ _ refl] by (simp add: st)
next
  case (round_fails st state "next" source undo st' e)
  obtain fs db fs' db' where st: "st = (fs, db)" "st' = (fs', db')" by fastforce
  show ?case using round_fails.IH round_effect(1) [OF assms(1) node [OF round_fails(2)] _ _ round_fails(3) [unfolded st]]
    by (simp add: st)
qed (simp_all add: tip_archived_def tip_def)

section \<open>Property\<close>


text \<open>The sample chain: a fresh database, a start, and one round that archives its block.\<close>

lemma sample_node_ok: "node_ok sample_source"
  by (simp add: node_ok_def sample_source_ok) (simp add: sample_source_def)

lemma sample_history:
  "\<exists>fs db state. history (\<lambda>source _. source = sample_source) (\<lambda>_. []) sample_lib sample_io sample_json map_rocks Signet sample_config (fs, db) (Up state 101)
    \<and> (\<exists>t. tip map_rocks db = Inr (Some t) \<and> it_height t = 100)"
proof -
  define fs0 where "fs0 = \<lparr>af_manifest = None, af_blocks = None\<rparr>"
  let ?history = "history (\<lambda>source _. source = sample_source) (\<lambda>_. []) sample_lib sample_io sample_json map_rocks Signet sample_config"
  have t0: "tip map_rocks empty_content = Inr None" by (simp add: tip_def map_rocks_def empty_content_def)
  have d: "?history (fs0, empty_content) Down" by (rule history.fresh) (simp add: map_rocks_def empty_content_def)
  define db1 where "db1 = fst (ensure_meta map_rocks (ascii (network_display Signet)) 100 empty_content)"
  have "snd (ensure_meta map_rocks (ascii (network_display Signet)) 100 empty_content) = Inr ()"
    using ensure_meta_effect(1) [OF map_rocks_ok] by (simp add: empty_content_def)
  then have meta: "ensure_meta map_rocks (ascii (network_display Signet)) 100 empty_content = (db1, Inr ())"
    unfolding db1_def by (metis prod.collapse)
  have t1: "tip map_rocks db1 = Inr None"
    unfolding db1_def using ensure_meta_keeps_tip [OF map_rocks_ok] t0 by simp
  have up0: "?history (fs0, db1) (Up (restore_at_uid 0) 100)"
    by (rule history.start [OF d, of True]) (simp add: run_start_def sample_config_def meta t1)
  have good: "store_good map_rocks id db1"
    using ensure_meta_effect(2) [OF map_rocks_ok, of "ascii (network_display Signet)" 100 empty_content] meta empty_store_good
    by (simp add: store_good_def store_inv_meta tip_keys)
  obtain fs db state t where pass: "sample_pass db1 = Some ((fs, db), Inr (state, 101))"
    and t: "tip map_rocks db = Inr (Some t)" "it_height t = 100"
    using sample_pass_succeeds [OF good t1] by blast
  have "run_step (\<lambda>_. []) sample_lib sample_io sample_json map_rocks Signet sample_source sample_source
      sample_config (restore_at_uid 0) 100 (fs0, db1) = Some ((fs, db), Inr (Progressed state 101))"
    using pass by (simp add: run_step_def sample_source_def sample_config_def fs0_def saturating_sub_def)
  then have up: "?history (fs, db) (Up state 101)"
    by (intro history.round [OF up0]) simp_all
  with t show ?thesis by blast
qed


end
