(* ===== verification/Full_Run.thy ===== *)
theory Full_Run
  imports Restart Indexer_Run
begin

text \<open>
  The indexer of \<^verbatim>\<open>light-server/src/bin/light_indexer.rs\<close> against its specification: whatever
  passes, failures and restarts it goes through, its database represents the
  state of one run that applies the blocks of the chain in order and keeps the whole
  spend index in memory.
\<close>

section \<open>The chain\<close>

text \<open>
  What the rules of the chain give: blocks are well formed, no transaction has the
  all-zero identifier, a transaction comes before the spends of its outputs,
  and no outpoint but that of the coinbase inputs is spent in two blocks.
\<close>

definition chain_ok :: "(u64 \<Rightarrow> BlockScanInput) \<Rightarrow> bool" where
  "chain_ok chain \<longleftrightarrow>
     (\<forall>h. wf_txids (chain h) \<and> replicate 32 0 \<notin> block_txids (chain h))
     \<and> (\<forall>h h'. h < h' \<longrightarrow> block_txids (chain h') \<inter> op_txid ` block_spends (chain h) = {})
     \<and> (\<forall>h h' p. h \<noteq> h' \<longrightarrow> p \<in> block_spends (chain h) \<longrightarrow> p \<in> block_spends (chain h') \<longrightarrow> is_coinbase p)"

text \<open>The nodes the indexer meets decode to the blocks of the chain.\<close>

definition serves :: "('x, 'pk, 'sc) chain_lib \<Rightarrow> (u64 \<Rightarrow> BlockScanInput) \<Rightarrow> BlockSource \<Rightarrow> BlockSource \<Rightarrow> bool" where
  "serves lib chain source undo \<longleftrightarrow>
     (\<forall>start n chunk. fetch_and_decode_chunk lib source undo start n = Inr chunk \<longrightarrow>
        (\<forall>block \<in> set (dc_blocks chunk). block = chain (bs_height block)))"

lemma chain_no_recreation: "chain_ok chain \<Longrightarrow> sorted_wrt (<) hs \<Longrightarrow> no_recreation (map chain hs)"
  by (induction hs) (auto simp: chain_ok_def)

lemma heights_below_sorted: "sorted_wrt (<) (heights_below start c)"
proof -
  have "unat (start + word_of_nat i) = unat start + i" if "i < unat c - unat start" for i
    using that unat_bounds(4) [of c] by (intro unat_plus_of_nat) simp
  then show ?thesis
    unfolding heights_below_def sorted_wrt_map
    by (intro sorted_wrt_mono_rel [OF _ sorted_wrt_upt]) (simp add: word_less_nat_alt)
qed

section \<open>The in-memory index beside the database\<close>

text \<open>
  The restarted state \<open>inc\<close> has some of the live outputs in memory; the rest is in the
  database (\<open>view\<close>), which still holds those spent since (\<open>S\<close>).
\<close>

definition tracks :: "(OutPointKey \<Rightarrow> SpendLookup option) \<Rightarrow> OutPointKey set \<Rightarrow> P2trIndexerState
    \<Rightarrow> P2trIndexerState \<Rightarrow> bool" where
  "tracks view S full inc \<longleftrightarrow>
     next_uid full = next_uid inc \<and> seen_p2tr_keys full = seen_p2tr_keys inc
     \<and> (\<forall>p. utxos full p = override (utxos inc p) (if p \<in> S then None else view p))
     \<and> (\<forall>p. is_coinbase p \<longrightarrow> utxos full p = None)"

lemma override_simps [simp]:
  "override (Some x) m = Some x" "override None m = m" "override c None = c"
  "override (override a b) m = override a (override b m)" "override c m = None \<longleftrightarrow> c = None \<and> m = None"
  by (auto simp: override_def split: option.splits)

lemma chunk_outpoints_set:
  "set (chunk_outpoints inc blocks) = {p \<in> run_spends blocks. \<not> is_coinbase p \<and> utxos inc p = None}"
  by (auto simp: chunk_outpoints_def contains_outpoint_def block_spends_def)

lemma cache_keeps:
  "cache_spend_uid_candidates cands state cached = (state', cached') \<Longrightarrow>
     next_uid state' = next_uid state \<and> seen_p2tr_keys state' = seen_p2tr_keys state"
  by (induction cands state cached rule: cache_spend_uid_candidates.induct) (auto split: if_splits)

lemma chunk_lookup:
  assumes "store_good rocks content db" and "\<forall>block \<in> set blocks. wf_txids block"
  obtains inc1 cands where "lookup_spend_uids_for_chunk rocks db blocks inc = Inr (inc1, cands)"
    and "set cands \<subseteq> run_spends blocks"
    and "next_uid inc1 = next_uid inc" "seen_p2tr_keys inc1 = seen_p2tr_keys inc"
    and "\<And>p. utxos inc1 p = override (utxos inc p)
      (if p \<in> run_spends blocks \<and> \<not> is_coinbase p then spend_view (content db) p else None)"
proof -
  let ?ps = "remdups_adj (sort_key (\<lambda>p. (op_txid p, op_vout p)) (chunk_outpoints inc blocks))"
  have ps: "set ?ps = {p \<in> run_spends blocks. \<not> is_coinbase p \<and> utxos inc p = None}"
    using chunk_outpoints_set by simp
  show thesis
  proof (cases "?ps = []")
    case True
    then have none: "{p \<in> run_spends blocks. \<not> is_coinbase p \<and> utxos inc p = None} = {}" using ps by (metis set_empty)
    have "lookup_spend_uids_for_chunk rocks db blocks inc = Inr (inc, [])"
      using True by (simp add: lookup_spend_uids_for_chunk_def)
    moreover have "utxos inc p = override (utxos inc p)
        (if p \<in> run_spends blocks \<and> \<not> is_coinbase p then spend_view (content db) p else None)" for p
      using none by (cases "utxos inc p") auto
    ultimately show thesis by (intro that [of inc "[]"]) simp_all
  next
    case False
    have "wf_outpoint p" if "p \<in> run_spends blocks" for p
      using that assms(2) by (auto simp: wf_txids_def block_spends_def)
    then have "\<forall>p \<in> set ?ps. wf_outpoint p" unfolding ps by blast
    then obtain found where found: "lookup_outpoint_uids rocks db ?ps = Inr found"
        "map_of found = spend_view (content db) |` set ?ps"
      using rs.lookup_map [OF assms(1)] by blast
    obtain inc1 cands where c: "cache_spend_uid_candidates found inc [] = (inc1, cands)" by fastforce
    have look: "lookup_spend_uids_for_chunk rocks db blocks inc = Inr (inc1, cands)"
      using False found(1) c by (simp add: lookup_spend_uids_for_chunk_def Let_def)
    have "set cands \<subseteq> dom (map_of found)" using cache_cached [OF c] by auto
    then have cands: "set cands \<subseteq> run_spends blocks" unfolding found(2) ps by auto
    have u: "utxos inc1 p = override (utxos inc p)
        (if p \<in> run_spends blocks \<and> \<not> is_coinbase p then spend_view (content db) p else None)" for p
      unfolding cache_utxos [OF c] found(2) ps
      by (cases "utxos inc p") (auto simp: map_add_def restrict_map_def)
    show thesis by (rule that [OF look cands _ _ u]) (use cache_keeps [OF c] in simp_all)
  qed
qed

lemma chunk_tracks:
  assumes tracks: "tracks (spend_view (content db)) S full inc" and good: "store_good rocks content db"
    and wf: "\<forall>block \<in> set blocks. wf_txids block \<and> replicate 32 0 \<notin> block_txids block" and order: "no_recreation blocks"
    and once: "\<forall>p \<in> run_spends blocks \<inter> S. is_coinbase p"
    and look: "lookup_spend_uids_for_chunk rocks db blocks inc = Inr (inc1, cands)"
    and run: "apply_blocks sha256 inc1 blocks = Inr (inc2, applied)"
  shows "\<exists>full'. apply_blocks sha256 full blocks = Inr (full', applied)
    \<and> tracks (spend_view (content db)) (S \<union> run_spends blocks) full' (fst (evict_spend_uid_candidates cands inc2 0))"
proof -
  let ?view = "spend_view (content db)" and ?D = "run_spends blocks"
  have t: "next_uid full = next_uid inc" "seen_p2tr_keys full = seen_p2tr_keys inc"
    "\<And>p. utxos full p = override (utxos inc p) (if p \<in> S then None else ?view p)"
    "\<And>p. is_coinbase p \<Longrightarrow> utxos full p = None"
    using tracks unfolding tracks_def by blast+
  have wf': "\<forall>block \<in> set blocks. wf_txids block" using wf by blast
  from chunk_lookup [OF good wf', of inc] look have l: "set cands \<subseteq> ?D"
    "next_uid inc1 = next_uid inc" "seen_p2tr_keys inc1 = seen_p2tr_keys inc"
    "\<And>p. utxos inc1 p = override (utxos inc p) (if p \<in> ?D \<and> \<not> is_coinbase p then ?view p else None)"
    by (metis prod.inject sum.inject(2))+
  have "utxos full p = utxos inc1 p" if p: "p \<in> ?D" for p
  proof (cases "is_coinbase p")
    case True
    then have "override (utxos inc p) (if p \<in> S then None else ?view p) = None" using t(3,4) [of p] by argo
    then have "utxos inc p = None" by (simp only: override_simps)
    then show ?thesis using True t(4) [of p] l(4) [of p] by simp
  next
    case False
    then show ?thesis using p once t(3) [of p] l(4) [of p] by auto
  qed
  then have "state_agrees ?D full inc1" using t l by (simp add: state_agrees_def)
  then have "same_result (rel_prod (state_agrees ?D) (=)) (apply_blocks sha256 full blocks) (apply_blocks sha256 inc1 blocks)"
    by (rule run_agrees) blast
  then obtain full' where full': "apply_blocks sha256 full blocks = Inr (full', applied)" "state_agrees ?D full' inc2"
    unfolding run by (cases "apply_blocks sha256 full blocks") auto
  note m = commit_mirrors_run [OF full'(1) wf'] commit_mirrors_run [OF run wf']
  have gone: "utxos full' p = None" "utxos inc2 p = None" if "p \<in> ?D" for p
    using that run_gone [OF full'(1) wf' order] run_gone [OF run wf' order] by blast+
  have evict: "utxos (fst (evict_spend_uid_candidates cands inc2 0)) = utxos inc2"
    "next_uid (fst (evict_spend_uid_candidates cands inc2 0)) = next_uid inc2"
    "seen_p2tr_keys (fst (evict_spend_uid_candidates cands inc2 0)) = seen_p2tr_keys inc2"
  proof -
    obtain inc3 n where e: "evict_spend_uid_candidates cands inc2 0 = (inc3, n)" by fastforce
    have "utxos inc2 p = None" if "p \<in> set cands" for p using that gone(2) l(1) by blast
    then have "utxos inc2 |` (- set cands) = utxos inc2" by (auto simp: restrict_map_def fun_eq_iff)
    then show "utxos (fst (evict_spend_uid_candidates cands inc2 0)) = utxos inc2"
      "next_uid (fst (evict_spend_uid_candidates cands inc2 0)) = next_uid inc2"
      "seen_p2tr_keys (fst (evict_spend_uid_candidates cands inc2 0)) = seen_p2tr_keys inc2"
      using evict_utxos [OF e] by (simp_all add: e)
  qed
  have point: "utxos full' p = override (utxos inc2 p) (if p \<in> S \<union> ?D then None else ?view p)" for p
  proof (cases "p \<in> ?D")
    case True
    then show ?thesis using gone by simp
  next
    case False
    then have "\<forall>ab \<in> set applied. p \<notin> sp_outpoint ` set (ab_spent_utxos ab)" using run_named [OF run] by blast
    then obtain c where c: "\<And>m. fold spec_commit applied m p = override c (m p)" using commits_point by metis
    have "utxos full' p = override c (utxos full p)" "utxos inc2 p = override c (utxos inc1 p)" using m c by simp_all
    then show ?thesis using False t(3) [of p] l(4) [of p] by simp
  qed
  have "utxos full' p = None" if "is_coinbase p" for p
  proof (rule run_stays [OF full'(1) wf' _ t(4) [OF that]])
    show "\<forall>block \<in> set blocks. op_txid p \<notin> block_txids block" using wf that by (auto simp: is_coinbase_def)
  qed
  then show ?thesis using full' point evict by (auto simp: tracks_def state_agrees_def)
qed

section \<open>A pass follows the full run\<close>

lemma apply_blocks_append:
  "apply_blocks sha256 state (xs @ ys) = and_then (apply_blocks sha256 state xs) (\<lambda>(state1, as).
     and_then (apply_blocks sha256 state1 ys) (\<lambda>(state2, bs). Inr (state2, as @ bs)))"
proof (induction xs arbitrary: state)
  case Nil
  then show ?case by (cases "apply_blocks sha256 state ys") auto
next
  case (Cons x xs)
  then show ?case
    by (cases "apply_block_with_stats sha256 state x")
      (auto simp: and_then_assoc case_prod_beta intro!: and_then_cong)
qed

lemma scans_apply:
  "try_fold (apply_scan sha256 io emit) scans v = Inr v' \<Longrightarrow> \<forall>scan \<in> set scans. emit \<le> bs_height scan \<Longrightarrow>
   \<exists>applied. apply_blocks sha256 (pv_state v) scans = Inr (pv_state v', applied)
     \<and> map pd_applied (pv_pending v') = map pd_applied (pv_pending v) @ applied"
proof (induction scans arbitrary: v)
  case (Cons scan scans)
  then obtain v1 where step: "apply_scan sha256 io emit scan v = Inr v1"
      "try_fold (apply_scan sha256 io emit) scans v1 = Inr v'" by (auto simp: result_simps)
  have "emit \<le> bs_height scan" using Cons.prems(2) by simp
  with step(1) obtain ab where ab: "apply_block_with_stats sha256 (pv_state v) scan = Inr (pv_state v1, ab)"
      "map pd_applied (pv_pending v1) = map pd_applied (pv_pending v) @ [ab]"
    by (auto simp: apply_scan_def result_simps)
  obtain applied where "apply_blocks sha256 (pv_state v1) scans = Inr (pv_state v', applied)"
      "map pd_applied (pv_pending v') = map pd_applied (pv_pending v1) @ applied"
    using Cons.IH [OF step(2)] Cons.prems(2) by auto
  with ab show ?case by (intro exI [of _ "ab # applied"]) simp
qed simp

text \<open>The chunk loop has applied the blocks below the next height as the full run does.\<close>

definition follows :: "sha256_fun \<Rightarrow> (u64 \<Rightarrow> BlockScanInput) \<Rightarrow> (OutPointKey \<Rightarrow> SpendLookup option) \<Rightarrow> u64
    \<Rightarrow> P2trIndexerState \<Rightarrow> u64 \<Rightarrow> pass_vars \<Rightarrow> bool" where
  "follows sha256 chain view start full0 c v \<longleftrightarrow>
     (let done = map chain (heights_below start c) in
      (\<exists>full. apply_blocks sha256 full0 done = Inr (full, map pd_applied (pv_pending v))
         \<and> tracks view (run_spends done) full (pv_state v))
      \<and> (\<forall>h hash. pv_last v = Some (h, hash) \<longrightarrow> hash = bs_block_hash (chain h)))"

lemma served_blocks:
  assumes "serves lib chain source undo" "fetch_and_decode_chunk lib source undo c n = Inr chunk"
    and "linked_run c (dc_blocks chunk)"
  shows "dc_blocks chunk = map chain (map (\<lambda>i. c + word_of_nat i) [0..<length (dc_blocks chunk)])"
proof -
  have "\<forall>block \<in> set (dc_blocks chunk). block = chain (bs_height block)"
    using assms(1,2) unfolding serves_def by blast
  then have "dc_blocks chunk = map chain (map bs_height (dc_blocks chunk))" by (simp add: map_idI [symmetric] comp_def)
  then show ?thesis unfolding linked_run_heights [OF assms(3)] .
qed

lemma heights_below_less: "x \<in> set (heights_below start c) \<Longrightarrow> x < c"
proof -
  assume "x \<in> set (heights_below start c)"
  then obtain i where i: "x = start + word_of_nat i" "i < unat c - unat start" by (auto simp: heights_below_def)
  have "unat x = unat start + i" unfolding i(1) using i(2) unat_bounds(4) [of c] by (intro unat_plus_of_nat) simp
  with i(2) show "x < c" by (simp add: word_less_nat_alt)
qed

lemma chunk_follows:
  assumes ok: "chain_ok chain" "serves lib chain source undo" "source_ok source" "store_good rocks content db"
    and emit: "cc_emit_start_height config \<le> start"
    and chunk: "process_chunk lib io rocks source undo config db c n v = Inr v'"
    and inv: "follows (cl_sha256 lib) chain (spend_view (content db)) start full0 c v"
    and le: "unat start \<le> unat c" and room: "unat c + n < 2 ^ 64" and last: "pv_last v' = Some (h, hash)"
  shows "follows (cl_sha256 lib) chain (spend_view (content db)) start full0 (h + 1) v'"
proof -
  let ?view = "spend_view (content db)" and ?done = "map chain (heights_below start c)"
  from inv obtain full where full: "apply_blocks (cl_sha256 lib) full0 ?done = Inr (full, map pd_applied (pv_pending v))"
      "tracks ?view (run_spends ?done) full (pv_state v)" by (auto simp: follows_def Let_def)
  from chunk obtain ch state cands v2 where
    fetch: "fetch_and_decode_chunk lib source undo c n = Inr ch"
    and valid: "validate_decoded_chunk (dc_blocks ch) c (pv_previous_tip_hash v) = Inr ()"
    and look: "lookup_spend_uids_for_chunk rocks db (dc_blocks ch) (pv_state v) = Inr (state, cands)"
    and scans: "try_fold (apply_scan (cl_sha256 lib) io (cc_emit_start_height config)) (dc_blocks ch)
      (v\<lparr>pv_raw_bytes := pv_raw_bytes v + dc_raw_bytes ch,
         pv_last := Some (bs_height (last (dc_blocks ch)), bs_block_hash (last (dc_blocks ch))),
         pv_previous_tip_hash := Some (bs_block_hash (last (dc_blocks ch))), pv_state := state\<rparr>) = Inr v2"
    and v': "v' = v2\<lparr>pv_state := fst (evict_spend_uid_candidates cands (pv_state v2) 0)\<rparr>"
    by (rule process_chunkE)
  define k where "k = length (dc_blocks ch)"
  let ?new = "map (\<lambda>i. c + word_of_nat i) [0..<k]"
  have run: "dc_blocks ch \<noteq> []" "linked_run c (dc_blocks ch)" using valid by (simp_all add: validate_chunk_iff)
  have blocks: "dc_blocks ch = map chain ?new" unfolding k_def by (rule served_blocks [OF ok(2) fetch run(2)])
  have k: "1 \<le> k" "k \<le> n" using run(1) fetched_chunk(1) [OF ok(3) fetch] by (simp_all add: k_def Suc_le_eq)
  have room_k: "unat c + k < 2 ^ 64" using room k(2) by simp
  have hs: "heights_below start (c + word_of_nat k) = heights_below start c @ ?new"
    by (rule heights_below_extend [OF le room_k k(1)])
  have "h = bs_height (last (dc_blocks ch))" and hash: "hash = bs_block_hash (last (dc_blocks ch))"
    using last apply_scans_effect [OF scans] by (simp_all add: v')
  then have "h = c + word_of_nat (k - 1)" using run by (simp add: last_conv_nth linked_run_def k_def)
  then have h1: "h + 1 = c + word_of_nat k" and h: "h = last ?new"
    using k(1) by (simp_all add: of_nat_diff last_map last_upt)
  have new_ge: "c \<le> x" if "x \<in> set ?new" for x
  proof -
    from that obtain i where i: "x = c + word_of_nat i" "i < k" by auto
    have "unat x = unat c + i" unfolding i(1) using i(2) room_k by (intro unat_plus_of_nat) simp
    then show ?thesis by (simp add: word_le_nat_alt)
  qed
  have "sorted_wrt (<) (heights_below start c @ ?new)" using heights_below_sorted [of start "c + word_of_nat k"] unfolding hs .
  then have order: "no_recreation (dc_blocks ch)"
    unfolding blocks by (intro chain_no_recreation [OF ok(1)]) (simp add: sorted_wrt_append)
  have wf: "\<forall>block \<in> set (dc_blocks ch). wf_txids block \<and> replicate 32 0 \<notin> block_txids block"
    unfolding blocks using ok(1) by (auto simp: chain_ok_def)
  have once: "\<forall>p \<in> run_spends (dc_blocks ch) \<inter> run_spends ?done. is_coinbase p"
  proof
    fix p
    assume "p \<in> run_spends (dc_blocks ch) \<inter> run_spends ?done"
    then obtain x y where xy: "x \<in> set ?new" "p \<in> block_spends (chain x)" "y \<in> set (heights_below start c)"
        "p \<in> block_spends (chain y)" unfolding blocks by auto
    then have "x \<noteq> y" using new_ge [OF xy(1)] heights_below_less [OF xy(3)] by auto
    then show "is_coinbase p" using ok(1) xy unfolding chain_ok_def by blast
  qed
  have "\<forall>scan \<in> set (dc_blocks ch). cc_emit_start_height config \<le> bs_height scan"
  proof
    fix scan
    assume "scan \<in> set (dc_blocks ch)"
    then have "bs_height scan \<in> set ?new" using linked_run_heights [OF run(2)] unfolding k_def by (metis image_eqI set_map)
    then have "c \<le> bs_height scan" by (rule new_ge)
    then show "cc_emit_start_height config \<le> bs_height scan" using emit le by (simp add: word_le_nat_alt)
  qed
  from scans_apply [OF scans this] obtain applied where
    ap: "apply_blocks (cl_sha256 lib) state (dc_blocks ch) = Inr (pv_state v2, applied)"
      "map pd_applied (pv_pending v2) = map pd_applied (pv_pending v) @ applied" by auto
  from chunk_tracks [OF full(2) ok(4) wf order once look ap(1)] obtain full' where
    f: "apply_blocks (cl_sha256 lib) full (dc_blocks ch) = Inr (full', applied)"
      "tracks ?view (run_spends ?done \<union> run_spends (dc_blocks ch)) full' (fst (evict_spend_uid_candidates cands (pv_state v2) 0))"
    by blast
  have "apply_blocks (cl_sha256 lib) full0 (?done @ dc_blocks ch) = Inr (full', map pd_applied (pv_pending v'))"
    using full(1) f(1) ap(2) by (simp add: apply_blocks_append v')
  moreover have "map chain (heights_below start (h + 1)) = ?done @ dc_blocks ch" unfolding h1 hs blocks by simp
  moreover have "hash = bs_block_hash (chain h)"
    unfolding hash h blocks using k(1) by (simp add: last_map)
  ultimately show ?thesis using f(2) last by (auto simp: follows_def Let_def v' image_Un)
qed

section \<open>What the database represents\<close>

definition tip_next :: "u64 \<Rightarrow> IndexTip option \<Rightarrow> u64" where
  "tip_next emit t = (case t of None \<Rightarrow> emit | Some t \<Rightarrow> it_height t + 1)"

definition tip_uid :: "IndexTip option \<Rightarrow> u64" where
  "tip_uid t = (case t of None \<Rightarrow> 0 | Some t \<Rightarrow> it_last_uid t)"

text \<open>The database is that of the full run from the first emitted height to the height before \<open>next\<close>.\<close>

definition represents :: "'db rocks \<Rightarrow> ('db \<Rightarrow> content) \<Rightarrow> sha256_fun \<Rightarrow> (u64 \<Rightarrow> BlockScanInput) \<Rightarrow> u64 \<Rightarrow> 'db
    \<Rightarrow> u64 \<Rightarrow> P2trIndexerState \<Rightarrow> bool" where
  "represents rocks content sha256 chain emit db next full \<longleftrightarrow>
     store_good rocks content db
     \<and> (\<exists>t applied. tip rocks db = Inr t \<and> next = tip_next emit t
          \<and> apply_blocks sha256 (restore_at_uid 0) (map chain (heights_below emit next)) = Inr (full, applied)
          \<and> spend_view (content db) = utxos full \<and> next_uid full = tip_uid t
          \<and> (\<forall>t'. t = Some t' \<longrightarrow> it_block_hash t' = bs_block_hash (chain (it_height t'))
               \<and> emit \<le> it_height t' \<and> it_height t' < -1))"

text \<open>And the running process has a part of the index in memory.\<close>

fun process_refines :: "CatchUpConfig \<Rightarrow> u64 \<Rightarrow> P2trIndexerState \<Rightarrow> process \<Rightarrow> bool" where
  "process_refines config next full Down \<longleftrightarrow> True"
| "process_refines config next full (Up inc next') \<longleftrightarrow>
     next' = next \<and> 0 < cc_fetch_batch_size config \<and> 0 < cc_flush_blocks config
     \<and> cc_emit_start_height config \<le> next \<and> tracks (utxos full) {} full inc"

lemma heights_below_append:
  assumes "emit \<le> c" "c \<le> d"
  shows "heights_below emit c @ heights_below c d = heights_below emit d"
proof (cases "c = d")
  case True
  then show ?thesis by (simp add: heights_below_def)
next
  case False
  define k where "k = unat d - unat c"
  have le: "unat emit \<le> unat c" "unat c \<le> unat d" using assms by (simp_all add: word_le_nat_alt)
  have d: "d = c + word_of_nat k" using le(2) by (simp add: k_def of_nat_diff)
  have k1: "1 \<le> k" using False le(2) unfolding k_def by (metis One_nat_def Suc_leI le_antisym not_gr0 diff_is_0_eq word_unat_eq_iff)
  have k2: "unat c + k < 2 ^ 64" using le(2) unat_bounds(4) [of d] by (simp add: k_def)
  have "unat (c + word_of_nat k) = unat c + k" by (rule unat_plus_of_nat [OF k2])
  then have "heights_below c d = map (\<lambda>i. c + word_of_nat i) [0..<k]" unfolding d heights_below_def by simp
  then show ?thesis unfolding d heights_below_extend [OF le(1) k2 k1] by simp
qed

lemma meta_put:
  assumes "db_ok rocks content" "store_inv (content db)" "m \<in> set meta_keys"
  shows "store_inv (content (fst (ensure_meta_value rocks m v db)))"
    and "spend_view (content (fst (ensure_meta_value rocks m v db))) = spend_view (content db)"
  using ensure_meta_value_effect(2) [OF assms(1), of m v db] store_inv_meta [OF assms(2,3)] assms(2)
    meta_updates(1) [OF assms(3)] by simp_all

lemma ensure_meta_keeps:
  assumes "store_good rocks content db"
  shows "store_good rocks content (fst (ensure_meta rocks network start db))"
    and "spend_view (content (fst (ensure_meta rocks network start db))) = spend_view (content db)"
proof -
  have ok: "db_ok rocks content" "store_inv (content db)" using assms by (simp_all add: store_good_def)
  obtain db1 r where step: "ensure_meta_value rocks KEY_NETWORK network db = (db1, r)" by fastforce
  note first = meta_put [OF ok tip_keys(4), of network, unfolded step fst_conv]
  note second = meta_put [OF ok(1) first(1) tip_keys(5), of "to_be_bytes start"]
  show "store_good rocks content (fst (ensure_meta rocks network start db))"
    and "spend_view (content (fst (ensure_meta rocks network start db))) = spend_view (content db)"
    using first second ok(1) by (cases r; simp add: ensure_meta_def step store_good_def)+
qed

lemma run_start_state:
  assumes "store_good rocks content db"
    and "run_start rocks network emit batch flush_n undo_supported db = (db', r)"
  shows "store_good rocks content db'" and "spend_view (content db') = spend_view (content db)"
    and "tip rocks db' = tip rocks db"
    and "r = Inr (state, next) \<Longrightarrow> 0 < batch \<and> 0 < flush_n
      \<and> (\<exists>t. tip rocks db = Inr t \<and> state = restore_at_uid (tip_uid t) \<and> next = tip_next emit t)"
proof -
  have ok: "db_ok rocks content" using assms(1) by (simp add: store_good_def)
  have cases: "db' = db \<and> (\<exists>e. r = Inl e) \<or> db' = fst (ensure_meta rocks (ascii (network_display network)) emit db)
      \<and> (0 < batch \<and> 0 < flush_n)
      \<and> ((\<exists>e. r = Inl e) \<or> r = and_then (tip rocks db') (\<lambda>t. Inr (restore_at_uid (tip_uid t), tip_next emit t)))"
    using assms(2) by (auto simp: run_start_def Let_def tip_uid_def tip_next_def split: if_splits prod.splits sum.splits)
  then show same: "tip rocks db' = tip rocks db" using ensure_meta_keeps_tip [OF ok] by metis
  show "store_good rocks content db'" "spend_view (content db') = spend_view (content db)"
    using cases ensure_meta_keeps [OF assms(1)] assms(1) by metis+
  assume "r = Inr (state, next)"
  with cases same show "0 < batch \<and> 0 < flush_n
      \<and> (\<exists>t. tip rocks db = Inr t \<and> state = restore_at_uid (tip_uid t) \<and> next = tip_next emit t)"
    by (cases "tip rocks db") auto
qed

lemma finish_pass_db:
  assumes "db_ok rocks content" and "pv_last v = Some (h, hash)"
    and "finish_pass hex io json rocks network config v (fs, db) = ((fs', db'), r)"
  obtains e where "db' = db" "r = Inl e"
  | db1 where "commit_applied_blocks rocks (map pd_applied (pv_pending v)) h hash (last_uid (pv_state v)) db = Inr db1"
    and "content db' = content db1"
proof -
  obtain fs1 where fs1: "write_pending (pv_pending v) fs = (fs1, Inr ())" using write_pending_effect by blast
  obtain fs2 r2 where fs2: "mark_spent_outputs io (pending_spends (pv_pending v)) fs1 = (fs2, r2)" by fastforce
  let ?commit = "commit_applied_blocks rocks (map pd_applied (pv_pending v)) h hash (last_uid (pv_state v)) db"
  consider (early) e where "db' = db" "r = Inl e"
    | (committed) db1 where "?commit = Inr db1" "db' = db1 \<or> flush rocks db1 = Inr db'"
    using assms(2,3) fs1 fs2 by (auto simp: finish_pass_def split: sum.splits prod.splits)
  then show thesis
  proof cases
    case committed
    have "\<exists>db''. db_flush rocks db1 = Inr db'' \<and> content db'' = content db1"
      using assms(1) unfolding db_ok_def by blast
    then have "content db' = content db1" using committed(2) by (auto simp: flush_def)
    with committed(1) show thesis by (rule that(2))
  qed (rule that(1))
qed

lemma block_untracked:
  assumes "apply_block_with_stats sha256 state block = Inr (state', ab)" and "seen_p2tr_keys state = None"
  shows "seen_p2tr_keys state' = None" and "\<forall>out \<in> set (sb_outputs (ab_storage_block ab)). so_flags out = 0"
proof -
  let ?P = "\<lambda>acc. seen_p2tr_keys (ba_state acc) = None \<and> (\<forall>out \<in> set (ba_outputs acc). so_flags out = 0)"
  obtain n bm acc where
    txs: "try_fold (apply_tx block (saturating_add (next_uid state) 1) n) (bs_txs block) (start_acc state n bm) = Inr acc"
    and adv: "advance_uid (saturating_add (next_uid state) 1) acc = Inr state'"
    and ab: "sb_outputs (ab_storage_block ab) = ba_outputs acc"
    by (rule block_run_start [OF assms(1)])
  have inp: "?P acc'" if "apply_input block tx inp acc0 = Inr acc'" "?P acc0" for tx inp acc0 acc'
    using that(1) by (cases rule: apply_input_cases) (use that(2) in simp_all)
  have "?P acc'" if "apply_output block f tx out (acc0, has, k) = Inr (acc', has', k')" "?P acc0"
    for f tx out acc0 has k acc' has' k'
    using that(1)
  proof (cases rule: apply_output_cases)
    case (indexed key acc1 stats)
    then show ?thesis using that(2) indexed(8,9)
      by (auto simp: see_key_def index_output_def Let_def result_simps)
  qed (use that(2) in \<open>auto simp: see_key_def\<close>)
  then have outp: "?P (fst st')" if "apply_output block f tx out st = Inr st'" "?P (fst st)" for f tx out st st'
    using that by (metis prod.collapse)
  have tx: "?P acc'" if step: "apply_tx block f n tx acc0 = Inr acc'" and P0: "?P acc0" for f n tx acc0 acc'
  proof -
    from step obtain acc1 acc2 has k where
      ins: "try_fold (apply_input block tx) (tx_inputs tx) acc0 = Inr acc1"
      and outs: "try_fold (apply_output block f tx) (tx_outputs tx) (acc1, False, 0) = Inr (acc2, has, k)"
      and last: "finish_tx n tx (acc2, has, k) = Inr acc'"
      by (auto simp: apply_tx_def result_simps)
    from P0 have "?P acc1" by (rule try_fold_invariant [OF ins]) (use inp in blast)
    then have "?P (fst (acc1, False, 0 :: u16))" by simp
    then have "?P (fst (acc2, has, k))"
      by (rule try_fold_invariant [OF outs, where P = "\<lambda>st. ?P (fst st)"]) (use outp in blast)
    with finish_tx_state [OF last] show ?thesis by simp
  qed
  have "?P (start_acc state n bm)" using assms(2) by (simp add: start_acc_def)
  then have "?P acc" by (rule try_fold_invariant [OF txs]) (use tx in blast)
  then show "seen_p2tr_keys state' = None" "\<forall>out \<in> set (sb_outputs (ab_storage_block ab)). so_flags out = 0"
    using adv by (auto simp: ab advance_uid_def Let_def result_simps split: if_splits)
qed

lemma run_untracked:
  "apply_blocks sha256 state blocks = Inr (state', applied) \<Longrightarrow> seen_p2tr_keys state = None \<Longrightarrow>
   seen_p2tr_keys state' = None \<and> (\<forall>ab \<in> set applied. \<forall>out \<in> set (sb_outputs (ab_storage_block ab)). so_flags out = 0)"
proof (induction blocks arbitrary: state applied)
  case (Cons block blocks)
  from Cons.prems(1) obtain state1 ab rest where
    step: "apply_block_with_stats sha256 state block = Inr (state1, ab)"
      "apply_blocks sha256 state1 blocks = Inr (state', rest)" "applied = ab # rest"
    by (rule apply_blocks_ConsE)
  from block_untracked [OF step(1) Cons.prems(2)] Cons.IH [OF step(2)] step(3) show ?case by simp
qed simp

lemma full_run_coinbase:
  assumes "chain_ok chain" "apply_blocks sha256 (restore_at_uid uid) (map chain hs) = Inr (full, applied)" "is_coinbase p"
  shows "utxos full p = None"
proof (rule run_stays [OF assms(2)])
  show "\<forall>block \<in> set (map chain hs). wf_txids block" "\<forall>block \<in> set (map chain hs). op_txid p \<notin> block_txids block"
    using assms(1,3) by (auto simp: chain_ok_def is_coinbase_def)
qed (simp add: restore_at_uid_def)

lemma tracks_contained:
  assumes "tracks view S full inc"
  shows "tracks (utxos full) {} full inc"
proof -
  have t: "next_uid full = next_uid inc" "seen_p2tr_keys full = seen_p2tr_keys inc"
    "\<And>p. utxos full p = override (utxos inc p) (if p \<in> S then None else view p)"
    "\<And>p. is_coinbase p \<Longrightarrow> utxos full p = None"
    using assms unfolding tracks_def by blast+
  have "utxos full p = override (utxos inc p) (utxos full p)" for p
    using t(3) [of p] by (cases "utxos inc p") simp_all
  then show ?thesis unfolding tracks_def using t(1,2,4) by simp
qed

section \<open>Every history refines the full run\<close>

lemma round_refines:
  assumes ok: "chain_ok chain" "serves lib chain source undo" "node_ok source"
    and rep: "represents rocks content (cl_sha256 lib) chain (cc_emit_start_height config) db next full"
    and up: "process_refines config next full (Up inc next)"
    and step: "run_step hex lib io json rocks network source undo config inc next (fs, db) = Some ((fs', db'), r)"
  shows "\<exists>next' full'. represents rocks content (cl_sha256 lib) chain (cc_emit_start_height config) db' next' full'
    \<and> (\<forall>inc' n. r = Inr (Progressed inc' n) \<longrightarrow> process_refines config next' full' (Up inc' n))
    \<and> (r = Inr Caught_Up \<longrightarrow> process_refines config next' full' (Up inc next))"
proof (cases "\<exists>best hash. src_get_best_height source = Inr best \<and> src_get_block_hash source best = Inr hash
    \<and> next \<le> saturating_sub best (cc_finality_depth config)")
  case False
  then have "db' = db \<and> (\<forall>inc' n. r \<noteq> Inr (Progressed inc' n))"
    using step by (auto simp: run_step_def Let_def split: sum.splits if_splits)
  with rep up show ?thesis by blast
next
  case True
  let ?emit = "cc_emit_start_height config" and ?sha = "cl_sha256 lib"
  obtain best hash where best: "src_get_best_height source = Inr best" "src_get_block_hash source best = Inr hash"
    and le: "next \<le> saturating_sub best (cc_finality_depth config)" using True by blast
  let ?fin = "saturating_sub best (cc_finality_depth config)"
  have source: "source_ok source" and "best < -1" using ok(3) best(1) by (simp_all add: node_ok_def)
  then have fin: "?fin < -1" using saturating_sub_le [of best "cc_finality_depth config"] by (blast intro: order.strict_trans1)
  from step best le obtain pr where
    pass: "catch_up_ranges hex lib io json rocks network source undo config next ?fin inc (fs, db) = Some ((fs', db'), pr)"
    and r: "r = and_then pr (\<lambda>(state', next'). Inr (Progressed state' next'))"
    by (auto simp: run_step_def Let_def)
  have u: "0 < cc_fetch_batch_size config" "0 < cc_flush_blocks config" "?emit \<le> next" "tracks (utxos full) {} full inc"
    using up by simp_all
  from rep obtain t applied0 where good: "store_good rocks content db" and t: "tip rocks db = Inr t" "next = tip_next ?emit t"
    and full: "apply_blocks ?sha (restore_at_uid 0) (map chain (heights_below ?emit next)) = Inr (full, applied0)"
    and view: "spend_view (content db) = utxos full" by (auto simp: represents_def)
  have dbok: "db_ok rocks content" using good by (simp add: store_good_def)
  let ?I = "follows ?sha chain (spend_view (content db)) next full"
  show ?thesis
  proof (cases rule: pass_rule [where I = ?I and st = "(fs, db)", OF source u(1,2) le fin,
        of lib io rocks undo inc hex json network])
    case 1
    then show ?case
      using chunk_follows [OF ok(1,2) source good u(3)] by simp
  next
    case (2 previous)
    then show ?case using u(4) by (simp add: follows_def heights_below_def view)
  next
    case (3 e)
    then have "db' = db" "\<exists>e. r = Inl e" using pass r by auto
    with rep show ?thesis by blast
  next
    case (4 v h)
    have fp: "finish_pass hex io json rocks network config v (fs, db) = ((fs', db'), pr)" using 4(1) pass by simp
    have h: "h < -1" using 4(4) fin by (rule order.strict_trans1)
    obtain hash' where last: "pv_last v = Some (h, hash')" "length hash' = 32" using 4(2) by (auto simp: collected_def)
    from 4(5) obtain full' where
      full': "apply_blocks ?sha full (map chain (heights_below next (h + 1))) = Inr (full', map pd_applied (pv_pending v))"
      and tr: "tracks (spend_view (content db)) (run_spends (map chain (heights_below next (h + 1)))) full' (pv_state v)"
      and hash': "hash' = bs_block_hash (chain h)" using last(1) by (auto simp: follows_def Let_def)
    from dbok last(1) fp show ?thesis
    proof (cases rule: finish_pass_db)
      case (1 e)
      with rep r show ?thesis by auto
    next
      case (2 db1)
      have wf: "\<forall>block \<in> set (map chain (heights_below next (h + 1))). wf_txids block" using ok(1) by (auto simp: chain_ok_def)
      note m = commit_mirrors_run [OF full' wf]
      obtain db2 where db2: "commit_applied_blocks rocks (map pd_applied (pv_pending v)) h hash' (last_uid (pv_state v)) db = Inr db2"
          "store_good rocks content db2" "spend_view (content db2) = fold spec_commit (map pd_applied (pv_pending v)) (spend_view (content db))"
        using rs.commit_ok [OF good] m by blast
      have c: "content db' = content db2" using 2 db2(1) by simp
      have tip': "tip rocks db' = Inr (Some \<lparr>it_height = h, it_block_hash = hash', it_last_uid = last_uid (pv_state v)\<rparr>)"
        using commit_sets_tip [OF dbok db2(1) last(2)] by (intro tip_from_content [OF dbok]) (simp_all add: c last(2))
      have le1: "next \<le> h + 1" "?emit \<le> h" using 4(3) next_height(2) [OF h] u(3) by auto
      have "apply_blocks ?sha (restore_at_uid 0) (map chain (heights_below ?emit (h + 1)))
          = Inr (full', applied0 @ map pd_applied (pv_pending v))"
        unfolding heights_below_append [OF u(3) le1(1), symmetric] map_append apply_blocks_append
        using full full' by simp
      moreover have "next_uid full' = last_uid (pv_state v)" using tr by (simp add: tracks_def last_uid_def)
      moreover have "spend_view (content db') = utxos full'" using c db2(3) m view by simp
      moreover have "store_good rocks content db'" using db2(2) c by (simp add: store_good_def)
      ultimately have rep': "represents rocks content ?sha chain ?emit db' (h + 1) full'"
        using tip' hash' le1(2) h by (auto simp: represents_def tip_next_def tip_uid_def)
      have "process_refines config (h + 1) full' (Up inc' n)" if "r = Inr (Progressed inc' n)" for inc' n
      proof -
        have "pr = Inr (inc', n)" using that r by (cases pr) auto
        then have "n = h + 1" "inc' = pv_state v" using finish_pass_next [OF _ last(1)] fp by blast+
        then show ?thesis using u(1,2) le1 u(3) tracks_contained [OF tr] order_trans by simp
      qed
      moreover have "r \<noteq> Inr Caught_Up" using r by (cases pr) auto
      ultimately show ?thesis using rep' by blast
    qed
  qed
qed

lemma history_refines:
  assumes ok: "db_ok rocks content" "chain_ok chain"
    and node: "\<And>source undo. node source undo \<Longrightarrow> node_ok source \<and> serves lib chain source undo"
  shows "history node hex lib io json rocks network config st p \<Longrightarrow>
    \<exists>next full. represents rocks content (cl_sha256 lib) chain (cc_emit_start_height config) (snd st) next full
      \<and> process_refines config next full p"
proof (induction rule: history.induct)
  case (fresh db fs)
  have "content db k = None" for k using fresh ok(1) unfolding db_ok_def by (metis sum.inject(2))
  then have "store_good rocks content db" "spend_view (content db) = utxos (restore_at_uid 0)"
    using ok(1) by (auto simp: store_good_def store_inv_def spend_view_def restore_at_uid_def fun_eq_iff)
  moreover have "tip rocks db = Inr None" using fresh by (simp add: tip_def)
  ultimately have "represents rocks content (cl_sha256 lib) chain (cc_emit_start_height config) db
      (cc_emit_start_height config) (restore_at_uid 0)"
    by (simp add: represents_def tip_next_def tip_uid_def heights_below_def) (simp add: restore_at_uid_def)
  then show ?case by auto
next
  case (start fs db undo_supported db' state "next")
  then obtain next0 full where rep: "represents rocks content (cl_sha256 lib) chain (cc_emit_start_height config) db next0 full"
    by auto
  then have good: "store_good rocks content db" by (simp add: represents_def)
  note s = run_start_state [OF good start(2)]
  from rep obtain t applied where t: "tip rocks db = Inr t" "next0 = tip_next (cc_emit_start_height config) t"
      "apply_blocks (cl_sha256 lib) (restore_at_uid 0) (map chain (heights_below (cc_emit_start_height config) next0)) = Inr (full, applied)"
      "next_uid full = tip_uid t" "\<forall>t'. t = Some t' \<longrightarrow> cc_emit_start_height config \<le> it_height t' \<and> it_height t' < -1"
    by (auto simp: represents_def)
  from s(4) t(1) have n: "0 < cc_fetch_batch_size config" "0 < cc_flush_blocks config"
      "next = next0" "state = restore_at_uid (tip_uid t)" by (simp_all add: t(2))
  have rep': "represents rocks content (cl_sha256 lib) chain (cc_emit_start_height config) db' next0 full"
    using rep s(1-3) by (simp add: represents_def)
  have "seen_p2tr_keys full = None" using run_untracked [OF t(3)] by (simp add: restore_at_uid_def)
  moreover have "\<forall>p. is_coinbase p \<longrightarrow> utxos full p = None" using full_run_coinbase [OF ok(2) t(3)] by blast
  moreover have "utxos (restore_at_uid (tip_uid t)) = Map.empty" "next_uid (restore_at_uid (tip_uid t)) = tip_uid t"
      "seen_p2tr_keys (restore_at_uid (tip_uid t)) = None"
    by (simp_all add: restore_at_uid_def)
  ultimately have tr: "tracks (utxos full) {} full state" using t(4) by (simp add: tracks_def n(4))
  have "cc_emit_start_height config \<le> next0"
  proof (cases t)
    case (Some t')
    then show ?thesis using t(5) next_height(2) [of "it_height t'"] by (auto simp: t(2) tip_next_def)
  qed (simp add: t(2) tip_next_def)
  with n tr rep' show ?case by auto
next
  case (start_fails fs db undo_supported db' e)
  then obtain next0 full where rep: "represents rocks content (cl_sha256 lib) chain (cc_emit_start_height config) db next0 full"
    by auto
  then have good: "store_good rocks content db" by (simp add: represents_def)
  have "represents rocks content (cl_sha256 lib) chain (cc_emit_start_height config) db' next0 full"
    using rep run_start_state(1-3) [OF good start_fails(2)] by (simp add: represents_def)
  then show ?case by auto
next
  case (round st state "next" source undo st' state' next')
  obtain fs db fs' db' where st: "st = (fs, db)" "st' = (fs', db')" by fastforce
  from round.IH obtain full where rep: "represents rocks content (cl_sha256 lib) chain (cc_emit_start_height config) db next full"
      "process_refines config next full (Up state next)" by (auto simp: st)
  from round_refines [OF ok(2) _ _ rep round(3) [unfolded st]] node [OF round(2)] show ?case by (auto simp: st)
next
  case (idle st state "next" source undo st')
  obtain fs db fs' db' where st: "st = (fs, db)" "st' = (fs', db')" by fastforce
  from idle.IH obtain full where rep: "represents rocks content (cl_sha256 lib) chain (cc_emit_start_height config) db next full"
      "process_refines config next full (Up state next)" by (auto simp: st)
  from round_refines [OF ok(2) _ _ rep idle(3) [unfolded st]] node [OF idle(2)] show ?case by (auto simp: st)
next
  case (round_fails st state "next" source undo st' e)
  obtain fs db fs' db' where st: "st = (fs, db)" "st' = (fs', db')" by fastforce
  from round_fails.IH obtain full where rep: "represents rocks content (cl_sha256 lib) chain (cc_emit_start_height config) db next full"
      "process_refines config next full (Up state next)" by (auto simp: st)
  from round_refines [OF ok(2) _ _ rep round_fails(3) [unfolded st]] node [OF round_fails(2)] show ?case by (auto simp: st)
next
  case (stop st p)
  then show ?case by auto
qed

section \<open>Properties\<close>

text \<open>
  C2: restarts and failures do not show. Whatever passes, errors, stops and
  restarts an indexer goes through from an empty database, over nodes that serve
  one chain, its database is that of a single run that applies the
  blocks from the first emitted height to the committed tip in order, with the
  whole spend index in memory: the run succeeds, the live outpoints are the
  same, the last UID is the same, and the tip hash is that of the last block.
\<close>

theorem history_refines_full_run:
  assumes "db_ok rocks content" and "chain_ok chain"
    and "\<forall>source undo. node source undo \<longrightarrow> node_ok source \<and> serves lib chain source undo"
    and "history node hex lib io json rocks network config (fs, db) p"
    and "tip rocks db = Inr (Some t)"
  shows "\<exists>full applied. apply_blocks (cl_sha256 lib) (restore_at_uid 0)
        (map chain (heights_upto (cc_emit_start_height config) (it_height t))) = Inr (full, applied)
    \<and> spend_view (content db) = utxos full \<and> it_last_uid t = last_uid full
    \<and> it_block_hash t = bs_block_hash (chain (it_height t))"
proof -
  from history_refines [OF assms(1,2) _ assms(4)] assms(3) obtain "next" full where
    "represents rocks content (cl_sha256 lib) chain (cc_emit_start_height config) db next full" by auto
  with assms(5) heights_below_upto [OF below_max, of "it_height t" "cc_emit_start_height config"]
  show ?thesis by (auto simp: represents_def tip_next_def tip_uid_def last_uid_def)
qed

text \<open>
  C19: the indexer that \<^verbatim>\<open>run\<close> starts never marks an output as reused: its state is
  restored without the set of seen keys, so every output it stores has
  no flag, and a response with the reuse filter omits none of them.
\<close>

theorem run_records_no_reuse:
  assumes "apply_blocks sha256 (restore_at_uid uid) blocks = Inr (state, applied)" and "ab \<in> set applied"
    and "out \<in> set (sb_outputs (ab_storage_block ab))"
  shows "\<not> should_omit_stored_output h out (default_filter\<lparr>filter_reuse := True\<rparr>)"
proof -
  have "so_flags out = 0" using run_untracked [OF assms(1)] assms(2,3) by (simp add: restore_at_uid_def)
  then show ?thesis by (simp add: should_omit_stored_output_def default_filter_def)
qed

definition sample_chain :: "u64 \<Rightarrow> BlockScanInput" where
  "sample_chain h = sample_block_scan\<lparr>bs_height := h\<rparr>"

lemma sample_chain_ok: "chain_ok sample_chain"
  by (simp add: chain_ok_def sample_chain_def sample_block_scan_def wf_txids_def block_txids_def block_spends_def
    replicate_eq_replicate)

lemma sample_serves: "serves sample_lib sample_chain sample_source undo"
proof -
  have "\<exists>e. fetch_and_decode_chunk sample_lib sample_source undo start n = Inl e" if "\<not> (start = 100 \<and> 0 < n)" for start n
    using that by (auto simp: fetch_and_decode_chunk_def sample_source_def)
  moreover have "sample_block_scan = sample_chain 100" "bs_height sample_block_scan = 100"
    by (simp_all add: sample_chain_def sample_block_scan_def)
  ultimately show ?thesis unfolding serves_def
    by (metis DecodedChunk.select_convs(1) Inl_Inr_False empty_iff empty_set sample_fetch set_ConsD sum.inject(2))
qed

theorem history_refines_full_run_witness:
  "\<exists>fs db state full applied. history (\<lambda>source _. source = sample_source) (\<lambda>_. []) sample_lib sample_io sample_json
       map_rocks Signet sample_config (fs, db) (Up state 101)
    \<and> apply_blocks (cl_sha256 sample_lib) (restore_at_uid 0) (map sample_chain (heights_upto 100 100)) = Inr (full, applied)
    \<and> spend_view db = utxos full"
proof -
  obtain fs db state t where run: "history (\<lambda>source _. source = sample_source) (\<lambda>_. []) sample_lib sample_io sample_json
      map_rocks Signet sample_config (fs, db) (Up state 101)" and t: "tip map_rocks db = Inr (Some t)" "it_height t = 100"
    using sample_history by blast
  from history_refines_full_run [OF map_rocks_ok sample_chain_ok _ run t(1)] sample_node_ok sample_serves
  have "\<exists>full applied. apply_blocks (cl_sha256 sample_lib) (restore_at_uid 0)
      (map sample_chain (heights_upto 100 100)) = Inr (full, applied) \<and> spend_view db = utxos full"
    by (auto simp: t(2) sample_config_def)
  with run show ?thesis by blast
qed

lemma sample_scan_outputs:
  assumes "apply_block_with_stats sha256 state sample_scan = Inr (state', ab)"
  shows "sb_outputs (ab_storage_block ab) \<noteq> []"
proof -
  let ?tx = "hd (bs_txs sample_scan)" and ?out = "hd (tx_outputs (hd (bs_txs sample_scan)))"
  obtain n bm acc where
    txs: "try_fold (apply_tx sample_scan (saturating_add (next_uid state) 1) n) (bs_txs sample_scan) (start_acc state n bm) = Inr acc"
    and ab: "sb_outputs (ab_storage_block ab) = ba_outputs acc"
    by (rule block_run_start [OF assms])
  then obtain acc' has k where
    out: "apply_output sample_scan (saturating_add (next_uid state) 1) ?tx ?out (start_acc state n bm, False, 0) = Inr (acc', has, k)"
    and fin: "finish_tx n ?tx (acc', has, k) = Inr acc"
    by (auto simp: apply_tx_def sample_scan_def result_simps)
  from out have "ba_outputs acc' \<noteq> []"
    by (cases rule: apply_output_cases)
      (auto simp: sample_scan_def index_output_def result_simps Let_def)
  with finish_tx_state [OF fin] show ?thesis by (simp add: ab)
qed

theorem run_records_no_reuse_witness:
  "\<exists>state ab out. apply_blocks (\<lambda>_. replicate 32 0) (restore_at_uid 0) [sample_scan] = Inr (state, [ab])
    \<and> out \<in> set (sb_outputs (ab_storage_block ab))
    \<and> \<not> should_omit_stored_output 5 out (default_filter\<lparr>filter_reuse := True\<rparr>)"
proof -
  have "sha256_ok (\<lambda>_. replicate 32 0)" "state_inv 0 (restore_at_uid 0)"
    by (simp_all add: sha256_ok_def state_inv_def restore_at_uid_def inj_uids_def)
  then obtain state ab where step: "apply_block_with_stats (\<lambda>_. replicate 32 0) (restore_at_uid 0) sample_scan = Inr (state, ab)"
    using apply_block_correct [OF _ sample_scan_wf, of "\<lambda>_. replicate 32 0" 0 "restore_at_uid 0"]
    by (auto simp: restore_at_uid_def)
  then have run: "apply_blocks (\<lambda>_. replicate 32 0) (restore_at_uid 0) [sample_scan] = Inr (state, [ab])" by simp
  obtain out where out: "out \<in> set (sb_outputs (ab_storage_block ab))"
    using sample_scan_outputs [OF step] by (meson list.set_sel(1))
  from run_records_no_reuse [OF run _ out] run out show ?thesis by auto
qed

end
