(* ===== verification/Undo_Payload.thy ===== *)
theory Undo_Payload
  imports Block_Source
begin

text \<open>
  The decoder of the \<^verbatim>\<open>/rest/spenttxouts\<close> undo payload in
  \<^verbatim>\<open>core/src/block.rs\<close>: a cursor over the payload with its readers, and the
  two nested counted loops. A locale states what it means that a reader is exact for a
  byte encoding, and carries exactness from a reader to the loop that repeats it; the
  decoder is the top of a stack of its interpretations. The result is that the decoder
  accepts exactly the canonical encodings.
\<close>

section \<open>The cursor\<close>

record Cursor =
  cur_bytes :: bytes
  cur_pos :: usize

definition cursor_new :: "bytes \<Rightarrow> Cursor" where
  "cursor_new bs = \<lparr>cur_bytes = bs, cur_pos = 0\<rparr>"

definition cursor_remaining :: "Cursor \<Rightarrow> usize" where
  "cursor_remaining c = length (cur_bytes c) - cur_pos c"

definition cursor_is_empty :: "Cursor \<Rightarrow> bool" where
  "cursor_is_empty c = (cur_pos c = length (cur_bytes c))"

definition read_u8 :: "Cursor \<Rightarrow> (u8 \<times> Cursor) result" where
  "read_u8 c =
     (if cur_pos c < length (cur_bytes c)
      then Inr (cur_bytes c ! cur_pos c, c\<lparr>cur_pos := cur_pos c + 1\<rparr>)
      else Inl (Error ''unexpected EOF while decoding spenttxouts''))"

definition read_exact :: "usize \<Rightarrow> Cursor \<Rightarrow> (bytes \<times> Cursor) result" where
  "read_exact len c =
     and_then (ensure (cursor_remaining c \<ge> len) ''unexpected EOF while decoding spenttxouts: need'') (\<lambda>_.
     let start = cur_pos c in
     Inr (slice (cur_bytes c) start (start + len), c\<lparr>cur_pos := cur_pos c + len\<rparr>))"

definition read_compact_size :: "Cursor \<Rightarrow> (u64 \<times> Cursor) result" where
  "read_compact_size c =
     and_then (read_u8 c) (\<lambda>(first, c).
     if first \<le> 0xfc then Inr (ucast first, c)
     else if first = 0xfd then
       and_then (read_exact 2 c) (\<lambda>(b, c).
       let value = ucast (from_le_bytes b :: u16) :: u64 in
       and_then (ensure (value \<ge> 0xfd) ''non-canonical CompactSize'') (\<lambda>_. Inr (value, c)))
     else if first = 0xfe then
       and_then (read_exact 4 c) (\<lambda>(b, c).
       let value = ucast (from_le_bytes b :: u32) :: u64 in
       and_then (ensure (value > 0xffff) ''non-canonical CompactSize'') (\<lambda>_. Inr (value, c)))
     else
       and_then (read_exact 8 c) (\<lambda>(b, c).
       let value = from_le_bytes b :: u64 in
       and_then (ensure (value > 0xffffffff) ''non-canonical CompactSize'') (\<lambda>_. Inr (value, c))))"

text \<open>The value is read as a signed integer, and the sign is tested.\<close>

definition read_txout_value :: "Cursor \<Rightarrow> (u64 \<times> Cursor) result" where
  "read_txout_value c =
     and_then (read_exact 8 c) (\<lambda>(b, c).
     let value = from_le_bytes b :: u64 in
     and_then (ensure (sint value \<ge> 0) ''spenttxouts contains negative txout value'') (\<lambda>_.
     Inr (value, c)))"

text \<open>\<open>usize::try_from\<close> of a \<open>u64\<close> cannot fail on a 64-bit target.\<close>

definition read_raw_script :: "Cursor \<Rightarrow> (bytes \<times> Cursor) result" where
  "read_raw_script c =
     and_then (read_compact_size c) (\<lambda>(len, c). read_exact (unat len) c)"

section \<open>The decoder\<close>

text \<open>
  \<open>Vec::with_capacity\<close> panics when the requested capacity exceeds \<open>isize::MAX\<close> bytes.
  The panic is the error of that name. The elements are 24 bytes (a \<open>Vec\<close>) and 32 bytes
  (a \<open>SpentTxOut\<close>) long.
\<close>

definition vec_with_capacity :: "nat \<Rightarrow> usize \<Rightarrow> unit result" where
  "vec_with_capacity elem_size capacity = ensure (elem_size * capacity < 2 ^ 63) ''capacity overflow''"

text \<open>A counted loop that pushes what a reader returns.\<close>

fun read_loop :: "(Cursor \<Rightarrow> ('a \<times> Cursor) result) \<Rightarrow> nat \<Rightarrow> 'a list \<Rightarrow> Cursor \<Rightarrow> ('a list \<times> Cursor) result" where
  "read_loop rd 0 out c = Inr (out, c)"
| "read_loop rd (Suc n) out c = and_then (rd c) (\<lambda>(x, c). read_loop rd n (out @ [x]) c)"

definition read_spent_txout :: "Cursor \<Rightarrow> (SpentTxOut \<times> Cursor) result" where
  "read_spent_txout c =
     and_then (read_txout_value c) (\<lambda>(value_sat, c).
     and_then (read_raw_script c) (\<lambda>(script_pubkey, c).
     Inr (\<lparr>sx_value_sat = value_sat, sx_script_pubkey = script_pubkey\<rparr>, c)))"

definition read_inputs :: "Cursor \<Rightarrow> (SpentTxOut list \<times> Cursor) result" where
  "read_inputs c =
     and_then (read_compact_size c) (\<lambda>(input_count, c).
     and_then (vec_with_capacity 32 (unat input_count)) (\<lambda>_.
     read_loop read_spent_txout (unat input_count) [] c))"

definition decode_spent_txouts_payload :: "bytes \<Rightarrow> BlockSpentTxOuts result" where
  "decode_spent_txouts_payload bs =
     and_then (read_compact_size (cursor_new bs)) (\<lambda>(tx_count, cursor).
     and_then (vec_with_capacity 24 (unat tx_count)) (\<lambda>_.
     and_then (read_loop read_inputs (unat tx_count) [] cursor) (\<lambda>(txs, cursor).
     and_then (ensure (cursor_is_empty cursor) ''spenttxouts payload has trailing bytes'') (\<lambda>_.
     Inr \<lparr>bt_txs = txs\<rparr>))))"

section \<open>The encoding\<close>

text \<open>
  The documented payload, as the specification: CompactSize counts and lengths in their
  shortest form, values as eight little-endian bytes.
\<close>

definition compact_size :: "nat \<Rightarrow> bytes" where
  "compact_size n =
     (if n < 0xfd then [word_of_nat n]
      else if n \<le> 0xffff then 0xfd # nat_le_bytes 2 n
      else if n \<le> 0xffffffff then 0xfe # nat_le_bytes 4 n
      else 0xff # nat_le_bytes 8 n)"

definition enc_txout :: "SpentTxOut \<Rightarrow> bytes" where
  "enc_txout txo = to_le_bytes (sx_value_sat txo) @ compact_size (length (sx_script_pubkey txo)) @ sx_script_pubkey txo"

definition enc_inputs :: "SpentTxOut list \<Rightarrow> bytes" where
  "enc_inputs inputs = compact_size (length inputs) @ concat (map enc_txout inputs)"

definition encode_spent_txouts_payload :: "BlockSpentTxOuts \<Rightarrow> bytes" where
  "encode_spent_txouts_payload undo = compact_size (length (bt_txs undo)) @ concat (map enc_inputs (bt_txs undo))"

text \<open>
  What a payload can hold: values below \<open>2 ^ 63\<close> and vectors that fit the address space.
\<close>

definition txout_ok :: "SpentTxOut \<Rightarrow> bool" where
  "txout_ok txo \<longleftrightarrow> unat (sx_value_sat txo) < 2 ^ 63 \<and> length (sx_script_pubkey txo) < 2 ^ 64"

definition inputs_ok :: "SpentTxOut list \<Rightarrow> bool" where
  "inputs_ok inputs \<longleftrightarrow> 32 * length inputs < 2 ^ 63 \<and> list_all txout_ok inputs"

definition undo_ok :: "BlockSpentTxOuts \<Rightarrow> bool" where
  "undo_ok undo \<longleftrightarrow> 24 * length (bt_txs undo) < 2 ^ 63 \<and> list_all inputs_ok (bt_txs undo)"

section \<open>Exact readers\<close>

text \<open>\<open>holds_at c e\<close>: the bytes \<open>e\<close> stand at the cursor.\<close>

definition holds_at :: "Cursor \<Rightarrow> bytes \<Rightarrow> bool" where
  "holds_at c e \<longleftrightarrow> take (length e) (drop (cur_pos c) (cur_bytes c)) = e"

definition advance :: "Cursor \<Rightarrow> nat \<Rightarrow> Cursor" where
  "advance c n = c\<lparr>cur_pos := cur_pos c + n\<rparr>"

definition in_range :: "Cursor \<Rightarrow> bool" where
  "in_range c \<longleftrightarrow> cur_pos c \<le> length (cur_bytes c)"

lemma advance_0 [simp]: "advance c 0 = c"
  and advance_advance [simp]: "advance (advance c m) n = advance c (m + n)"
  by (simp_all add: advance_def)

lemma holds_at_Nil [simp]: "holds_at c []"
  by (simp add: holds_at_def)

lemma holds_at_append: "holds_at c (d @ e) \<longleftrightarrow> holds_at c d \<and> holds_at (advance c (length d)) e"
proof -
  let ?xs = "drop (cur_pos c) (cur_bytes c)"
  have "take (length d + length e) ?xs = d @ e
      \<longleftrightarrow> take (length d) ?xs = d \<and> take (length e) (drop (length d) ?xs) = e" (is "?L \<longleftrightarrow> ?R")
  proof
    assume L: ?L
    have "take (length d) (take (length d + length e) ?xs) = d"
      and "drop (length d) (take (length d + length e) ?xs) = e"
      using L by simp_all
    then show ?R by (simp add: drop_take)
  next
    assume ?R then show ?L by (simp only: take_add)
  qed
  then show ?thesis
    by (simp add: holds_at_def advance_def add.commute)
qed

lemma in_range_advance: "in_range c \<Longrightarrow> holds_at c e \<Longrightarrow> in_range (advance c (length e))"
  unfolding in_range_def holds_at_def advance_def
  by (simp, metis le_diff_conv2 length_drop length_take add.commute min.cobounded1 min_def)

locale exact_reader =
  fixes rd :: "Cursor \<Rightarrow> ('a \<times> Cursor) result" and enc :: "'a \<Rightarrow> bytes" and ok :: "'a \<Rightarrow> bool"
  assumes exact: "in_range c \<Longrightarrow>
    rd c = Inr (x, c') \<longleftrightarrow> ok x \<and> holds_at c (enc x) \<and> c' = advance c (length (enc x))"
begin

lemma read_loop_exact:
  assumes "in_range c"
  shows "read_loop rd n out c = Inr (ys, c') \<longleftrightarrow>
    (\<exists>xs. ys = out @ xs \<and> length xs = n \<and> list_all ok xs \<and> holds_at c (concat (map enc xs))
      \<and> c' = advance c (length (concat (map enc xs))))"
  using assms
proof (induction n arbitrary: out c)
  case (Suc n)
  have "read_loop rd (Suc n) out c = Inr (ys, c') \<longleftrightarrow>
      (\<exists>x. ok x \<and> holds_at c (enc x) \<and> read_loop rd n (out @ [x]) (advance c (length (enc x))) = Inr (ys, c'))"
    using exact [OF Suc.prems] by (auto simp: result_simps)
  also have "\<dots> \<longleftrightarrow> (\<exists>x xs. ok x \<and> holds_at c (enc x) \<and> ys = out @ x # xs \<and> length xs = n \<and> list_all ok xs
      \<and> holds_at (advance c (length (enc x))) (concat (map enc xs))
      \<and> c' = advance c (length (enc x) + length (concat (map enc xs))))"
    using Suc.IH [OF in_range_advance [OF Suc.prems]] by auto
  also have "\<dots> \<longleftrightarrow> (\<exists>xs. ys = out @ xs \<and> length xs = Suc n \<and> list_all ok xs \<and> holds_at c (concat (map enc xs))
      \<and> c' = advance c (length (concat (map enc xs))))" (is "?L = ?R")
  proof
    assume ?L
    then obtain x xs where "ok x" "holds_at c (enc x)" "ys = out @ x # xs" "length xs = n" "list_all ok xs"
      "holds_at (advance c (length (enc x))) (concat (map enc xs))"
      "c' = advance c (length (enc x) + length (concat (map enc xs)))"
      by blast
    then show ?R by (intro exI [of _ "x # xs"]) (simp add: holds_at_append)
  next
    assume ?R then show ?L by (auto simp: length_Suc_conv holds_at_append)
  qed
  finally show ?case .
qed auto

end

section \<open>The readers are exact\<close>

lemma read_u8_exact:
  assumes "in_range c"
  shows "read_u8 c = Inr (b, c') \<longleftrightarrow> holds_at c [b] \<and> c' = advance c 1"
proof (cases "cur_pos c < length (cur_bytes c)")
  case True
  then have "take (Suc 0) (drop (cur_pos c) (cur_bytes c)) = [cur_bytes c ! cur_pos c]"
    by (simp add: take_Suc_conv_app_nth)
  with True show ?thesis by (auto simp: read_u8_def holds_at_def advance_def)
next
  case False
  with assms show ?thesis by (simp add: read_u8_def holds_at_def in_range_def)
qed

lemma read_exact_exact:
  assumes "in_range c"
  shows "read_exact n c = Inr (b, c') \<longleftrightarrow> length b = n \<and> holds_at c b \<and> c' = advance c n"
  using assms
  by (auto simp: read_exact_def result_simps Let_def slice_def holds_at_def advance_def in_range_def
      cursor_remaining_def)
     (metis length_drop length_take min.absorb_iff2 min_def)

lemma read_word_exact:
  assumes "in_range c" and "8 dvd LENGTH('w::len)" and "n = LENGTH('w) div 8"
  shows "(\<exists>b. read_exact n c = Inr (b, c') \<and> P (from_le_bytes b :: 'w word))
    \<longleftrightarrow> (\<exists>w :: 'w word. holds_at c (to_le_bytes w) \<and> c' = advance c n \<and> P w)"
  (is "?L \<longleftrightarrow> ?R")
proof
  assume ?L
  then obtain b where "length b = n" "holds_at c b" "c' = advance c n" "P (from_le_bytes b :: 'w word)"
    using read_exact_exact [OF assms(1)] by blast
  then show ?R
    using to_from_le_bytes [OF assms(2), of b] assms(3) by (intro exI [of _ "from_le_bytes b"]) simp
next
  assume ?R
  then obtain w :: "'w word" where "holds_at c (to_le_bytes w)" "c' = advance c n" "P w" by blast
  then show ?L
    using read_exact_exact [OF assms(1), of n "to_le_bytes w"] from_to_le_bytes [OF assms(2), of w] assms(3)
    by (intro exI [of _ "to_le_bytes w"]) simp
qed

lemma advance_one:
  "advance c (Suc (Suc (Suc 0))) = advance c 3" "advance c (Suc 4) = advance c 5" "advance c (Suc 8) = advance c 9"
  by (simp_all add: advance_def)

lemma read_compact_size_cases:
  assumes "in_range c"
  shows "read_compact_size c = Inr (v, c') \<longleftrightarrow>
      (\<exists>b. b \<le> 0xfc \<and> holds_at c [b] \<and> c' = advance c 1 \<and> v = ucast b)
    \<or> (\<exists>w :: u16. holds_at c (0xfd # to_le_bytes w) \<and> c' = advance c 3 \<and> 0xfd \<le> (ucast w :: u64) \<and> v = ucast w)
    \<or> (\<exists>w :: u32. holds_at c (0xfe # to_le_bytes w) \<and> c' = advance c 5 \<and> 0xffff < (ucast w :: u64) \<and> v = ucast w)
    \<or> (holds_at c (0xff # to_le_bytes v) \<and> c' = advance c 9 \<and> 0xffffffff < v)"
  (is "_ \<longleftrightarrow> ?R c")
proof (cases "\<exists>b. holds_at c [b]")
  case False
  have "\<not> holds_at c (b # bs)" for b bs
    using False holds_at_append [of c "[b]" bs] by auto
  moreover have "read_compact_size c \<noteq> Inr (v, c')"
    using False read_u8_exact [OF assms] by (auto simp: read_compact_size_def result_simps)
  ultimately show ?thesis by simp
next
  case True
  then obtain b where b: "holds_at c [b]" by blast
  have uniq: "b' = b" if "holds_at c [b']" for b'
    using that b by (simp add: holds_at_def)
  have step: "holds_at c (b' # bs) \<longleftrightarrow> b' = b \<and> holds_at (advance c 1) bs" for b' bs
  proof -
    have "holds_at c (b' # bs) \<longleftrightarrow> holds_at c [b'] \<and> holds_at (advance c 1) bs"
      using holds_at_append [of c "[b']" bs] by simp
    moreover have "holds_at c [b'] \<longleftrightarrow> b' = b" using b uniq by blast
    ultimately show ?thesis by simp
  qed
  have rng: "in_range (advance c 1)"
    using in_range_advance [OF assms b] by simp
  have rd: "read_u8 c = Inr (b, advance c 1)"
    using read_u8_exact [OF assms] b by simp
  note word = read_word_exact [OF rng, where c' = c']
  show ?thesis
  proof (cases "b \<le> 0xfc")
    case True
    then have "b \<noteq> 0xfd" "b \<noteq> 0xfe" "b \<noteq> 0xff" by auto
    with True b show ?thesis by (auto simp: read_compact_size_def rd step)
  next
    case False
    then have "b = 0xfd \<or> b = 0xfe \<or> b = 0xff"
      by (simp add: word_le_nat_alt word_unat_eq_iff) (use unat_bounds(1) [of b] in linarith)
    then show ?thesis
    proof (elim disjE)
      assume b: "b = 0xfd"
      have "read_compact_size c = Inr (v, c') \<longleftrightarrow>
          (\<exists>bs. read_exact 2 (advance c 1) = Inr (bs, c') \<and> 0xfd \<le> (ucast (from_le_bytes bs :: u16) :: u64) \<and> v = ucast (from_le_bytes bs :: u16))"
        by (auto simp: read_compact_size_def rd b result_simps Let_def)
      also have "\<dots> \<longleftrightarrow> (\<exists>w :: u16. holds_at (advance c 1) (to_le_bytes w) \<and> c' = advance (advance c 1) 2 \<and> 0xfd \<le> (ucast w :: u64) \<and> v = ucast w)"
        by (rule word) simp_all
      finally show ?thesis by (simp add: step b advance_one)
    next
      assume b: "b = 0xfe"
      have "read_compact_size c = Inr (v, c') \<longleftrightarrow>
          (\<exists>bs. read_exact 4 (advance c 1) = Inr (bs, c') \<and> 0xffff < (ucast (from_le_bytes bs :: u32) :: u64) \<and> v = ucast (from_le_bytes bs :: u32))"
        by (auto simp: read_compact_size_def rd b result_simps Let_def)
      also have "\<dots> \<longleftrightarrow> (\<exists>w :: u32. holds_at (advance c 1) (to_le_bytes w) \<and> c' = advance (advance c 1) 4 \<and> 0xffff < (ucast w :: u64) \<and> v = ucast w)"
        by (rule word) simp_all
      finally show ?thesis by (simp add: step b advance_one)
    next
      assume b: "b = 0xff"
      have "read_compact_size c = Inr (v, c') \<longleftrightarrow>
          (\<exists>bs. read_exact 8 (advance c 1) = Inr (bs, c') \<and> 0xffffffff < (from_le_bytes bs :: u64) \<and> v = (from_le_bytes bs :: u64))"
        by (auto simp: read_compact_size_def rd b result_simps Let_def)
      also have "\<dots> \<longleftrightarrow> (\<exists>w :: u64. holds_at (advance c 1) (to_le_bytes w) \<and> c' = advance (advance c 1) 8 \<and> 0xffffffff < w \<and> v = w)"
        by (rule word) simp_all
      finally show ?thesis by (simp add: step b advance_one)
    qed
  qed
qed

lemma length_compact_size:
  "length (compact_size n) = (if n < 0xfd then 1 else if n \<le> 0xffff then 3 else if n \<le> 0xffffffff then 5 else 9)"
  by (simp add: compact_size_def)

lemma ucast_u64_eq:
  fixes w :: "'w::len word" and v :: u64
  assumes "LENGTH('w) \<le> 64"
  shows "v = ucast w \<longleftrightarrow> unat v = unat w"
proof -
  have "unat w < 2 ^ 64"
    using unsigned_less [of w] assms by (meson le_less_trans less_le_trans nat_less_le one_le_numeral power_increasing)
  then have "unat (ucast w :: u64) = unat w"
    by (simp add: unsigned_ucast_eq take_bit_nat_eq_self)
  then show ?thesis by (metis word_unat_eq_iff)
qed

lemma ex_word_unat:
  assumes "LENGTH('w::len) \<le> 64"
  shows "(\<exists>w :: 'w word. P w \<and> Q (ucast w :: u64) \<and> v = ucast w)
    \<longleftrightarrow> unat v < 2 ^ LENGTH('w) \<and> P (word_of_nat (unat v)) \<and> Q v" (is "?L \<longleftrightarrow> ?R")
proof
  assume ?L
  then obtain w :: "'w word" where "P w" "Q (ucast w :: u64)" "v = ucast w" by blast
  then show ?R using ucast_u64_eq [OF assms, of v w] unsigned_less [of w] by simp
next
  assume ?R
  then have "v = ucast (word_of_nat (unat v) :: 'w word)"
    using ucast_u64_eq [OF assms, of v "word_of_nat (unat v)"] unat_word_of_nat_small [where 'a = 'w] by metis
  with \<open>?R\<close> show ?L by metis
qed

interpretation compact: exact_reader read_compact_size "\<lambda>v. compact_size (unat v)" "\<lambda>_. True"
proof
  fix c c' and v :: u64
  assume "in_range c"
  have b1: "(\<exists>b::u8. b \<le> 0xfc \<and> holds_at c [b] \<and> c' = advance c 1 \<and> v = ucast b)
      \<longleftrightarrow> unat v < 0xfd \<and> holds_at c [word_of_nat (unat v)] \<and> c' = advance c 1"
  proof -
    have le: "(word_of_nat (unat v) :: u8) \<le> 0xfc \<longleftrightarrow> unat v < 0xfd" if "unat v < 256"
      unfolding word_le_nat_alt using unat_word_of_nat_small [where 'a = 8, of "unat v"] that by auto
    show ?thesis
      using ex_word_unat [where 'w = 8, of "\<lambda>b. b \<le> 0xfc \<and> holds_at c [b] \<and> c' = advance c 1" "\<lambda>_. True" v] le
      by fastforce
  qed
  have b2: "(\<exists>w::u16. holds_at c (0xfd # to_le_bytes w) \<and> c' = advance c 3 \<and> 0xfd \<le> (ucast w :: u64) \<and> v = ucast w)
      \<longleftrightarrow> unat v \<le> 0xffff \<and> holds_at c (0xfd # nat_le_bytes 2 (unat v)) \<and> c' = advance c 3 \<and> 0xfd \<le> unat v"
  proof -
    have le: "to_le_bytes (word_of_nat (unat v) :: u16) = nat_le_bytes 2 (unat v)" if "unat v < 2 ^ LENGTH(16)"
      using unat_word_of_nat_small [OF that] by (simp add: to_le_bytes_def)
    show ?thesis
      using ex_word_unat [where 'w = 16, of "\<lambda>w. holds_at c (0xfd # to_le_bytes w) \<and> c' = advance c 3" "\<lambda>v. 0xfd \<le> v" v] le
      by (fastforce simp: word_le_nat_alt)
  qed
  have b3: "(\<exists>w::u32. holds_at c (0xfe # to_le_bytes w) \<and> c' = advance c 5 \<and> 0xffff < (ucast w :: u64) \<and> v = ucast w)
      \<longleftrightarrow> unat v \<le> 0xffffffff \<and> holds_at c (0xfe # nat_le_bytes 4 (unat v)) \<and> c' = advance c 5 \<and> 0xffff < unat v"
  proof -
    have le: "to_le_bytes (word_of_nat (unat v) :: u32) = nat_le_bytes 4 (unat v)" if "unat v < 2 ^ LENGTH(32)"
      using unat_word_of_nat_small [OF that] by (simp add: to_le_bytes_def)
    show ?thesis
      using ex_word_unat [where 'w = 32, of "\<lambda>w. holds_at c (0xfe # to_le_bytes w) \<and> c' = advance c 5" "\<lambda>v. 0xffff < v" v] le
      by (fastforce simp: word_less_nat_alt)
  qed
  have b4: "holds_at c (0xff # to_le_bytes v) \<and> c' = advance c 9 \<and> 0xffffffff < v
      \<longleftrightarrow> holds_at c (0xff # nat_le_bytes 8 (unat v)) \<and> c' = advance c 9 \<and> 0xffffffff < unat v"
    by (simp add: to_le_bytes_def word_less_nat_alt)
  show "read_compact_size c = Inr (v, c') \<longleftrightarrow>
      True \<and> holds_at c (compact_size (unat v)) \<and> c' = advance c (length (compact_size (unat v)))"
    unfolding read_compact_size_cases [OF \<open>in_range c\<close>] b1 b2 b3 b4
    by (auto simp: compact_size_def)
qed

text \<open>Every count and length the decoder reads goes through this rule.\<close>

lemma compact_prefix:
  assumes "in_range c"
  shows "(\<exists>n c1. read_compact_size c = Inr (n, c1) \<and> Q (unat n) c1)
    \<longleftrightarrow> (\<exists>n < 2 ^ 64. holds_at c (compact_size n) \<and> Q n (advance c (length (compact_size n))))" (is "?L \<longleftrightarrow> ?R")
proof
  assume ?L
  then obtain n :: u64 and c1 where rd: "read_compact_size c = Inr (n, c1)" and Q: "Q (unat n) c1" by blast
  from rd have "holds_at c (compact_size (unat n))" and "c1 = advance c (length (compact_size (unat n)))"
    using compact.exact [OF assms] by simp_all
  moreover have "unat n < 2 ^ 64" using unsigned_less [of n] by simp
  ultimately show ?R using Q by blast
next
  assume ?R
  then obtain n where "n < 2 ^ 64" "holds_at c (compact_size n)" "Q n (advance c (length (compact_size n)))" by blast
  then show ?L
    using compact.exact [OF assms, of "word_of_nat n"] unat_word_of_nat_small [where 'a = 64, of n]
    by (intro exI [of _ "word_of_nat n"] exI [of _ "advance c (length (compact_size n))"]) simp
qed

lemma sint_nonneg_iff: "0 \<le> sint (v :: u64) \<longleftrightarrow> unat v < 2 ^ 63"
proof -
  have "unat v div 2 ^ 63 < 2" using unat_bounds(4) [of v] by (simp add: div_less_iff_less_mult)
  then have "odd (unat v div 2 ^ 63) \<longleftrightarrow> unat v div 2 ^ 63 \<noteq> 0" by (auto simp: less_2_cases_iff)
  also have "\<dots> \<longleftrightarrow> \<not> unat v < 2 ^ 63" by (simp add: div_eq_0_iff)
  finally have "bit (unat v) 63 \<longleftrightarrow> \<not> unat v < 2 ^ 63" by (simp add: bit_iff_odd [of "unat v"])
  then have "bit v 63 \<longleftrightarrow> \<not> unat v < 2 ^ 63" by (simp add: bit_unsigned_iff)
  then show ?thesis using bit_last_iff [of v] by auto
qed

interpretation txout_value: exact_reader read_txout_value to_le_bytes "\<lambda>v. unat v < 2 ^ 63"
proof
  fix c c' and v :: u64
  assume c: "in_range c"
  have "read_txout_value c = Inr (v, c') \<longleftrightarrow>
      (\<exists>b. read_exact 8 c = Inr (b, c') \<and> (sint (from_le_bytes b :: u64) \<ge> 0 \<and> v = from_le_bytes b))"
    by (auto simp: read_txout_value_def result_simps Let_def)
  also have "\<dots> \<longleftrightarrow> (\<exists>w. holds_at c (to_le_bytes w) \<and> c' = advance c 8 \<and> sint w \<ge> 0 \<and> v = w)"
    by (rule read_word_exact [OF c]) simp_all
  also have "\<dots> \<longleftrightarrow> unat v < 2 ^ 63 \<and> holds_at c (to_le_bytes v) \<and> c' = advance c (length (to_le_bytes v))"
    by (auto simp: sint_nonneg_iff)
  finally show "read_txout_value c = Inr (v, c') \<longleftrightarrow> \<dots>" .
qed

interpretation raw_script: exact_reader read_raw_script "\<lambda>s. compact_size (length s) @ s" "\<lambda>s. length s < 2 ^ 64"
proof
  fix c c' s
  assume c: "in_range c"
  have "read_raw_script c = Inr (s, c') \<longleftrightarrow> (\<exists>n c1. read_compact_size c = Inr (n, c1) \<and> read_exact (unat n) c1 = Inr (s, c'))"
    by (auto simp: read_raw_script_def result_simps)
  also have "\<dots> \<longleftrightarrow> (\<exists>n < 2 ^ 64. holds_at c (compact_size n) \<and> read_exact n (advance c (length (compact_size n))) = Inr (s, c'))"
    by (rule compact_prefix [OF c])
  also have "\<dots> \<longleftrightarrow> length s < 2 ^ 64 \<and> holds_at c (compact_size (length s) @ s)
      \<and> c' = advance c (length (compact_size (length s) @ s))"
    by (auto simp: read_exact_exact [OF in_range_advance [OF c]] holds_at_append)
  finally show "read_raw_script c = Inr (s, c') \<longleftrightarrow> \<dots>" .
qed

interpretation txout: exact_reader read_spent_txout enc_txout txout_ok
proof
  fix c c' txo
  assume c: "in_range c"
  obtain v s where txo: "txo = \<lparr>sx_value_sat = v, sx_script_pubkey = s\<rparr>" by (cases txo) simp
  have "read_spent_txout c = Inr (txo, c') \<longleftrightarrow>
      (\<exists>c1. read_txout_value c = Inr (v, c1) \<and> read_raw_script c1 = Inr (s, c'))"
    by (auto simp: read_spent_txout_def result_simps txo)
  also have "\<dots> \<longleftrightarrow> txout_ok txo \<and> holds_at c (enc_txout txo) \<and> c' = advance c (length (enc_txout txo))"
    using raw_script.exact [OF in_range_advance [OF c], of "to_le_bytes v"]
    by (auto simp: txout_value.exact [OF c] txout_ok_def enc_txout_def txo holds_at_append)
  finally show "read_spent_txout c = Inr (txo, c') \<longleftrightarrow> \<dots>" .
qed

text \<open>A counted vector: its length, the capacity request, and the loop over an exact reader.\<close>

context exact_reader
begin

lemma counted_exact:
  assumes c: "in_range c" and size: "0 < elem_size"
  shows "and_then (read_compact_size c) (\<lambda>(n, c).
      and_then (vec_with_capacity elem_size (unat n)) (\<lambda>_. read_loop rd (unat n) [] c)) = Inr (xs, c')
    \<longleftrightarrow> (elem_size * length xs < 2 ^ 63 \<and> list_all ok xs)
      \<and> holds_at c (compact_size (length xs) @ concat (map enc xs))
      \<and> c' = advance c (length (compact_size (length xs) @ concat (map enc xs)))"
    (is "?run \<longleftrightarrow> ?R")
proof -
  have small: "n < 2 ^ 64" if "elem_size * n < 2 ^ 63" for n
  proof -
    have "1 * n \<le> elem_size * n" using size by (intro mult_right_mono) simp_all
    with that have "n < 2 ^ 63" by linarith
    then show ?thesis by simp
  qed
  have "?run \<longleftrightarrow> (\<exists>n c1. read_compact_size c = Inr (n, c1)
      \<and> elem_size * unat n < 2 ^ 63 \<and> read_loop rd (unat n) [] c1 = Inr (xs, c'))"
    by (auto simp: result_simps vec_with_capacity_def)
  also have "\<dots> \<longleftrightarrow> (\<exists>n < 2 ^ 64. holds_at c (compact_size n) \<and> elem_size * n < 2 ^ 63
      \<and> read_loop rd n [] (advance c (length (compact_size n))) = Inr (xs, c'))"
    by (rule compact_prefix [OF c])
  also have "\<dots> \<longleftrightarrow> (\<exists>n < 2 ^ 64. holds_at c (compact_size n) \<and> elem_size * n < 2 ^ 63 \<and> length xs = n \<and> list_all ok xs
      \<and> holds_at (advance c (length (compact_size n))) (concat (map enc xs))
      \<and> c' = advance c (length (compact_size n) + length (concat (map enc xs))))"
    using read_loop_exact [OF in_range_advance [OF c]] by (intro ex_cong1) auto
  also have "\<dots> \<longleftrightarrow> ?R"
    using small [of "length xs"] by (auto simp: holds_at_append)
  finally show ?thesis .
qed

end

interpretation inputs: exact_reader read_inputs enc_inputs inputs_ok
  using txout.counted_exact [where elem_size = 32]
  by unfold_locales (simp add: read_inputs_def enc_inputs_def inputs_ok_def)

section \<open>The decoder accepts exactly the canonical payloads\<close>

text \<open>
  C27: A payload decodes to a set of spent outputs exactly when it is their canonical
  encoding: shortest CompactSize counts and lengths, non-negative values, every vector
  within the address space, and no byte before, between or after. So decoding inverts
  encoding, no two payloads give the same outputs, and every other byte string is an error.
\<close>

theorem undo_payload_exact:
  "decode_spent_txouts_payload bs = Inr undo \<longleftrightarrow> undo_ok undo \<and> bs = encode_spent_txouts_payload undo"
proof -
  let ?c = "cursor_new bs"
  have c: "in_range ?c" by (simp add: in_range_def cursor_new_def)
  have undo: "undo = \<lparr>bt_txs = bt_txs undo\<rparr>" by simp
  have whole: "holds_at ?c e \<and> cursor_is_empty (advance ?c (length e)) \<longleftrightarrow> bs = e" for e
    by (auto simp: holds_at_def cursor_new_def cursor_is_empty_def advance_def)
  have "decode_spent_txouts_payload bs = Inr undo \<longleftrightarrow>
      (\<exists>c'. and_then (read_compact_size ?c) (\<lambda>(n, c).
          and_then (vec_with_capacity 24 (unat n)) (\<lambda>_. read_loop read_inputs (unat n) [] c)) = Inr (bt_txs undo, c')
        \<and> cursor_is_empty c')"
    by (subst undo) (auto simp: decode_spent_txouts_payload_def result_simps)
  also have "\<dots> \<longleftrightarrow> undo_ok undo \<and> holds_at ?c (encode_spent_txouts_payload undo)
      \<and> cursor_is_empty (advance ?c (length (encode_spent_txouts_payload undo)))"
    using inputs.counted_exact [OF c, where elem_size = 24]
    by (auto simp: undo_ok_def encode_spent_txouts_payload_def)
  finally show ?thesis using whole by blast
qed

text \<open>
  A nine-byte payload that announces \<open>2 ^ 64 - 1\<close> transactions is not rejected with an error:
  the capacity request for them panics first.
\<close>

lemma le_bytes_nat_ones: "le_bytes_nat (replicate n 0xff) = 256 ^ n - 1"
proof (induction n)
  case (Suc n)
  have "1 \<le> (256 :: nat) ^ n" by simp
  with Suc show ?case by (simp add: diff_mult_distrib2)
qed simp

lemma undo_count_panics:
  "decode_spent_txouts_payload (replicate 9 0xff) = Inl (Error ''capacity overflow'')"
proof -
  let ?bs = "replicate 9 0xff :: bytes"
  have first: "read_u8 (cursor_new ?bs) = Inr (0xff, \<lparr>cur_bytes = ?bs, cur_pos = 1\<rparr>)"
    by (simp add: read_u8_def cursor_new_def)
  have "read_exact 8 \<lparr>cur_bytes = ?bs, cur_pos = 1\<rparr> = Inr (replicate 8 0xff, \<lparr>cur_bytes = ?bs, cur_pos = 9\<rparr>)"
    by (simp add: read_exact_def cursor_remaining_def slice_def)
  moreover have "(from_le_bytes (replicate 8 0xff) :: u64) = - 1"
    by (simp add: from_le_bytes_def le_bytes_nat_ones)
  ultimately have "read_compact_size (cursor_new ?bs) = Inr (- 1, \<lparr>cur_bytes = ?bs, cur_pos = 9\<rparr>)"
    by (simp add: read_compact_size_def first)
  moreover have "unat (- 1 :: u64) = 2 ^ 64 - 1"
    by (simp add: unsigned_minus_1_eq_mask mask_eq_exp_minus_1)
  ultimately show ?thesis
    by (simp add: decode_spent_txouts_payload_def vec_with_capacity_def)
qed

end
