(* ===== verification/Multi_Source.thy ===== *)
theory Multi_Source
  imports Block_Source
begin

text \<open>
  The round-robin over several block sources (\<^verbatim>\<open>sources/src/multi.rs\<close>): a shared cursor picks the next source, and a call goes
  on to the next one after an error, as often as there are sources. The calls are the
  methods of a source record; what is printed about a failure is left out. Concurrent calls share the cursor and are
  a step relation.
\<close>

section \<open>Calls\<close>

record MultiSource =
  ms_sources :: "ScanSource list"
  ms_cursor :: u64

definition MultiSource_new :: "ScanSource list \<Rightarrow> MultiSource result" where
  "MultiSource_new sources =
     and_then (ensure (sources \<noteq> []) ''need at least one source'') (\<lambda>_. Inr \<lparr>ms_sources = sources, ms_cursor = 0\<rparr>)"

definition pick :: "MultiSource \<Rightarrow> ScanSource \<times> MultiSource" where
  "pick m = (ms_sources m ! (unat (ms_cursor m) mod length (ms_sources m)), m\<lparr>ms_cursor := ms_cursor m + 1\<rparr>)"

definition unwrap_error :: "error option \<Rightarrow> error" where
  "unwrap_error e = (case e of Some x \<Rightarrow> x | None \<Rightarrow> Error ''called Option::unwrap() on a None value'')"

fun failover :: "(ScanSource \<Rightarrow> 'a result) \<Rightarrow> nat \<Rightarrow> error option \<Rightarrow> MultiSource \<Rightarrow> 'a result \<times> MultiSource" where
  "failover call 0 last_err m = (Inl (unwrap_error last_err), m)"
| "failover call (Suc n) last_err m =
     (let (src, m) = pick m in
      case call src of
        Inr x \<Rightarrow> (Inr x, m)
      | Inl e \<Rightarrow> failover call n (Some e) m)"

definition multi_call :: "(ScanSource \<Rightarrow> 'a result) \<Rightarrow> MultiSource \<Rightarrow> 'a result \<times> MultiSource" where
  "multi_call call m = failover call (length (ms_sources m)) None m"

definition multi_get_block_hash :: "u64 \<Rightarrow> MultiSource \<Rightarrow> bytes result \<times> MultiSource" where
  "multi_get_block_hash height = multi_call (\<lambda>s. src_get_block_hash s height)"

definition multi_get_block_raw :: "bytes \<Rightarrow> MultiSource \<Rightarrow> bytes result \<times> MultiSource" where
  "multi_get_block_raw hash = multi_call (\<lambda>s. src_get_block_raw s hash)"

definition multi_get_block_spent_txouts :: "bytes \<Rightarrow> MultiSource \<Rightarrow> BlockSpentTxOuts option result \<times> MultiSource" where
  "multi_get_block_spent_txouts hash = multi_call (\<lambda>s. src_get_block_spent_txouts s hash)"

definition multi_get_blocks_spent_txouts :: "bytes list \<Rightarrow> MultiSource \<Rightarrow> BlockSpentTxOuts option list result \<times> MultiSource" where
  "multi_get_blocks_spent_txouts hashes = multi_call (\<lambda>s. src_get_blocks_spent_txouts s hashes)"

definition multi_get_best_height :: "MultiSource \<Rightarrow> u64 result \<times> MultiSource" where
  "multi_get_best_height = multi_call src_get_best_height"

definition multi_get_block_by_height :: "u64 \<Rightarrow> MultiSource \<Rightarrow> RawBlockFrame result \<times> MultiSource" where
  "multi_get_block_by_height height = multi_call (\<lambda>s. src_get_block_by_height s height)"

definition multi_get_block_range_by_height :: "u64 \<Rightarrow> usize \<Rightarrow> MultiSource \<Rightarrow> RawBlockFrame list result \<times> MultiSource" where
  "multi_get_block_range_by_height start_height n = multi_call (\<lambda>s. src_get_block_range_by_height s start_height n)"

definition multi_supports_block_range_batches :: "MultiSource \<Rightarrow> bool" where
  "multi_supports_block_range_batches m = list_all src_supports_block_range_batches (ms_sources m)"

section \<open>A call alone\<close>

text \<open>The sources in the order in which a call tries them.\<close>

definition turn_order :: "MultiSource \<Rightarrow> ScanSource list" where
  "turn_order m = rotate (unat (ms_cursor m)) (ms_sources m)"

fun run_order :: "(ScanSource \<Rightarrow> 'a result) \<Rightarrow> ScanSource list \<Rightarrow> error option \<Rightarrow> 'a result" where
  "run_order call [] last_err = Inl (unwrap_error last_err)"
| "run_order call (s # srcs) last_err = (case call s of Inr x \<Rightarrow> Inr x | Inl e \<Rightarrow> run_order call srcs (Some e))"

lemma run_order_find:
  "run_order call srcs le = (case find (\<lambda>s. is_ok (call s)) srcs of
     Some s \<Rightarrow> call s | None \<Rightarrow> if srcs = [] then Inl (unwrap_error le) else call (last srcs))"
  by (induction srcs arbitrary: le) (auto simp: unwrap_error_def is_ok_iff split: sum.splits option.splits)

lemma failover_order:
  assumes "ms_sources m \<noteq> []" and "n \<le> length (ms_sources m)" and "unat (ms_cursor m) + n < 2 ^ 64"
  shows "fst (failover call n le m) = run_order call (take n (turn_order m)) le \<and> ms_sources (snd (failover call n le m)) = ms_sources m"
  using assms
proof (induction n arbitrary: m le)
  case (Suc n)
  define m' where "m' = m\<lparr>ms_cursor := ms_cursor m + 1\<rparr>"
  have cursor: "unat (ms_cursor m') = Suc (unat (ms_cursor m))"
    using Suc.prems(3) by (simp add: m'_def unat_word_ariths)
  obtain s rest where turn: "turn_order m = s # rest"
    using Suc.prems(1) by (cases "turn_order m") (auto simp: turn_order_def)
  then have len: "length rest = length (ms_sources m) - 1" by (metis length_rotate turn_order_def length_Cons diff_Suc_1)
  have s: "pick m = (s, m')"
    using Suc.prems(1) hd_rotate_conv_nth [of "ms_sources m" "unat (ms_cursor m)"] turn
    by (simp add: pick_def m'_def turn_order_def)
  have "turn_order m' = rotate1 (turn_order m)" by (simp add: turn_order_def cursor) (simp add: m'_def)
  then have rest: "take n (turn_order m') = take n rest" using turn len Suc.prems(2) by simp
  have IH: "fst (failover call n le' m') = run_order call (take n rest) le'"
      "ms_sources (snd (failover call n le' m')) = ms_sources m" for le'
    using Suc.IH [of m' le'] Suc.prems cursor rest by (simp_all add: m'_def)
  from s turn IH show ?case by (simp add: m'_def split: sum.split)
qed simp

section \<open>Concurrent calls\<close>

text \<open>Each task is a call with the tries it has left; a step of any of them picks with the shared cursor.\<close>

datatype 'a task = Trying nat "error option" | Returned "'a result"

inductive multi_step :: "(ScanSource \<Rightarrow> 'a result) \<Rightarrow> MultiSource \<times> 'a task list \<Rightarrow> MultiSource \<times> 'a task list \<Rightarrow> bool"
  for call where
  attempt: "i < length ts \<Longrightarrow> ts ! i = Trying (Suc n) le \<Longrightarrow> pick m = (src, m')
    \<Longrightarrow> multi_step call (m, ts) (m', ts[i := (case call src of Inr x \<Rightarrow> Returned (Inr x) | Inl e \<Rightarrow> Trying n (Some e))])"
| give_up: "i < length ts \<Longrightarrow> ts ! i = Trying 0 le
    \<Longrightarrow> multi_step call (m, ts) (m, ts[i := Returned (Inl (unwrap_error le))])"

text \<open>Two concurrent calls over a failing and a working source: the first one can meet the failing source twice.\<close>

lemma concurrent_failover_fails:
  assumes "call bad = Inl e" and "call good = Inr x"
  shows "\<exists>m. (multi_step call)\<^sup>*\<^sup>* (\<lparr>ms_sources = [bad, good], ms_cursor = 0\<rparr>, [Trying 2 None, Trying 2 None])
    (m, [Returned (Inl e), Returned (Inr x)])"
proof -
  let ?m = "\<lambda>c. \<lparr>ms_sources = [bad, good], ms_cursor = c\<rparr>"
  have p: "pick (?m 0) = (bad, ?m 1)" "pick (?m 1) = (good, ?m 2)" "pick (?m 2) = (bad, ?m 3)"
    by (simp_all add: pick_def) (simp add: numeral_2_eq_2)
  have "multi_step call (?m 0, [Trying 2 None, Trying 2 None]) (?m 1, [Trying 1 (Some e), Trying 2 None])"
    using attempt [of 0 "[Trying 2 None, Trying 2 None]" 1 None "?m 0" bad "?m 1" call] p assms by (simp add: eval_nat_numeral)
  moreover have "multi_step call (?m 1, [Trying 1 (Some e), Trying 2 None]) (?m 2, [Trying 1 (Some e), Returned (Inr x)])"
    using attempt [of 1 "[Trying 1 (Some e), Trying 2 None]" 1 None "?m 1" good "?m 2" call] p assms by (simp add: eval_nat_numeral)
  moreover have "multi_step call (?m 2, [Trying 1 (Some e), Returned (Inr x)]) (?m 3, [Trying 0 (Some e), Returned (Inr x)])"
    using attempt [of 0 "[Trying 1 (Some e), Returned (Inr x)]" 0 "Some e" "?m 2" bad "?m 3" call] p assms by simp
  moreover have "multi_step call (?m 3, [Trying 0 (Some e), Returned (Inr x)]) (?m 3, [Returned (Inl e), Returned (Inr x)])"
    using give_up [of 0 "[Trying 0 (Some e), Returned (Inr x)]" "Some e" call "?m 3"] by (simp add: unwrap_error_def)
  ultimately show ?thesis by (meson converse_rtranclp_into_rtranclp rtranclp.rtrancl_refl)
qed

section \<open>Fail-over\<close>

text \<open>
  C36: A call on its own tries the sources in turn from the cursor on and returns the answer of the first that succeeds,
  or the error of the last one when all fail, and never the panic of an empty error; so it
  succeeds exactly when some source does. The cursor must not wrap around during the call.
\<close>

theorem multi_failover_exact:
  assumes "ms_sources m \<noteq> []" and "unat (ms_cursor m) + length (ms_sources m) < 2 ^ 64"
  shows "fst (multi_call call m) = (case find (\<lambda>s. is_ok (call s)) (turn_order m) of
      Some s \<Rightarrow> call s | None \<Rightarrow> call (last (turn_order m)))
    \<and> (is_ok (fst (multi_call call m)) \<longleftrightarrow> (\<exists>s \<in> set (ms_sources m). is_ok (call s)))
    \<and> ms_sources (snd (multi_call call m)) = ms_sources m"
proof -
  have turn: "turn_order m \<noteq> []" "length (turn_order m) = length (ms_sources m)" "set (turn_order m) = set (ms_sources m)"
    using assms(1) by (simp_all add: turn_order_def)
  have eq: "fst (multi_call call m) = (case find (\<lambda>s. is_ok (call s)) (turn_order m) of
      Some s \<Rightarrow> call s | None \<Rightarrow> call (last (turn_order m)))"
    using failover_order [OF assms(1) order_refl assms(2), of call None] turn by (simp add: multi_call_def run_order_find)
  moreover have "is_ok (fst (multi_call call m)) \<longleftrightarrow> (\<exists>s \<in> set (turn_order m). is_ok (call s))"
    unfolding eq using turn(1) by (auto simp: find_None_iff find_Some_iff split: option.split)
  ultimately show ?thesis
    using failover_order [OF assms(1) order_refl assms(2), of call None] turn(3) by (simp add: multi_call_def)
qed

definition answering :: "u64 result \<Rightarrow> ScanSource" where
  "answering best = \<lparr>src_get_block_hash = (\<lambda>_. Inr []), src_get_block_raw = (\<lambda>_. Inr []),
     src_get_block_spent_txouts = (\<lambda>_. Inr None), src_get_blocks_spent_txouts = (\<lambda>_. Inr []), src_get_best_height = best,
     src_get_block_range_by_height = (\<lambda>_ _. Inr []), src_get_block_by_height = (\<lambda>_. Inl (Error ''none'')),
     src_supports_block_range_batches = False\<rparr>"

theorem multi_failover_exact_witness:
  "fst (multi_get_best_height \<lparr>ms_sources = [answering (Inl (Error ''down'')), answering (Inr 7)], ms_cursor = 2\<rparr>) = Inr 7"
proof -
  let ?m = "\<lparr>ms_sources = [answering (Inl (Error ''down'')), answering (Inr 7)], ms_cursor = 2\<rparr>"
  have "turn_order ?m = [answering (Inl (Error ''down'')), answering (Inr 7)]"
    by (simp add: turn_order_def) (simp add: numeral_2_eq_2)
  with multi_failover_exact [of ?m src_get_best_height] show ?thesis
    by (simp add: multi_get_best_height_def answering_def is_ok_iff)
qed

end
