(* ===== verification/Stats_Script.thy ===== *)
theory Stats_Script
  imports Script_Classify "HOL-Library.Sublist"
begin

text \<open>
  The stateless classifications of the chain statistics: script types and their counters
  (\<^verbatim>\<open>stats/src/script.rs\<close>) and the classification of a P2TR spend by its witness
  (\<^verbatim>\<open>stats/src/transaction.rs\<close>). The template tests of the \<^verbatim>\<open>bitcoin\<close> crate
  are parameters, as in the light server; the statistics use one more of them.
\<close>

section \<open>Script types\<close>

datatype ScriptType =
    TypeP2pk | TypeP2pkh | TypeP2sh | TypeP2wpkh | TypeP2wsh | TypeP2tr | TypeP2a | TypeOpReturn | TypeUnknown

definition ScriptType_ALL :: "ScriptType list" where
  "ScriptType_ALL =
     [TypeP2pk, TypeP2pkh, TypeP2sh, TypeP2wpkh, TypeP2wsh, TypeP2tr, TypeP2a, TypeOpReturn, TypeUnknown]"

fun script_type_to_u8 :: "ScriptType \<Rightarrow> u8" where
  "script_type_to_u8 TypeP2pk = 0"
| "script_type_to_u8 TypeP2pkh = 1"
| "script_type_to_u8 TypeP2sh = 2"
| "script_type_to_u8 TypeP2wpkh = 3"
| "script_type_to_u8 TypeP2wsh = 4"
| "script_type_to_u8 TypeP2tr = 5"
| "script_type_to_u8 TypeP2a = 6"
| "script_type_to_u8 TypeOpReturn = 7"
| "script_type_to_u8 TypeUnknown = 8"

definition script_type_from_u8 :: "u8 \<Rightarrow> ScriptType" where
  "script_type_from_u8 value =
     (if value = 0 then TypeP2pk else if value = 1 then TypeP2pkh else if value = 2 then TypeP2sh
      else if value = 3 then TypeP2wpkh else if value = 4 then TypeP2wsh else if value = 5 then TypeP2tr
      else if value = 6 then TypeP2a else if value = 7 then TypeOpReturn else TypeUnknown)"

fun script_type_as_str :: "ScriptType \<Rightarrow> string" where
  "script_type_as_str TypeP2pk = ''p2pk''"
| "script_type_as_str TypeP2pkh = ''p2pkh''"
| "script_type_as_str TypeP2sh = ''p2sh''"
| "script_type_as_str TypeP2wpkh = ''p2wpkh''"
| "script_type_as_str TypeP2wsh = ''p2wsh''"
| "script_type_as_str TypeP2tr = ''p2tr''"
| "script_type_as_str TypeP2a = ''p2a''"
| "script_type_as_str TypeOpReturn = ''op_return''"
| "script_type_as_str TypeUnknown = ''unknown''"

record stats_tests = script_tests +
  test_p2pk :: "bytes \<Rightarrow> bool"

definition is_p2a :: "bytes \<Rightarrow> bool" where
  "is_p2a b \<longleftrightarrow> length b = 4 \<and> b ! 0 = 0x51 \<and> b ! 1 = 0x02 \<and> b ! 2 = 0x4e \<and> b ! 3 = 0x73"

definition classify_script_type :: "stats_tests \<Rightarrow> bytes \<Rightarrow> ScriptType" where
  "classify_script_type lib script =
     (if is_p2a script then TypeP2a
      else if test_p2tr lib script then TypeP2tr
      else if test_p2wpkh lib script then TypeP2wpkh
      else if test_p2wsh lib script then TypeP2wsh
      else if test_p2sh lib script then TypeP2sh
      else if test_p2pkh lib script then TypeP2pkh
      else if test_p2pk lib script then TypeP2pk
      else if test_op_return lib script then TypeOpReturn
      else TypeUnknown)"

section \<open>Counters by script type\<close>

record TypeCounts =
  tc_p2pk :: u64
  tc_p2pkh :: u64
  tc_p2sh :: u64
  tc_p2wpkh :: u64
  tc_p2wsh :: u64
  tc_p2tr :: u64
  tc_p2a :: u64
  tc_op_return :: u64
  tc_unknown :: u64

definition TypeCounts_default :: TypeCounts where
  "TypeCounts_default = \<lparr>tc_p2pk = 0, tc_p2pkh = 0, tc_p2sh = 0, tc_p2wpkh = 0, tc_p2wsh = 0, tc_p2tr = 0,
     tc_p2a = 0, tc_op_return = 0, tc_unknown = 0\<rparr>"

fun record_type :: "TypeCounts \<Rightarrow> ScriptType \<Rightarrow> TypeCounts" where
  "record_type c TypeP2pk = c\<lparr>tc_p2pk := tc_p2pk c + 1\<rparr>"
| "record_type c TypeP2pkh = c\<lparr>tc_p2pkh := tc_p2pkh c + 1\<rparr>"
| "record_type c TypeP2sh = c\<lparr>tc_p2sh := tc_p2sh c + 1\<rparr>"
| "record_type c TypeP2wpkh = c\<lparr>tc_p2wpkh := tc_p2wpkh c + 1\<rparr>"
| "record_type c TypeP2wsh = c\<lparr>tc_p2wsh := tc_p2wsh c + 1\<rparr>"
| "record_type c TypeP2tr = c\<lparr>tc_p2tr := tc_p2tr c + 1\<rparr>"
| "record_type c TypeP2a = c\<lparr>tc_p2a := tc_p2a c + 1\<rparr>"
| "record_type c TypeOpReturn = c\<lparr>tc_op_return := tc_op_return c + 1\<rparr>"
| "record_type c TypeUnknown = c\<lparr>tc_unknown := tc_unknown c + 1\<rparr>"

definition merge_types :: "TypeCounts \<Rightarrow> TypeCounts \<Rightarrow> TypeCounts" where
  "merge_types self other =
     \<lparr>tc_p2pk = tc_p2pk self + tc_p2pk other,
      tc_p2pkh = tc_p2pkh self + tc_p2pkh other,
      tc_p2sh = tc_p2sh self + tc_p2sh other,
      tc_p2wpkh = tc_p2wpkh self + tc_p2wpkh other,
      tc_p2wsh = tc_p2wsh self + tc_p2wsh other,
      tc_p2tr = tc_p2tr self + tc_p2tr other,
      tc_p2a = tc_p2a self + tc_p2a other,
      tc_op_return = tc_op_return self + tc_op_return other,
      tc_unknown = tc_unknown self + tc_unknown other\<rparr>"

text \<open>The counter of a type.\<close>

fun type_count :: "TypeCounts \<Rightarrow> ScriptType \<Rightarrow> u64" where
  "type_count c TypeP2pk = tc_p2pk c"
| "type_count c TypeP2pkh = tc_p2pkh c"
| "type_count c TypeP2sh = tc_p2sh c"
| "type_count c TypeP2wpkh = tc_p2wpkh c"
| "type_count c TypeP2wsh = tc_p2wsh c"
| "type_count c TypeP2tr = tc_p2tr c"
| "type_count c TypeP2a = tc_p2a c"
| "type_count c TypeOpReturn = tc_op_return c"
| "type_count c TypeUnknown = tc_unknown c"

lemma type_counts_eqI: "(\<And>t. type_count c t = type_count d t) \<Longrightarrow> c = d"
  by (rule TypeCounts.equality)
    (metis type_count.simps, metis type_count.simps, metis type_count.simps, metis type_count.simps, metis type_count.simps,
     metis type_count.simps, metis type_count.simps, metis type_count.simps, metis type_count.simps, simp)

lemma type_count_record [simp]: "type_count (record_type c t) u = type_count c u + (if t = u then 1 else 0)"
  by (cases t; cases u) simp_all

lemma type_count_merge [simp]: "type_count (merge_types c d) t = type_count c t + type_count d t"
  by (cases t) (simp_all add: merge_types_def)

lemma type_count_default [simp]: "type_count TypeCounts_default t = 0"
  by (cases t) (simp_all add: TypeCounts_default_def)

text \<open>Counting a list, and merging the counts of two lists.\<close>

lemma type_count_foldl:
  "type_count (foldl record_type c ts) t = type_count c t + word_of_nat (length (filter ((=) t) ts))"
  by (induction ts arbitrary: c) auto

lemma merge_record_lists:
  "merge_types (foldl record_type TypeCounts_default xs) (foldl record_type TypeCounts_default ys)
    = foldl record_type TypeCounts_default (xs @ ys)"
  by (rule type_counts_eqI) (simp add: type_count_foldl del: foldl_append)

lemma merge_types_record: "merge_types c (record_type d t) = record_type (merge_types c d) t"
  by (rule type_counts_eqI) (simp add: add.assoc)

lemma script_type_code_roundtrip [simp]: "script_type_from_u8 (script_type_to_u8 t) = t"
  by (cases t) (simp_all add: script_type_from_u8_def)

lemma script_type_code_less: "unat (script_type_to_u8 t) < 9"
  by (cases t) simp_all

section \<open>Spend paths\<close>

datatype SpendPath = PathKey | PathScriptNonNums | PathScriptNums

record SpendClass =
  sc_path :: SpendPath
  sc_inscription :: bool

definition NUMS_H_XONLY :: bytes where
  "NUMS_H_XONLY =
     [0x50, 0x92, 0x9b, 0x74, 0xc1, 0xa0, 0x49, 0x54, 0xb7, 0x8b, 0x4b, 0x60, 0x35, 0xe9, 0x7a, 0x5e,
      0x07, 0x8a, 0x5a, 0x0f, 0x28, 0xec, 0x96, 0xd5, 0x47, 0xbf, 0xee, 0x9a, 0xce, 0x80, 0x3a, 0xc0]"

definition witness_item :: "bytes list \<Rightarrow> usize \<Rightarrow> bytes option" where
  "witness_item witness index = (if index < length witness then Some (witness ! index) else None)"

definition is_taproot_annex :: "bytes \<Rightarrow> bool" where
  "is_taproot_annex item \<longleftrightarrow> (case item of [] \<Rightarrow> False | b # _ \<Rightarrow> b = 0x50)"

definition is_taproot_control_block :: "bytes \<Rightarrow> bool" where
  "is_taproot_control_block item \<longleftrightarrow> length item \<ge> 33 \<and> (length item - 33) mod 32 = 0"

text \<open>\<open>script.windows(n).any(p)\<close> for a positive \<open>n\<close>.\<close>

fun any_window :: "nat \<Rightarrow> ('a list \<Rightarrow> bool) \<Rightarrow> 'a list \<Rightarrow> bool" where
  "any_window n p [] = False"
| "any_window n p (x # xs) = (n \<le> length (x # xs) \<and> (p (take n (x # xs)) \<or> any_window n p xs))"

definition inscription_needle :: bytes where
  "inscription_needle = [0x00, 0x63, 0x03, 0x6f, 0x72, 0x64]"

definition is_inscription_envelope :: "bytes \<Rightarrow> bool" where
  "is_inscription_envelope script = any_window (length inscription_needle) (\<lambda>w. w = inscription_needle) script"

definition classify_p2tr_spend :: "bytes list \<Rightarrow> SpendClass" where
  "classify_p2tr_spend witness =
     (let len = length witness; key_path = \<lparr>sc_path = PathKey, sc_inscription = False\<rparr> in
      if len = 0 then key_path
      else
        let len = (case witness_item witness (len - 1) of
                     Some item \<Rightarrow> if is_taproot_annex item then len - 1 else len
                   | None \<Rightarrow> len) in
        if len < 2 then key_path
        else (case witness_item witness (len - 1) of
            None \<Rightarrow> key_path
          | Some control \<Rightarrow>
              if \<not> is_taproot_control_block control then key_path
              else
                let script = (case witness_item witness (len - 2) of Some s \<Rightarrow> s | None \<Rightarrow> []);
                    inscription = is_inscription_envelope script;
                    internal_key = slice control 1 33
                in \<lparr>sc_path = (if internal_key = NUMS_H_XONLY then PathScriptNums else PathScriptNonNums),
                    sc_inscription = inscription\<rparr>))"

section \<open>Each script type is its template\<close>

text \<open>
  The \<^verbatim>\<open>bitcoin\<close> crate documents P2PK as the push of a 33- or 65-byte key and
  a signature check.
\<close>

definition stats_tests_ok :: "stats_tests \<Rightarrow> bool" where
  "stats_tests_ok lib \<longleftrightarrow> script_tests_ok (script_tests.truncate lib)
     \<and> (\<forall>s. test_p2pk lib s \<longleftrightarrow>
          length s = 67 \<and> s ! 0 = 0x41 \<and> s ! 66 = 0xac \<or> length s = 35 \<and> s ! 0 = 0x21 \<and> s ! 34 = 0xac)"

text \<open>The scripts of a type, as a declarative predicate; a script of no other type is unknown.\<close>

fun template_of :: "ScriptType \<Rightarrow> bytes \<Rightarrow> bool" where
  "template_of TypeP2a s \<longleftrightarrow> s = [0x51, 0x02, 0x4e, 0x73]"
| "template_of TypeP2tr s \<longleftrightarrow> (\<exists>h. length h = 32 \<and> s = [0x51, 0x20] @ h)"
| "template_of TypeP2wpkh s \<longleftrightarrow> (\<exists>h. length h = 20 \<and> s = [0x00, 0x14] @ h)"
| "template_of TypeP2wsh s \<longleftrightarrow> (\<exists>h. length h = 32 \<and> s = [0x00, 0x20] @ h)"
| "template_of TypeP2sh s \<longleftrightarrow> (\<exists>h. length h = 20 \<and> s = [0xa9, 0x14] @ h @ [0x87])"
| "template_of TypeP2pkh s \<longleftrightarrow> (\<exists>h. length h = 20 \<and> s = [0x76, 0xa9, 0x14] @ h @ [0x88, 0xac])"
| "template_of TypeP2pk s \<longleftrightarrow> (\<exists>k. length k = 33 \<and> s = [0x21] @ k @ [0xac]) \<or> (\<exists>k. length k = 65 \<and> s = [0x41] @ k @ [0xac])"
| "template_of TypeOpReturn s \<longleftrightarrow> (\<exists>rest. s = 0x6a # rest)"
| "template_of TypeUnknown s \<longleftrightarrow> False"

definition has_type :: "bytes \<Rightarrow> ScriptType \<Rightarrow> bool" where
  "has_type s t \<longleftrightarrow> (if t = TypeUnknown then \<forall>u. \<not> template_of u s else template_of t s)"

lemma template_of_unique: "template_of t s \<Longrightarrow> template_of u s \<Longrightarrow> t = u"
  by (cases t; cases u) auto

lemma framed_byte:
  "length s = Suc (Suc n) \<and> s ! 0 = a \<and> s ! Suc n = b \<longleftrightarrow> (\<exists>k. length k = n \<and> s = [a] @ k @ [b])"
proof
  assume s: "length s = Suc (Suc n) \<and> s ! 0 = a \<and> s ! Suc n = b"
  then obtain r where r: "s = a # r" "length r = Suc n" by (cases s) auto
  then obtain k c where "r = k @ [c]" "length k = n" by (cases r rule: rev_cases) auto
  with r s show "\<exists>k. length k = n \<and> s = [a] @ k @ [b]" by (auto simp: nth_append)
qed (auto simp: nth_append)

lemma stats_tests_templates:
  assumes "stats_tests_ok lib"
  shows "is_p2a s \<longleftrightarrow> template_of TypeP2a s"
    and "test_p2tr lib s \<longleftrightarrow> template_of TypeP2tr s"
    and "test_p2wpkh lib s \<longleftrightarrow> template_of TypeP2wpkh s"
    and "test_p2wsh lib s \<longleftrightarrow> template_of TypeP2wsh s"
    and "test_p2sh lib s \<longleftrightarrow> template_of TypeP2sh s"
    and "test_p2pkh lib s \<longleftrightarrow> template_of TypeP2pkh s"
    and "test_p2pk lib s \<longleftrightarrow> template_of TypeP2pk s"
    and "test_op_return lib s \<longleftrightarrow> template_of TypeOpReturn s"
proof -
  let ?lib = "script_tests.truncate lib"
  have ok: "script_tests_ok ?lib"
    and pk: "test_p2pk lib s \<longleftrightarrow>
      length s = 67 \<and> s ! 0 = 0x41 \<and> s ! 66 = 0xac \<or> length s = 35 \<and> s ! 0 = 0x21 \<and> s ! 34 = 0xac"
    using assms unfolding stats_tests_ok_def by blast+
  note tests = template_tests [OF ok, of s, unfolded script_tests.truncate_def, simplified]
  show "is_p2a s \<longleftrightarrow> template_of TypeP2a s"
  proof
    assume "is_p2a s"
    then show "template_of TypeP2a s" by (auto simp: is_p2a_def length_Suc_conv eval_nat_numeral)
  qed (simp add: is_p2a_def)
  show "test_p2tr lib s \<longleftrightarrow> template_of TypeP2tr s" "test_p2wpkh lib s \<longleftrightarrow> template_of TypeP2wpkh s"
    "test_p2wsh lib s \<longleftrightarrow> template_of TypeP2wsh s" "test_p2sh lib s \<longleftrightarrow> template_of TypeP2sh s"
    "test_p2pkh lib s \<longleftrightarrow> template_of TypeP2pkh s"
    using tests by simp_all
  show "test_p2pk lib s \<longleftrightarrow> template_of TypeP2pk s"
    using framed_byte [of s 65 "0x41" "0xac"] framed_byte [of s 33 "0x21" "0xac"] by (simp add: pk) blast
  have "test_op_return ?lib s \<longleftrightarrow> take 1 s = [0x6a]"
    using ok unfolding script_tests_ok_def by blast
  then show "test_op_return lib s \<longleftrightarrow> template_of TypeOpReturn s"
    by (cases s) (simp_all add: script_tests.truncate_def)
qed

text \<open>
  For the documented template tests the type of a script is exactly that of the one
  template it matches: no script matches two templates, so the order of the tests
  does not matter, and a script is unknown exactly when it matches none.
\<close>

theorem script_type_exact:
  assumes "stats_tests_ok lib"
  shows "classify_script_type lib s = t \<longleftrightarrow> has_type s t"
proof -
  have "has_type s (classify_script_type lib s)"
  proof (cases "classify_script_type lib s = TypeUnknown")
    case True
    then have "\<not> template_of u s" for u
      by (cases u) (auto simp only: classify_script_type_def stats_tests_templates [OF assms]
          template_of.simps(9) ScriptType.distinct split: if_splits)
    with True show ?thesis by (simp add: has_type_def)
  next
    case False
    then have "template_of (classify_script_type lib s) s"
      unfolding classify_script_type_def stats_tests_templates [OF assms]
      by (simp del: template_of.simps split: if_splits)
    with False show ?thesis by (simp add: has_type_def)
  qed
  moreover have "t = u" if "has_type s t" "has_type s u" for t u
    using that template_of_unique [of t s u] by (auto simp: has_type_def split: if_splits)
  ultimately show ?thesis by blast
qed

definition documented_stats_tests :: stats_tests where
  "documented_stats_tests = script_tests.extend documented_tests
     \<lparr>test_p2pk = \<lambda>s. length s = 67 \<and> s ! 0 = 0x41 \<and> s ! 66 = 0xac \<or> length s = 35 \<and> s ! 0 = 0x21 \<and> s ! 34 = 0xac\<rparr>"

lemma documented_stats_tests_ok: "stats_tests_ok documented_stats_tests"
proof -
  have "script_tests.truncate documented_stats_tests = documented_tests"
    by (simp add: documented_stats_tests_def script_tests.extend_def script_tests.truncate_def)
  then show ?thesis using documented_tests_ok
    by (simp add: stats_tests_ok_def documented_stats_tests_def script_tests.extend_def)
qed

theorem script_type_exact_witness:
  "classify_script_type documented_stats_tests [0x51, 0x02, 0x4e, 0x73] = TypeP2a"
  using script_type_exact [OF documented_stats_tests_ok, of "[0x51, 0x02, 0x4e, 0x73]" TypeP2a]
  by (simp add: has_type_def)

section \<open>The spend class is that of BIP341\<close>

text \<open>
  The reference: BIP341 removes an annex (a last element that starts with \<open>0x50\<close>, when there
  are at least two), takes a single remaining element as a key-path signature, and
  otherwise the last as the control block, of length \<open>33 + 32 m\<close> with \<open>m \<le> 128\<close>, and the one before as the script.
\<close>

datatype bip341_spend = KeyPathSpend | ScriptPathSpend bytes bytes

definition bip341_stack :: "bytes list \<Rightarrow> bytes list" where
  "bip341_stack w = (if 2 \<le> length w \<and> last w \<noteq> [] \<and> hd (last w) = 0x50 then butlast w else w)"

definition bip341_parse :: "bytes list \<Rightarrow> bip341_spend option" where
  "bip341_parse w =
     (case rev (bip341_stack w) of
        [] \<Rightarrow> None
      | [signature] \<Rightarrow> Some KeyPathSpend
      | control # script # _ \<Rightarrow>
          if length control \<in> (\<lambda>m. 33 + 32 * m) ` {..128} then Some (ScriptPathSpend script control) else None)"

fun class_of_spend :: "bip341_spend \<Rightarrow> SpendClass" where
  "class_of_spend KeyPathSpend = \<lparr>sc_path = PathKey, sc_inscription = False\<rparr>"
| "class_of_spend (ScriptPathSpend script control) =
     \<lparr>sc_path = (if take 32 (drop 1 control) = NUMS_H_XONLY then PathScriptNums else PathScriptNonNums),
      sc_inscription = sublist [0x00, 0x63, 0x03, 0x6f, 0x72, 0x64] script\<rparr>"

lemma any_window_sublist:
  assumes "0 < length needle"
  shows "any_window (length needle) (\<lambda>w. w = needle) xs \<longleftrightarrow> sublist needle xs"
proof (induction xs)
  case Nil
  then show ?case using assms by (auto simp: sublist_def)
next
  case (Cons x xs)
  have "prefix needle (x # xs) \<longleftrightarrow> take (length needle) (x # xs) = needle"
    by (metis append_eq_conv_conj prefix_def take_is_prefix)
  moreover have "length needle \<le> length (x # xs)" if "sublist needle (x # xs)"
    using that by (rule sublist_length_le)
  ultimately show ?case
    using Cons by (auto simp: sublist_Cons_right simp del: take_Cons' length_Cons)
qed

lemma inscription_iff_sublist:
  "is_inscription_envelope script \<longleftrightarrow> sublist [0x00, 0x63, 0x03, 0x6f, 0x72, 0x64] script"
  using any_window_sublist [of inscription_needle script]
  by (simp add: is_inscription_envelope_def inscription_needle_def)

text \<open>The classification on the stack that is left after the annex.\<close>

definition classify_stack :: "bytes list \<Rightarrow> SpendClass" where
  "classify_stack st =
     (case rev st of
        control # script # _ \<Rightarrow>
          if is_taproot_control_block control then
            \<lparr>sc_path = (if slice control 1 33 = NUMS_H_XONLY then PathScriptNums else PathScriptNonNums),
             sc_inscription = is_inscription_envelope script\<rparr>
          else \<lparr>sc_path = PathKey, sc_inscription = False\<rparr>
      | _ \<Rightarrow> \<lparr>sc_path = PathKey, sc_inscription = False\<rparr>)"

lemma classify_two:
  "classify_stack (st @ [script, control]) =
    (if is_taproot_control_block control then
       \<lparr>sc_path = (if slice control 1 33 = NUMS_H_XONLY then PathScriptNums else PathScriptNonNums),
        sc_inscription = is_inscription_envelope script\<rparr>
     else \<lparr>sc_path = PathKey, sc_inscription = False\<rparr>)"
  by (simp add: classify_stack_def)

lemma classify_p2tr_spend_stack: "classify_p2tr_spend w = classify_stack (bip341_stack w)"
proof (cases w rule: rev_cases)
  case Nil
  then show ?thesis by (simp add: classify_p2tr_spend_def bip341_stack_def classify_stack_def)
next
  case (snoc v a)
  have annex: "is_taproot_annex a \<longleftrightarrow> a \<noteq> [] \<and> hd a = 0x50"
    by (cases a) (simp_all add: is_taproot_annex_def)
  show ?thesis
  proof (cases v rule: rev_cases)
    case Nil
    then show ?thesis
      by (simp add: snoc classify_p2tr_spend_def bip341_stack_def classify_stack_def witness_item_def)
  next
    case v: (snoc u b)
    show ?thesis
    proof (cases "is_taproot_annex a")
      case False
      then have "bip341_stack w = u @ [b, a]" using annex by (auto simp: snoc v bip341_stack_def)
      with False show ?thesis
        by (simp add: snoc v classify_p2tr_spend_def classify_two witness_item_def Let_def nth_append)
    next
      case True
      then have st: "bip341_stack w = u @ [b]" using annex by (simp add: snoc v bip341_stack_def butlast_append)
      show ?thesis
      proof (cases u rule: rev_cases)
        case Nil
        with True st show ?thesis
          by (simp add: snoc v classify_p2tr_spend_def classify_stack_def witness_item_def)
      next
        case (snoc u' c)
        then have "bip341_stack w = u' @ [c, b]" using st by simp
        with True show ?thesis
          by (simp add: \<open>w = v @ [a]\<close> v snoc classify_p2tr_spend_def classify_two witness_item_def Let_def nth_append)
      qed
    qed
  qed
qed

text \<open>
  C37: On every witness that is a key-path or script-path spend of BIP341, with or without an
  annex, the class is the one BIP341 gives: the path by the number of stack elements, the
  internal key compared with the NUMS point, and an inscription exactly when the envelope
  prefix occurs in the script.
\<close>

theorem p2tr_spend_class:
  assumes "bip341_parse w = Some s"
  shows "classify_p2tr_spend w = class_of_spend s"
proof -
  let ?st = "bip341_stack w"
  consider a where "rev ?st = [a]" "s = KeyPathSpend"
    | control script rest where "rev ?st = control # script # rest" "s = ScriptPathSpend script control"
        "length control \<in> (\<lambda>m. 33 + 32 * m) ` {..128}"
    using assms by (auto simp: bip341_parse_def split: list.splits if_splits)
  then show ?thesis
  proof cases
    case 1
    then show ?thesis by (simp add: classify_p2tr_spend_stack classify_stack_def)
  next
    case 2
    then have "is_taproot_control_block control" by (auto simp: is_taproot_control_block_def)
    with 2 show ?thesis
      by (simp add: classify_p2tr_spend_stack classify_stack_def slice_def inscription_iff_sublist)
  qed
qed

theorem p2tr_spend_class_witness:
  "sc_path (classify_p2tr_spend [[0xac], 0xc0 # NUMS_H_XONLY, [0x50, 0x01]]) = PathScriptNums"
proof -
  have "length NUMS_H_XONLY = 32" by (simp add: NUMS_H_XONLY_def)
  then have "bip341_parse [[0xac], 0xc0 # NUMS_H_XONLY, [0x50, 0x01]] = Some (ScriptPathSpend [0xac] (0xc0 # NUMS_H_XONLY))"
    by (auto simp: bip341_parse_def bip341_stack_def intro!: image_eqI [of _ _ 0])
  from p2tr_spend_class [OF this] \<open>length NUMS_H_XONLY = 32\<close> show ?thesis by simp
qed

end
