(* ===== verification/Utxo_Hash.thy ===== *)
theory Utxo_Hash
  imports Prelude "HOL-Library.Multiset"
begin

text \<open>
  The rolling hash of the statistics (\<^verbatim>\<open>stats/src/utxo_hash.rs\<close>): the exclusive or of
  the hashes of the events of the blocks in a sliding window. SHA-256 and the hexadecimal
  text are parameters.
\<close>

record RollingUtxoHash =
  ru_window :: "bytes list"
  ru_acc :: bytes
  ru_window_blocks :: u64
  ru_current_block :: bytes

definition RollingUtxoHash_new :: "u64 \<Rightarrow> RollingUtxoHash" where
  "RollingUtxoHash_new window_blocks =
     \<lparr>ru_window = [], ru_acc = replicate 32 0, ru_window_blocks = window_blocks, ru_current_block = replicate 32 0\<rparr>"

definition ru_enabled :: "RollingUtxoHash \<Rightarrow> bool" where
  "ru_enabled h \<longleftrightarrow> ru_window_blocks h > 0"

definition xor_into :: "bytes \<Rightarrow> bytes \<Rightarrow> bytes" where
  "xor_into dst src = map (\<lambda>i. (dst ! i) XOR (src ! i)) [0..<32]"

definition tag_bytes :: "string \<Rightarrow> bytes" where
  "tag_bytes s = map of_char s"

definition add_output :: "(bytes \<Rightarrow> bytes) \<Rightarrow> RollingUtxoHash \<Rightarrow> u64 \<Rightarrow> RollingUtxoHash" where
  "add_output sha256 h global_id =
     (if \<not> ru_enabled h then h
      else h\<lparr>ru_current_block := xor_into (ru_current_block h) (sha256 (tag_bytes ''add'' @ to_be_bytes global_id))\<rparr>)"

definition remove_output :: "(bytes \<Rightarrow> bytes) \<Rightarrow> RollingUtxoHash \<Rightarrow> u64 \<Rightarrow> RollingUtxoHash" where
  "remove_output sha256 h global_id =
     (if \<not> ru_enabled h then h
      else h\<lparr>ru_current_block := xor_into (ru_current_block h) (sha256 (tag_bytes ''rem'' @ to_be_bytes global_id))\<rparr>)"

fun evict_window :: "u64 \<Rightarrow> bytes list \<Rightarrow> bytes \<Rightarrow> bytes list \<times> bytes" where
  "evict_window window_blocks [] acc = ([], acc)"
| "evict_window window_blocks (old # window) acc =
     (if word_of_nat (length (old # window)) > window_blocks
      then evict_window window_blocks window (xor_into acc old) else (old # window, acc))"

definition finalize_block :: "(bytes \<Rightarrow> string) \<Rightarrow> RollingUtxoHash \<Rightarrow> string \<times> RollingUtxoHash" where
  "finalize_block hex h =
     (if \<not> ru_enabled h then ([], h)
      else
        let acc = xor_into (ru_acc h) (ru_current_block h);
            window = ru_window h @ [ru_current_block h];
            (window, acc) = evict_window (ru_window_blocks h) window acc
        in (hex acc, h\<lparr>ru_window := window, ru_acc := acc, ru_current_block := replicate 32 0\<rparr>))"

section \<open>The accumulator is the exclusive or of the window\<close>

text \<open>An event of a block, and the hash the code takes of it.\<close>

datatype utxo_event = Added u64 | Removed u64

fun event_hash :: "(bytes \<Rightarrow> bytes) \<Rightarrow> utxo_event \<Rightarrow> bytes" where
  "event_hash sha256 (Added i) = sha256 (tag_bytes ''add'' @ to_be_bytes i)"
| "event_hash sha256 (Removed i) = sha256 (tag_bytes ''rem'' @ to_be_bytes i)"

fun apply_event :: "(bytes \<Rightarrow> bytes) \<Rightarrow> RollingUtxoHash \<Rightarrow> utxo_event \<Rightarrow> RollingUtxoHash" where
  "apply_event sha256 h (Added i) = add_output sha256 h i"
| "apply_event sha256 h (Removed i) = remove_output sha256 h i"

definition run_block :: "(bytes \<Rightarrow> bytes) \<Rightarrow> (bytes \<Rightarrow> string) \<Rightarrow> RollingUtxoHash \<Rightarrow> utxo_event list \<Rightarrow> RollingUtxoHash" where
  "run_block sha256 hex h events = snd (finalize_block hex (foldl (apply_event sha256) h events))"

text \<open>\<open>xor_all\<close> is the byte-wise exclusive or of a list of 32-byte strings.\<close>

definition xor_all :: "bytes list \<Rightarrow> bytes" where
  "xor_all bss = foldl xor_into (replicate 32 0) bss"

lemma length_xor_into [simp]: "length (xor_into a b) = 32"
  by (simp add: xor_into_def)

lemma xor_into_nth [simp]: "i < 32 \<Longrightarrow> xor_into a b ! i = (a ! i) XOR (b ! i)"
  by (simp add: xor_into_def)

lemma bytes32_eqI: "length a = 32 \<Longrightarrow> length b = 32 \<Longrightarrow> (\<And>i. i < 32 \<Longrightarrow> a ! i = b ! i) \<Longrightarrow> a = b"
  by (rule nth_equalityI) simp_all

lemma xor_into_swap: "xor_into (xor_into a b) c = xor_into (xor_into a c) b"
  by (rule bytes32_eqI) (simp_all add: ac_simps)

lemma xor_into_cancel: "length a = 32 \<Longrightarrow> xor_into (xor_into a b) b = a"
  by (rule bytes32_eqI) (simp_all add: ac_simps)

lemma xor_into_assoc: "xor_into a (xor_into b c) = xor_into (xor_into a b) c"
  by (rule bytes32_eqI) (simp_all add: ac_simps)

lemma xor_into_zero: "length a = 32 \<Longrightarrow> xor_into a (replicate 32 0) = a"
  by (rule bytes32_eqI) simp_all

lemma length_xor_all [simp]: "length (xor_all bss) = 32"
  by (induction bss rule: rev_induct) (simp_all add: xor_all_def)

lemma xor_all_snoc: "xor_all (bss @ [b]) = xor_into (xor_all bss) b"
  by (simp add: xor_all_def)

lemma foldl_xor_into: "length a = 32 \<Longrightarrow> foldl xor_into a bss = xor_into a (xor_all bss)"
proof (induction bss rule: rev_induct)
  case Nil
  then show ?case by (simp add: xor_all_def xor_into_zero)
next
  case (snoc b bss)
  then show ?case by (simp add: xor_all_snoc xor_into_assoc)
qed

lemma xor_all_Cons: "length b = 32 \<Longrightarrow> xor_all (b # bss) = xor_into b (xor_all bss)"
proof -
  assume b: "length b = 32"
  have "xor_into (replicate 32 0) b = b" using b by (intro bytes32_eqI) simp_all
  then show ?thesis using foldl_xor_into [OF b] by (simp add: xor_all_def)
qed

lemma xor_into_commute: "length a = 32 \<Longrightarrow> length b = 32 \<Longrightarrow> xor_into a b = xor_into b a"
  by (rule bytes32_eqI) (simp_all add: ac_simps)

text \<open>The order of the hashes does not matter.\<close>

lemma xor_all_mset: "mset xs = mset ys \<Longrightarrow> xor_all xs = xor_all ys"
proof -
  assume "mset xs = mset ys"
  then have "fold (\<lambda>b a. xor_into a b) xs = fold (\<lambda>b a. xor_into a b) ys"
    by (rule fold_multiset_equiv [rotated]) (simp add: fun_eq_iff xor_into_swap)
  then show ?thesis by (simp add: xor_all_def foldl_conv_fold fun_eq_iff)
qed

lemma evict_window_exact:
  assumes "length acc = 32" "\<forall>b \<in> set window. length b = 32" and "acc = xor_all window" and "length window < 2 ^ 64"
  shows "evict_window n window acc
    = (drop (length window - unat n) window, xor_all (drop (length window - unat n) window))"
  using assms
proof (induction n window acc rule: evict_window.induct)
  case (2 n old window acc)
  have cmp: "word_of_nat (length (old # window)) > n \<longleftrightarrow> length (old # window) > unat n"
    using unat_word_of_nat_small [where 'a = 64, of "length (old # window)"] "2.prems"(4)
    by (simp add: word_less_nat_alt)
  show ?case
  proof (cases "length (old # window) > unat n")
    case True
    have "xor_into acc old = xor_all window"
      using "2.prems" by (simp add: xor_all_Cons xor_into_commute [of old] xor_into_cancel)
    then have "evict_window n window (xor_into acc old)
        = (drop (length window - unat n) window, xor_all (drop (length window - unat n) window))"
      using 2 True cmp by simp
    moreover have "length (old # window) - unat n = Suc (length window - unat n)" using True by simp
    ultimately show ?thesis using True cmp by simp
  next
    case False
    then have "length (old # window) - unat n = 0" by simp
    with False cmp "2.prems"(3) show ?thesis by simp
  qed
qed simp

lemma foldl_apply_event:
  assumes "ru_enabled h"
  shows "foldl (apply_event sha256) h events
    = h\<lparr>ru_current_block := foldl xor_into (ru_current_block h) (map (event_hash sha256) events)\<rparr>"
  using assms
proof (induction events arbitrary: h)
  case (Cons e events)
  have "apply_event sha256 h e = h\<lparr>ru_current_block := xor_into (ru_current_block h) (event_hash sha256 e)\<rparr>"
    using Cons.prems by (cases e) (simp_all add: add_output_def remove_output_def)
  with Cons show ?case by (simp add: ru_enabled_def)
qed simp

definition block_hash :: "(bytes \<Rightarrow> bytes) \<Rightarrow> utxo_event list \<Rightarrow> bytes" where
  "block_hash sha256 events = xor_all (map (event_hash sha256) events)"

text \<open>The state between blocks: the hashes of the blocks in the window and their exclusive or.\<close>

definition window_state :: "(bytes \<Rightarrow> bytes) \<Rightarrow> u64 \<Rightarrow> utxo_event list list \<Rightarrow> RollingUtxoHash" where
  "window_state sha256 n blocks =
     (let window = map (block_hash sha256) (drop (length blocks - unat n) blocks)
      in \<lparr>ru_window = window, ru_acc = xor_all window, ru_window_blocks = n, ru_current_block = replicate 32 0\<rparr>)"

lemma finalize_window_state:
  assumes n: "0 < n" and len: "Suc (length blocks) < 2 ^ 64"
  shows "finalize_block hex (foldl (apply_event sha256) (window_state sha256 n blocks) events)
    = (hex (ru_acc (window_state sha256 n (blocks @ [events]))), window_state sha256 n (blocks @ [events]))"
proof -
  let ?hash = "block_hash sha256"
  let ?old = "drop (length blocks - unat n) blocks"
  let ?window = "map ?hash (?old @ [events])"
  have cur: "foldl (apply_event sha256) (window_state sha256 n blocks) events
      = (window_state sha256 n blocks)\<lparr>ru_current_block := ?hash events\<rparr>"
    using n foldl_apply_event [of "window_state sha256 n blocks" sha256 events]
    by (simp add: window_state_def Let_def ru_enabled_def block_hash_def xor_all_def)
  have "0 < unat n" using n by (simp add: word_less_nat_alt)
  have "evict_window n ?window (xor_all ?window)
      = (drop (length ?window - unat n) ?window, xor_all (drop (length ?window - unat n) ?window))"
    using len by (intro evict_window_exact) (auto simp: block_hash_def)
  also have "drop (length ?window - unat n) ?window
      = map ?hash (drop (length (blocks @ [events]) - unat n) (blocks @ [events]))"
  proof (cases "length blocks < unat n")
    case False
    then have "length blocks - (length blocks - unat n) = unat n" by simp
    with False \<open>0 < unat n\<close> show ?thesis
      by (simp add: drop_map Suc_diff_le)
  qed (simp add: drop_map)
  finally have ev: "evict_window n ?window (xor_all ?window)
      = (ru_window (window_state sha256 n (blocks @ [events])), ru_acc (window_state sha256 n (blocks @ [events])))"
    by (simp add: window_state_def Let_def)
  have "xor_into (xor_all (map ?hash ?old)) (?hash events) = xor_all ?window"
    by (simp add: xor_all_snoc)
  then have "evict_window n (ru_window (window_state sha256 n blocks) @ [?hash events])
        (xor_into (ru_acc (window_state sha256 n blocks)) (?hash events))
      = (ru_window (window_state sha256 n (blocks @ [events])), ru_acc (window_state sha256 n (blocks @ [events])))"
    using ev by (simp add: window_state_def Let_def)
  then show ?thesis
    using n unfolding cur by (simp add: finalize_block_def ru_enabled_def) (simp add: window_state_def Let_def)
qed

lemma run_blocks_window_state:
  assumes "0 < n" and "length blocks < 2 ^ 64"
  shows "foldl (run_block sha256 hex) (RollingUtxoHash_new n) blocks = window_state sha256 n blocks"
  using assms(2)
proof (induction blocks rule: rev_induct)
  case Nil
  then show ?case by (simp add: RollingUtxoHash_new_def window_state_def xor_all_def)
next
  case (snoc events blocks)
  then show ?case using finalize_window_state [OF assms(1), of blocks] by (simp add: run_block_def)
qed

lemma xor_all_concat: "xor_all (map xor_all bsss) = xor_all (concat bsss)"
proof (induction bsss rule: rev_induct)
  case Nil
  then show ?case by simp
next
  case (snoc bss bsss)
  have "xor_all (concat bsss @ bss) = foldl xor_into (xor_all (concat bsss)) bss"
    by (simp add: xor_all_def)
  with snoc show ?case by (simp add: xor_all_snoc foldl_xor_into)
qed

text \<open>
  C38: The accumulator reported after a block is the exclusive or of the hashes of all the
  events of the last blocks of the window, that one included, in whatever order the events of
  the window are taken: it depends only on the multiset of events, and blocks that have
  left the window leave no trace.
\<close>

theorem rolling_hash_window:
  assumes "0 < n" and "Suc (length blocks) < 2 ^ 64"
    and "mset es = mset (concat (drop (Suc (length blocks) - unat n) (blocks @ [events])))"
  shows "fst (finalize_block hex (foldl (apply_event sha256)
      (foldl (run_block sha256 hex) (RollingUtxoHash_new n) blocks) events))
    = hex (xor_all (map (event_hash sha256) es))"
proof -
  let ?live = "drop (Suc (length blocks) - unat n) (blocks @ [events])"
  have "xor_all (map (block_hash sha256) ?live) = xor_all (map xor_all (map (map (event_hash sha256)) ?live))"
    unfolding map_map by (rule arg_cong [where f = xor_all]) (rule map_cong; simp add: block_hash_def)
  also have "\<dots> = xor_all (map (event_hash sha256) (concat ?live))"
    by (simp only: xor_all_concat map_concat)
  also have "\<dots> = xor_all (map (event_hash sha256) es)"
    using assms(3) by (intro xor_all_mset) (simp only: mset_map)
  finally show ?thesis
    using finalize_window_state [OF assms(1,2), of hex sha256 events] run_blocks_window_state [OF assms(1), of blocks] assms(2)
    by (simp add: window_state_def Let_def del: drop_append)
qed

theorem rolling_hash_window_witness:
  "let sha256 = (\<lambda>bs. replicate 32 (last bs)); hex = map (\<lambda>b. char_of (unat b)) in
   fst (finalize_block hex (foldl (apply_event sha256)
      (foldl (run_block sha256 hex) (RollingUtxoHash_new 1) [[Added 1, Added 2]]) [Removed 1, Added 3]))
    = hex (xor_all (map (event_hash sha256) [Added 3, Removed 1]))"
  unfolding Let_def by (rule rolling_hash_window) simp_all

end
