(* ===== verification/Log2_Hist.thy ===== *)
theory Log2_Hist
  imports Bits
begin

text \<open>
  The logarithmic histogram of \<^verbatim>\<open>stats/src/histogram.rs\<close>. The counters are 64-bit
  words and the sum is a 128-bit word. The percentile takes its rank from a floating-point
  product; the model takes the rank and is exact from there on.
\<close>

type_synonym u128 = "128 word"

record Log2Hist =
  lh_zeros :: u64
  lh_buckets :: "u64 list"
  lh_sum :: u128
  lh_max :: u64

definition Log2Hist_default :: Log2Hist where
  "Log2Hist_default = \<lparr>lh_zeros = 0, lh_buckets = replicate 64 0, lh_sum = 0, lh_max = 0\<rparr>"

text \<open>\<open>ilog2\<close> of the standard library: the position of the highest set bit of a positive integer.\<close>

fun ilog2 :: "nat \<Rightarrow> nat" where
  "ilog2 n = (if n < 2 then 0 else Suc (ilog2 (n div 2)))"

declare ilog2.simps [simp del]

definition hist_record :: "Log2Hist \<Rightarrow> u64 \<Rightarrow> Log2Hist" where
  "hist_record h v =
     (let h = h\<lparr>lh_sum := lh_sum h + ucast v\<rparr>;
          h = (if v > lh_max h then h\<lparr>lh_max := v\<rparr> else h)
      in if v = 0 then h\<lparr>lh_zeros := lh_zeros h + 1\<rparr>
         else let k = 63 - leading_zeros v in h\<lparr>lh_buckets := (lh_buckets h)[k := lh_buckets h ! k + 1]\<rparr>)"

definition hist_count :: "Log2Hist \<Rightarrow> u64" where
  "hist_count h = lh_zeros h + sum_list (lh_buckets h)"

definition saturating_mul :: "u64 \<Rightarrow> u64 \<Rightarrow> u64" where
  "saturating_mul a b = (if unat a * unat b < 2 ^ 64 then a * b else - 1)"

text \<open>The scan of the buckets for the rank \<open>target\<close>, from bucket \<open>k\<close> on.\<close>

fun percentile_scan :: "u64 \<Rightarrow> u64 \<Rightarrow> nat \<Rightarrow> u64 list \<Rightarrow> u64 option" where
  "percentile_scan target acc k [] = None"
| "percentile_scan target acc k (c # cs) =
     (let acc = acc + c in
      if acc \<ge> target then Some (saturating_sub (saturating_mul (push_bit k 1) 2) 1)
      else percentile_scan target acc (Suc k) cs)"

definition hist_percentile :: "Log2Hist \<Rightarrow> u64 \<Rightarrow> u64" where
  "hist_percentile h target =
     (if hist_count h = 0 then 0
      else let acc = lh_zeros h in
      if acc \<ge> target then 0
      else case percentile_scan target acc 0 (lh_buckets h) of Some v \<Rightarrow> v | None \<Rightarrow> lh_max h)"

definition hist_merge :: "Log2Hist \<Rightarrow> Log2Hist \<Rightarrow> Log2Hist" where
  "hist_merge self other =
     self\<lparr>lh_zeros := lh_zeros self + lh_zeros other,
       lh_buckets := map (\<lambda>i. lh_buckets self ! i + lh_buckets other ! i) [0..<64],
       lh_sum := lh_sum self + lh_sum other,
       lh_max := (if lh_max other > lh_max self then lh_max other else lh_max self)\<rparr>"

section \<open>What a histogram of a list of values holds\<close>

lemma ilog2_unique: "2 ^ k \<le> n \<Longrightarrow> n < 2 ^ Suc k \<Longrightarrow> ilog2 n = k"
proof (induction k arbitrary: n)
  case (Suc k)
  then have "ilog2 (n div 2) = k" and "2 \<le> n"
    by (auto simp: div_less_iff_less_mult less_eq_div_iff_mult_less_eq mult.commute
        intro!: Suc.IH order.trans [OF _ Suc.prems(1)])
  then show ?case by (simp add: ilog2.simps [of n])
qed (simp add: ilog2.simps)

lemma ilog2_bounds: "0 < n \<Longrightarrow> 2 ^ ilog2 n \<le> n \<and> n < 2 ^ Suc (ilog2 n)"
proof (induction n rule: less_induct)
  case (less n)
  show ?case
  proof (cases "n < 2")
    case False
    then have "2 ^ ilog2 (n div 2) \<le> n div 2 \<and> n div 2 < 2 ^ Suc (ilog2 (n div 2))"
      by (intro less.IH) auto
    with False show ?thesis
      by (simp add: ilog2.simps [of n] div_less_iff_less_mult less_eq_div_iff_mult_less_eq mult.commute)
  qed (use less.prems in \<open>simp add: ilog2.simps [of n]\<close>)
qed

lemma ilog2_iff: "0 < n \<Longrightarrow> ilog2 n = k \<longleftrightarrow> 2 ^ k \<le> n \<and> n < 2 ^ Suc k"
  using ilog2_bounds [of n] ilog2_unique [of k n] by metis

lemma ilog2_u64: "ilog2 (unat (v :: u64)) < 64"
proof (cases "v = 0")
  case False
  then have "2 ^ ilog2 (unat v) \<le> unat v" using ilog2_bounds by (simp add: unat_gt_0)
  also have "\<dots> < 2 ^ 64" using unsigned_less [of v] by simp
  finally show ?thesis by (rule power_less_imp_less_exp [rotated]) simp
qed (simp add: ilog2.simps)

lemma ilog2_leading_zeros:
  fixes v :: u64
  assumes "v \<noteq> 0"
  shows "63 - leading_zeros v = ilog2 (unat v)"
proof -
  let ?n = "bit_len (unat v)"
  have "0 < unat v" using assms by (simp add: unat_gt_0)
  then have n: "0 < ?n" "2 ^ (?n - 1) \<le> unat v" "unat v < 2 ^ Suc (?n - 1)"
    using bit_len_pos [of "unat v"] bit_len_lower [of "unat v"] bit_len_upper [of "unat v"] by simp_all
  have "63 - leading_zeros v = ?n - 1"
    using n(1) bit_len_word [of v] by (simp add: leading_zeros_def)
  also have "\<dots> = ilog2 (unat v)" using n ilog2_unique by metis
  finally show ?thesis .
qed

text \<open>\<open>hist_of vs\<close> is the histogram the values \<open>vs\<close> give, stated without the accumulation.\<close>

definition in_bucket :: "nat \<Rightarrow> u64 \<Rightarrow> bool" where
  "in_bucket k v \<longleftrightarrow> 2 ^ k \<le> unat v \<and> unat v < 2 ^ Suc k"

definition hist_of :: "u64 list \<Rightarrow> Log2Hist" where
  "hist_of vs =
     \<lparr>lh_zeros = word_of_nat (length (filter (\<lambda>v. v = 0) vs)),
      lh_buckets = map (\<lambda>k. word_of_nat (length (filter (in_bucket k) vs))) [0..<64],
      lh_sum = word_of_nat (sum_list (map unat vs)),
      lh_max = word_of_nat (Max (insert 0 (unat ` set vs)))\<rparr>"

lemma unat_hist_max: "unat (lh_max (hist_of vs)) = Max (insert 0 (unat ` set vs))"
proof -
  have "Max (insert 0 (unat ` set vs)) \<in> insert 0 (unat ` set vs)" by (rule Max_in) auto
  then have "Max (insert 0 (unat ` set vs)) < 2 ^ LENGTH(64)" using unat_bounds(4) by auto
  then show ?thesis by (simp add: hist_of_def unat_word_of_nat_small del: Max_insert)
qed

lemma hist_record_of: "hist_record (hist_of vs) v = hist_of (vs @ [v])"
proof -
  have mx: "lh_max (hist_of (vs @ [v])) = (if v > lh_max (hist_of vs) then v else lh_max (hist_of vs))"
  proof -
    have "Max (insert 0 (unat ` set (vs @ [v]))) = max (unat v) (Max (insert 0 (unat ` set vs)))"
    proof -
      have "insert 0 (unat ` set (vs @ [v])) = insert (unat v) (insert 0 (unat ` set vs))" by auto
      then show ?thesis by (simp only:) (rule Max_insert; simp)
    qed
    then have "unat (lh_max (hist_of (vs @ [v]))) = max (unat v) (unat (lh_max (hist_of vs)))"
      by (simp only: unat_hist_max)
    then show ?thesis by (auto simp: word_less_nat_alt word_unat_eq_iff)
  qed
  have sm: "lh_sum (hist_of (vs @ [v])) = lh_sum (hist_of vs) + ucast v"
    by (simp add: hist_of_def)
  have zs: "lh_zeros (hist_of (vs @ [v])) = lh_zeros (hist_of vs) + (if v = 0 then 1 else 0)"
    by (simp add: hist_of_def)
  have bs: "lh_buckets (hist_of (vs @ [v])) = (if v = 0 then lh_buckets (hist_of vs)
      else (lh_buckets (hist_of vs))[ilog2 (unat v) := lh_buckets (hist_of vs) ! ilog2 (unat v) + 1])"
  proof (rule nth_equalityI)
    fix k assume "k < length (lh_buckets (hist_of (vs @ [v])))"
    then have "k < 64" by (simp add: hist_of_def)
    moreover have "in_bucket k v \<longleftrightarrow> v \<noteq> 0 \<and> ilog2 (unat v) = k"
      using ilog2_iff [of "unat v" k] by (cases "v = 0") (auto simp: in_bucket_def unat_gt_0)
    ultimately show "lh_buckets (hist_of (vs @ [v])) ! k = (if v = 0 then lh_buckets (hist_of vs)
        else (lh_buckets (hist_of vs))[ilog2 (unat v) := lh_buckets (hist_of vs) ! ilog2 (unat v) + 1]) ! k"
      by (simp add: hist_of_def nth_list_update)
  qed (simp add: hist_of_def)
  show ?thesis
    by (rule Log2Hist.equality) (simp_all add: hist_record_def Let_def mx sm zs bs ilog2_leading_zeros)
qed

lemma hist_of_Nil: "hist_of [] = Log2Hist_default"
  by (simp add: hist_of_def Log2Hist_default_def map_replicate_const)


text \<open>
  Recording values one by one gives the histogram of the list: the zeros, for every bucket
  the number of values between its powers of two, the sum and the maximum; and merging the histograms of two
  lists gives that of their concatenation.
\<close>

theorem histogram_exact:
  "foldl hist_record Log2Hist_default vs = hist_of vs
   \<and> hist_merge (hist_of vs) (hist_of ws) = hist_of (vs @ ws)"
proof
  show "foldl hist_record Log2Hist_default vs = hist_of vs"
    by (induction vs rule: rev_induct) (simp_all add: hist_of_Nil hist_record_of)
  have mx: "(if lh_max (hist_of ws) > lh_max (hist_of vs) then lh_max (hist_of ws) else lh_max (hist_of vs))
      = lh_max (hist_of (vs @ ws))"
  proof -
    have "insert 0 (unat ` set (vs @ ws)) = insert 0 (unat ` set vs) \<union> insert 0 (unat ` set ws)" by auto
    then have "Max (insert 0 (unat ` set (vs @ ws))) = max (Max (insert 0 (unat ` set vs))) (Max (insert 0 (unat ` set ws)))"
      by (simp only:) (rule Max_Un; simp)
    then have "unat (lh_max (hist_of (vs @ ws))) = max (unat (lh_max (hist_of vs))) (unat (lh_max (hist_of ws)))"
      by (simp only: unat_hist_max)
    then show ?thesis by (auto simp: word_less_nat_alt word_unat_eq_iff)
  qed
  show "hist_merge (hist_of vs) (hist_of ws) = hist_of (vs @ ws)"
    by (rule Log2Hist.equality) (simp_all add: hist_merge_def mx, simp_all add: hist_of_def)
qed

section \<open>Percentiles\<close>

text \<open>\<open>below k vs\<close> counts the values below \<open>2 ^ k\<close>.\<close>

definition below :: "nat \<Rightarrow> u64 list \<Rightarrow> nat" where
  "below k vs = length (filter (\<lambda>v. unat v < 2 ^ k) vs)"

lemma below_Suc: "below (Suc k) vs = below k vs + length (filter (in_bucket k) vs)"
proof (induction vs)
  case (Cons v vs)
  have "unat v < 2 ^ k \<Longrightarrow> unat v < 2 ^ Suc k" by simp
  with Cons show ?case by (auto simp: below_def in_bucket_def not_less simp del: power_Suc)
qed (simp add: below_def)

lemma below_0: "below 0 vs = length (filter (\<lambda>v. v = 0) vs)"
  by (simp add: below_def unat_eq_0)

lemma below_le: "below k vs \<le> length vs"
  by (simp add: below_def)

lemma below_64: "below 64 vs = length vs"
  using unat_bounds(4) by (simp add: below_def filter_id_conv [THEN iffD2])

lemma sorted_rank:
  fixes xs :: "u64 list"
  assumes "sorted xs" and "i < length xs"
  shows "unat (xs ! i) < b \<longleftrightarrow> i < length (filter (\<lambda>x. unat x < b) xs)"
  using assms
proof (induction xs arbitrary: i)
  case (Cons x xs)
  show ?case
  proof (cases "unat x < b")
    case True
    with Cons show ?thesis by (cases i) auto
  next
    case False
    have "unat x \<le> unat y" if "y \<in> set xs" for y
      using Cons.prems(1) that by (auto simp: word_le_nat_alt)
    with False have none: "filter (\<lambda>x. unat x < b) (x # xs) = []"
      by (auto simp: filter_empty_conv) (meson le_less_trans)
    moreover have "\<not> unat ((x # xs) ! i) < b"
      using none Cons.prems(2) by (metis filter_empty_conv nth_mem)
    ultimately show ?thesis by simp
  qed
qed simp

lemma rank_below:
  assumes "i < length vs"
  shows "unat (sort vs ! i) < 2 ^ k \<longleftrightarrow> i < below k vs"
proof -
  have "length (filter (\<lambda>v. unat v < 2 ^ k) (sort vs)) = below k vs"
    by (simp add: below_def filter_sort)
  then show ?thesis using sorted_rank [of "sort vs" i "2 ^ k"] assms by simp
qed

lemma percentile_scan_bucket:
  assumes "length vs < 2 ^ 64" and "k \<le> j" and "j < 64"
    and "\<not> unat target \<le> below j vs" and "unat target \<le> below (Suc j) vs"
  shows "percentile_scan target (word_of_nat (below k vs)) k
      (map (\<lambda>i. word_of_nat (length (filter (in_bucket i) vs))) [k..<64])
    = Some (saturating_sub (saturating_mul (push_bit j 1) 2) 1)"
  using assms(2)
proof (induction "j - k" arbitrary: k)
  have le: "word_of_nat (below i vs) \<ge> target \<longleftrightarrow> unat target \<le> below i vs" for i
    using unat_word_of_nat_small [where 'a = 64, of "below i vs"] below_le [of i vs] assms(1)
    by (simp add: word_le_nat_alt)
  have step: "word_of_nat (below i vs) + word_of_nat (length (filter (in_bucket i) vs)) = (word_of_nat (below (Suc i) vs) :: u64)" for i
    by (simp add: below_Suc)
  {
    case 0
    then have "k = j" by simp
    then show ?case
      using assms(3,5) by (simp add: upt_conv_Cons step le Let_def)
  next
    case (Suc d)
    then have "Suc k \<le> j" by simp
    have "below (Suc k) vs \<le> below j vs"
      using \<open>Suc k \<le> j\<close> by (induction rule: dec_induct) (auto simp: below_Suc intro: order.trans)
    then have "\<not> unat target \<le> below (Suc k) vs" using assms(4) by linarith
    then show ?case
      using Suc.hyps(1) [of "Suc k"] Suc.hyps(2) \<open>Suc k \<le> j\<close> assms(3)
      by (simp add: upt_conv_Cons step le Let_def)
  }
qed


lemma bucket_upper_bound:
  assumes "j < 64"
  shows "unat (saturating_sub (saturating_mul (push_bit j 1) 2) 1) = (if j = 63 then 2 ^ 64 - 2 else 2 ^ Suc j - 1)"
proof -
  have lo: "unat (push_bit j 1 :: u64) = 2 ^ j"
  proof -
    have "(2 :: nat) ^ j < 2 ^ LENGTH(64)" using assms by (intro power_strict_increasing) simp_all
    then have "unat (word_of_nat (2 ^ j) :: u64) = 2 ^ j" by (rule unat_word_of_nat_small)
    then show ?thesis by (simp add: push_bit_eq_mult)
  qed
  show ?thesis
  proof (cases "j = 63")
    case True
    then have "saturating_mul (push_bit j 1) 2 = - 1" using lo by (simp add: saturating_mul_def)
    then show ?thesis
      by (simp add: True unat_saturating_sub unsigned_minus_1_eq_mask mask_eq_exp_minus_1)
  next
    case False
    then have "(2 :: nat) ^ Suc j < 2 ^ 64" using assms by (intro power_strict_increasing) simp_all
    then have "unat (saturating_mul (push_bit j 1) 2) = 2 ^ Suc j"
      using lo by (simp add: saturating_mul_def unat_word_ariths mult.commute)
    then show ?thesis by (simp add: False unat_saturating_sub)
  qed
qed

lemma hist_count_of: "length vs < 2 ^ 64 \<Longrightarrow> unat (hist_count (hist_of vs)) = length vs"
proof -
  assume n: "length vs < 2 ^ 64"
  have "lh_zeros (hist_of vs) + sum_list (map (\<lambda>k. word_of_nat (length (filter (in_bucket k) vs))) [0..<m])
      = (word_of_nat (below m vs) :: u64)" for m
    by (induction m) (simp_all add: below_0 below_Suc hist_of_def add.assoc [symmetric])
  from this [of 64] have "hist_count (hist_of vs) = word_of_nat (length vs)"
    by (simp add: hist_count_def hist_of_def below_64)
  then show ?thesis using n by (simp add: unat_word_of_nat_small)
qed

text \<open>
  C40: The percentile of a histogram at rank \<open>r\<close> is zero when the value of that rank in sorted
  order is zero; it is at least that value and less than twice it when the value is below \<open>2 ^ 63\<close>; for values of
  the top bucket it is \<open>2 ^ 64 - 2\<close>, because the doubled lower bound saturates before one is
  subtracted, so it falls short of the largest value.
\<close>

theorem percentile_bounds:
  assumes n: "length vs < 2 ^ 64" and r: "0 < unat target" "unat target \<le> length vs"
  defines "v \<equiv> sort vs ! (unat target - 1)"
    and "p \<equiv> hist_percentile (foldl hist_record Log2Hist_default vs) target"
  shows "if v = 0 then p = 0
    else if unat v < 2 ^ 63 then unat v \<le> unat p \<and> unat p < 2 * unat v
    else unat p = 2 ^ 64 - 2"
proof -
  have p: "p = hist_percentile (hist_of vs) target"
    unfolding p_def using histogram_exact [of vs "[]"] by simp
  have i: "unat target - 1 < length vs" using r by linarith
  have rank: "unat v < 2 ^ k \<longleftrightarrow> unat target \<le> below k vs" for k
    unfolding v_def rank_below [OF i] using r by linarith
  have cnt: "hist_count (hist_of vs) \<noteq> 0"
    using hist_count_of [OF n] r by auto
  have zeros: "lh_zeros (hist_of vs) = word_of_nat (below 0 vs)"
    by (simp add: hist_of_def below_0)
  have buckets: "lh_buckets (hist_of vs) = map (\<lambda>k. word_of_nat (length (filter (in_bucket k) vs))) [0..<64]"
    by (simp add: hist_of_def)
  have le0: "word_of_nat (below 0 vs) \<ge> target \<longleftrightarrow> unat target \<le> below 0 vs"
    using unat_word_of_nat_small [where 'a = 64, of "below 0 vs"] below_le [of 0 vs] n
    by (simp add: word_le_nat_alt)
  show ?thesis
  proof (cases "v = 0")
    case True
    then have "p = 0" unfolding p using rank [of 0] cnt by (simp add: hist_percentile_def zeros le0)
    with True show ?thesis by simp
  next
    case False
    let ?j = "ilog2 (unat v)"
    have b: "2 ^ ?j \<le> unat v" "unat v < 2 ^ Suc ?j"
      using ilog2_bounds [of "unat v"] False by (simp_all add: unat_gt_0)
    have "\<not> unat target \<le> below ?j vs" "unat target \<le> below (Suc ?j) vs" "\<not> unat target \<le> below 0 vs"
      using b rank [of ?j] rank [of "Suc ?j"] rank [of 0] False by (auto simp: unat_gt_0)
    then have "p = saturating_sub (saturating_mul (push_bit ?j 1) 2) 1"
      unfolding p using percentile_scan_bucket [OF n _ ilog2_u64, of 0 v target] cnt
      by (simp add: hist_percentile_def zeros le0 buckets)
    then have up: "unat p = (if ?j = 63 then 2 ^ 64 - 2 else 2 ^ Suc ?j - 1)"
      using bucket_upper_bound [OF ilog2_u64] by simp
    have "?j = 63 \<longleftrightarrow> \<not> unat v < 2 ^ 63"
      using ilog2_iff [of "unat v" 63] False unat_bounds(4) [of v] by (auto simp: unat_gt_0)
    with up b False show ?thesis by auto
  qed
qed

theorem percentile_bounds_witness:
  "3 \<le> unat (hist_percentile (foldl hist_record Log2Hist_default [3, 0, 9]) 2)"
proof -
  have "sort [3, 0, 9 :: u64] = [0, 3, 9]" by simp
  then have "sort [3, 0, 9 :: u64] ! (unat (2 :: u64) - 1) = 3" by simp
  with percentile_bounds [of "[3, 0, 9]" 2] show ?thesis by simp
qed

end
