(* ===== verification/Codec_Cost.thy ===== *)
theory Codec_Cost
  imports Log2_Hist Elias_Delta Leb128
begin

text \<open>
  The codec cost model of \<^verbatim>\<open>stats/src/block.rs\<close>: the price of a value under LEB128,
  Elias delta, Rice and escaped Rice codes, the accumulated estimates, the best parameters, and the measurement
  of a block's sorted spent UIDs. The prices are tied to the encoders of the light server.
  Sizes are 64-bit words, accumulated bits 128-bit words, as in the code.
\<close>

section \<open>Prices\<close>

function leb128_len_loop :: "u64 \<Rightarrow> u64 \<Rightarrow> u64" where
  "leb128_len_loop v n = (if v \<ge> 0x80 then leb128_len_loop (drop_bit 7 v) (n + 1) else n)"
  by pat_completeness auto
termination
proof (relation "measure (\<lambda>(v, n). unat v)", simp)
  fix v n :: u64
  assume "v \<ge> 0x80"
  then have "unat v div 128 \<noteq> 0" by (simp add: word_le_nat_alt div_eq_0_iff)
  then have "drop_bit 7 v \<noteq> 0" by (metis unat_0 unat_drop_7)
  then show "((drop_bit 7 v, n + 1), v, n) \<in> measure (\<lambda>(v, n). unat v)" by (simp add: unat_drop_7_less)
qed

declare leb128_len_loop.simps [simp del]

definition leb128_len_u64 :: "u64 \<Rightarrow> u64" where
  "leb128_len_u64 v = leb128_len_loop v 1"

definition rice_bits :: "u64 \<Rightarrow> nat \<Rightarrow> u64" where
  "rice_bits v k = drop_bit k v + 1 + word_of_nat k"

definition elias_delta_bits :: "u64 \<Rightarrow> u64" where
  "elias_delta_bits v =
     (let len = 64 - word_of_nat (leading_zeros v) :: u64;
          len_len = 64 - word_of_nat (leading_zeros len) :: u64
      in len + 2 * len_len - 1)"

definition elias_fano_bits :: "u64 \<Rightarrow> u64 \<Rightarrow> u128" where
  "elias_fano_bits universe n =
     (if n = 0 then 0
      else
        let lower_bits = (if universe \<le> n then 0 else ilog2 (unat (universe div n)));
            lower = ucast n * word_of_nat lower_bits;
            upper = ucast n + ucast (drop_bit lower_bits universe) + 1
        in lower + upper)"

definition ESCAPED_RICE_THRESHOLDS :: "u64 list" where
  "ESCAPED_RICE_THRESHOLDS = [128, 2048, 16384, 65536]"

definition RICE_K_COUNT :: nat where "RICE_K_COUNT = 33"

definition ESCAPED_RICE_K_COUNT :: nat where "ESCAPED_RICE_K_COUNT = 17"

definition PER_BLOCK_RICE_K_OVERHEAD_BITS :: u128 where "PER_BLOCK_RICE_K_OVERHEAD_BITS = 5"

record CodecValueCosts =
  cc_leb128_bytes :: u128
  cc_elias_delta_bits :: u128
  cc_rice_bits_by_k :: "u128 list"
  cc_escaped_rice_bits :: "u128 list list"

definition CodecValueCosts_new :: "u64 \<Rightarrow> bool \<Rightarrow> CodecValueCosts" where
  "CodecValueCosts_new v zeroable =
     (let leb128_bytes = ucast (leb128_len_u64 v);
          elias_value = (if zeroable then saturating_add v 1 else v)
      in \<lparr>cc_leb128_bytes = leb128_bytes,
          cc_elias_delta_bits = ucast (elias_delta_bits elias_value),
          cc_rice_bits_by_k = map (\<lambda>k. ucast (rice_bits v k)) [0..<RICE_K_COUNT],
          cc_escaped_rice_bits = map (\<lambda>threshold. map (\<lambda>k.
            if v < threshold then 1 + ucast (rice_bits v k) else 1 + 8 * leb128_bytes)
            [0..<ESCAPED_RICE_K_COUNT]) ESCAPED_RICE_THRESHOLDS\<rparr>)"

section \<open>Estimates\<close>

record CodecEstimate =
  ce_values :: u64
  ce_leb128_bytes :: u128
  ce_elias_delta_bits :: u128
  ce_rice_bits_by_k :: "u128 list"
  ce_escaped_rice_bits :: "u128 list list"
  ce_hist :: Log2Hist

definition CodecEstimate_default :: CodecEstimate where
  "CodecEstimate_default =
     \<lparr>ce_values = 0, ce_leb128_bytes = 0, ce_elias_delta_bits = 0, ce_rice_bits_by_k = replicate RICE_K_COUNT 0,
      ce_escaped_rice_bits = replicate (length ESCAPED_RICE_THRESHOLDS) (replicate ESCAPED_RICE_K_COUNT 0),
      ce_hist = Log2Hist_default\<rparr>"

definition add_costs_no_hist :: "CodecEstimate \<Rightarrow> CodecValueCosts \<Rightarrow> CodecEstimate" where
  "add_costs_no_hist e costs =
     e\<lparr>ce_values := ce_values e + 1,
       ce_leb128_bytes := ce_leb128_bytes e + cc_leb128_bytes costs,
       ce_elias_delta_bits := ce_elias_delta_bits e + cc_elias_delta_bits costs,
       ce_rice_bits_by_k := map2 (+) (ce_rice_bits_by_k e) (cc_rice_bits_by_k costs),
       ce_escaped_rice_bits := map2 (map2 (+)) (ce_escaped_rice_bits e) (cc_escaped_rice_bits costs)\<rparr>"

definition add_costs :: "CodecEstimate \<Rightarrow> u64 \<Rightarrow> CodecValueCosts \<Rightarrow> CodecEstimate" where
  "add_costs e v costs = (let e = add_costs_no_hist e costs in e\<lparr>ce_hist := hist_record (ce_hist e) v\<rparr>)"

definition add_zeroable :: "CodecEstimate \<Rightarrow> u64 \<Rightarrow> CodecEstimate" where
  "add_zeroable e v = add_costs e v (CodecValueCosts_new v True)"

definition add_nonzero :: "CodecEstimate \<Rightarrow> u64 \<Rightarrow> CodecEstimate" where
  "add_nonzero e v = add_costs e v (CodecValueCosts_new v False)"

definition estimate_merge :: "CodecEstimate \<Rightarrow> CodecEstimate \<Rightarrow> CodecEstimate" where
  "estimate_merge self other =
     self\<lparr>ce_values := ce_values self + ce_values other,
       ce_leb128_bytes := ce_leb128_bytes self + ce_leb128_bytes other,
       ce_elias_delta_bits := ce_elias_delta_bits self + ce_elias_delta_bits other,
       ce_rice_bits_by_k := map2 (+) (ce_rice_bits_by_k self) (ce_rice_bits_by_k other),
       ce_escaped_rice_bits := map2 (map2 (+)) (ce_escaped_rice_bits self) (ce_escaped_rice_bits other),
       ce_hist := hist_merge (ce_hist self) (ce_hist other)\<rparr>"

record RiceChoice =
  rc_k :: nat
  rc_bits :: u128

record EscapedRiceChoice =
  er_threshold :: u64
  er_k :: nat
  er_bits :: u128

text \<open>The scan for the fewest bits, from parameter \<open>k\<close> on; the first of equal choices is kept.\<close>

fun best_rice_scan :: "RiceChoice \<Rightarrow> nat \<Rightarrow> u128 list \<Rightarrow> RiceChoice" where
  "best_rice_scan best k [] = best"
| "best_rice_scan best k (bits # rest) =
     best_rice_scan (if bits < rc_bits best then \<lparr>rc_k = k, rc_bits = bits\<rparr> else best) (Suc k) rest"

definition best_rice :: "CodecEstimate \<Rightarrow> RiceChoice" where
  "best_rice e =
     (let best = best_rice_scan \<lparr>rc_k = 0, rc_bits = - 1\<rparr> 0 (ce_rice_bits_by_k e)
      in if ce_values e = 0 then \<lparr>rc_k = 0, rc_bits = 0\<rparr> else best)"

fun best_escaped_row :: "u64 \<Rightarrow> EscapedRiceChoice \<Rightarrow> nat \<Rightarrow> u128 list \<Rightarrow> EscapedRiceChoice" where
  "best_escaped_row threshold best k [] = best"
| "best_escaped_row threshold best k (bits # rest) =
     best_escaped_row threshold
       (if bits < er_bits best then \<lparr>er_threshold = threshold, er_k = k, er_bits = bits\<rparr> else best) (Suc k) rest"

definition best_escaped_rice :: "CodecEstimate \<Rightarrow> EscapedRiceChoice" where
  "best_escaped_rice e =
     (if ce_values e = 0 then \<lparr>er_threshold = 0, er_k = 0, er_bits = 0\<rparr>
      else foldl (\<lambda>best (threshold, row). best_escaped_row threshold best 0 row)
        \<lparr>er_threshold = 0, er_k = 0, er_bits = - 1\<rparr> (zip ESCAPED_RICE_THRESHOLDS (ce_escaped_rice_bits e)))"

section \<open>Sorted UID streams\<close>

record SortedUidCodecStats =
  su_blocks_with_spends :: u64
  su_ef_bits_with_64bit_base :: u128
  su_delta_per_block_rice_best_bits_with_k_overhead :: u128
  su_combined_per_block_rice_best_bits_with_k_overhead :: u128
  su_first_offsets :: CodecEstimate
  su_deltas :: CodecEstimate
  su_combined :: CodecEstimate

definition SortedUidCodecStats_default :: SortedUidCodecStats where
  "SortedUidCodecStats_default =
     \<lparr>su_blocks_with_spends = 0, su_ef_bits_with_64bit_base = 0,
      su_delta_per_block_rice_best_bits_with_k_overhead = 0, su_combined_per_block_rice_best_bits_with_k_overhead = 0,
      su_first_offsets = CodecEstimate_default, su_deltas = CodecEstimate_default, su_combined = CodecEstimate_default\<rparr>"

record SortedUidBlockEstimate =
  be_values :: u64
  be_leb128_bytes :: u128
  be_rice_best_k :: nat
  be_rice_best_bits :: u128
  be_elias_delta_bits :: u128
  be_ef_bits_with_64bit_base :: u128

definition SortedUidBlockEstimate_default :: SortedUidBlockEstimate where
  "SortedUidBlockEstimate_default =
     \<lparr>be_values = 0, be_leb128_bytes = 0, be_rice_best_k = 0, be_rice_best_bits = 0, be_elias_delta_bits = 0,
      be_ef_bits_with_64bit_base = 0\<rparr>"

text \<open>The check of neighbours: two equal ones are a panic.\<close>

fun adjacent_distinct :: "u64 list \<Rightarrow> bool" where
  "adjacent_distinct (a # b # rest) = (a \<noteq> b \<and> adjacent_distinct (b # rest))"
| "adjacent_distinct _ = True"

text \<open>The loop over the UIDs after the first, over the two estimates of the block and the run's statistics.\<close>

fun measure_deltas :: "u64 \<Rightarrow> u64 list \<Rightarrow> CodecEstimate \<Rightarrow> CodecEstimate \<Rightarrow> SortedUidCodecStats
    \<Rightarrow> CodecEstimate \<times> CodecEstimate \<times> SortedUidCodecStats" where
  "measure_deltas prev [] block_combined block_deltas stats = (block_combined, block_deltas, stats)"
| "measure_deltas prev (uid # uids) block_combined block_deltas stats =
     (let delta = uid - prev;
          delta_costs = CodecValueCosts_new delta False
      in measure_deltas uid uids (add_costs_no_hist block_combined delta_costs) (add_costs_no_hist block_deltas delta_costs)
           (stats\<lparr>su_deltas := add_costs (su_deltas stats) delta delta_costs,
                  su_combined := add_costs (su_combined stats) delta delta_costs\<rparr>))"

text \<open>
  The measurement of a block's UIDs. The vector is sorted in place, so it is part of the
  result; the two panics are errors.
\<close>

definition measure_sorted_uid_stream :: "u64 list \<Rightarrow> u64 \<Rightarrow> SortedUidCodecStats
    \<Rightarrow> (SortedUidBlockEstimate \<times> u64 list \<times> SortedUidCodecStats) result" where
  "measure_sorted_uid_stream uids block_anchor_last_uid stats =
     (if uids = [] then Inr (SortedUidBlockEstimate_default, uids, stats)
      else
        let uids = sort uids in
        and_then (ensure (adjacent_distinct uids) ''duplicate spent UID in same sorted UID stream'') (\<lambda>_.
        let stats = stats\<lparr>su_blocks_with_spends := su_blocks_with_spends stats + 1\<rparr>;
            first_uid = uids ! 0 in
        and_then (ok_or (checked_sub block_anchor_last_uid first_uid) ''spent UID exceeds block_anchor_last_uid'') (\<lambda>first_offset.
        let first_offset_costs = CodecValueCosts_new first_offset True;
            block_combined = add_costs_no_hist CodecEstimate_default first_offset_costs;
            stats = stats\<lparr>su_first_offsets := add_costs (su_first_offsets stats) first_offset first_offset_costs,
                          su_combined := add_costs (su_combined stats) first_offset first_offset_costs\<rparr>;
            (block_combined, block_deltas, stats) =
              measure_deltas first_uid (drop 1 uids) block_combined CodecEstimate_default stats;
            stats = (if ce_values block_deltas > 0
              then stats\<lparr>su_delta_per_block_rice_best_bits_with_k_overhead :=
                     su_delta_per_block_rice_best_bits_with_k_overhead stats
                     + (rc_bits (best_rice block_deltas) + PER_BLOCK_RICE_K_OVERHEAD_BITS)\<rparr>
              else stats);
            stats = stats\<lparr>su_combined_per_block_rice_best_bits_with_k_overhead :=
              su_combined_per_block_rice_best_bits_with_k_overhead stats
              + (rc_bits (best_rice block_combined) + PER_BLOCK_RICE_K_OVERHEAD_BITS)\<rparr>;
            n = word_of_nat (length uids);
            max_uid = last uids;
            universe = max_uid - first_uid + 1;
            ef_bits_with_64bit_base = 64 + elias_fano_bits universe n;
            stats = stats\<lparr>su_ef_bits_with_64bit_base := su_ef_bits_with_64bit_base stats + ef_bits_with_64bit_base\<rparr>;
            best = best_rice block_combined
        in Inr (\<lparr>be_values = ce_values block_combined,
                 be_leb128_bytes = ce_leb128_bytes block_combined,
                 be_rice_best_k = rc_k best,
                 be_rice_best_bits = rc_bits best,
                 be_elias_delta_bits = ce_elias_delta_bits block_combined,
                 be_ef_bits_with_64bit_base = ef_bits_with_64bit_base\<rparr>, uids, stats))))"

section \<open>The prices are the lengths the encoders produce\<close>

lemma leb128_len_loop_encode: "leb128_len_loop v n = n + word_of_nat (length (leb128_encode_one v [])) - 1"
proof (induction v n rule: leb128_len_loop.induct)
  case (1 v n)
  have small: "drop_bit 7 v = 0 \<longleftrightarrow> \<not> v \<ge> 0x80"
    by (simp add: word_unat_eq_iff unat_drop_7 div_eq_0_iff word_le_nat_alt not_le)
  show ?case
  proof (cases "v \<ge> 0x80")
    case True
    then have "leb128_len_loop v n = (n + 1) + word_of_nat (length (leb128_encode_one (drop_bit 7 v) [])) - 1"
      using 1 by (simp add: leb128_len_loop.simps [of v])
    with True small show ?thesis by (simp add: encode_one_Nil [of v])
  next
    case False
    with small show ?thesis by (simp add: encode_one_Nil [of v] leb128_len_loop.simps [of v])
  qed
qed

lemma leb128_len_encode: "leb128_len_u64 v = word_of_nat (length (encode_leb128_values [v]))"
  by (simp add: leb128_len_u64_def encode_leb128_values_def leb128_len_loop_encode)

lemma leb128_groups: "unat v < 128 ^ Suc k \<Longrightarrow> length (leb128_encode_one v []) \<le> Suc k"
proof (induction k arbitrary: v)
  case 0
  then show ?case by (subst encode_one_Nil) (simp add: word_unat_eq_iff unat_drop_7)
next
  case (Suc k)
  have "length (leb128_encode_one (drop_bit 7 v) []) \<le> Suc k"
    using Suc.prems by (intro Suc.IH) (simp add: unat_drop_7 div_less_iff_less_mult)
  then show ?case by (subst encode_one_Nil) simp
qed

lemma unat_leb128_len: "unat (leb128_len_u64 v) = length (encode_leb128_values [v])"
  using leb128_groups [of v 9] unat_bounds(4) [of v]
  by (simp add: leb128_len_encode encode_leb128_values_def unat_word_of_nat_small)

lemma elias_delta_bits_code:
  assumes "v \<noteq> 0"
  shows "elias_delta_bits v = word_of_nat (length (delta_code v)) + 1"
proof -
  define n where "n = bit_len (unat v)"
  note b = delta_length_bounds [OF assms n_def]
  have lz: "64 - word_of_nat (leading_zeros w) = (word_of_nat (bit_len (unat w)) :: u64)" for w :: u64
  proof -
    have "leading_zeros w + bit_len (unat w) = 64"
      using bit_len_word [of w] by (simp add: leading_zeros_def)
    then have "word_of_nat (leading_zeros w) + word_of_nat (bit_len (unat w)) = (64 :: u64)"
      by (metis of_nat_add of_nat_numeral)
    then show ?thesis by (metis add_diff_cancel_left')
  qed
  have "length (delta_code v) = (bit_len n - 1) + bit_len n + (n - 1)"
    by (simp add: delta_code_def Let_def n_def)
  then have "length (delta_code v) + 2 = n + 2 * bit_len n" using b by linarith
  then have "word_of_nat (length (delta_code v)) + 2 = (word_of_nat n + 2 * word_of_nat (bit_len n) :: u64)"
    by (metis of_nat_add of_nat_mult of_nat_numeral)
  moreover have "elias_delta_bits v = word_of_nat n + 2 * word_of_nat (bit_len n) - 1"
    using b by (simp add: elias_delta_bits_def lz flip: n_def)
  ultimately have "elias_delta_bits v = word_of_nat (length (delta_code v)) + 2 - 1" by simp
  then show ?thesis by simp
qed

text \<open>
  C39: The price model against the encoders of the light server: the LEB128 price of a value is the
  length of its encoding, and the Elias-delta price of a positive value is one bit more than
  the encoder writes, because it counts the leading bit that the code leaves out.
\<close>

theorem codec_prices:
  assumes "v \<noteq> 0" and "bw_invar w"
  shows "unat (leb128_len_u64 v) = length (encode_leb128_values [v])
    \<and> (\<exists>w'. elias_encode_one v w = Inr w' \<and> unat (elias_delta_bits v) = (bw_bit_len w' - bw_bit_len w) + 1)"
proof
  show "unat (leb128_len_u64 v) = length (encode_leb128_values [v])" by (rule unat_leb128_len)
  obtain w' where w': "elias_encode_one v w = Inr w'" "bw_invar w'" "bw_written w' = bw_written w @ delta_code v"
    using elias_encode_one_written [OF assms] by blast
  have len: "length (bw_written u) = bw_bit_len u" if "bw_invar u" for u
    using bw_invar_len [OF that] by (simp add: bw_written_def)
  then have "bw_bit_len w' = bw_bit_len w + length (delta_code v)"
    using w' assms(2) by (metis length_append)
  moreover have "unat (elias_delta_bits v) = length (delta_code v) + 1"
  proof -
    define n where "n = bit_len (unat v)"
    note b = delta_length_bounds [OF assms(1) n_def]
    have "length (delta_code v) \<le> 80"
      using b by (simp add: delta_code_def Let_def flip: n_def)
    then have "unat (word_of_nat (length (delta_code v) + 1) :: u64) = length (delta_code v) + 1"
      by (intro unat_word_of_nat_small) simp
    then show ?thesis by (simp add: elias_delta_bits_code [OF assms(1)] add.commute)
  qed
  ultimately show "\<exists>w'. elias_encode_one v w = Inr w' \<and> unat (elias_delta_bits v) = (bw_bit_len w' - bw_bit_len w) + 1"
    using w'(1) by simp
qed

theorem codec_prices_witness: "unat (leb128_len_u64 300) = 2 \<and> unat (elias_delta_bits 1) = 2"
proof
  have "unat (leb128_len_u64 300) = length (encode_leb128_values [300])"
    using codec_prices [of 300 bw_default] by simp
  also have "\<dots> = 2"
  proof -
    have "drop_bit 7 (300 :: u64) = 2" "drop_bit 7 (2 :: u64) = 0" by simp_all
    then show ?thesis
      using encode_one_Nil [of 300] encode_one_Nil [of 2] by (simp add: encode_leb128_values_def)
  qed
  finally show "unat (leb128_len_u64 300) = 2" .
  show "unat (elias_delta_bits 1) = 2"
  proof -
    have "bit_len (Suc 0) = 1" by (simp add: bit_len.simps [of "Suc 0"])
    then show ?thesis by (simp add: elias_delta_bits_def leading_zeros_def)
  qed
qed

end
