(* ===== verification/Uid_Stream.thy ===== *)
theory Uid_Stream
  imports Codec_Cost
begin

text \<open>
  What the codec cost model of \<^verbatim>\<open>Codec_Cost\<close> computes: an accumulated estimate is the sum of the
  prices of its values, the chosen Rice parameter is the cheapest, and the measurement of
  a block's spent UIDs prices the first offset and the differences of the sorted UIDs.
\<close>

section \<open>Estimates as sums of prices\<close>

text \<open>A priced value comes with the flag that zero is possible. \<open>estimate_of\<close> is the estimate of a list of them.\<close>

type_synonym priced = "u64 \<times> bool"

definition total_price :: "(priced \<Rightarrow> u128) \<Rightarrow> priced list \<Rightarrow> u128" where
  "total_price price ps = sum_list (map price ps)"

definition price_leb128 :: "priced \<Rightarrow> u128" where
  "price_leb128 p = ucast (leb128_len_u64 (fst p))"

definition price_elias :: "priced \<Rightarrow> u128" where
  "price_elias p = ucast (elias_delta_bits (if snd p then saturating_add (fst p) 1 else fst p))"

definition price_rice :: "nat \<Rightarrow> priced \<Rightarrow> u128" where
  "price_rice k p = ucast (rice_bits (fst p) k)"

definition price_escaped :: "u64 \<Rightarrow> nat \<Rightarrow> priced \<Rightarrow> u128" where
  "price_escaped threshold k p =
     (if fst p < threshold then 1 + price_rice k p else 1 + 8 * price_leb128 p)"

definition estimate_of :: "priced list \<Rightarrow> CodecEstimate" where
  "estimate_of ps =
     \<lparr>ce_values = word_of_nat (length ps),
      ce_leb128_bytes = total_price price_leb128 ps,
      ce_elias_delta_bits = total_price price_elias ps,
      ce_rice_bits_by_k = map (\<lambda>k. total_price (price_rice k) ps) [0..<RICE_K_COUNT],
      ce_escaped_rice_bits = map (\<lambda>threshold. map (\<lambda>k. total_price (price_escaped threshold k) ps) [0..<ESCAPED_RICE_K_COUNT])
        ESCAPED_RICE_THRESHOLDS,
      ce_hist = hist_of (map fst ps)\<rparr>"

lemma total_simps [simp]: "total_price f [] = 0" "total_price f (p # ps) = f p + total_price f ps" "total_price f (ps @ qs) = total_price f ps + total_price f qs"
  by (simp_all add: total_price_def)

lemma costs_prices:
  "CodecValueCosts_new v z =
     \<lparr>cc_leb128_bytes = price_leb128 (v, z), cc_elias_delta_bits = price_elias (v, z),
      cc_rice_bits_by_k = map (\<lambda>k. price_rice k (v, z)) [0..<RICE_K_COUNT],
      cc_escaped_rice_bits = map (\<lambda>threshold. map (\<lambda>k. price_escaped threshold k (v, z)) [0..<ESCAPED_RICE_K_COUNT])
        ESCAPED_RICE_THRESHOLDS\<rparr>"
  by (simp add: CodecValueCosts_new_def price_leb128_def price_elias_def price_rice_def price_escaped_def Let_def)

lemma estimate_of_Nil: "estimate_of [] = CodecEstimate_default"
  by (simp add: estimate_of_def CodecEstimate_default_def hist_of_Nil map_replicate_const)

text \<open>The estimates of a block leave the histogram out.\<close>

definition local_estimate :: "priced list \<Rightarrow> CodecEstimate" where
  "local_estimate ps = (estimate_of ps)\<lparr>ce_hist := Log2Hist_default\<rparr>"

lemma local_estimate_Nil: "local_estimate [] = CodecEstimate_default"
  by (simp add: local_estimate_def estimate_of_Nil CodecEstimate_default_def)

lemma add_local: "add_costs_no_hist (local_estimate ps) (CodecValueCosts_new v z) = local_estimate (ps @ [(v, z)])"
  by (simp add: add_costs_no_hist_def costs_prices local_estimate_def estimate_of_def map2_map_map)

lemma add_estimate: "add_costs (estimate_of ps) v (CodecValueCosts_new v z) = estimate_of (ps @ [(v, z)])"
  by (simp add: add_costs_def add_costs_no_hist_def costs_prices estimate_of_def map2_map_map hist_record_of)

lemma merge_estimates: "estimate_merge (estimate_of ps) (estimate_of qs) = estimate_of (ps @ qs)"
  using histogram_exact [of "map fst ps" "map fst qs"]
  by (simp add: estimate_merge_def estimate_of_def map2_map_map)

section \<open>The best Rice parameter\<close>

lemma best_rice_scan_cases:
  "let r = best_rice_scan best k xs in
     rc_bits r \<le> rc_bits best \<and> (\<forall>i < length xs. rc_bits r \<le> xs ! i)
     \<and> (r = best \<or> rc_bits r < rc_bits best
          \<and> (\<exists>i < length xs. rc_k r = k + i \<and> rc_bits r = xs ! i \<and> (\<forall>j < i. rc_bits r < xs ! j)))"
proof (induction xs arbitrary: best k)
  case (Cons x xs)
  define b where "b = (if x < rc_bits best then \<lparr>rc_k = k, rc_bits = x\<rparr> else best)"
  define r where "r = best_rice_scan b (Suc k) xs"
  have IH: "rc_bits r \<le> rc_bits b" "\<forall>i < length xs. rc_bits r \<le> xs ! i"
    "r = b \<or> rc_bits r < rc_bits b
      \<and> (\<exists>i < length xs. rc_k r = Suc k + i \<and> rc_bits r = xs ! i \<and> (\<forall>j < i. rc_bits r < xs ! j))"
    using Cons.IH [of b "Suc k"] unfolding Let_def r_def by blast+
  have b: "rc_bits b \<le> rc_bits best" "rc_bits b \<le> x" by (auto simp: b_def)
  have le: "\<forall>i < length (x # xs). rc_bits r \<le> (x # xs) ! i"
    using IH(1,2) b(2) by (auto simp: less_Suc_eq_0_disj)
  have "r = best \<or> rc_bits r < rc_bits best
      \<and> (\<exists>i < length (x # xs). rc_k r = k + i \<and> rc_bits r = (x # xs) ! i \<and> (\<forall>j < i. rc_bits r < (x # xs) ! j))"
    using IH(3)
  proof
    assume r: "r = b"
    show ?thesis
    proof (cases "x < rc_bits best")
      case True
      with r show ?thesis by (intro disjI2 conjI exI [of _ 0]) (simp_all add: b_def)
    qed (use r in \<open>simp add: b_def\<close>)
  next
    assume "rc_bits r < rc_bits b
      \<and> (\<exists>i < length xs. rc_k r = Suc k + i \<and> rc_bits r = xs ! i \<and> (\<forall>j < i. rc_bits r < xs ! j))"
    then obtain i where "rc_bits r < rc_bits b" "i < length xs" "rc_k r = Suc k + i" "rc_bits r = xs ! i"
      "\<forall>j < i. rc_bits r < xs ! j" by blast
    moreover from this(1) b have "rc_bits r < rc_bits best" "rc_bits r < x" by (meson less_le_trans)+
    moreover have "rc_bits r < (x # xs) ! j" if "j < Suc i" for j
      using that \<open>rc_bits r < x\<close> \<open>\<forall>j < i. rc_bits r < xs ! j\<close> by (cases j) simp_all
    ultimately have "Suc i < length (x # xs) \<and> rc_k r = k + Suc i \<and> rc_bits r = (x # xs) ! Suc i
        \<and> (\<forall>j < Suc i. rc_bits r < (x # xs) ! j)"
      by simp
    with \<open>rc_bits r < rc_bits best\<close> show ?thesis by blast
  qed
  moreover have "rc_bits r \<le> rc_bits best" using IH(1) b(1) by (rule order.trans)
  moreover have "best_rice_scan best k (x # xs) = r" by (simp add: r_def b_def)
  ultimately show ?case using le by (simp only: Let_def)
qed simp

text \<open>The least parameter with the fewest bits.\<close>

definition cheapest_rice :: "u128 list \<Rightarrow> nat" where
  "cheapest_rice xs = (LEAST k. k < length xs \<and> (\<forall>i < length xs. xs ! k \<le> xs ! i))"

lemma best_rice_cheapest:
  assumes "ce_values e \<noteq> 0" and "0 < length (ce_rice_bits_by_k e)"
  shows "best_rice e = \<lparr>rc_k = cheapest_rice (ce_rice_bits_by_k e),
    rc_bits = ce_rice_bits_by_k e ! cheapest_rice (ce_rice_bits_by_k e)\<rparr>"
proof -
  let ?xs = "ce_rice_bits_by_k e"
  let ?init = "\<lparr>rc_k = 0, rc_bits = - 1\<rparr> :: RiceChoice"
  let ?r = "best_rice_scan ?init 0 ?xs"
  have c: "\<forall>i < length ?xs. rc_bits ?r \<le> ?xs ! i"
    "?r = ?init \<or> (\<exists>i < length ?xs. rc_k ?r = i \<and> rc_bits ?r = ?xs ! i \<and> (\<forall>j < i. rc_bits ?r < ?xs ! j))"
    using best_rice_scan_cases [of ?init 0 ?xs] unfolding Let_def by auto
  have "rc_k ?r < length ?xs \<and> rc_bits ?r = ?xs ! rc_k ?r \<and> (\<forall>j < rc_k ?r. rc_bits ?r < ?xs ! j)"
    using c(2)
  proof
    assume r: "?r = ?init"
    then have "?xs ! 0 = - 1" using c(1) assms(2) by (auto intro: word_order.extremum_uniqueI)
    with r assms(2) show ?thesis by simp
  qed auto
  then have r: "rc_k ?r < length ?xs" "rc_bits ?r = ?xs ! rc_k ?r" "\<forall>j < rc_k ?r. rc_bits ?r < ?xs ! j"
    by blast+
  have "cheapest_rice ?xs = rc_k ?r"
    unfolding cheapest_rice_def
  proof (rule Least_equality)
    show "rc_k ?r < length ?xs \<and> (\<forall>i < length ?xs. ?xs ! rc_k ?r \<le> ?xs ! i)" using c(1) r by simp
    show "rc_k ?r \<le> k" if "k < length ?xs \<and> (\<forall>i < length ?xs. ?xs ! k \<le> ?xs ! i)" for k
      using that r(1,3) unfolding r(2) by (meson leD leI)
  qed
  then show ?thesis using assms(1) r(2) by (simp add: best_rice_def)
qed

section \<open>Measuring a block\<close>

text \<open>What a block's UIDs are priced as: the distance of the smallest from the anchor, then the differences.\<close>

definition delta_stream :: "u64 list \<Rightarrow> priced list" where
  "delta_stream us = map (\<lambda>d. (d, False)) (map2 (\<lambda>a b. b - a) us (tl us))"

definition uid_stream :: "u64 \<Rightarrow> u64 list \<Rightarrow> priced list" where
  "uid_stream anchor us = (anchor - hd us, True) # delta_stream us"

lemma measure_deltas_exact:
  "\<lbrakk>su_deltas stats = estimate_of ds; su_combined stats = estimate_of cs\<rbrakk> \<Longrightarrow>
   measure_deltas prev us (local_estimate bc) (local_estimate bd) stats =
     (let qs = map (\<lambda>d. (d, False)) (map2 (\<lambda>a b. b - a) (prev # us) us) in
      (local_estimate (bc @ qs), local_estimate (bd @ qs),
       stats\<lparr>su_deltas := estimate_of (ds @ qs), su_combined := estimate_of (cs @ qs)\<rparr>))"
proof (induction us arbitrary: prev bc bd stats ds cs)
  case Nil
  then show ?case by (simp add: Let_def)
next
  case (Cons u us)
  let ?q = "(u - prev, False)"
  let ?stats = "stats\<lparr>su_deltas := estimate_of (ds @ [?q]), su_combined := estimate_of (cs @ [?q])\<rparr>"
  have "measure_deltas prev (u # us) (local_estimate bc) (local_estimate bd) stats
      = measure_deltas u us (local_estimate (bc @ [?q])) (local_estimate (bd @ [?q])) ?stats"
    using Cons.prems by (simp add: add_local add_estimate Let_def)
  also have "\<dots> = (let qs = map (\<lambda>d. (d, False)) (map2 (\<lambda>a b. b - a) (u # us) us) in
      (local_estimate ((bc @ [?q]) @ qs), local_estimate ((bd @ [?q]) @ qs),
       ?stats\<lparr>su_deltas := estimate_of ((ds @ [?q]) @ qs), su_combined := estimate_of ((cs @ [?q]) @ qs)\<rparr>))"
    by (rule Cons.IH) simp_all
  finally show ?case by (simp add: Let_def)
qed

lemma adjacent_distinct_sorted: "sorted us \<Longrightarrow> adjacent_distinct us \<longleftrightarrow> distinct us"
  by (induction us rule: adjacent_distinct.induct) (auto simp: order_antisym_conv)


section \<open>The measurement in closed form\<close>

definition rice_table :: "priced list \<Rightarrow> u128 list" where
  "rice_table ps = map (\<lambda>k. total_price (price_rice k) ps) [0..<33]"

definition block_rice :: "priced list \<Rightarrow> u128" where
  "block_rice ps = rice_table ps ! cheapest_rice (rice_table ps) + 5"

definition block_fano :: "u64 list \<Rightarrow> u128" where
  "block_fano us = 64 + elias_fano_bits (last us - hd us + 1) (word_of_nat (length us))"

definition block_estimate :: "u64 \<Rightarrow> u64 list \<Rightarrow> SortedUidBlockEstimate" where
  "block_estimate anchor us =
     (let ps = uid_stream anchor us in
      \<lparr>be_values = word_of_nat (length us),
       be_leb128_bytes = word_of_nat (length (encode_leb128_values (map fst ps))),
       be_rice_best_k = cheapest_rice (rice_table ps),
       be_rice_best_bits = rice_table ps ! cheapest_rice (rice_table ps),
       be_elias_delta_bits = total_price price_elias ps,
       be_ef_bits_with_64bit_base = block_fano us\<rparr>)"

text \<open>The run's statistics after the blocks \<open>bs\<close>, each an anchor and its sorted, non-empty UIDs.\<close>

definition uid_stats_of :: "(u64 \<times> u64 list) list \<Rightarrow> SortedUidCodecStats" where
  "uid_stats_of bs =
     (let streams = map (\<lambda>(anchor, us). uid_stream anchor us) bs in
      \<lparr>su_blocks_with_spends = word_of_nat (length bs),
       su_ef_bits_with_64bit_base = sum_list (map (block_fano \<circ> snd) bs),
       su_delta_per_block_rice_best_bits_with_k_overhead =
         sum_list (map (block_rice \<circ> tl) (filter (\<lambda>ps. tl ps \<noteq> []) streams)),
       su_combined_per_block_rice_best_bits_with_k_overhead = sum_list (map block_rice streams),
       su_first_offsets = estimate_of (map hd streams),
       su_deltas = estimate_of (concat (map tl streams)),
       su_combined = estimate_of (concat streams)\<rparr>)"

lemma uid_stats_of_Nil: "uid_stats_of [] = SortedUidCodecStats_default"
  by (simp add: uid_stats_of_def SortedUidCodecStats_default_def estimate_of_Nil)

lemma local_estimate_simps [simp]:
  "ce_values (local_estimate ps) = word_of_nat (length ps)"
  "ce_leb128_bytes (local_estimate ps) = total_price price_leb128 ps"
  "ce_elias_delta_bits (local_estimate ps) = total_price price_elias ps"
  "ce_rice_bits_by_k (local_estimate ps) = rice_table ps"
  by (simp_all add: local_estimate_def estimate_of_def rice_table_def RICE_K_COUNT_def)

lemma word_length_pos:
  assumes "length xs < 2 ^ 64"
  shows "(0 :: u64) < word_of_nat (length xs) \<longleftrightarrow> xs \<noteq> []"
proof -
  have "unat (word_of_nat (length xs) :: u64) = length xs"
    using assms by (intro unat_word_of_nat_small) simp
  then show ?thesis by (simp add: word_less_nat_alt)
qed

lemma best_rice_local:
  assumes "ps \<noteq> []" and "length ps < 2 ^ 64"
  shows "best_rice (local_estimate ps)
    = \<lparr>rc_k = cheapest_rice (rice_table ps), rc_bits = rice_table ps ! cheapest_rice (rice_table ps)\<rparr>"
proof -
  have "(word_of_nat (length ps) :: u64) \<noteq> 0"
    using word_length_pos [OF assms(2)] assms(1) by auto
  then show ?thesis using best_rice_cheapest [of "local_estimate ps"] by (simp add: rice_table_def)
qed

lemma total_leb128: "total_price price_leb128 ps = word_of_nat (length (encode_leb128_values (map fst ps)))"
proof (induction ps)
  case Nil
  then show ?case by (simp add: encode_leb128_values_def)
next
  case (Cons p ps)
  have "price_leb128 p = word_of_nat (length (leb128_encode_one (fst p) []))"
  proof -
    have "unat (leb128_len_u64 (fst p)) = length (leb128_encode_one (fst p) [])"
      using unat_leb128_len [of "fst p"] by (simp add: encode_leb128_values_def)
    then show ?thesis unfolding price_leb128_def by (metis of_nat_unat)
  qed
  with Cons show ?case
    by (simp add: encode_leb128_values_def encode_loop_Cons del: leb128_encode_loop.simps)
qed

lemma measure_deltas_stream:
  assumes "us \<noteq> []" and "su_deltas stats = estimate_of ds" and "su_combined stats = estimate_of cs"
  shows "measure_deltas (hd us) (drop (Suc 0) us) (local_estimate [f]) CodecEstimate_default stats
    = (local_estimate (f # delta_stream us), local_estimate (delta_stream us),
       stats\<lparr>su_deltas := estimate_of (ds @ delta_stream us), su_combined := estimate_of (cs @ delta_stream us)\<rparr>)"
proof -
  have "map2 (\<lambda>a b. b - a) (hd us # drop (Suc 0) us) (drop (Suc 0) us) = map2 (\<lambda>a b. b - a) us (tl us)"
    using assms(1) by (cases us) simp_all
  then show ?thesis
    using measure_deltas_exact [OF assms(2,3), of "hd us" "drop (Suc 0) us" "[f]" "[]"]
    by (simp add: delta_stream_def local_estimate_Nil Let_def)
qed

lemma measure_block:
  assumes us: "us = sort uids" "us \<noteq> []" "distinct us" "length us < 2 ^ 64" and anchor: "hd us \<le> anchor"
  shows "measure_sorted_uid_stream uids anchor (uid_stats_of bs)
    = Inr (block_estimate anchor us, us, uid_stats_of (bs @ [(anchor, us)]))"
proof -
  define f where "f = (anchor - hd us, True)"
  define qs where "qs = delta_stream us"
  define streams where "streams = map (\<lambda>(anchor, us). uid_stream anchor us) bs"
  have ps: "uid_stream anchor us = f # qs" by (simp add: uid_stream_def f_def qs_def)
  have len: "length (f # qs) = length us" using us(2) by (cases us) (simp_all add: qs_def delta_stream_def)
  have old: "su_blocks_with_spends (uid_stats_of bs) = word_of_nat (length bs)"
    "su_first_offsets (uid_stats_of bs) = estimate_of (map hd streams)"
    "su_deltas (uid_stats_of bs) = estimate_of (concat (map tl streams))"
    "su_combined (uid_stats_of bs) = estimate_of (concat streams)"
    by (simp_all add: uid_stats_of_def streams_def Let_def)
  let ?stats1 = "(uid_stats_of bs)\<lparr>su_blocks_with_spends := word_of_nat (length bs) + 1,
    su_first_offsets := estimate_of (map hd streams @ [f]), su_combined := estimate_of (concat streams @ [f])\<rparr>"
  note loop = measure_deltas_stream [OF us(2), of ?stats1 "concat (map tl streams)" "concat streams @ [f]" f, folded qs_def, simplified old, simplified]
  have first: "add_costs_no_hist CodecEstimate_default (CodecValueCosts_new (anchor - hd us) True) = local_estimate [f]"
    "add_costs (estimate_of xs) (anchor - hd us) (CodecValueCosts_new (anchor - hd us) True) = estimate_of (xs @ [f])" for xs
    using add_local [of "[]" "anchor - hd us" True] by (simp_all add: local_estimate_Nil add_estimate f_def)
  have sub: "checked_sub anchor (hd us) = Some (anchor - hd us)"
    using anchor by (simp add: checked_sub_def word_le_nat_alt)
  have pos: "(0 :: u64) < word_of_nat (length qs) \<longleftrightarrow> qs \<noteq> []"
    using us(4) len by (intro word_length_pos) simp
  note rice = best_rice_local [of "f # qs", simplified] best_rice_local [of qs]
  have small: "Suc (length qs) < 2 ^ 64" "length qs < 2 ^ 64" using us(4) len by simp_all
  have vals: "word_of_nat (length qs) + 1 = (word_of_nat (length us) :: u64)"
    using len by (metis add.commute length_Cons of_nat_Suc)
  have leb: "price_leb128 f + word_of_nat (length (encode_leb128_values (map fst qs)))
      = word_of_nat (length (encode_leb128_values (fst f # map fst qs)))"
    using total_leb128 [of "f # qs"] total_leb128 [of qs] by simp
  have "uids \<noteq> []" "us ! 0 = hd us" "sorted us" using us(1,2) by (auto simp: hd_conv_nth)
  then have "measure_sorted_uid_stream uids anchor (uid_stats_of bs) = Inr (block_estimate anchor us, us,
    ?stats1\<lparr>su_deltas := estimate_of (concat (map tl streams) @ qs),
      su_combined := estimate_of (concat streams @ f # qs),
      su_delta_per_block_rice_best_bits_with_k_overhead := su_delta_per_block_rice_best_bits_with_k_overhead (uid_stats_of bs)
        + (if qs \<noteq> [] then block_rice qs else 0),
      su_combined_per_block_rice_best_bits_with_k_overhead :=
        su_combined_per_block_rice_best_bits_with_k_overhead (uid_stats_of bs) + block_rice (f # qs),
      su_ef_bits_with_64bit_base := su_ef_bits_with_64bit_base (uid_stats_of bs) + block_fano us\<rparr>)"
    using us(2-4) small
    by (simp add: measure_sorted_uid_stream_def adjacent_distinct_sorted Let_def first old loop sub
        pos rice block_estimate_def block_rice_def block_fano_def vals add.commute [of 1] ps
        PER_BLOCK_RICE_K_OVERHEAD_BITS_def total_leb128 leb flip: us(1))
  also have "\<dots> = Inr (block_estimate anchor us, us, uid_stats_of (bs @ [(anchor, us)]))"
    by (simp add: uid_stats_of_def streams_def Let_def ps)
  finally show ?thesis .
qed

text \<open>
  C33: The measurement of a block's spent UIDs, on every input: nothing for an empty list; a panic
  for a repeated UID or when the smallest lies above the anchor; otherwise the UIDs are sorted, and the
  block's row and the run's totals are those of the stream of the first offset and the
  differences: the LEB128 size is the length of the encoded stream, the Rice
  parameter the smallest of the cheapest ones.
\<close>

theorem uid_stream_measured:
  assumes "length uids < 2 ^ 64"
  shows "measure_sorted_uid_stream uids anchor (uid_stats_of bs) =
    (if uids = [] then Inr (SortedUidBlockEstimate_default, [], uid_stats_of bs)
     else if \<not> distinct uids then Inl (Error ''duplicate spent UID in same sorted UID stream'')
     else if Min (set uids) > anchor then Inl (Error ''spent UID exceeds block_anchor_last_uid'')
     else Inr (block_estimate anchor (sort uids), sort uids, uid_stats_of (bs @ [(anchor, sort uids)])))"
proof (cases "uids = [] \<or> \<not> distinct uids")
  case True
  then show ?thesis
    by (auto simp: measure_sorted_uid_stream_def adjacent_distinct_sorted Let_def)
next
  case False
  define us where "us = sort uids"
  have us: "us \<noteq> []" "sorted us" "distinct us" "length us < 2 ^ 64"
    using False assms by (simp_all add: us_def) (metis length_0_conv length_sort)
  have "hd us = Min (set us)" using us by (cases us) (simp_all add: Min_insert2)
  then have least: "hd us = Min (set uids)" by (simp add: us_def)
  show ?thesis
  proof (cases "anchor < Min (set uids)")
    case True
    then have "checked_sub anchor (us ! 0) = None"
      using least us(1) by (simp add: checked_sub_def word_less_nat_alt hd_conv_nth)
    then have "measure_sorted_uid_stream uids anchor (uid_stats_of bs) = Inl (Error ''spent UID exceeds block_anchor_last_uid'')"
      using False us by (simp add: measure_sorted_uid_stream_def adjacent_distinct_sorted Let_def flip: us_def)
    with False True show ?thesis by (simp only: if_True if_False de_Morgan_disj not_not simp_thms)
  next
    case below: False
    then have "measure_sorted_uid_stream uids anchor (uid_stats_of bs)
        = Inr (block_estimate anchor us, us, uid_stats_of (bs @ [(anchor, us)]))"
      using us least by (intro measure_block us_def) simp_all
    with False below show ?thesis unfolding us_def by (simp only: if_False de_Morgan_disj not_not simp_thms)
  qed
qed

theorem uid_stream_measured_witness:
  "measure_sorted_uid_stream [5, 3] 7 SortedUidCodecStats_default
    = Inr (block_estimate 7 [3, 5], [3, 5], uid_stats_of [(7, [3, 5])])
   \<and> measure_sorted_uid_stream [5, 5] 7 SortedUidCodecStats_default
    = Inl (Error ''duplicate spent UID in same sorted UID stream'')"
  using uid_stream_measured [of "[5, 3]" 7 "[]"] uid_stream_measured [of "[5, 5]" 7 "[]"]
  by (simp add: uid_stats_of_Nil)

end
