(* ===== verification/Stats_Rows.thy ===== *)
theory Stats_Rows
  imports Stats_Script Utxo_Hash Uid_Stream
begin

text \<open>
  The accumulators of \<^verbatim>\<open>stats/src/block.rs\<close>: the run's \<open>Stats\<close>, the counters of one block and
  the row they are drained into. All counters are 64-bit words.
\<close>

datatype SpendContext = SameTx | SameBlock | Earlier

definition STATS_STATE_VERSION :: u32 where "STATS_STATE_VERSION = 6"

section \<open>The run\<close>

record Stats =
  st_spends :: u64
  st_outputs :: u64
  st_p2tr_outputs :: u64
  st_p2tr_reused :: u64
  st_p2tr_spends :: u64
  st_p2tr_keypath_spends :: u64
  st_p2tr_scriptpath_spends :: u64
  st_p2tr_nums_spends :: u64
  st_p2tr_sp_eligible_spends :: u64
  st_p2tr_inscription_spends :: u64
  st_p2tr_nums_and_inscription_spends :: u64
  st_same_tx_spends :: u64
  st_p2tr_same_tx_spends :: u64
  st_same_block_spends :: u64
  st_p2tr_same_block_spends :: u64
  st_nonsp_txs :: u64
  st_nonsp_tx_outputs :: u64
  st_script_outputs :: TypeCounts
  st_script_inputs :: TypeCounts
  st_sorted_spent_ids :: SortedUidCodecStats
  st_sorted_p2tr_spent_ids :: SortedUidCodecStats

definition Stats_new :: Stats where
  "Stats_new = \<lparr>st_spends = 0, st_outputs = 0, st_p2tr_outputs = 0, st_p2tr_reused = 0, st_p2tr_spends = 0,
     st_p2tr_keypath_spends = 0, st_p2tr_scriptpath_spends = 0, st_p2tr_nums_spends = 0, st_p2tr_sp_eligible_spends = 0,
     st_p2tr_inscription_spends = 0, st_p2tr_nums_and_inscription_spends = 0, st_same_tx_spends = 0,
     st_p2tr_same_tx_spends = 0, st_same_block_spends = 0, st_p2tr_same_block_spends = 0, st_nonsp_txs = 0,
     st_nonsp_tx_outputs = 0, st_script_outputs = TypeCounts_default, st_script_inputs = TypeCounts_default,
     st_sorted_spent_ids = SortedUidCodecStats_default, st_sorted_p2tr_spent_ids = SortedUidCodecStats_default\<rparr>"

definition stats_record_spend :: "SpendContext \<Rightarrow> Stats \<Rightarrow> Stats" where
  "stats_record_spend ctx s =
     (let s = s\<lparr>st_spends := st_spends s + 1\<rparr> in
      case ctx of
        SameTx \<Rightarrow> s\<lparr>st_same_tx_spends := st_same_tx_spends s + 1\<rparr>
      | SameBlock \<Rightarrow> s\<lparr>st_same_block_spends := st_same_block_spends s + 1\<rparr>
      | Earlier \<Rightarrow> s)"

definition stats_record_p2tr_spend :: "SpendClass \<Rightarrow> SpendContext \<Rightarrow> Stats \<Rightarrow> Stats" where
  "stats_record_p2tr_spend class ctx s =
     (let s = s\<lparr>st_p2tr_spends := st_p2tr_spends s + 1\<rparr>;
          s = (case ctx of
                 SameTx \<Rightarrow> s\<lparr>st_p2tr_same_tx_spends := st_p2tr_same_tx_spends s + 1\<rparr>
               | SameBlock \<Rightarrow> s\<lparr>st_p2tr_same_block_spends := st_p2tr_same_block_spends s + 1\<rparr>
               | Earlier \<Rightarrow> s);
          s = (case sc_path class of
                 PathKey \<Rightarrow> s\<lparr>st_p2tr_keypath_spends := st_p2tr_keypath_spends s + 1,
                              st_p2tr_sp_eligible_spends := st_p2tr_sp_eligible_spends s + 1\<rparr>
               | PathScriptNonNums \<Rightarrow> s\<lparr>st_p2tr_scriptpath_spends := st_p2tr_scriptpath_spends s + 1,
                              st_p2tr_sp_eligible_spends := st_p2tr_sp_eligible_spends s + 1\<rparr>
               | PathScriptNums \<Rightarrow> s\<lparr>st_p2tr_scriptpath_spends := st_p2tr_scriptpath_spends s + 1,
                              st_p2tr_nums_spends := st_p2tr_nums_spends s + 1\<rparr>)
      in if sc_inscription class
         then let s = s\<lparr>st_p2tr_inscription_spends := st_p2tr_inscription_spends s + 1\<rparr>
              in if sc_path class = PathScriptNums
                 then s\<lparr>st_p2tr_nums_and_inscription_spends := st_p2tr_nums_and_inscription_spends s + 1\<rparr> else s
         else s)"

definition stats_record_output_script :: "ScriptType \<Rightarrow> Stats \<Rightarrow> Stats" where
  "stats_record_output_script t s = s\<lparr>st_script_outputs := record_type (st_script_outputs s) t\<rparr>"

definition stats_record_input_script :: "ScriptType \<Rightarrow> Stats \<Rightarrow> Stats" where
  "stats_record_input_script t s = s\<lparr>st_script_inputs := record_type (st_script_inputs s) t\<rparr>"

section \<open>The row of a block\<close>

record BlockLocalStats =
  bl_output_count :: u64
  bl_p2tr_output_count :: u64
  bl_script_outputs :: TypeCounts

record ChainDerivedStats =
  cd_last_global_id :: u64
  cd_p2tr_reused_count :: u64
  cd_spends :: u64
  cd_p2tr_spends :: u64
  cd_p2tr_keypath_spends :: u64
  cd_p2tr_scriptpath_spends :: u64
  cd_p2tr_nums_spends :: u64
  cd_p2tr_sp_eligible_spends :: u64
  cd_p2tr_inscription_spends :: u64
  cd_p2tr_nums_and_inscription_spends :: u64
  cd_nonsp_txs :: u64
  cd_nonsp_tx_outputs :: u64
  cd_script_inputs :: TypeCounts
  cd_utxo_hash :: string
  cd_utxo_hash_window :: u64

record BlockStats =
  bk_height :: u64
  bk_block_hash :: string
  bk_stats_version :: u32
  bk_local :: BlockLocalStats
  bk_chain :: ChainDerivedStats
  bk_last_global_id :: u64
  bk_output_count :: u64
  bk_p2tr_output_count :: u64
  bk_p2tr_reused_count :: u64
  bk_spends :: u64
  bk_p2tr_spends :: u64
  bk_p2tr_keypath_spends :: u64
  bk_p2tr_scriptpath_spends :: u64
  bk_p2tr_nums_spends :: u64
  bk_p2tr_sp_eligible_spends :: u64
  bk_p2tr_inscription_spends :: u64
  bk_p2tr_nums_and_inscription_spends :: u64
  bk_nonsp_txs :: u64
  bk_nonsp_tx_outputs :: u64
  bk_script_outputs :: TypeCounts
  bk_script_inputs :: TypeCounts
  bk_sorted_spent :: SortedUidBlockEstimate
  bk_sorted_p2tr_spent :: SortedUidBlockEstimate
  bk_utxo_hash :: string
  bk_utxo_hash_window :: u64

definition BlockLocalStats_default :: BlockLocalStats where
  "BlockLocalStats_default =
     \<lparr>bl_output_count = 0, bl_p2tr_output_count = 0, bl_script_outputs = TypeCounts_default\<rparr>"

definition ChainDerivedStats_default :: ChainDerivedStats where
  "ChainDerivedStats_default =
     \<lparr>cd_last_global_id = 0, cd_p2tr_reused_count = 0, cd_spends = 0, cd_p2tr_spends = 0, cd_p2tr_keypath_spends = 0,
      cd_p2tr_scriptpath_spends = 0, cd_p2tr_nums_spends = 0, cd_p2tr_sp_eligible_spends = 0,
      cd_p2tr_inscription_spends = 0, cd_p2tr_nums_and_inscription_spends = 0, cd_nonsp_txs = 0, cd_nonsp_tx_outputs = 0,
      cd_script_inputs = TypeCounts_default, cd_utxo_hash = [], cd_utxo_hash_window = 0\<rparr>"

definition BlockStats_new :: "u64 \<Rightarrow> BlockStats" where
  "BlockStats_new height =
     \<lparr>bk_height = height, bk_block_hash = [], bk_stats_version = STATS_STATE_VERSION, bk_local = BlockLocalStats_default,
      bk_chain = ChainDerivedStats_default, bk_last_global_id = 0, bk_output_count = 0, bk_p2tr_output_count = 0,
      bk_p2tr_reused_count = 0, bk_spends = 0, bk_p2tr_spends = 0, bk_p2tr_keypath_spends = 0,
      bk_p2tr_scriptpath_spends = 0, bk_p2tr_nums_spends = 0, bk_p2tr_sp_eligible_spends = 0,
      bk_p2tr_inscription_spends = 0, bk_p2tr_nums_and_inscription_spends = 0, bk_nonsp_txs = 0, bk_nonsp_tx_outputs = 0,
      bk_script_outputs = TypeCounts_default, bk_script_inputs = TypeCounts_default,
      bk_sorted_spent = SortedUidBlockEstimate_default, bk_sorted_p2tr_spent = SortedUidBlockEstimate_default,
      bk_utxo_hash = [], bk_utxo_hash_window = 0\<rparr>"

definition refresh_classes :: "BlockStats \<Rightarrow> BlockStats" where
  "refresh_classes r =
     r\<lparr>bk_local := \<lparr>bl_output_count = bk_output_count r, bl_p2tr_output_count = bk_p2tr_output_count r,
                    bl_script_outputs = bk_script_outputs r\<rparr>,
       bk_chain := \<lparr>cd_last_global_id = bk_last_global_id r, cd_p2tr_reused_count = bk_p2tr_reused_count r,
                    cd_spends = bk_spends r, cd_p2tr_spends = bk_p2tr_spends r,
                    cd_p2tr_keypath_spends = bk_p2tr_keypath_spends r, cd_p2tr_scriptpath_spends = bk_p2tr_scriptpath_spends r,
                    cd_p2tr_nums_spends = bk_p2tr_nums_spends r, cd_p2tr_sp_eligible_spends = bk_p2tr_sp_eligible_spends r,
                    cd_p2tr_inscription_spends = bk_p2tr_inscription_spends r,
                    cd_p2tr_nums_and_inscription_spends = bk_p2tr_nums_and_inscription_spends r,
                    cd_nonsp_txs = bk_nonsp_txs r, cd_nonsp_tx_outputs = bk_nonsp_tx_outputs r,
                    cd_script_inputs = bk_script_inputs r, cd_utxo_hash = bk_utxo_hash r,
                    cd_utxo_hash_window = bk_utxo_hash_window r\<rparr>\<rparr>"

section \<open>The counters of a block\<close>

record PerBlock =
  pb_spends :: u64
  pb_output_count :: u64
  pb_p2tr_output_count :: u64
  pb_p2tr_reused_count :: u64
  pb_p2tr_spends :: u64
  pb_p2tr_keypath_spends :: u64
  pb_p2tr_scriptpath_spends :: u64
  pb_p2tr_nums_spends :: u64
  pb_p2tr_sp_eligible_spends :: u64
  pb_p2tr_inscription_spends :: u64
  pb_p2tr_nums_and_inscription_spends :: u64
  pb_nonsp_txs :: u64
  pb_nonsp_tx_outputs :: u64
  pb_script_outputs :: TypeCounts
  pb_script_inputs :: TypeCounts
  pb_spent_uids :: "u64 list"
  pb_p2tr_spent_uids :: "u64 list"

definition PerBlock_default :: PerBlock where
  "PerBlock_default =
     \<lparr>pb_spends = 0, pb_output_count = 0, pb_p2tr_output_count = 0, pb_p2tr_reused_count = 0, pb_p2tr_spends = 0,
      pb_p2tr_keypath_spends = 0, pb_p2tr_scriptpath_spends = 0, pb_p2tr_nums_spends = 0, pb_p2tr_sp_eligible_spends = 0,
      pb_p2tr_inscription_spends = 0, pb_p2tr_nums_and_inscription_spends = 0, pb_nonsp_txs = 0, pb_nonsp_tx_outputs = 0,
      pb_script_outputs = TypeCounts_default, pb_script_inputs = TypeCounts_default, pb_spent_uids = [],
      pb_p2tr_spent_uids = []\<rparr>"

definition record_spend_uid :: "u64 \<Rightarrow> bool \<Rightarrow> PerBlock \<Rightarrow> PerBlock" where
  "record_spend_uid uid taproot b =
     (let b = b\<lparr>pb_spends := pb_spends b + 1, pb_spent_uids := pb_spent_uids b @ [uid]\<rparr>
      in if taproot then b\<lparr>pb_p2tr_spent_uids := pb_p2tr_spent_uids b @ [uid]\<rparr> else b)"

definition block_record_p2tr_spend :: "SpendClass \<Rightarrow> PerBlock \<Rightarrow> PerBlock" where
  "block_record_p2tr_spend class b =
     (let b = b\<lparr>pb_p2tr_spends := pb_p2tr_spends b + 1\<rparr>;
          b = (case sc_path class of
                 PathKey \<Rightarrow> b\<lparr>pb_p2tr_keypath_spends := pb_p2tr_keypath_spends b + 1,
                              pb_p2tr_sp_eligible_spends := pb_p2tr_sp_eligible_spends b + 1\<rparr>
               | PathScriptNonNums \<Rightarrow> b\<lparr>pb_p2tr_scriptpath_spends := pb_p2tr_scriptpath_spends b + 1,
                              pb_p2tr_sp_eligible_spends := pb_p2tr_sp_eligible_spends b + 1\<rparr>
               | PathScriptNums \<Rightarrow> b\<lparr>pb_p2tr_scriptpath_spends := pb_p2tr_scriptpath_spends b + 1,
                              pb_p2tr_nums_spends := pb_p2tr_nums_spends b + 1\<rparr>)
      in if sc_inscription class
         then let b = b\<lparr>pb_p2tr_inscription_spends := pb_p2tr_inscription_spends b + 1\<rparr>
              in if sc_path class = PathScriptNums
                 then b\<lparr>pb_p2tr_nums_and_inscription_spends := pb_p2tr_nums_and_inscription_spends b + 1\<rparr> else b
         else b)"

definition block_record_output :: "bool \<Rightarrow> bool \<Rightarrow> PerBlock \<Rightarrow> PerBlock" where
  "block_record_output taproot reused b =
     (let b = b\<lparr>pb_output_count := pb_output_count b + 1\<rparr>
      in if taproot
         then let b = b\<lparr>pb_p2tr_output_count := pb_p2tr_output_count b + 1\<rparr>
              in if reused then b\<lparr>pb_p2tr_reused_count := pb_p2tr_reused_count b + 1\<rparr> else b
         else b)"

definition block_record_output_script :: "ScriptType \<Rightarrow> PerBlock \<Rightarrow> PerBlock" where
  "block_record_output_script t b = b\<lparr>pb_script_outputs := record_type (pb_script_outputs b) t\<rparr>"

definition block_record_input_script :: "ScriptType \<Rightarrow> PerBlock \<Rightarrow> PerBlock" where
  "block_record_input_script t b = b\<lparr>pb_script_inputs := record_type (pb_script_inputs b) t\<rparr>"

text \<open>
  The measurement of both UID streams. The twelve flat fields of the row are the fields of
  the two estimates \<open>bk_sorted_spent\<close> and \<open>bk_sorted_p2tr_spent\<close>.
\<close>

definition measure_sorted_uid_encoding :: "u64 \<Rightarrow> PerBlock \<Rightarrow> Stats \<Rightarrow> BlockStats \<Rightarrow> (PerBlock \<times> Stats \<times> BlockStats) result" where
  "measure_sorted_uid_encoding block_anchor_last_uid b run_stats row =
     and_then (measure_sorted_uid_stream (pb_spent_uids b) block_anchor_last_uid (st_sorted_spent_ids run_stats))
       (\<lambda>(all_spends, spent_uids, sorted_spent_ids).
     let b = b\<lparr>pb_spent_uids := spent_uids\<rparr>;
         run_stats = run_stats\<lparr>st_sorted_spent_ids := sorted_spent_ids\<rparr>;
         row = row\<lparr>bk_sorted_spent := all_spends\<rparr> in
     and_then (measure_sorted_uid_stream (pb_p2tr_spent_uids b) block_anchor_last_uid (st_sorted_p2tr_spent_ids run_stats))
       (\<lambda>(p2tr, p2tr_spent_uids, sorted_p2tr_spent_ids).
     Inr (b\<lparr>pb_p2tr_spent_uids := p2tr_spent_uids\<rparr>,
          run_stats\<lparr>st_sorted_p2tr_spent_ids := sorted_p2tr_spent_ids\<rparr>,
          row\<lparr>bk_sorted_p2tr_spent := p2tr\<rparr>)))"

definition drain_into :: "PerBlock \<Rightarrow> BlockStats \<Rightarrow> PerBlock \<times> BlockStats" where
  "drain_into b row =
     (PerBlock_default,
      row\<lparr>bk_spends := pb_spends b, bk_output_count := pb_output_count b,
          bk_p2tr_output_count := pb_p2tr_output_count b, bk_p2tr_reused_count := pb_p2tr_reused_count b,
          bk_p2tr_spends := pb_p2tr_spends b, bk_p2tr_keypath_spends := pb_p2tr_keypath_spends b,
          bk_p2tr_scriptpath_spends := pb_p2tr_scriptpath_spends b, bk_p2tr_nums_spends := pb_p2tr_nums_spends b,
          bk_p2tr_sp_eligible_spends := pb_p2tr_sp_eligible_spends b,
          bk_p2tr_inscription_spends := pb_p2tr_inscription_spends b,
          bk_p2tr_nums_and_inscription_spends := pb_p2tr_nums_and_inscription_spends b,
          bk_nonsp_txs := pb_nonsp_txs b, bk_nonsp_tx_outputs := pb_nonsp_tx_outputs b,
          bk_script_outputs := pb_script_outputs b, bk_script_inputs := pb_script_inputs b\<rparr>)"

section \<open>What a run counts is what its blocks count\<close>

text \<open>The counters a row and the run share, and their agreement during a block.\<close>

definition stat_counters :: "Stats \<Rightarrow> u64 list" where
  "stat_counters s =
     [st_spends s, st_outputs s, st_p2tr_outputs s, st_p2tr_reused s, st_p2tr_spends s, st_p2tr_keypath_spends s,
      st_p2tr_scriptpath_spends s, st_p2tr_nums_spends s, st_p2tr_sp_eligible_spends s, st_p2tr_inscription_spends s,
      st_p2tr_nums_and_inscription_spends s, st_nonsp_txs s, st_nonsp_tx_outputs s]"

definition block_counters :: "PerBlock \<Rightarrow> u64 list" where
  "block_counters b =
     [pb_spends b, pb_output_count b, pb_p2tr_output_count b, pb_p2tr_reused_count b, pb_p2tr_spends b,
      pb_p2tr_keypath_spends b, pb_p2tr_scriptpath_spends b, pb_p2tr_nums_spends b, pb_p2tr_sp_eligible_spends b,
      pb_p2tr_inscription_spends b, pb_p2tr_nums_and_inscription_spends b, pb_nonsp_txs b, pb_nonsp_tx_outputs b]"

definition row_counters :: "BlockStats \<Rightarrow> u64 list" where
  "row_counters r =
     [bk_spends r, bk_output_count r, bk_p2tr_output_count r, bk_p2tr_reused_count r, bk_p2tr_spends r,
      bk_p2tr_keypath_spends r, bk_p2tr_scriptpath_spends r, bk_p2tr_nums_spends r, bk_p2tr_sp_eligible_spends r,
      bk_p2tr_inscription_spends r, bk_p2tr_nums_and_inscription_spends r, bk_nonsp_txs r, bk_nonsp_tx_outputs r]"

definition counts_agree :: "Stats \<Rightarrow> Stats \<Rightarrow> PerBlock \<Rightarrow> bool" where
  "counts_agree s0 s b \<longleftrightarrow> stat_counters s = map2 (+) (stat_counters s0) (block_counters b)
     \<and> st_script_outputs s = merge_types (st_script_outputs s0) (pb_script_outputs b)
     \<and> st_script_inputs s = merge_types (st_script_inputs s0) (pb_script_inputs b)"

lemmas counter_defs = stat_counters_def block_counters_def counts_agree_def

lemma merge_types_zero: "merge_types c TypeCounts_default = c"
  by (rule type_counts_eqI) simp

lemma counts_agree_start: "counts_agree s s PerBlock_default"
  by (simp add: counter_defs PerBlock_default_def merge_types_zero)

lemma counts_agree_spend:
  "counts_agree s0 s b \<Longrightarrow> counts_agree s0 (stats_record_spend ctx s) (record_spend_uid uid taproot b)"
  by (cases ctx) (simp_all add: counter_defs stats_record_spend_def record_spend_uid_def Let_def add.assoc)

lemma counts_agree_p2tr_spend:
  "counts_agree s0 s b \<Longrightarrow> counts_agree s0 (stats_record_p2tr_spend class ctx s) (block_record_p2tr_spend class b)"
  by (cases ctx; cases "sc_path class"; cases "sc_inscription class")
     (simp_all add: counter_defs stats_record_p2tr_spend_def block_record_p2tr_spend_def Let_def add.assoc)

lemma counts_agree_scripts:
  "counts_agree s0 s b \<Longrightarrow> counts_agree s0 (stats_record_input_script t s) (block_record_input_script t b)"
  "counts_agree s0 s b \<Longrightarrow> counts_agree s0 (stats_record_output_script t s) (block_record_output_script t b)"
  by (simp_all add: counter_defs stats_record_input_script_def block_record_input_script_def
      stats_record_output_script_def block_record_output_script_def merge_types_record)

lemma counts_agree_output:
  "counts_agree s0 s b \<Longrightarrow>
   counts_agree s0 (s\<lparr>st_outputs := st_outputs s + 1,
       st_p2tr_outputs := st_p2tr_outputs s + (if taproot then 1 else 0),
       st_p2tr_reused := st_p2tr_reused s + (if taproot \<and> reused then 1 else 0)\<rparr>)
     (block_record_output taproot reused b)"
  by (simp add: counter_defs block_record_output_def Let_def add.assoc)

lemma counts_agree_nonsp:
  "counts_agree s0 s b \<Longrightarrow> counts_agree s0 (s\<lparr>st_nonsp_txs := st_nonsp_txs s + 1\<rparr>) (b\<lparr>pb_nonsp_txs := pb_nonsp_txs b + 1\<rparr>)"
  "counts_agree s0 s b \<Longrightarrow>
    counts_agree s0 (s\<lparr>st_nonsp_tx_outputs := st_nonsp_tx_outputs s + 1\<rparr>) (b\<lparr>pb_nonsp_tx_outputs := pb_nonsp_tx_outputs b + 1\<rparr>)"
  by (simp_all add: counter_defs add.assoc)

text \<open>Fields that the recording functions leave alone, and the UIDs they collect.\<close>

lemma record_uids [simp]:
  "pb_spent_uids (record_spend_uid uid taproot b) = pb_spent_uids b @ [uid]"
  "pb_p2tr_spent_uids (record_spend_uid uid taproot b) = pb_p2tr_spent_uids b @ (if taproot then [uid] else [])"
  "pb_spent_uids (block_record_p2tr_spend class b) = pb_spent_uids b"
  "pb_p2tr_spent_uids (block_record_p2tr_spend class b) = pb_p2tr_spent_uids b"
  "pb_spent_uids (block_record_output taproot reused b) = pb_spent_uids b"
  "pb_p2tr_spent_uids (block_record_output taproot reused b) = pb_p2tr_spent_uids b"
  "pb_spent_uids (block_record_output_script t b) = pb_spent_uids b"
  "pb_p2tr_spent_uids (block_record_output_script t b) = pb_p2tr_spent_uids b"
  "pb_spent_uids (block_record_input_script t b) = pb_spent_uids b"
  "pb_p2tr_spent_uids (block_record_input_script t b) = pb_p2tr_spent_uids b"
  by (simp_all add: record_spend_uid_def block_record_p2tr_spend_def block_record_output_def block_record_output_script_def
      block_record_input_script_def Let_def split: SpendPath.splits)

lemma record_output_count [simp]:
  "pb_output_count (record_spend_uid uid taproot b) = pb_output_count b"
  "pb_output_count (block_record_p2tr_spend class b) = pb_output_count b"
  "pb_output_count (block_record_output taproot reused b) = pb_output_count b + 1"
  "pb_output_count (block_record_output_script t b) = pb_output_count b"
  "pb_output_count (block_record_input_script t b) = pb_output_count b"
  by (simp_all add: record_spend_uid_def block_record_p2tr_spend_def block_record_output_def block_record_output_script_def
      block_record_input_script_def Let_def split: SpendPath.splits)

lemma record_sorted [simp]:
  "st_sorted_spent_ids (stats_record_spend ctx s) = st_sorted_spent_ids s"
  "st_sorted_p2tr_spent_ids (stats_record_spend ctx s) = st_sorted_p2tr_spent_ids s"
  "st_sorted_spent_ids (stats_record_p2tr_spend class ctx s) = st_sorted_spent_ids s"
  "st_sorted_p2tr_spent_ids (stats_record_p2tr_spend class ctx s) = st_sorted_p2tr_spent_ids s"
  "st_sorted_spent_ids (stats_record_input_script t s) = st_sorted_spent_ids s"
  "st_sorted_p2tr_spent_ids (stats_record_input_script t s) = st_sorted_p2tr_spent_ids s"
  "st_sorted_spent_ids (stats_record_output_script t s) = st_sorted_spent_ids s"
  "st_sorted_p2tr_spent_ids (stats_record_output_script t s) = st_sorted_p2tr_spent_ids s"
  by (simp_all add: stats_record_spend_def stats_record_p2tr_spend_def stats_record_input_script_def
      stats_record_output_script_def Let_def split: SpendContext.splits SpendPath.splits)

text \<open>A spend of an output of its own transaction is the only thing that moves the canary counters.\<close>

lemma record_same_tx [simp]:
  "st_same_tx_spends (stats_record_spend ctx s) = st_same_tx_spends s + (if ctx = SameTx then 1 else 0)"
  "st_p2tr_same_tx_spends (stats_record_spend ctx s) = st_p2tr_same_tx_spends s"
  "st_same_tx_spends (stats_record_p2tr_spend class ctx s) = st_same_tx_spends s"
  "st_p2tr_same_tx_spends (stats_record_p2tr_spend class ctx s) = st_p2tr_same_tx_spends s + (if ctx = SameTx then 1 else 0)"
  "st_same_tx_spends (stats_record_input_script t s) = st_same_tx_spends s"
  "st_p2tr_same_tx_spends (stats_record_input_script t s) = st_p2tr_same_tx_spends s"
  "st_same_tx_spends (stats_record_output_script t s) = st_same_tx_spends s"
  "st_p2tr_same_tx_spends (stats_record_output_script t s) = st_p2tr_same_tx_spends s"
  by (simp_all add: stats_record_spend_def stats_record_p2tr_spend_def stats_record_input_script_def
      stats_record_output_script_def Let_def split: SpendContext.splits SpendPath.splits)

end
