(* ===== verification/Stats_Scan.thy ===== *)
theory Stats_Scan
  imports Stats_Rows
begin

text \<open>
  The sequential stage of the statistics scan (\<^verbatim>\<open>stats/src/scan.rs\<close>): the stateless preparation
  of a block, the packed UTXO entries, the scanner state, and the commit of a prepared block
  to it, which yields the block's row. Timing and progress output are left out. The decoded
  block is a record of what the code reads of the \<^verbatim>\<open>bitcoin\<close> crate's block; the
  transaction id and the coinbase test are the crate's.
\<close>

section \<open>Preparation\<close>

type_synonym OutPoint = "bytes \<times> u32"

record decoded_input =
  di_previous_output :: OutPoint
  di_witness :: "bytes list"

record decoded_tx =
  dt_txid :: bytes
  dt_is_coinbase :: bool
  dt_input :: "decoded_input list"
  dt_output_scripts :: "bytes list"

record DecodedBlockFrame =
  df_height :: u64
  df_hash :: bytes
  df_txdata :: "decoded_tx list"

record PreparedInput =
  pi_previous_output :: OutPoint
  pi_p2tr_spend_class :: SpendClass

record PreparedTx =
  pt_txid :: bytes
  pt_is_coinbase :: bool
  pt_inputs :: "PreparedInput list"
  pt_output_script_types :: "ScriptType list"
  pt_output_xonly_keys :: "bytes option list"

record PreparedBlockFrame =
  pf_height :: u64
  pf_hash :: bytes
  pf_txs :: "PreparedTx list"

definition extract_xonly_script :: "bytes \<Rightarrow> bytes option" where
  "extract_xonly_script bs =
     (if length bs = 34 \<and> bs ! 0 = 0x51 \<and> bs ! 1 = 0x20 then Some (slice bs 2 34) else None)"

definition prepare_tx :: "stats_tests \<Rightarrow> decoded_tx \<Rightarrow> PreparedTx" where
  "prepare_tx lib tx =
     (let script_types = map (classify_script_type lib) (dt_output_scripts tx) in
      \<lparr>pt_txid = dt_txid tx,
       pt_is_coinbase = dt_is_coinbase tx,
       pt_inputs = (if dt_is_coinbase tx then []
         else map (\<lambda>vin. \<lparr>pi_previous_output = di_previous_output vin,
                          pi_p2tr_spend_class = classify_p2tr_spend (di_witness vin)\<rparr>) (dt_input tx)),
       pt_output_script_types = script_types,
       pt_output_xonly_keys = map2 (\<lambda>script_type script.
         if script_type = TypeP2tr then extract_xonly_script script else None) script_types (dt_output_scripts tx)\<rparr>)"

definition prepare_decoded_block :: "stats_tests \<Rightarrow> DecodedBlockFrame \<Rightarrow> PreparedBlockFrame result" where
  "prepare_decoded_block lib frame =
     Inr \<lparr>pf_height = df_height frame, pf_hash = df_hash frame, pf_txs = map (prepare_tx lib) (df_txdata frame)\<rparr>"

section \<open>UTXO entries\<close>

record UtxoEntry =
  ue_packed :: u64

definition SCRIPT_TYPE_BITS :: nat where "SCRIPT_TYPE_BITS = 4"

definition SCRIPT_TYPE_MASK :: u64 where "SCRIPT_TYPE_MASK = push_bit SCRIPT_TYPE_BITS 1 - 1"

definition UtxoEntry_new :: "u64 \<Rightarrow> ScriptType \<Rightarrow> UtxoEntry" where
  "UtxoEntry_new uid script_type =
     \<lparr>ue_packed = push_bit SCRIPT_TYPE_BITS uid OR ucast (script_type_to_u8 script_type)\<rparr>"

definition entry_id :: "UtxoEntry \<Rightarrow> u64" where
  "entry_id e = drop_bit SCRIPT_TYPE_BITS (ue_packed e)"

definition entry_script_type :: "UtxoEntry \<Rightarrow> ScriptType" where
  "entry_script_type e = script_type_from_u8 (ucast (ue_packed e AND SCRIPT_TYPE_MASK))"

section \<open>The scanner state\<close>

record StatsScannerState =
  ss_last_id :: u64
  ss_utxo :: "OutPoint \<rightharpoonup> UtxoEntry"
  ss_seen_keys :: "bytes set"
  ss_stats :: Stats
  ss_utxo_hash :: RollingUtxoHash
  ss_missing :: u64

definition StatsScannerState_new :: "u64 \<Rightarrow> StatsScannerState" where
  "StatsScannerState_new utxo_hash_window =
     \<lparr>ss_last_id = 0, ss_utxo = Map.empty, ss_seen_keys = {}, ss_stats = Stats_new,
      ss_utxo_hash = RollingUtxoHash_new utxo_hash_window, ss_missing = 0\<rparr>"

section \<open>Committing a block\<close>

text \<open>The three flags a transaction's inputs set.\<close>

record input_flags =
  any_sp_eligible_input :: bool
  has_non_p2tr_input :: bool
  p2tr_input_seen :: bool

definition commit_input :: "(bytes \<Rightarrow> bytes) \<Rightarrow> u64 \<Rightarrow> u64 \<Rightarrow> PreparedInput
    \<Rightarrow> StatsScannerState \<times> PerBlock \<times> input_flags \<Rightarrow> StatsScannerState \<times> PerBlock \<times> input_flags" where
  "commit_input sha256 last_id_at_block_start last_id_at_tx_start input acc =
     (let (state, per_block, flags) = acc;
          prevout_entry = ss_utxo state (pi_previous_output input);
          state = state\<lparr>ss_utxo := (ss_utxo state)(pi_previous_output input := None)\<rparr>
      in case prevout_entry of
           Some entry \<Rightarrow>
             let prev_id = entry_id entry;
                 prev_script_type = entry_script_type entry;
                 ctx = (if prev_id > last_id_at_tx_start then SameTx
                        else if prev_id > last_id_at_block_start then SameBlock else Earlier);
                 is_p2tr_spend = (prev_script_type = TypeP2tr);
                 stats = stats_record_input_script prev_script_type (stats_record_spend ctx (ss_stats state));
                 per_block = block_record_input_script prev_script_type (record_spend_uid prev_id is_p2tr_spend per_block);
                 class = pi_p2tr_spend_class input;
                 (stats, per_block, flags) =
                   (if is_p2tr_spend
                    then (stats_record_p2tr_spend class ctx stats, block_record_p2tr_spend class per_block,
                      flags\<lparr>p2tr_input_seen := True,
                            any_sp_eligible_input := any_sp_eligible_input flags \<or> sc_path class \<noteq> PathScriptNums\<rparr>)
                    else (stats, per_block, flags\<lparr>has_non_p2tr_input := True\<rparr>))
             in (state\<lparr>ss_stats := stats, ss_utxo_hash := remove_output sha256 (ss_utxo_hash state) prev_id\<rparr>, per_block, flags)
         | None \<Rightarrow> (state\<lparr>ss_missing := ss_missing state + 1\<rparr>, per_block, flags\<lparr>has_non_p2tr_input := True\<rparr>))"

definition commit_output :: "(bytes \<Rightarrow> bytes) \<Rightarrow> bytes \<Rightarrow> bool \<Rightarrow> nat \<times> ScriptType \<times> bytes option
    \<Rightarrow> StatsScannerState \<times> PerBlock \<Rightarrow> StatsScannerState \<times> PerBlock" where
  "commit_output sha256 txid tx_is_nonsp out acc =
     (let (state, per_block) = acc;
          (vout_idx, script_type, xonly_key) = out;
          state = state\<lparr>ss_last_id := ss_last_id state + 1\<rparr>;
          taproot = (script_type = TypeP2tr);
          (reused, seen_keys) = (case xonly_key of
              Some k \<Rightarrow> (k \<in> ss_seen_keys state, insert k (ss_seen_keys state))
            | None \<Rightarrow> (False, ss_seen_keys state));
          stats = ss_stats state;
          stats = stats\<lparr>st_outputs := st_outputs stats + 1\<rparr>;
          stats = stats_record_output_script script_type stats;
          per_block = block_record_output_script script_type per_block;
          stats = (if taproot then
              let stats = stats\<lparr>st_p2tr_outputs := st_p2tr_outputs stats + 1\<rparr>
              in if reused then stats\<lparr>st_p2tr_reused := st_p2tr_reused stats + 1\<rparr> else stats
            else stats);
          per_block = block_record_output taproot reused per_block;
          (stats, per_block) = (if tx_is_nonsp
            then (stats\<lparr>st_nonsp_tx_outputs := st_nonsp_tx_outputs stats + 1\<rparr>,
                  per_block\<lparr>pb_nonsp_tx_outputs := pb_nonsp_tx_outputs per_block + 1\<rparr>)
            else (stats, per_block));
          op = (txid, word_of_nat vout_idx)
      in (state\<lparr>ss_seen_keys := seen_keys, ss_stats := stats,
            ss_utxo := (ss_utxo state)(op \<mapsto> UtxoEntry_new (ss_last_id state) script_type),
            ss_utxo_hash := add_output sha256 (ss_utxo_hash state) (ss_last_id state)\<rparr>, per_block))"

definition commit_prepared_tx :: "(bytes \<Rightarrow> bytes) \<Rightarrow> u64 \<Rightarrow> PreparedTx
    \<Rightarrow> StatsScannerState \<times> PerBlock \<Rightarrow> StatsScannerState \<times> PerBlock" where
  "commit_prepared_tx sha256 last_id_at_block_start tx acc =
     (let (state, per_block) = acc;
          last_id_at_tx_start = ss_last_id state;
          flags = \<lparr>any_sp_eligible_input = False, has_non_p2tr_input = False, p2tr_input_seen = False\<rparr>;
          (state, per_block, flags) = (if pt_is_coinbase tx then (state, per_block, flags)
            else fold (commit_input sha256 last_id_at_block_start last_id_at_tx_start) (pt_inputs tx) (state, per_block, flags));
          tx_is_nonsp = (\<not> pt_is_coinbase tx \<and> p2tr_input_seen flags \<and> \<not> any_sp_eligible_input flags
            \<and> \<not> has_non_p2tr_input flags);
          (state, per_block) = (if tx_is_nonsp
            then (state\<lparr>ss_stats := (ss_stats state)\<lparr>st_nonsp_txs := st_nonsp_txs (ss_stats state) + 1\<rparr>\<rparr>,
                  per_block\<lparr>pb_nonsp_txs := pb_nonsp_txs per_block + 1\<rparr>)
            else (state, per_block))
      in fold (commit_output sha256 (pt_txid tx) tx_is_nonsp)
           (List.enumerate 0 (zip (pt_output_script_types tx) (pt_output_xonly_keys tx))) (state, per_block))"

text \<open>The hash of the block, displayed: the bytes reversed, in hexadecimal.\<close>

definition block_hash_hex :: "(bytes \<Rightarrow> string) \<Rightarrow> bytes \<Rightarrow> string" where
  "block_hash_hex hex hash = hex (rev hash)"

definition commit_frame :: "(bytes \<Rightarrow> bytes) \<Rightarrow> (bytes \<Rightarrow> string) \<Rightarrow> u64 \<Rightarrow> PreparedBlockFrame \<Rightarrow> StatsScannerState
    \<Rightarrow> (BlockStats \<times> StatsScannerState) result" where
  "commit_frame sha256 hex utxo_hash_window frame state =
     (let last_id_at_block_start = ss_last_id state;
          (state, per_block) = fold (commit_prepared_tx sha256 last_id_at_block_start) (pf_txs frame) (state, PerBlock_default);
          (utxo_hash_hex, utxo_hash) = finalize_block hex (ss_utxo_hash state);
          state = state\<lparr>ss_utxo_hash := utxo_hash\<rparr>;
          row = (BlockStats_new (pf_height frame))\<lparr>bk_block_hash := block_hash_hex hex (pf_hash frame),
            bk_last_global_id := ss_last_id state, bk_utxo_hash := utxo_hash_hex, bk_utxo_hash_window := utxo_hash_window\<rparr>
      in and_then (measure_sorted_uid_encoding (ss_last_id state) per_block (ss_stats state) row) (\<lambda>(per_block, stats, row).
         let (_, row) = drain_into per_block row;
             row = row\<lparr>bk_output_count := ss_last_id state - last_id_at_block_start\<rparr>
         in Inr (refresh_classes row, state\<lparr>ss_stats := stats\<rparr>)))"

end
