(* ===== verification/Scan_Invariants.thy ===== *)
theory Scan_Invariants
  imports Stats_Scan
begin

text \<open>
  The invariants of the statistics scan: UTXO entries are packed without loss, the live
  entries carry distinct ids up to the last one given out, so the UIDs a block spends are
  distinct and the panics of the measurement cannot happen; the run's counters are the sums of the
  rows; no spend is ever found in the transaction that created its output.
\<close>

section \<open>Packing\<close>

lemma script_code_bits: "bit (script_type_to_u8 t) n \<Longrightarrow> n < 4"
proof -
  assume b: "bit (script_type_to_u8 t) n"
  have "script_type_to_u8 t = take_bit 4 (script_type_to_u8 t)" by (cases t) simp_all
  with b show "n < 4" by (metis bit_take_bit_iff)
qed

lemma high_bits_clear: "unat (w :: u64) < 2 ^ k \<Longrightarrow> bit w n \<Longrightarrow> n < k"
proof (rule ccontr)
  assume w: "unat w < 2 ^ k" and b: "bit w n" and "\<not> n < k"
  then have "(2 :: nat) ^ k \<le> 2 ^ n" by (intro power_increasing) simp_all
  with w have "unat w div 2 ^ n = 0" by (intro div_less) linarith
  moreover have "bit (unat w) n" using b by (simp add: bit_unsigned_iff)
  ultimately show False by (simp add: bit_iff_odd)
qed

lemma mask_bits: "bit SCRIPT_TYPE_MASK n \<longleftrightarrow> n < 4"
proof -
  have "SCRIPT_TYPE_MASK = mask 4" by (simp add: SCRIPT_TYPE_MASK_def SCRIPT_TYPE_BITS_def mask_eq_exp_minus_1)
  moreover have "bit (mask 4 :: u64) n \<longleftrightarrow> n < 4" by (auto simp: bit_mask_iff)
  ultimately show ?thesis by simp
qed

lemma utxo_entry_roundtrip:
  assumes "unat uid < 2 ^ 60"
  shows "entry_id (UtxoEntry_new uid t) = uid" and "entry_script_type (UtxoEntry_new uid t) = t"
proof -
  show "entry_id (UtxoEntry_new uid t) = uid"
  proof (rule bit_word_eqI)
    fix n assume "n < LENGTH(64)"
    have "bit (entry_id (UtxoEntry_new uid t)) n \<longleftrightarrow> n + 4 < 64 \<and> bit uid n"
      using script_code_bits [of t "n + 4"]
      by (auto simp: entry_id_def UtxoEntry_new_def SCRIPT_TYPE_BITS_def bit_simps add.commute)
    then show "bit (entry_id (UtxoEntry_new uid t)) n = bit uid n"
      using high_bits_clear [OF assms, of n] by auto
  qed
  have "ucast (ue_packed (UtxoEntry_new uid t) AND SCRIPT_TYPE_MASK) = script_type_to_u8 t"
  proof (rule bit_word_eqI)
    fix n assume "n < LENGTH(8)"
    then show "bit (ucast (ue_packed (UtxoEntry_new uid t) AND SCRIPT_TYPE_MASK) :: u8) n = bit (script_type_to_u8 t) n"
      using script_code_bits [of t n]
      by (auto simp: UtxoEntry_new_def SCRIPT_TYPE_BITS_def bit_simps mask_bits)
  qed
  then show "entry_script_type (UtxoEntry_new uid t) = t" by (simp add: entry_script_type_def)
qed

section \<open>The invariant inside a block\<close>

definition live_ids :: "('k \<rightharpoonup> UtxoEntry) \<Rightarrow> u64 set" where
  "live_ids utxo = entry_id ` ran utxo"

definition distinct_ids :: "('k \<rightharpoonup> UtxoEntry) \<Rightarrow> bool" where
  "distinct_ids utxo \<longleftrightarrow> (\<forall>p q e f. utxo p = Some e \<longrightarrow> utxo q = Some f \<longrightarrow> entry_id e = entry_id f \<longrightarrow> p = q)"

definition block_inv :: "StatsScannerState \<Rightarrow> StatsScannerState \<Rightarrow> PerBlock \<Rightarrow> bool" where
  "block_inv s0 s b \<longleftrightarrow> distinct_ids (ss_utxo s)
     \<and> (\<forall>i \<in> live_ids (ss_utxo s) \<union> set (pb_spent_uids b). i \<le> ss_last_id s)
     \<and> live_ids (ss_utxo s) \<inter> set (pb_spent_uids b) = {}
     \<and> distinct (pb_spent_uids b) \<and> distinct (pb_p2tr_spent_uids b)
     \<and> set (pb_p2tr_spent_uids b) \<subseteq> set (pb_spent_uids b)
     \<and> counts_agree (ss_stats s0) (ss_stats s) b
     \<and> pb_output_count b = ss_last_id s - ss_last_id s0
     \<and> st_sorted_spent_ids (ss_stats s) = st_sorted_spent_ids (ss_stats s0)
     \<and> st_sorted_p2tr_spent_ids (ss_stats s) = st_sorted_p2tr_spent_ids (ss_stats s0)
     \<and> st_same_tx_spends (ss_stats s) = 0 \<and> st_p2tr_same_tx_spends (ss_stats s) = 0"

lemma live_idsI: "utxo p = Some e \<Longrightarrow> entry_id e \<in> live_ids utxo"
  by (auto simp: live_ids_def ran_def)

lemma live_idsE: "i \<in> live_ids utxo \<Longrightarrow> \<exists>p e. utxo p = Some e \<and> entry_id e = i"
  by (auto simp: live_ids_def ran_def)

lemma live_ids_remove:
  assumes "distinct_ids utxo"
  shows "distinct_ids (utxo(p := None))"
    and "live_ids (utxo(p := None)) \<subseteq> live_ids utxo"
    and "utxo p = Some e \<Longrightarrow> entry_id e \<notin> live_ids (utxo(p := None))"
proof -
  show "distinct_ids (utxo(p := None))" using assms by (auto simp: distinct_ids_def)
  show "live_ids (utxo(p := None)) \<subseteq> live_ids utxo"
    by (auto dest!: live_idsE split: if_splits intro: live_idsI)
  show "entry_id e \<notin> live_ids (utxo(p := None))" if "utxo p = Some e"
  proof
    assume "entry_id e \<in> live_ids (utxo(p := None))"
    then obtain q f where "q \<noteq> p" "utxo q = Some f" "entry_id f = entry_id e"
      by (auto dest!: live_idsE split: if_splits)
    with assms that show False by (auto simp: distinct_ids_def)
  qed
qed

lemma live_ids_insert:
  assumes "distinct_ids utxo" and "entry_id e \<notin> live_ids utxo"
  shows "distinct_ids (utxo(p \<mapsto> e))" and "live_ids (utxo(p \<mapsto> e)) \<subseteq> insert (entry_id e) (live_ids utxo)"
proof -
  have fresh: "entry_id f \<noteq> entry_id e" if "utxo q = Some f" for q f
    using assms(2) live_idsI [of utxo q f] that by metis
  show "distinct_ids (utxo(p \<mapsto> e))"
    using assms(1) fresh unfolding distinct_ids_def by (auto split: if_splits) metis+
  show "live_ids (utxo(p \<mapsto> e)) \<subseteq> insert (entry_id e) (live_ids utxo)"
    by (auto dest!: live_idsE split: if_splits intro: live_idsI)
qed

lemma block_inv_spend:
  assumes inv: "block_inv s0 s b" and e: "ss_utxo s p = Some e"
    and counts: "counts_agree (ss_stats s0) stats b'" "pb_output_count b' = pb_output_count b"
    and uids: "pb_spent_uids b' = pb_spent_uids b @ [entry_id e]"
      "pb_p2tr_spent_uids b' = pb_p2tr_spent_uids b @ (if taproot then [entry_id e] else [])"
    and keeps: "st_sorted_spent_ids stats = st_sorted_spent_ids (ss_stats s)"
      "st_sorted_p2tr_spent_ids stats = st_sorted_p2tr_spent_ids (ss_stats s)"
      "st_same_tx_spends stats = st_same_tx_spends (ss_stats s)"
      "st_p2tr_same_tx_spends stats = st_p2tr_same_tx_spends (ss_stats s)"
  shows "block_inv s0 (s\<lparr>ss_utxo := (ss_utxo s)(p := None), ss_stats := stats, ss_utxo_hash := h\<rparr>) b'"
proof -
  have d: "distinct_ids (ss_utxo s)" using inv by (simp add: block_inv_def)
  note rem = live_ids_remove [OF d, of p]
  have id: "entry_id e \<in> live_ids (ss_utxo s)" using e by (rule live_idsI)
  have old: "\<forall>i \<in> live_ids (ss_utxo s) \<union> set (pb_spent_uids b). i \<le> ss_last_id s"
    "live_ids (ss_utxo s) \<inter> set (pb_spent_uids b) = {}"
    "distinct (pb_spent_uids b)" "distinct (pb_p2tr_spent_uids b)" "set (pb_p2tr_spent_uids b) \<subseteq> set (pb_spent_uids b)"
    using inv by (simp_all add: block_inv_def)
  have "\<forall>i \<in> live_ids ((ss_utxo s)(p := None)) \<union> set (pb_spent_uids b'). i \<le> ss_last_id s"
    using old(1) rem(2) id uids(1) by auto
  moreover have "live_ids ((ss_utxo s)(p := None)) \<inter> set (pb_spent_uids b') = {}"
    using old(2) rem(2) rem(3) [OF e] uids(1) by auto
  moreover have "distinct (pb_spent_uids b')" "distinct (pb_p2tr_spent_uids b')"
      "set (pb_p2tr_spent_uids b') \<subseteq> set (pb_spent_uids b')"
    using old(2-5) id uids by auto
  ultimately show ?thesis
    using inv rem(1) counts keeps by (simp add: block_inv_def)
qed

lemma commit_input_inv:
  assumes inv: "block_inv s0 s b" and start: "tx_start = ss_last_id s"
    and step: "commit_input sha256 block_start tx_start input (s, b, flags) = (s', b', flags')"
  shows "block_inv s0 s' b' \<and> ss_last_id s' = ss_last_id s"
proof (cases "ss_utxo s (pi_previous_output input)")
  case None
  then have "(ss_utxo s)(pi_previous_output input := None) = ss_utxo s" by (simp add: fun_upd_idem)
  with None step have "s' = s\<lparr>ss_missing := ss_missing s + 1\<rparr>" "b' = b"
    by (auto simp: commit_input_def Let_def)
  with inv show ?thesis by (simp add: block_inv_def)
next
  case (Some e)
  let ?p = "pi_previous_output input"
  let ?t = "entry_script_type e"
  let ?spend = "pi_p2tr_spend_class input"
  let ?taproot = "?t = TypeP2tr"
  have "entry_id e \<le> ss_last_id s" using inv live_idsI [of "ss_utxo s" ?p e] Some by (simp add: block_inv_def)
  then obtain ctx where ctx: "ctx = (if entry_id e > block_start then SameBlock else Earlier)"
    and not_same: "\<not> entry_id e > tx_start" using start by (simp add: not_less)
  let ?stats = "stats_record_input_script ?t (stats_record_spend ctx (ss_stats s))"
  let ?b = "block_record_input_script ?t (record_spend_uid (entry_id e) ?taproot b)"
  have ca: "counts_agree (ss_stats s0) ?stats ?b"
    using inv by (intro counts_agree_scripts counts_agree_spend) (simp add: block_inv_def)
  have s': "s' = s\<lparr>ss_utxo := (ss_utxo s)(?p := None), ss_stats := (if ?taproot then stats_record_p2tr_spend ?spend ctx ?stats else ?stats),
      ss_utxo_hash := remove_output sha256 (ss_utxo_hash s) (entry_id e)\<rparr>"
    and b': "b' = (if ?taproot then block_record_p2tr_spend ?spend ?b else ?b)"
    using step Some not_same ctx by (auto simp: commit_input_def Let_def split: if_splits)
  have "counts_agree (ss_stats s0) (if ?taproot then stats_record_p2tr_spend ?spend ctx ?stats else ?stats) b'"
    unfolding b' using ca counts_agree_p2tr_spend [OF ca] by (cases ?taproot) simp_all
  moreover have "ctx \<noteq> SameTx" by (simp add: ctx)
  ultimately have "block_inv s0 s' b'"
    unfolding s' by (intro block_inv_spend [OF inv Some, where taproot = ?taproot]) (simp_all add: b')
  then show ?thesis by (simp add: s')
qed

lemma commit_inputs_inv:
  assumes "block_inv s0 s b" and "tx_start = ss_last_id s"
    and "fold (commit_input sha256 block_start tx_start) inputs (s, b, flags) = (s', b', flags')"
  shows "block_inv s0 s' b' \<and> ss_last_id s' = ss_last_id s"
  using assms
proof (induction inputs arbitrary: s b flags)
  case (Cons input inputs)
  obtain s1 b1 f1 where st: "commit_input sha256 block_start tx_start input (s, b, flags) = (s1, b1, f1)"
    by (cases "commit_input sha256 block_start tx_start input (s, b, flags)")
  with Cons.IH [of s1 b1 f1] commit_input_inv [OF Cons.prems(1,2) st] Cons.prems show ?case by simp
qed simp


lemma block_inv_create:
  assumes inv: "block_inv s0 s b" and id: "entry_id e = ss_last_id s + 1" "unat (ss_last_id s) < 2 ^ 60 - 1"
    and counts: "counts_agree (ss_stats s0) stats b'" "pb_output_count b' = pb_output_count b + 1"
    and uids: "pb_spent_uids b' = pb_spent_uids b" "pb_p2tr_spent_uids b' = pb_p2tr_spent_uids b"
    and keeps: "st_sorted_spent_ids stats = st_sorted_spent_ids (ss_stats s)"
      "st_sorted_p2tr_spent_ids stats = st_sorted_p2tr_spent_ids (ss_stats s)"
      "st_same_tx_spends stats = st_same_tx_spends (ss_stats s)"
      "st_p2tr_same_tx_spends stats = st_p2tr_same_tx_spends (ss_stats s)"
  shows "block_inv s0 (s\<lparr>ss_last_id := ss_last_id s + 1, ss_seen_keys := ks, ss_stats := stats,
    ss_utxo := (ss_utxo s)(p \<mapsto> e), ss_utxo_hash := h\<rparr>) b'"
proof -
  have succ: "ss_last_id s < ss_last_id s + 1" and up: "i \<le> ss_last_id s \<Longrightarrow> i \<le> ss_last_id s + 1" for i
    using id(2) by (simp_all add: word_less_nat_alt word_le_nat_alt unat_word_ariths)
  have old: "\<forall>i \<in> live_ids (ss_utxo s) \<union> set (pb_spent_uids b). i \<le> ss_last_id s"
    "live_ids (ss_utxo s) \<inter> set (pb_spent_uids b) = {}" "distinct_ids (ss_utxo s)"
    using inv by (simp_all add: block_inv_def)
  have fresh: "entry_id e \<notin> live_ids (ss_utxo s)" "entry_id e \<notin> set (pb_spent_uids b)"
    using old(1) succ id(1) by (auto simp: leD)
  note ins = live_ids_insert [OF old(3) fresh(1), of p]
  have "\<forall>i \<in> live_ids ((ss_utxo s)(p \<mapsto> e)) \<union> set (pb_spent_uids b'). i \<le> ss_last_id s + 1"
    using ins(2) old(1) up id(1) uids(1) by auto
  moreover have "live_ids ((ss_utxo s)(p \<mapsto> e)) \<inter> set (pb_spent_uids b') = {}"
    using ins(2) old(2) fresh(2) uids(1) by auto
  ultimately show ?thesis
    using inv ins(1) counts keeps uids by (simp add: block_inv_def)
qed

lemma commit_output_inv:
  assumes inv: "block_inv s0 s b" and bound: "unat (ss_last_id s) < 2 ^ 60 - 1"
    and step: "commit_output sha256 txid nonsp (vout, t, key) (s, b) = (s', b')"
  shows "block_inv s0 s' b' \<and> ss_last_id s' = ss_last_id s + 1"
proof -
  define seen where "seen = (case key of
      Some k \<Rightarrow> (k \<in> ss_seen_keys s, insert k (ss_seen_keys s)) | None \<Rightarrow> (False, ss_seen_keys s))"
  obtain reused keys where rk: "seen = (reused, keys)" by (cases seen)
  let ?taproot = "t = TypeP2tr"
  let ?s1 = "(stats_record_output_script t (ss_stats s))"
  let ?s2 = "?s1\<lparr>st_outputs := st_outputs ?s1 + 1, st_p2tr_outputs := st_p2tr_outputs ?s1 + (if ?taproot then 1 else 0),
    st_p2tr_reused := st_p2tr_reused ?s1 + (if ?taproot \<and> reused then 1 else 0)\<rparr>"
  let ?b2 = "block_record_output ?taproot reused (block_record_output_script t b)"
  define stats where "stats = (if nonsp then ?s2\<lparr>st_nonsp_tx_outputs := st_nonsp_tx_outputs ?s2 + 1\<rparr> else ?s2)"
  have s': "s' = s\<lparr>ss_last_id := ss_last_id s + 1, ss_seen_keys := keys, ss_stats := stats,
      ss_utxo := (ss_utxo s)((txid, word_of_nat vout) \<mapsto> UtxoEntry_new (ss_last_id s + 1) t),
      ss_utxo_hash := add_output sha256 (ss_utxo_hash s) (ss_last_id s + 1)\<rparr>"
    and b': "b' = (if nonsp then ?b2\<lparr>pb_nonsp_tx_outputs := pb_nonsp_tx_outputs ?b2 + 1\<rparr> else ?b2)"
    using step rk unfolding seen_def
    by (auto simp: commit_output_def stats_def stats_record_output_script_def Let_def split: option.splits)
  have both: "counts_agree (ss_stats s0) ?s2 ?b2"
    using inv by (intro counts_agree_output counts_agree_scripts) (simp add: block_inv_def)
  have ca: "counts_agree (ss_stats s0) stats b'"
    unfolding stats_def b' using both counts_agree_nonsp(2) [OF both] by (cases nonsp) (simp_all only: if_True if_False)
  have "unat (ss_last_id s + 1) < 2 ^ 60" using bound by (simp add: unat_word_ariths)
  then have "entry_id (UtxoEntry_new (ss_last_id s + 1) t) = ss_last_id s + 1" by (rule utxo_entry_roundtrip)
  then have "block_inv s0 s' b'"
    unfolding s' using bound ca by (intro block_inv_create [OF inv]) (simp_all add: b' stats_def)
  then show ?thesis by (simp add: s')
qed


lemma commit_outputs_inv:
  assumes "block_inv s0 s b" and "unat (ss_last_id s) + length outs < 2 ^ 60"
    and "fold (commit_output sha256 txid nonsp) outs (s, b) = (s', b')"
  shows "block_inv s0 s' b' \<and> unat (ss_last_id s') = unat (ss_last_id s) + length outs"
  using assms
proof (induction outs arbitrary: s b)
  case (Cons out outs)
  obtain s1 b1 where st: "commit_output sha256 txid nonsp out (s, b) = (s1, b1)"
    by (cases "commit_output sha256 txid nonsp out (s, b)")
  obtain vout t key where out: "out = (vout, t, key)" by (cases out)
  have "unat (ss_last_id s) < 2 ^ 60 - 1" using Cons.prems(2) by simp
  then have 1: "block_inv s0 s1 b1" "ss_last_id s1 = ss_last_id s + 1"
    using commit_output_inv [OF Cons.prems(1) _ st [unfolded out]] by blast+
  then have last: "unat (ss_last_id s1) = unat (ss_last_id s) + 1"
    using Cons.prems(2) by (simp add: unat_word_ariths)
  with Cons.IH [of s1 b1] 1 Cons.prems st show ?case by simp
qed simp

definition tx_outputs :: "PreparedTx \<Rightarrow> nat" where
  "tx_outputs tx = length (zip (pt_output_script_types tx) (pt_output_xonly_keys tx))"

lemma commit_tx_inv:
  assumes inv: "block_inv s0 s b" and bound: "unat (ss_last_id s) + tx_outputs tx < 2 ^ 60"
    and step: "commit_prepared_tx sha256 block_start tx (s, b) = (s', b')"
  shows "block_inv s0 s' b' \<and> unat (ss_last_id s') = unat (ss_last_id s) + tx_outputs tx"
proof -
  let ?flags = "\<lparr>any_sp_eligible_input = False, has_non_p2tr_input = False, p2tr_input_seen = False\<rparr>"
  let ?outs = "List.enumerate 0 (zip (pt_output_script_types tx) (pt_output_xonly_keys tx))"
  define after_inputs where "after_inputs = (if pt_is_coinbase tx then (s, b, ?flags)
    else fold (commit_input sha256 block_start (ss_last_id s)) (pt_inputs tx) (s, b, ?flags))"
  obtain s1 b1 flags where 1: "after_inputs = (s1, b1, flags)" by (cases after_inputs)
  have i1: "block_inv s0 s1 b1" "ss_last_id s1 = ss_last_id s"
    using 1 inv commit_inputs_inv [OF inv refl] unfolding after_inputs_def by (auto split: if_splits)
  define nonsp where "nonsp \<longleftrightarrow> \<not> pt_is_coinbase tx \<and> p2tr_input_seen flags \<and> \<not> any_sp_eligible_input flags
    \<and> \<not> has_non_p2tr_input flags"
  define counted where "counted = (if nonsp
    then (s1\<lparr>ss_stats := (ss_stats s1)\<lparr>st_nonsp_txs := st_nonsp_txs (ss_stats s1) + 1\<rparr>\<rparr>,
          b1\<lparr>pb_nonsp_txs := pb_nonsp_txs b1 + 1\<rparr>) else (s1, b1))"
  obtain s2 b2 where 2: "counted = (s2, b2)" by (cases counted)
  have fin: "fold (commit_output sha256 (pt_txid tx) nonsp) ?outs (s2, b2) = (s', b')"
    using step 1 2 unfolding after_inputs_def commit_prepared_tx_def counted_def nonsp_def by (simp add: Let_def)
  have i2: "block_inv s0 s2 b2" "ss_last_id s2 = ss_last_id s"
    using 2 i1 counts_agree_nonsp(1) [of "ss_stats s0" "ss_stats s1" b1] unfolding counted_def
    by (auto simp: block_inv_def split: if_splits)
  show ?thesis
    using commit_outputs_inv [OF i2(1) _ fin] bound i2(2) by (simp add: tx_outputs_def)
qed

lemma commit_txs_inv:
  assumes "block_inv s0 s b" and "unat (ss_last_id s) + sum_list (map tx_outputs txs) < 2 ^ 60"
    and "fold (commit_prepared_tx sha256 block_start) txs (s, b) = (s', b')"
  shows "block_inv s0 s' b' \<and> unat (ss_last_id s') = unat (ss_last_id s) + sum_list (map tx_outputs txs)"
  using assms
proof (induction txs arbitrary: s b)
  case (Cons tx txs)
  obtain s1 b1 where st: "commit_prepared_tx sha256 block_start tx (s, b) = (s1, b1)"
    by (cases "commit_prepared_tx sha256 block_start tx (s, b)")
  have "block_inv s0 s1 b1 \<and> unat (ss_last_id s1) = unat (ss_last_id s) + tx_outputs tx"
    using Cons.prems by (intro commit_tx_inv [OF _ _ st]) simp_all
  with Cons.IH [of s1 b1] Cons.prems st show ?case by simp
qed simp

section \<open>A block is committed\<close>

definition scan_ok :: "StatsScannerState \<Rightarrow> bool" where
  "scan_ok s \<longleftrightarrow> distinct_ids (ss_utxo s) \<and> (\<forall>i \<in> live_ids (ss_utxo s). i \<le> ss_last_id s)
     \<and> (\<exists>bs. st_sorted_spent_ids (ss_stats s) = uid_stats_of bs)
     \<and> (\<exists>bs. st_sorted_p2tr_spent_ids (ss_stats s) = uid_stats_of bs)
     \<and> st_same_tx_spends (ss_stats s) = 0 \<and> st_p2tr_same_tx_spends (ss_stats s) = 0"

lemma scan_ok_new: "scan_ok (StatsScannerState_new n)"
  using uid_stats_of_Nil
  by (auto simp: scan_ok_def StatsScannerState_new_def Stats_new_def distinct_ids_def live_ids_def dest: sym)

text \<open>The panics of the measurement cannot happen for UIDs that are distinct and given out.\<close>

lemma measure_ok:
  assumes "distinct uids" and "\<forall>i \<in> set uids. i \<le> anchor" and "unat anchor < 2 ^ 60" and "\<exists>bs. stats = uid_stats_of bs"
  shows "\<exists>est uids' stats'. measure_sorted_uid_stream uids anchor stats = Inr (est, uids', stats')
    \<and> (\<exists>bs. stats' = uid_stats_of bs)"
proof -
  obtain bs where bs: "stats = uid_stats_of bs" using assms(4) by blast
  have "unat ` set uids \<subseteq> {..unat anchor}" using assms(2) by (auto simp: word_le_nat_alt)
  then have "card (unat ` set uids) \<le> card {..unat anchor}" by (intro card_mono) simp_all
  moreover have "card (unat ` set uids) = length uids"
  proof -
    have "inj_on unat (set uids)" by (rule inj_onI) (simp add: word_unat_eq_iff)
    then show ?thesis using assms(1) by (simp add: card_image distinct_card)
  qed
  ultimately have len: "length uids < 2 ^ 64" using assms(3) by simp
  have "\<not> anchor < Min (set uids)" if "uids \<noteq> []"
    using assms(2) that by (metis List.finite_set Min_in leD set_empty)
  then show ?thesis using uid_stream_measured [OF len, of anchor bs] assms(1) bs by auto
qed

lemma counters_unchanged [simp]:
  "stat_counters (s\<lparr>st_sorted_spent_ids := x, st_sorted_p2tr_spent_ids := y\<rparr>) = stat_counters s"
  by (simp add: stat_counters_def)

lemma measure_encoding_ok:
  assumes inv: "block_inv s0 s b" and "scan_ok s0" and "unat (ss_last_id s) < 2 ^ 60"
  shows "\<exists>us vs xs ys e f. measure_sorted_uid_encoding (ss_last_id s) b (ss_stats s) row
      = Inr (b\<lparr>pb_spent_uids := us, pb_p2tr_spent_uids := vs\<rparr>,
             (ss_stats s)\<lparr>st_sorted_spent_ids := uid_stats_of xs, st_sorted_p2tr_spent_ids := uid_stats_of ys\<rparr>,
             row\<lparr>bk_sorted_spent := e, bk_sorted_p2tr_spent := f\<rparr>)"
proof -
  have uids: "distinct (pb_spent_uids b)" "distinct (pb_p2tr_spent_uids b)"
      "\<forall>i \<in> set (pb_spent_uids b). i \<le> ss_last_id s" "\<forall>i \<in> set (pb_p2tr_spent_uids b). i \<le> ss_last_id s"
    and sorted: "\<exists>bs. st_sorted_spent_ids (ss_stats s) = uid_stats_of bs"
      "\<exists>bs. st_sorted_p2tr_spent_ids (ss_stats s) = uid_stats_of bs"
    using inv assms(2) by (auto simp: block_inv_def scan_ok_def)
  obtain e us xs where 1: "measure_sorted_uid_stream (pb_spent_uids b) (ss_last_id s) (st_sorted_spent_ids (ss_stats s))
      = Inr (e, us, uid_stats_of xs)"
    using measure_ok [OF uids(1,3) assms(3) sorted(1)] by blast
  obtain f vs ys where 2: "measure_sorted_uid_stream (pb_p2tr_spent_uids b) (ss_last_id s) (st_sorted_p2tr_spent_ids (ss_stats s))
      = Inr (f, vs, uid_stats_of ys)"
    using measure_ok [OF uids(2,4) assms(3) sorted(2)] by blast
  show ?thesis
    by (intro exI [of _ us] exI [of _ vs] exI [of _ xs] exI [of _ ys] exI [of _ e] exI [of _ f])
       (simp add: measure_sorted_uid_encoding_def 1 2 Let_def)
qed

definition frame_outputs :: "PreparedBlockFrame \<Rightarrow> nat" where
  "frame_outputs frame = sum_list (map tx_outputs (pf_txs frame))"

text \<open>What a committed block leaves behind.\<close>

definition frame_counted :: "StatsScannerState \<Rightarrow> BlockStats \<Rightarrow> StatsScannerState \<Rightarrow> bool" where
  "frame_counted s row s' \<longleftrightarrow> stat_counters (ss_stats s') = map2 (+) (stat_counters (ss_stats s)) (row_counters row)
     \<and> st_script_outputs (ss_stats s') = merge_types (st_script_outputs (ss_stats s)) (bk_script_outputs row)
     \<and> st_script_inputs (ss_stats s') = merge_types (st_script_inputs (ss_stats s)) (bk_script_inputs row)"

lemma commit_frame_ok:
  assumes ok: "scan_ok s" and bound: "unat (ss_last_id s) + frame_outputs frame < 2 ^ 60"
  shows "\<exists>row s'. commit_frame sha256 hex w frame s = Inr (row, s') \<and> scan_ok s' \<and> frame_counted s row s'
    \<and> unat (ss_last_id s') = unat (ss_last_id s) + frame_outputs frame"
proof -
  obtain s1 b1 where 1: "fold (commit_prepared_tx sha256 (ss_last_id s)) (pf_txs frame) (s, PerBlock_default) = (s1, b1)"
    by (cases "fold (commit_prepared_tx sha256 (ss_last_id s)) (pf_txs frame) (s, PerBlock_default)")
  have "block_inv s s PerBlock_default"
    using ok counts_agree_start by (auto simp: block_inv_def scan_ok_def PerBlock_default_def)
  then have inv: "block_inv s s1 b1" and last: "unat (ss_last_id s1) = unat (ss_last_id s) + frame_outputs frame"
    using commit_txs_inv [OF _ _ 1] bound by (simp_all add: frame_outputs_def)
  obtain hash_hex hash where h: "finalize_block hex (ss_utxo_hash s1) = (hash_hex, hash)"
    by (cases "finalize_block hex (ss_utxo_hash s1)")
  define s2 where "s2 = s1\<lparr>ss_utxo_hash := hash\<rparr>"
  have inv2: "block_inv s s2 b1" using inv by (simp add: block_inv_def s2_def)
  have last2: "unat (ss_last_id s2) < 2 ^ 60" using last bound by (simp add: s2_def)
  let ?row = "(BlockStats_new (pf_height frame))\<lparr>bk_block_hash := block_hash_hex hex (pf_hash frame),
    bk_last_global_id := ss_last_id s2, bk_utxo_hash := hash_hex, bk_utxo_hash_window := w\<rparr>"
  obtain us vs xs ys e f where m: "measure_sorted_uid_encoding (ss_last_id s2) b1 (ss_stats s2) ?row
      = Inr (b1\<lparr>pb_spent_uids := us, pb_p2tr_spent_uids := vs\<rparr>,
             (ss_stats s2)\<lparr>st_sorted_spent_ids := uid_stats_of xs, st_sorted_p2tr_spent_ids := uid_stats_of ys\<rparr>,
             ?row\<lparr>bk_sorted_spent := e, bk_sorted_p2tr_spent := f\<rparr>)"
    using measure_encoding_ok [OF inv2 ok last2, of ?row] by blast
  let ?s' = "s2\<lparr>ss_stats := (ss_stats s2)\<lparr>st_sorted_spent_ids := uid_stats_of xs, st_sorted_p2tr_spent_ids := uid_stats_of ys\<rparr>\<rparr>"
  obtain row where row: "commit_frame sha256 hex w frame s = Inr (row, ?s')"
    and cells: "row_counters row = (block_counters b1)[1 := ss_last_id s2 - ss_last_id s]"
      "bk_script_outputs row = pb_script_outputs b1" "bk_script_inputs row = pb_script_inputs b1"
    using m by (simp add: commit_frame_def 1 h Let_def drain_into_def refresh_classes_def s2_def row_counters_def block_counters_def)
  have "(block_counters b1)[1 := ss_last_id s2 - ss_last_id s] = block_counters b1"
    using inv2 by (simp add: block_inv_def block_counters_def)
  then have "frame_counted s row ?s'"
    using inv2 cells by (simp add: frame_counted_def block_inv_def counts_agree_def)
  moreover have "scan_ok ?s'" using inv2 by (auto simp: scan_ok_def block_inv_def)
  ultimately show ?thesis using row last by (intro exI [of _ row] exI [of _ ?s']) (simp add: s2_def)
qed

section \<open>A run of blocks\<close>

text \<open>The serial stage over a list of prepared blocks, with the rows it emits.\<close>

definition commit_step :: "(bytes \<Rightarrow> bytes) \<Rightarrow> (bytes \<Rightarrow> string) \<Rightarrow> u64 \<Rightarrow> PreparedBlockFrame
    \<Rightarrow> BlockStats list \<times> StatsScannerState \<Rightarrow> (BlockStats list \<times> StatsScannerState) result" where
  "commit_step sha256 hex w frame acc =
     and_then (commit_frame sha256 hex w frame (snd acc)) (\<lambda>(row, state). Inr (fst acc @ [row], state))"

lemma commit_run:
  assumes "scan_ok s" and "unat (ss_last_id s) + sum_list (map frame_outputs frames) < 2 ^ 60"
  shows "\<exists>rows s'. try_fold (commit_step sha256 hex w) frames (rows0, s) = Inr (rows0 @ rows, s')
    \<and> length rows = length frames \<and> scan_ok s'
    \<and> unat (ss_last_id s') = unat (ss_last_id s) + sum_list (map frame_outputs frames)
    \<and> stat_counters (ss_stats s') = foldl (map2 (+)) (stat_counters (ss_stats s)) (map row_counters rows)
    \<and> st_script_outputs (ss_stats s') = foldl merge_types (st_script_outputs (ss_stats s)) (map bk_script_outputs rows)
    \<and> st_script_inputs (ss_stats s') = foldl merge_types (st_script_inputs (ss_stats s)) (map bk_script_inputs rows)"
  using assms
proof (induction frames arbitrary: s rows0)
  case Nil
  then show ?case by (intro exI [of _ "[]"]) simp
next
  case (Cons frame frames)
  then obtain row s1 where 1: "commit_frame sha256 hex w frame s = Inr (row, s1)" "scan_ok s1" "frame_counted s row s1"
      "unat (ss_last_id s1) = unat (ss_last_id s) + frame_outputs frame"
    using commit_frame_ok [OF Cons.prems(1), of frame sha256 hex w] by auto
  obtain rows s' where 2: "try_fold (commit_step sha256 hex w) frames (rows0 @ [row], s1) = Inr ((rows0 @ [row]) @ rows, s')"
    "length rows = length frames" "scan_ok s'"
    "unat (ss_last_id s') = unat (ss_last_id s1) + sum_list (map frame_outputs frames)"
    "stat_counters (ss_stats s') = foldl (map2 (+)) (stat_counters (ss_stats s1)) (map row_counters rows)"
    "st_script_outputs (ss_stats s') = foldl merge_types (st_script_outputs (ss_stats s1)) (map bk_script_outputs rows)"
    "st_script_inputs (ss_stats s') = foldl merge_types (st_script_inputs (ss_stats s1)) (map bk_script_inputs rows)"
    using Cons.IH [of s1 "rows0 @ [row]"] 1 Cons.prems(2) by (auto simp: add.assoc)
  have "try_fold (commit_step sha256 hex w) (frame # frames) (rows0, s) = Inr (rows0 @ row # rows, s')"
    using 1(1) 2(1) by (simp add: commit_step_def)
  with 1 2 show ?case
    by (intro exI [of _ "row # rows"] exI [of _ s']) (simp add: frame_counted_def)
qed

section \<open>The UTXO map is the set of unspent outputs\<close>

text \<open>
  The abstract UTXO set: an unspent outpoint with the number of the output in creation order and
  its script type. Inputs remove, outputs add with the next number.
\<close>

type_synonym utxo_set = "u64 \<times> (OutPoint \<rightharpoonup> u64 \<times> ScriptType)"

definition utxo_view :: "StatsScannerState \<Rightarrow> utxo_set" where
  "utxo_view s = (ss_last_id s, \<lambda>p. map_option (\<lambda>e. (entry_id e, entry_script_type e)) (ss_utxo s p))"

definition utxo_create :: "bytes \<Rightarrow> nat \<times> ScriptType \<Rightarrow> utxo_set \<Rightarrow> utxo_set" where
  "utxo_create txid out u = (fst u + 1, (snd u)((txid, word_of_nat (fst out)) \<mapsto> (fst u + 1, snd out)))"

definition utxo_tx :: "PreparedTx \<Rightarrow> utxo_set \<Rightarrow> utxo_set" where
  "utxo_tx tx u =
     (let spent = (if pt_is_coinbase tx then {} else pi_previous_output ` set (pt_inputs tx))
      in fold (utxo_create (pt_txid tx))
           (List.enumerate 0 (map fst (zip (pt_output_script_types tx) (pt_output_xonly_keys tx))))
           (fst u, \<lambda>p. if p \<in> spent then None else snd u p))"

lemma fst_utxo_view [simp]: "fst (utxo_view s) = ss_last_id s"
  by (simp add: utxo_view_def)

lemma utxo_view_frame [simp]:
  "utxo_view (s\<lparr>ss_stats := st\<rparr>) = utxo_view s" "utxo_view (s\<lparr>ss_utxo_hash := h\<rparr>) = utxo_view s"
  by (simp_all add: utxo_view_def)

lemma view_input:
  "utxo_view (fst (commit_input sha256 block_start tx_start input (s, b, flags)))
    = (ss_last_id s, (snd (utxo_view s))(pi_previous_output input := None))"
  by (auto simp: commit_input_def Let_def utxo_view_def fun_eq_iff split: option.splits)

lemma view_inputs:
  "utxo_view (fst (fold (commit_input sha256 block_start tx_start) inputs (s, b, flags)))
    = (ss_last_id s, \<lambda>p. if p \<in> pi_previous_output ` set inputs then None else snd (utxo_view s) p)"
proof (induction inputs arbitrary: s b flags)
  case Nil
  then show ?case by (simp add: utxo_view_def)
next
  case (Cons input inputs)
  obtain s1 b1 f1 where st: "commit_input sha256 block_start tx_start input (s, b, flags) = (s1, b1, f1)"
    by (cases "commit_input sha256 block_start tx_start input (s, b, flags)")
  have v: "utxo_view s1 = (ss_last_id s, (snd (utxo_view s))(pi_previous_output input := None))"
    using view_input [of sha256 block_start tx_start input s b flags] st by simp
  then have "ss_last_id s1 = ss_last_id s" by (simp add: utxo_view_def)
  with Cons.IH [of s1 b1 f1] v st show ?case by (auto simp: fun_eq_iff)
qed

lemma view_output:
  assumes "unat (ss_last_id s) < 2 ^ 60 - 1"
  shows "utxo_view (fst (commit_output sha256 txid nonsp (vout, t, key) (s, b))) = utxo_create txid (vout, t) (utxo_view s)"
proof -
  have "unat (ss_last_id s + 1) < 2 ^ 60" using assms by (simp add: unat_word_ariths)
  note r = utxo_entry_roundtrip [OF this, of t]
  then show ?thesis
    by (auto simp: commit_output_def Let_def utxo_view_def utxo_create_def fun_eq_iff split: option.splits)
qed

lemma view_outputs:
  assumes "unat (ss_last_id s) + length outs < 2 ^ 60"
  shows "utxo_view (fst (fold (commit_output sha256 txid nonsp) (List.enumerate n outs) (s, b)))
    = fold (utxo_create txid) (List.enumerate n (map fst outs)) (utxo_view s)"
  using assms
proof (induction outs arbitrary: n s b)
  case (Cons out outs)
  obtain t key where out: "out = (t, key)" by (cases out)
  obtain s1 b1 where st: "commit_output sha256 txid nonsp (n, t, key) (s, b) = (s1, b1)"
    by (cases "commit_output sha256 txid nonsp (n, t, key) (s, b)")
  have v: "utxo_view s1 = utxo_create txid (n, t) (utxo_view s)"
    using view_output [of s sha256 txid nonsp n t key b] Cons.prems st by simp
  then have "ss_last_id s1 = ss_last_id s + 1" by (simp add: utxo_view_def utxo_create_def)
  then have "unat (ss_last_id s1) + length outs < 2 ^ 60"
    using Cons.prems by (simp add: unat_word_ariths)
  from Cons.IH [OF this, of "Suc n" b1] v st out show ?case by simp
qed simp

lemma view_tx:
  assumes "unat (ss_last_id s) + tx_outputs tx < 2 ^ 60"
  shows "utxo_view (fst (commit_prepared_tx sha256 block_start tx (s, b))) = utxo_tx tx (utxo_view s)"
proof -
  let ?flags = "\<lparr>any_sp_eligible_input = False, has_non_p2tr_input = False, p2tr_input_seen = False\<rparr>"
  let ?spent = "if pt_is_coinbase tx then {} else pi_previous_output ` set (pt_inputs tx)"
  define after_inputs where "after_inputs = (if pt_is_coinbase tx then (s, b, ?flags)
    else fold (commit_input sha256 block_start (ss_last_id s)) (pt_inputs tx) (s, b, ?flags))"
  obtain s1 b1 flags where 1: "after_inputs = (s1, b1, flags)" by (cases after_inputs)
  have v1: "utxo_view s1 = (ss_last_id s, \<lambda>p. if p \<in> ?spent then None else snd (utxo_view s) p)"
    using 1 view_inputs [of sha256 block_start "ss_last_id s" "pt_inputs tx" s b ?flags]
    unfolding after_inputs_def by (auto simp: utxo_view_def split: if_splits)
  have out: "utxo_view (fst (fold (commit_output sha256 (pt_txid tx) nonsp)
      (List.enumerate 0 (zip (pt_output_script_types tx) (pt_output_xonly_keys tx))) (s2, b2))) = utxo_tx tx (utxo_view s)"
    if "utxo_view s2 = utxo_view s1" for nonsp s2 b2
  proof -
    have "ss_last_id s2 = ss_last_id s" using that v1 fst_utxo_view [of s2] by simp
    then have "unat (ss_last_id s2) + length (zip (pt_output_script_types tx) (pt_output_xonly_keys tx)) < 2 ^ 60"
      using assms by (simp add: tx_outputs_def)
    from view_outputs [OF this] show ?thesis
      unfolding that v1 utxo_tx_def Let_def by simp
  qed
  from out 1 show ?thesis
    unfolding after_inputs_def commit_prepared_tx_def by (simp add: Let_def split: if_split)
qed

lemma view_txs:
  assumes "unat (ss_last_id s) + sum_list (map tx_outputs txs) < 2 ^ 60" and "block_inv s0 s b"
  shows "utxo_view (fst (fold (commit_prepared_tx sha256 block_start) txs (s, b))) = fold utxo_tx txs (utxo_view s)"
  using assms
proof (induction txs arbitrary: s b)
  case (Cons tx txs)
  obtain s1 b1 where st: "commit_prepared_tx sha256 block_start tx (s, b) = (s1, b1)"
    by (cases "commit_prepared_tx sha256 block_start tx (s, b)")
  have i: "block_inv s0 s1 b1" "unat (ss_last_id s1) = unat (ss_last_id s) + tx_outputs tx"
    using commit_tx_inv [OF Cons.prems(2) _ st] Cons.prems(1) by simp_all
  have "utxo_view s1 = utxo_tx tx (utxo_view s)"
    using view_tx [of s tx sha256 block_start b] Cons.prems(1) st by simp
  with Cons.IH [of s1 b1] i Cons.prems(1) st show ?case by simp
qed simp

lemma commit_frame_view:
  assumes "scan_ok s" and "unat (ss_last_id s) + frame_outputs frame < 2 ^ 60"
    and "commit_frame sha256 hex w frame s = Inr (row, s')"
  shows "utxo_view s' = fold utxo_tx (pf_txs frame) (utxo_view s)"
proof -
  have "block_inv s s PerBlock_default"
    using assms(1) counts_agree_start by (auto simp: block_inv_def scan_ok_def PerBlock_default_def)
  note txs = view_txs [OF assms(2) [unfolded frame_outputs_def] this, of sha256 "ss_last_id s"]
  obtain s1 b1 where 1: "fold (commit_prepared_tx sha256 (ss_last_id s)) (pf_txs frame) (s, PerBlock_default) = (s1, b1)"
    by (cases "fold (commit_prepared_tx sha256 (ss_last_id s)) (pf_txs frame) (s, PerBlock_default)")
  obtain h u where 2: "finalize_block hex (ss_utxo_hash s1) = (h, u)" by (cases "finalize_block hex (ss_utxo_hash s1)")
  obtain stats where "s' = s1\<lparr>ss_utxo_hash := u, ss_stats := stats\<rparr>"
    using assms(3) 1 2 by (auto simp: commit_frame_def and_then_eq_Inr drain_into_def Let_def)
  then show ?thesis using txs 1 by simp
qed

lemma commit_run_view:
  assumes "scan_ok s" and "unat (ss_last_id s) + sum_list (map frame_outputs frames) < 2 ^ 60"
    and "try_fold (commit_step sha256 hex w) frames (rows0, s) = Inr (rows, s')"
  shows "utxo_view s' = fold utxo_tx (concat (map pf_txs frames)) (utxo_view s)"
  using assms
proof (induction frames arbitrary: s rows0)
  case (Cons frame frames)
  obtain row s1 where 1: "commit_frame sha256 hex w frame s = Inr (row, s1)" "scan_ok s1"
      "unat (ss_last_id s1) = unat (ss_last_id s) + frame_outputs frame"
    using commit_frame_ok [OF Cons.prems(1), of frame sha256 hex w] Cons.prems(2) by auto
  have "utxo_view s1 = fold utxo_tx (pf_txs frame) (utxo_view s)"
    using commit_frame_view [OF Cons.prems(1) _ 1(1)] Cons.prems(2) by simp
  with Cons.IH [of s1 "rows0 @ [row]"] 1 Cons.prems show ?case
    by (simp add: commit_step_def add.assoc)
qed simp

text \<open>
  C32: Scanning a run of prepared blocks from the start never panics, as long as fewer than \<open>2 ^ 60\<close> outputs are
  created: it gives one row per block, every counter of the run is the sum of the rows,
  the script types are those of the rows together, and the counters of spends within
  the creating transaction stay zero.
\<close>

theorem stats_run_totals:
  assumes "sum_list (map frame_outputs frames) < 2 ^ 60"
  shows "\<exists>rows s'. try_fold (commit_step sha256 hex w) frames ([], StatsScannerState_new w) = Inr (rows, s')
    \<and> length rows = length frames
    \<and> stat_counters (ss_stats s') = foldl (map2 (+)) (replicate 13 0) (map row_counters rows)
    \<and> st_script_outputs (ss_stats s') = foldl merge_types TypeCounts_default (map bk_script_outputs rows)
    \<and> st_script_inputs (ss_stats s') = foldl merge_types TypeCounts_default (map bk_script_inputs rows)
    \<and> st_same_tx_spends (ss_stats s') = 0 \<and> st_p2tr_same_tx_spends (ss_stats s') = 0"
proof -
  have new: "stat_counters (ss_stats (StatsScannerState_new w)) = replicate 13 0"
    "st_script_outputs (ss_stats (StatsScannerState_new w)) = TypeCounts_default"
    "st_script_inputs (ss_stats (StatsScannerState_new w)) = TypeCounts_default"
    "ss_last_id (StatsScannerState_new w) = 0"
    by (simp_all add: StatsScannerState_new_def Stats_new_def stat_counters_def eval_nat_numeral)
  from commit_run [OF scan_ok_new [of w], of frames sha256 hex w "[]"] assms show ?thesis
    unfolding new by (auto simp: scan_ok_def)
qed

text \<open>
  C31: The UTXO map of a scan from the start is exactly the set of unspent outputs of the
  scanned blocks, each with its number in creation order and its script type unpacked without loss.
\<close>

theorem stats_utxo_refines:
  assumes "sum_list (map frame_outputs frames) < 2 ^ 60"
    and "try_fold (commit_step sha256 hex w) frames ([], StatsScannerState_new w) = Inr (rows, s')"
  shows "utxo_view s' = fold utxo_tx (concat (map pf_txs frames)) (0, Map.empty)"
  using commit_run_view [OF scan_ok_new [of w] _ assms(2)] assms(1)
  by (simp add: utxo_view_def StatsScannerState_new_def)

definition sample_prepared :: PreparedBlockFrame where
  "sample_prepared = \<lparr>pf_height = 5, pf_hash = [7], pf_txs =
     [\<lparr>pt_txid = [1], pt_is_coinbase = True, pt_inputs = [], pt_output_script_types = [TypeP2tr],
       pt_output_xonly_keys = [Some [9]]\<rparr>,
      \<lparr>pt_txid = [2], pt_is_coinbase = False, pt_inputs =
         [\<lparr>pi_previous_output = ([1], 0), pi_p2tr_spend_class = \<lparr>sc_path = PathKey, sc_inscription = False\<rparr>\<rparr>],
       pt_output_script_types = [TypeP2wpkh], pt_output_xonly_keys = [None]\<rparr>]\<rparr>"

lemma sample_prepared_outputs: "sum_list (map frame_outputs [sample_prepared]) = 2"
  by (simp add: sample_prepared_def frame_outputs_def tx_outputs_def)

theorem stats_run_totals_witness:
  "\<exists>rows s'. try_fold (commit_step (\<lambda>_. replicate 32 1) (\<lambda>_. ''00'') 3) [sample_prepared] ([], StatsScannerState_new 3) = Inr (rows, s')
    \<and> length rows = 1"
proof -
  have "sum_list (map frame_outputs [sample_prepared]) < 2 ^ 60" unfolding sample_prepared_outputs by simp
  from stats_run_totals [OF this, of "\<lambda>_. replicate 32 1" "\<lambda>_. ''00''" 3] show ?thesis by auto
qed

theorem stats_utxo_refines_witness:
  "\<exists>rows s'. try_fold (commit_step (\<lambda>_. replicate 32 1) (\<lambda>_. ''00'') 3) [sample_prepared] ([], StatsScannerState_new 3) = Inr (rows, s')
    \<and> snd (utxo_view s') ([2], 0) = Some (2, TypeP2wpkh) \<and> snd (utxo_view s') ([1], 0) = None"
proof -
  have bound: "sum_list (map frame_outputs [sample_prepared]) < 2 ^ 60" unfolding sample_prepared_outputs by simp
  obtain rows s' where run: "try_fold (commit_step (\<lambda>_. replicate 32 1) (\<lambda>_. ''00'') 3) [sample_prepared] ([], StatsScannerState_new 3)
      = Inr (rows, s')"
    using commit_run [OF scan_ok_new [of 3], of "[sample_prepared]" "\<lambda>_. replicate 32 1" "\<lambda>_. ''00''" 3 "[]"] bound
    by (auto simp: StatsScannerState_new_def)
  have "utxo_view s' = fold utxo_tx (concat (map pf_txs [sample_prepared])) (0, Map.empty)"
    by (rule stats_utxo_refines [OF bound run])
  with run show ?thesis by (simp add: sample_prepared_def utxo_tx_def utxo_create_def)
qed

end
