(* ===== verification/Csv_Sink.thy ===== *)
theory Csv_Sink
  imports Stats_Rows Decimal
begin

text \<open>
  The sinks of the statistics scan (\<^verbatim>\<open>stats/src/sinks.rs\<close>, \<^verbatim>\<open>sinks/csv.rs\<close>, \<^verbatim>\<open>sinks/fanout.rs\<close>): the trait
  as a record of operations on a sink's state, the CSV sink with its buffered file, and the
  fan-out to several sinks. What a scan relies on is the locale \<open>row_sink\<close>; the CSV sink that
  is opened for appending satisfies it. Failures of the file system are not modelled.
\<close>

section \<open>The sink interface\<close>

record 's StatsSink =
  sk_name :: string
  sk_emit_block :: "BlockStats \<Rightarrow> 's \<Rightarrow> 's \<times> unit result"
  sk_emit_run :: "Stats \<Rightarrow> 's \<Rightarrow> 's \<times> unit result"
  sk_rollback_to_height :: "u64 \<Rightarrow> 's \<Rightarrow> 's \<times> unit result"
  sk_flush :: "'s \<Rightarrow> 's \<times> unit result"

definition default_emit_run :: "Stats \<Rightarrow> 's \<Rightarrow> 's \<times> unit result" where
  "default_emit_run stats s = (s, Inr ())"

section \<open>The file behind a buffered writer\<close>

text \<open>
  A buffered writer over a file: the bytes of the file, the position of the writer (a file opened
  for appending always writes at its end) and the bytes still in the buffer. When buffered bytes
  move to the file is up to \<open>tokio::io::BufWriter\<close>: the parameter \<open>spill\<close> gives the number of bytes that do so
  at a write, from what is buffered and what is written. A flush moves all of them.
\<close>

type_synonym spill = "string \<Rightarrow> string \<Rightarrow> nat"

record csv_state =
  cs_append :: bool
  cs_file :: string
  cs_offset :: nat
  cs_buffer :: string

definition file_write :: "string \<Rightarrow> csv_state \<Rightarrow> csv_state" where
  "file_write bs s =
     (if cs_append s then s\<lparr>cs_file := cs_file s @ bs\<rparr>
      else let at = cs_offset s; f = cs_file s in
        s\<lparr>cs_file := take at f @ replicate (at - length f) (CHR 0x00) @ bs @ drop (at + length bs) f,
          cs_offset := at + length bs\<rparr>)"

definition flush_buf :: "csv_state \<Rightarrow> csv_state" where
  "flush_buf s = (file_write (cs_buffer s) s)\<lparr>cs_buffer := []\<rparr>"

definition write_all :: "spill \<Rightarrow> string \<Rightarrow> csv_state \<Rightarrow> csv_state" where
  "write_all spill bs s =
     (let pending = cs_buffer s @ bs; k = spill (cs_buffer s) bs
      in (file_write (take k pending) s)\<lparr>cs_buffer := drop k pending\<rparr>)"

section \<open>Text\<close>

abbreviation LF :: char where "LF \<equiv> CHR 0x0A"

abbreviation CR :: char where "CR \<equiv> CHR 0x0D"

text \<open>\<open>to_string\<close> of an unsigned integer of any width, and \<open>join(",")\<close>.\<close>

definition show_word :: "'a :: len word \<Rightarrow> string" where
  "show_word w = digits (unat w)"

fun join_comma :: "string list \<Rightarrow> string" where
  "join_comma [] = []"
| "join_comma [x] = x"
| "join_comma (x # xs) = x @ '','' @ join_comma xs"

text \<open>\<open>str::lines\<close>: a line ends at a line feed, with a carriage return before it removed.\<close>

definition strip_cr :: "string \<Rightarrow> string" where
  "strip_cr l = (if l \<noteq> [] \<and> last l = CR then butlast l else l)"

fun lines_from :: "string \<Rightarrow> string \<Rightarrow> string list" where
  "lines_from cur [] = (if cur = [] then [] else [cur])"
| "lines_from cur (c # cs) = (if c = LF then strip_cr cur # lines_from [] cs else lines_from (cur @ [c]) cs)"

definition str_lines :: "string \<Rightarrow> string list" where
  "str_lines s = lines_from [] s"

section \<open>The CSV sink\<close>

definition BLOCK_STATS_HEADER :: string where
  "BLOCK_STATS_HEADER =
     ''height,block_hash,stats_version,last_global_id,output_count,p2tr_output_count,p2tr_reused_count,''
     @ ''spends,''
     @ ''p2tr_spends,p2tr_keypath_spends,p2tr_scriptpath_spends,p2tr_nums_spends,''
     @ ''p2tr_sp_eligible_spends,p2tr_inscription_spends,p2tr_nums_and_inscription_spends,''
     @ ''nonsp_txs,nonsp_tx_outputs,''
     @ ''out_p2pk,out_p2pkh,out_p2sh,out_p2wpkh,out_p2wsh,out_p2tr,out_p2a,out_op_return,out_unknown,''
     @ ''in_p2pk,in_p2pkh,in_p2sh,in_p2wpkh,in_p2wsh,in_p2tr,in_p2a,in_op_return,in_unknown,''
     @ ''sorted_spent_values,sorted_spent_leb128_bytes,''
     @ ''sorted_spent_rice_best_k,sorted_spent_rice_best_bits,sorted_spent_elias_delta_bits,sorted_spent_ef_bits_with_64bit_base,''
     @ ''sorted_p2tr_spent_values,sorted_p2tr_spent_leb128_bytes,''
     @ ''sorted_p2tr_spent_rice_best_k,sorted_p2tr_spent_rice_best_bits,sorted_p2tr_spent_elias_delta_bits,sorted_p2tr_spent_ef_bits_with_64bit_base,''
     @ ''utxo_hash,utxo_hash_window''"

definition csv_create :: "spill \<Rightarrow> csv_state" where
  "csv_create spill = write_all spill [LF] (write_all spill BLOCK_STATS_HEADER
     \<lparr>cs_append = False, cs_file = [], cs_offset = 0, cs_buffer = []\<rparr>)"

definition csv_append :: "spill \<Rightarrow> string \<Rightarrow> csv_state" where
  "csv_append spill content =
     (let s = \<lparr>cs_append = True, cs_file = content, cs_offset = 0, cs_buffer = []\<rparr>
      in if length content = 0 then write_all spill [LF] (write_all spill BLOCK_STATS_HEADER s) else s)"

definition type_fields :: "TypeCounts \<Rightarrow> string list" where
  "type_fields c = [show_word (tc_p2pk c), show_word (tc_p2pkh c), show_word (tc_p2sh c), show_word (tc_p2wpkh c),
     show_word (tc_p2wsh c), show_word (tc_p2tr c), show_word (tc_p2a c), show_word (tc_op_return c), show_word (tc_unknown c)]"

definition estimate_fields :: "SortedUidBlockEstimate \<Rightarrow> string list" where
  "estimate_fields e = [show_word (be_values e), show_word (be_leb128_bytes e), digits (be_rice_best_k e),
     show_word (be_rice_best_bits e), show_word (be_elias_delta_bits e), show_word (be_ef_bits_with_64bit_base e)]"

definition csv_fields :: "BlockStats \<Rightarrow> string list" where
  "csv_fields r =
     [show_word (bk_height r), bk_block_hash r, show_word (bk_stats_version r), show_word (bk_last_global_id r),
      show_word (bk_output_count r), show_word (bk_p2tr_output_count r), show_word (bk_p2tr_reused_count r),
      show_word (bk_spends r), show_word (bk_p2tr_spends r), show_word (bk_p2tr_keypath_spends r),
      show_word (bk_p2tr_scriptpath_spends r), show_word (bk_p2tr_nums_spends r), show_word (bk_p2tr_sp_eligible_spends r),
      show_word (bk_p2tr_inscription_spends r), show_word (bk_p2tr_nums_and_inscription_spends r),
      show_word (bk_nonsp_txs r), show_word (bk_nonsp_tx_outputs r)]
     @ type_fields (bk_script_outputs r) @ type_fields (bk_script_inputs r)
     @ estimate_fields (bk_sorted_spent r) @ estimate_fields (bk_sorted_p2tr_spent r)
     @ [bk_utxo_hash r, show_word (bk_utxo_hash_window r)]"

definition csv_line :: "BlockStats \<Rightarrow> string" where
  "csv_line r = join_comma (csv_fields r)"

definition csv_emit_block :: "spill \<Rightarrow> BlockStats \<Rightarrow> csv_state \<Rightarrow> csv_state \<times> unit result" where
  "csv_emit_block spill r s = (write_all spill (csv_line r @ [LF]) s, Inr ())"

definition keep_line :: "u64 \<Rightarrow> string \<Rightarrow> bool" where
  "keep_line height line =
     (case parse_u64 (takeWhile (\<lambda>c. c \<noteq> CHR '','') line) of
        Some row_height \<Rightarrow> row_height \<le> height
      | None \<Rightarrow> False)"

definition unlines :: "string list \<Rightarrow> string" where
  "unlines ls = concat (map (\<lambda>l. l @ [LF]) ls)"

definition rollback_csv_to_height :: "u64 \<Rightarrow> csv_state \<Rightarrow> csv_state" where
  "rollback_csv_to_height height s =
     (let out = (case str_lines (cs_file s) of [] \<Rightarrow> [] | line # rest \<Rightarrow> line # filter (keep_line height) rest)
      in s\<lparr>cs_file := unlines out\<rparr>)"

definition csv_rollback_to_height :: "u64 \<Rightarrow> csv_state \<Rightarrow> csv_state \<times> unit result" where
  "csv_rollback_to_height height s = (rollback_csv_to_height height (flush_buf s), Inr ())"

definition csv_flush :: "csv_state \<Rightarrow> csv_state \<times> unit result" where
  "csv_flush s = (flush_buf s, Inr ())"

definition StatsCsvSink :: "spill \<Rightarrow> string \<Rightarrow> csv_state StatsSink" where
  "StatsCsvSink spill path = \<lparr>sk_name = ''csv:'' @ path, sk_emit_block = csv_emit_block spill, sk_emit_run = default_emit_run,
     sk_rollback_to_height = csv_rollback_to_height, sk_flush = csv_flush\<rparr>"

section \<open>The fan-out\<close>

text \<open>Every sink is called, whatever the others return; the errors are joined into one.\<close>

definition fan_errors :: "(string \<times> unit result) list \<Rightarrow> (string \<times> error) list" where
  "fan_errors results = List.map_filter (\<lambda>(n, r). case r of Inl e \<Rightarrow> Some (n, e) | Inr _ \<Rightarrow> None) results"

definition fan_collect :: "(string \<times> unit result) list \<Rightarrow> string \<Rightarrow> unit result" where
  "fan_collect results op =
     (let errs = fan_errors results in
      if errs = [] then Inr ()
      else Inl (Error (''fanout '' @ op @ '': '' @ digits (length errs) @ '' failed''
             @ concat (map (\<lambda>(n, e). [LF] @ ''  ['' @ n @ ''] '' @ (case e of Error msg \<Rightarrow> msg)) errs))))"

definition fan_call :: "('s StatsSink \<Rightarrow> 's \<Rightarrow> 's \<times> unit result) \<Rightarrow> string \<Rightarrow> 's StatsSink list \<Rightarrow> 's list
    \<Rightarrow> 's list \<times> unit result" where
  "fan_call call op sinks states =
     (let outs = map2 call sinks states
      in (map fst outs, fan_collect (zip (map sk_name sinks) (map snd outs)) op))"

definition Fanout :: "'s StatsSink list \<Rightarrow> 's list StatsSink" where
  "Fanout sinks =
     \<lparr>sk_name = ''fanout('' @ digits (length sinks) @ '')'',
      sk_emit_block = (\<lambda>row. fan_call (\<lambda>k. sk_emit_block k row) ''emit_block'' sinks),
      sk_emit_run = (\<lambda>stats. fan_call (\<lambda>k. sk_emit_run k stats) ''emit_run'' sinks),
      sk_rollback_to_height = (\<lambda>height. fan_call (\<lambda>k. sk_rollback_to_height k height) ''rollback_to_height'' sinks),
      sk_flush = fan_call sk_flush ''flush'' sinks\<rparr>"

section \<open>What a scan relies on\<close>

locale row_sink =
  fixes sink :: "'s StatsSink" and sink_ok :: "'s \<Rightarrow> bool" and sink_rows :: "'s \<Rightarrow> 'l list"
    and row_line :: "BlockStats \<Rightarrow> 'l" and row_ok :: "BlockStats \<Rightarrow> bool" and kept :: "u64 \<Rightarrow> 'l \<Rightarrow> bool"
  assumes emit_block: "sink_ok s \<Longrightarrow> row_ok r \<Longrightarrow>
      \<exists>s'. sk_emit_block sink r s = (s', Inr ()) \<and> sink_ok s' \<and> sink_rows s' = sink_rows s @ [row_line r]"
    and emit_run: "sink_ok s \<Longrightarrow> \<exists>s'. sk_emit_run sink st s = (s', Inr ()) \<and> sink_ok s' \<and> sink_rows s' = sink_rows s"
    and rollback: "sink_ok s \<Longrightarrow>
      \<exists>s'. sk_rollback_to_height sink h s = (s', Inr ()) \<and> sink_ok s' \<and> sink_rows s' = filter (kept h) (sink_rows s)"
    and flush: "sink_ok s \<Longrightarrow> \<exists>s'. sk_flush sink s = (s', Inr ()) \<and> sink_ok s' \<and> sink_rows s' = sink_rows s"
    and kept_row: "row_ok r \<Longrightarrow> kept h (row_line r) \<longleftrightarrow> bk_height r \<le> h"
begin

lemma kept_rows:
  "(\<And>r. r \<in> set rows \<Longrightarrow> row_ok r) \<Longrightarrow>
    filter (kept h) (map row_line rows) = map row_line (filter (\<lambda>r. bk_height r \<le> h) rows)"
  by (induction rows) (simp_all add: kept_row)

end

section \<open>The CSV sink keeps its contract\<close>

definition line_plain :: "string \<Rightarrow> bool" where
  "line_plain l \<longleftrightarrow> LF \<notin> set l \<and> (l = [] \<or> last l \<noteq> CR)"

definition row_plain :: "BlockStats \<Rightarrow> bool" where
  "row_plain r \<longleftrightarrow> LF \<notin> set (bk_block_hash r) \<and> LF \<notin> set (bk_utxo_hash r)"

definition csv_text :: "csv_state \<Rightarrow> string" where
  "csv_text s = cs_file s @ cs_buffer s"

definition csv_rows :: "csv_state \<Rightarrow> string list" where
  "csv_rows s = tl (str_lines (csv_text s))"

definition csv_ok :: "csv_state \<Rightarrow> bool" where
  "csv_ok s \<longleftrightarrow> cs_append s \<and> str_lines (csv_text s) \<noteq> [] \<and> csv_text s = unlines (str_lines (csv_text s))
     \<and> list_all line_plain (str_lines (csv_text s))"

lemma lines_from_line:
  "LF \<notin> set l \<Longrightarrow> lines_from cur (l @ LF # rest) = strip_cr (cur @ l) # lines_from [] rest"
  by (induction l arbitrary: cur) auto

lemma strip_cr_plain: "line_plain l \<Longrightarrow> strip_cr l = l"
  by (auto simp: line_plain_def strip_cr_def)

lemma lines_unlines: "list_all line_plain ls \<Longrightarrow> str_lines (unlines ls) = ls"
proof (induction ls)
  case (Cons l ls)
  then have "LF \<notin> set l" by (simp add: line_plain_def)
  from lines_from_line [OF this, of "[]" "unlines ls"] Cons show ?case
    by (simp add: str_lines_def unlines_def strip_cr_plain)
qed (simp add: str_lines_def unlines_def)

lemma unlines_append: "unlines (xs @ ys) = unlines xs @ unlines ys"
  by (simp add: unlines_def)

lemma unlines_single: "unlines [l] = l @ [LF]"
  by (simp add: unlines_def)

text \<open>Writing and flushing only move bytes from the buffer to the end of the file.\<close>

lemma append_text:
  assumes "cs_append s"
  shows "csv_text (write_all spill bs s) = csv_text s @ bs" "cs_append (write_all spill bs s)"
    "csv_text (flush_buf s) = csv_text s" "cs_append (flush_buf s)" "cs_file (flush_buf s) = csv_text s" "cs_buffer (flush_buf s) = []"
  using assms by (simp_all add: csv_text_def write_all_def flush_buf_def file_write_def Let_def del: take_append drop_append)

lemma csv_okI:
  assumes "cs_append s" and "csv_text s = unlines (h # ls)" and "list_all line_plain (h # ls)"
  shows "csv_ok s" and "csv_rows s = ls"
  using assms lines_unlines [OF assms(3)] by (simp_all add: csv_ok_def csv_rows_def)

lemma csv_okE:
  assumes "csv_ok s"
  obtains h where "cs_append s" "csv_text s = unlines (h # csv_rows s)" "list_all line_plain (h # csv_rows s)"
    "str_lines (csv_text s) = h # csv_rows s"
proof -
  obtain h ls where l: "str_lines (csv_text s) = h # ls" using assms by (auto simp: csv_ok_def neq_Nil_conv)
  then have "csv_rows s = ls" by (simp add: csv_rows_def)
  with l that assms show ?thesis by (simp add: csv_ok_def)
qed

lemma digits_chars: "c \<in> set (digits n) \<Longrightarrow> \<exists>d < 10. c = digit_char d"
proof (induction n rule: digits.induct)
  case (1 n)
  have "n mod 10 < 10" by simp
  then have "\<exists>d < 10. digit_char (n mod 10) = digit_char d" by blast
  with 1 show ?case by (subst (asm) (2) digits.simps) (auto split: if_splits)
qed

lemma digit_char_plain: "d < 10 \<Longrightarrow> digit_char d \<noteq> CHR '','' \<and> digit_char d \<noteq> LF \<and> digit_char d \<noteq> CR"
  using digit_value_char [of d] by (auto simp: digit_value_def)

lemma digits_plain: "CHR '','' \<notin> set (digits n)" "LF \<notin> set (digits n)" "CR \<notin> set (digits n)"
  using digits_chars [of _ n] digit_char_plain by metis+

lemma parse_show_word [simp]: "parse_u64 (show_word (w :: u64)) = Some w"
proof -
  have "hd (digits (unat w)) \<noteq> CHR ''+''" using digits_not_plus digits_nonempty hd_in_set by blast
  from parse_digits [OF digits_value_digits _ digits_nonempty this] show ?thesis
    using unat_bounds(4) [of w] by (simp add: show_word_def)
qed

lemma set_join_comma: "set (join_comma xs) \<subseteq> insert (CHR '','') (\<Union> (set ` set xs))"
  by (induction xs rule: join_comma.induct) auto

lemma last_join_comma: "xs \<noteq> [] \<Longrightarrow> last xs \<noteq> [] \<Longrightarrow> join_comma xs \<noteq> [] \<and> last (join_comma xs) = last (last xs)"
  by (induction xs rule: join_comma.induct) auto

lemma csv_line_plain:
  assumes "row_plain r"
  shows "line_plain (csv_line r)"
proof -
  have "LF \<notin> set (csv_line r)"
    using set_join_comma [of "csv_fields r"] assms digits_plain(2)
    by (auto simp: csv_line_def csv_fields_def type_fields_def estimate_fields_def show_word_def row_plain_def)
  moreover have "last (csv_fields r) = digits (unat (bk_utxo_hash_window r))"
    by (simp add: csv_fields_def show_word_def)
  then have "last (csv_line r) = last (digits (unat (bk_utxo_hash_window r)))"
    using last_join_comma [of "csv_fields r"] digits_nonempty by (simp add: csv_line_def csv_fields_def)
  then have "last (csv_line r) \<noteq> CR"
    using digits_plain(3) [of "unat (bk_utxo_hash_window r)"] digits_nonempty last_in_set by metis
  ultimately show ?thesis by (simp add: line_plain_def)
qed

lemma csv_line_height: "keep_line h (csv_line r) \<longleftrightarrow> bk_height r \<le> h"
proof -
  obtain x xs where f: "csv_fields r = show_word (bk_height r) # x # xs" by (simp add: csv_fields_def)
  have "takeWhile (\<lambda>c. c \<noteq> CHR '','') (show_word (bk_height r) @ CHR '','' # ys) = show_word (bk_height r)" for ys
    using digits_plain(1) [of "unat (bk_height r)"] by (subst takeWhile_append2) (auto simp: show_word_def)
  then show ?thesis by (simp add: keep_line_def csv_line_def f)
qed

interpretation csv: row_sink "StatsCsvSink spill path" csv_ok csv_rows csv_line row_plain keep_line
proof
  fix s r assume ok: "csv_ok s" and r: "row_plain r"
  from ok obtain h where s: "cs_append s" "csv_text s = unlines (h # csv_rows s)" "list_all line_plain (h # csv_rows s)"
    by (rule csv_okE)
  define s' where "s' = write_all spill (csv_line r @ [LF]) s"
  have "csv_text s' = unlines (h # csv_rows s @ [csv_line r])"
    using append_text(1) [OF s(1)] s(2) unlines_append [of "h # csv_rows s" "[csv_line r]"]
    by (simp add: s'_def unlines_single)
  moreover have "list_all line_plain (h # csv_rows s @ [csv_line r])" using s(3) csv_line_plain [OF r] by simp
  ultimately show "\<exists>s'. sk_emit_block (StatsCsvSink spill path) r s = (s', Inr ()) \<and> csv_ok s' \<and> csv_rows s' = csv_rows s @ [csv_line r]"
    using csv_okI [of s' h] append_text(2) [OF s(1)]
    by (intro exI [of _ s']) (simp add: StatsCsvSink_def csv_emit_block_def s'_def)
next
  fix s st assume "csv_ok s"
  then show "\<exists>s'. sk_emit_run (StatsCsvSink spill path) st s = (s', Inr ()) \<and> csv_ok s' \<and> csv_rows s' = csv_rows s"
    by (simp add: StatsCsvSink_def default_emit_run_def)
next
  fix s ht assume "csv_ok s"
  then obtain h where s: "cs_append s" "csv_text s = unlines (h # csv_rows s)" "list_all line_plain (h # csv_rows s)"
      "str_lines (csv_text s) = h # csv_rows s"
    by (rule csv_okE)
  define s' where "s' = rollback_csv_to_height ht (flush_buf s)"
  have "csv_text s' = unlines (h # filter (keep_line ht) (csv_rows s))" "cs_append s'"
    using append_text [OF s(1)] s(4) by (simp_all add: s'_def rollback_csv_to_height_def csv_text_def)
  moreover have "list_all line_plain (h # filter (keep_line ht) (csv_rows s))" using s(3) by (auto simp: list_all_iff)
  ultimately show "\<exists>s'. sk_rollback_to_height (StatsCsvSink spill path) ht s = (s', Inr ()) \<and> csv_ok s'
      \<and> csv_rows s' = filter (keep_line ht) (csv_rows s)"
    using csv_okI [of s' h] by (intro exI [of _ s']) (simp add: StatsCsvSink_def csv_rollback_to_height_def s'_def)
next
  fix s assume "csv_ok s"
  then show "\<exists>s'. sk_flush (StatsCsvSink spill path) s = (s', Inr ()) \<and> csv_ok s' \<and> csv_rows s' = csv_rows s"
    using append_text [of s] by (auto simp: StatsCsvSink_def csv_flush_def csv_ok_def csv_rows_def)
next
  show "keep_line h (csv_line r) \<longleftrightarrow> bk_height r \<le> h" for h r by (rule csv_line_height)
qed

section \<open>Files and columns\<close>

text \<open>The header names as many columns as a row has fields.\<close>

lemma header_columns: "length (filter (\<lambda>c. c = CHR '','') BLOCK_STATS_HEADER) + 1 = 49"
  by code_simp

lemma row_columns: "length (csv_fields r) = 49"
  by (simp add: csv_fields_def type_fields_def estimate_fields_def)

lemma header_plain: "line_plain BLOCK_STATS_HEADER"
  by code_simp

lemma csv_append_new: "csv_ok (csv_append spill [])" "csv_rows (csv_append spill []) = []"
proof -
  have "cs_append (csv_append spill [])" "csv_text (csv_append spill []) = unlines [BLOCK_STATS_HEADER]"
    by (simp_all add: csv_append_def Let_def append_text unlines_single) (simp add: csv_text_def)
  then show "csv_ok (csv_append spill [])" "csv_rows (csv_append spill []) = []"
    using csv_okI [of "csv_append spill []" BLOCK_STATS_HEADER "[]"] header_plain by simp_all
qed

lemma csv_append_file:
  assumes "csv_ok s"
  shows "csv_ok (csv_append spill (csv_text s))" and "csv_rows (csv_append spill (csv_text s)) = csv_rows s"
proof -
  from assms obtain h where s: "csv_text s = unlines (h # csv_rows s)" "list_all line_plain (h # csv_rows s)"
    by (rule csv_okE)
  then have "csv_text s \<noteq> []" by (simp add: unlines_def)
  then have "csv_append spill (csv_text s) = \<lparr>cs_append = True, cs_file = csv_text s, cs_offset = 0, cs_buffer = []\<rparr>"
    by (simp add: csv_append_def)
  then have "cs_append (csv_append spill (csv_text s))" "csv_text (csv_append spill (csv_text s)) = unlines (h # csv_rows s)"
    using s(1) by (simp_all add: csv_text_def)
  from csv_okI [OF this s(2)] show "csv_ok (csv_append spill (csv_text s))" "csv_rows (csv_append spill (csv_text s)) = csv_rows s" by simp_all
qed

text \<open>A row that the writer keeps in its buffer does not reach the file before the next flush.\<close>

lemma emit_only_buffers:
  "spill (cs_buffer s) (csv_line r @ [LF]) = 0 \<Longrightarrow> cs_append s \<Longrightarrow> cs_file (fst (csv_emit_block spill r s)) = cs_file s"
  by (simp add: csv_emit_block_def write_all_def file_write_def)

lemma fan_errors_iff: "fan_errors results = [] \<longleftrightarrow> (\<forall>(n, r) \<in> set results. is_ok r)"
  by (induction results) (auto simp: fan_errors_def map_filter_simps is_ok_iff split: sum.splits prod.splits)

lemma digits_1: "digits (Suc 0) = ''1''"
  by code_simp

lemma fanout_single:
  "fan_call call op [k] [s] = (let (s', r) = call k s
     in ([s'], case r of Inl (Error e) \<Rightarrow> Inl (Error (''fanout '' @ op @ '': 1 failed'' @ [LF] @ ''  ['' @ sk_name k @ ''] '' @ e)) | Inr u \<Rightarrow> Inr ()))"
  by (auto simp: fan_call_def fan_collect_def fan_errors_def map_filter_simps Let_def digits_1
      split: prod.splits sum.splits error.splits)

section \<open>Rows in the file\<close>

definition csv_emits :: "spill \<Rightarrow> BlockStats list \<Rightarrow> csv_state \<Rightarrow> csv_state" where
  "csv_emits spill rows s = fold (\<lambda>r s. fst (csv_emit_block spill r s)) rows s"

lemma csv_emits_text:
  assumes "cs_append s" and "csv_text s = unlines ls"
  shows "cs_append (csv_emits spill rows s) \<and> csv_text (csv_emits spill rows s) = unlines (ls @ map csv_line rows)"
  using assms
proof (induction rows arbitrary: s ls)
  case (Cons r rows)
  let ?s = "fst (csv_emit_block spill r s)"
  have "cs_append ?s" "csv_text ?s = unlines (ls @ [csv_line r])"
    using Cons.prems append_text(1,2) [of s spill "csv_line r @ [LF]"]
    by (simp_all add: csv_emit_block_def unlines_append unlines_single)
  from Cons.IH [OF this] show ?case by (simp add: csv_emits_def)
qed (simp add: csv_emits_def)

text \<open>
  C34: The CSV sink on a new file: rows are appended in order, a rollback to a height removes exactly
  the rows above it and keeps the others in order, whatever was still buffered, and
  after a flush the file is the header followed by the rows, one line each.
\<close>

theorem csv_sink_rows:
  assumes "list_all row_plain rows"
  shows "cs_file (flush_buf (csv_emits spill later (fst (csv_rollback_to_height h (csv_emits spill rows (csv_append spill []))))))
    = unlines (BLOCK_STATS_HEADER # map csv_line (filter (\<lambda>r. bk_height r \<le> h) rows) @ map csv_line later)"
proof -
  have new: "cs_append (csv_append spill [])" "csv_text (csv_append spill []) = unlines [BLOCK_STATS_HEADER]"
    by (simp_all add: csv_append_def Let_def append_text unlines_single) (simp add: csv_text_def)
  define s where "s = csv_emits spill rows (csv_append spill [])"
  have s: "cs_append s" "csv_text s = unlines (BLOCK_STATS_HEADER # map csv_line rows)"
    using csv_emits_text [OF new] by (simp_all add: s_def)
  have "list_all line_plain (BLOCK_STATS_HEADER # map csv_line rows)"
    using assms header_plain csv_line_plain by (auto simp: list_all_iff)
  then have "str_lines (csv_text s) = BLOCK_STATS_HEADER # map csv_line rows"
    unfolding s(2) by (rule lines_unlines)
  then have "csv_text (fst (csv_rollback_to_height h s))
      = unlines (BLOCK_STATS_HEADER # map csv_line (filter (\<lambda>r. bk_height r \<le> h) rows))"
    and "cs_append (fst (csv_rollback_to_height h s))"
    using append_text [OF s(1)] by (simp_all add: csv_rollback_to_height_def rollback_csv_to_height_def csv_text_def
      filter_map comp_def csv_line_height)
  from csv_emits_text [OF this(2,1), of spill later] show ?thesis
    unfolding s_def [symmetric] using append_text(5) by simp
qed

theorem csv_sink_rows_witness:
  "cs_file (flush_buf (csv_emits (\<lambda>_ _. 3) [BlockStats_new 8] (fst (csv_rollback_to_height 7 (csv_emits (\<lambda>_ _. 3) [BlockStats_new 7, BlockStats_new 8] (csv_append (\<lambda>_ _. 3) []))))))
    = unlines [BLOCK_STATS_HEADER, csv_line (BlockStats_new 7), csv_line (BlockStats_new 8)]"
proof -
  have plain: "list_all row_plain [BlockStats_new 7, BlockStats_new 8]"
    by (simp add: row_plain_def BlockStats_new_def)
  have "filter (\<lambda>r. bk_height r \<le> 7) [BlockStats_new 7, BlockStats_new 8] = [BlockStats_new 7]"
    by (simp add: BlockStats_new_def)
  with csv_sink_rows [OF plain, of "\<lambda>_ _. 3" "[BlockStats_new 8]" 7] show ?thesis by simp
qed

end
