(* ===== verification/Checkpoint.thy ===== *)
theory Checkpoint
  imports Stats_Scan Decimal "HOL-Library.AList" "HOL-Library.List_Lexorder" "HOL-Library.Char_ord"
begin

text \<open>
  Restart recovery of the statistics scan (\<^verbatim>\<open>stats/src/checkpoint.rs\<close>): the checkpoint, its file name, the
  directory of checkpoints with saving, listing and pruning, and the writer that decides when a
  checkpoint is due. The directory is the list of its files, or \<open>None\<close> when it does
  not exist; \<^verbatim>\<open>postcard\<close> is a parameter. Other failures of the file system are not modelled.
\<close>

section \<open>Data\<close>

record CheckpointConfig =
  cc_every :: u64
  cc_keep :: usize
  cc_enabled :: bool

definition CheckpointConfig_default :: CheckpointConfig where
  "CheckpointConfig_default = \<lparr>cc_every = 1, cc_keep = 10, cc_enabled = False\<rparr>"

definition CHECKPOINT_FORMAT_VERSION :: u32 where "CHECKPOINT_FORMAT_VERSION = 1"

record StatsCheckpoint =
  ck_checkpoint_format_version :: u32
  ck_stats_state_version :: u32
  ck_start_height :: u64
  ck_next_height :: u64
  ck_height :: u64
  ck_block_hash :: bytes
  ck_utxo_hash_window :: u64
  ck_finality_depth :: u64
  ck_scanner_state :: StatsScannerState

record postcard =
  to_allocvec :: "StatsCheckpoint \<Rightarrow> bytes result"
  from_bytes :: "bytes \<Rightarrow> StatsCheckpoint result"

text \<open>What is relied on: a checkpoint that serializes is read back as it was.\<close>

definition postcard_ok :: "postcard \<Rightarrow> bool" where
  "postcard_ok pc \<longleftrightarrow> (\<forall>c bs. to_allocvec pc c = Inr bs \<longrightarrow> from_bytes pc bs = Inr c)"

type_synonym ckpt_dir = "(string \<times> bytes) list option"

section \<open>Files\<close>

definition pad12 :: "string \<Rightarrow> string" where
  "pad12 s = replicate (12 - length s) (CHR ''0'') @ s"

definition checkpoint_stem :: "(bytes \<Rightarrow> string) \<Rightarrow> u64 \<Rightarrow> bytes \<Rightarrow> string" where
  "checkpoint_stem hex height hash = ''checkpoint-'' @ pad12 (show_u64 height) @ ''-'' @ block_hash_hex hex hash"

definition checkpoint_path :: "(bytes \<Rightarrow> string) \<Rightarrow> u64 \<Rightarrow> bytes \<Rightarrow> string" where
  "checkpoint_path hex height hash = checkpoint_stem hex height hash @ ''.postcard''"

definition dir_files :: "ckpt_dir \<Rightarrow> (string \<times> bytes) list" where
  "dir_files dir = (case dir of None \<Rightarrow> [] | Some files \<Rightarrow> files)"

definition save_checkpoint :: "(bytes \<Rightarrow> string) \<Rightarrow> postcard \<Rightarrow> StatsCheckpoint \<Rightarrow> ckpt_dir \<Rightarrow> ckpt_dir \<times> string result" where
  "save_checkpoint hex pc checkpoint dir =
     (let files = dir_files dir;
          path = checkpoint_path hex (ck_height checkpoint) (ck_block_hash checkpoint);
          tmp = checkpoint_stem hex (ck_height checkpoint) (ck_block_hash checkpoint) @ ''.'' @ ''postcard.tmp''
      in case to_allocvec pc checkpoint of
           Inl e \<Rightarrow> (Some files, Inl e)
         | Inr bs \<Rightarrow>
             let files = AList.update tmp bs files
             in (Some (AList.update path bs (AList.delete tmp files)), Inr path))"

definition load_checkpoint :: "postcard \<Rightarrow> ckpt_dir \<Rightarrow> string \<Rightarrow> StatsCheckpoint result" where
  "load_checkpoint pc dir path =
     (case map_of (dir_files dir) path of
        None \<Rightarrow> Inl (Error ''No such file or directory'')
      | Some bs \<Rightarrow> from_bytes pc bs)"

definition is_checkpoint_name :: "string \<Rightarrow> bool" where
  "is_checkpoint_name name \<longleftrightarrow> prefix ''checkpoint-'' name \<and> suffix ''.postcard'' name"

definition list_checkpoints_newest_first :: "ckpt_dir \<Rightarrow> string list" where
  "list_checkpoints_newest_first dir =
     (case dir of
        None \<Rightarrow> []
      | Some files \<Rightarrow> rev (sort (filter is_checkpoint_name (map fst files))))"

definition prune_checkpoints :: "ckpt_dir \<Rightarrow> usize \<Rightarrow> ckpt_dir" where
  "prune_checkpoints dir keep =
     (if keep = 0 then dir
      else let checkpoints = list_checkpoints_newest_first dir in
        if length checkpoints \<le> keep then dir
        else let remove_count = length checkpoints - keep
          in map_option (fold AList.delete (take remove_count (rev checkpoints))) dir)"

section \<open>The writer\<close>

record CheckpointWriter =
  cw_cfg :: CheckpointConfig
  cw_processed_since_checkpoint :: u64

definition CheckpointWriter_new :: "CheckpointConfig \<Rightarrow> CheckpointWriter" where
  "CheckpointWriter_new cfg = \<lparr>cw_cfg = cfg, cw_processed_since_checkpoint = 0\<rparr>"

definition writer_enabled :: "CheckpointWriter \<Rightarrow> bool" where
  "writer_enabled w \<longleftrightarrow> cc_enabled (cw_cfg w) \<and> cc_every (cw_cfg w) > 0"

definition on_committed_block :: "CheckpointWriter \<Rightarrow> bool \<times> CheckpointWriter" where
  "on_committed_block w =
     (if \<not> writer_enabled w then (False, w)
      else let w = w\<lparr>cw_processed_since_checkpoint := cw_processed_since_checkpoint w + 1\<rparr>
        in if cw_processed_since_checkpoint w \<ge> cc_every (cw_cfg w)
           then (True, w\<lparr>cw_processed_since_checkpoint := 0\<rparr>) else (False, w))"

definition needs_final_flush :: "CheckpointWriter \<Rightarrow> bool" where
  "needs_final_flush w \<longleftrightarrow> writer_enabled w \<and> cw_processed_since_checkpoint w > 0"

definition write_checkpoint :: "(bytes \<Rightarrow> string) \<Rightarrow> postcard \<Rightarrow> CheckpointWriter \<Rightarrow> StatsCheckpoint \<Rightarrow> ckpt_dir
    \<Rightarrow> ckpt_dir \<times> unit result" where
  "write_checkpoint hex pc w checkpoint dir =
     (if \<not> writer_enabled w then (dir, Inr ())
      else case save_checkpoint hex pc checkpoint dir of
        (dir, Inl e) \<Rightarrow> (dir, Inl e)
      | (dir, Inr _) \<Rightarrow> (prune_checkpoints dir (cc_keep (cw_cfg w)), Inr ()))"

section \<open>Facts\<close>

lemma fst_delete: "map fst (AList.delete k xs) = filter (\<lambda>x. x \<noteq> k) (map fst xs)"
  by (induction xs) (auto simp: AList.delete_eq)

lemma fold_delete_conv: "map_of (fold AList.delete ks xs) k = (if k \<in> set ks then None else map_of xs k)"
  by (induction ks arbitrary: xs) (auto simp: AList.delete_conv)

lemma fst_fold_delete: "map fst (fold AList.delete ks xs) = filter (\<lambda>x. x \<notin> set ks) (map fst xs)"
  by (induction ks arbitrary: xs) (auto simp: fst_delete intro: filter_cong)

lemma sort_filter: "sort (filter P (xs :: 'a :: linorder list)) = filter P (sort xs)"
  by (metis filter_sort sort_key_simps(1) map_idI sort_key_const)

lemma filter_not_take:
  assumes "distinct xs"
  shows "filter (\<lambda>x. x \<notin> set (take n xs)) xs = drop n xs"
proof -
  have "set (take n xs) \<inter> set (drop n xs) = {}" using assms by (rule set_take_disj_set_drop_if_distinct) simp
  then have "filter (\<lambda>x. x \<notin> set (take n xs)) (take n xs @ drop n xs) = drop n xs"
    by (auto simp: filter_empty_conv filter_id_conv simp del: append_take_drop_id)
  then show ?thesis by simp
qed

lemma prune_listing:
  assumes "distinct (map fst files)"
  shows "list_checkpoints_newest_first (prune_checkpoints (Some files) keep)
    = (if keep = 0 then list_checkpoints_newest_first (Some files)
       else take keep (list_checkpoints_newest_first (Some files)))"
proof -
  define names where "names = sort (filter is_checkpoint_name (map fst files))"
  have d: "distinct names" using assms by (simp add: names_def)
  define k where "k = length names - keep"
  have "filter is_checkpoint_name (map fst (fold AList.delete (take k names) files))
      = filter (\<lambda>x. x \<notin> set (take k names)) (filter is_checkpoint_name (map fst files))"
    by (simp add: fst_fold_delete conj_commute)
  then have "sort (filter is_checkpoint_name (map fst (fold AList.delete (take k names) files))) = drop k names"
    using filter_not_take [OF d, of k] by (simp add: sort_filter names_def)
  then show ?thesis
    by (simp add: prune_checkpoints_def list_checkpoints_newest_first_def names_def [symmetric] k_def [symmetric] rev_drop Let_def)
      (simp add: k_def)
qed

lemma prune_files: "map_of (dir_files (prune_checkpoints dir keep)) name = Some bs \<Longrightarrow> map_of (dir_files dir) name = Some bs"
  by (cases dir) (auto simp: prune_checkpoints_def dir_files_def Let_def fold_delete_conv split: if_splits)

text \<open>The files after a write are old ones and the checkpoint's own.\<close>

lemma write_checkpoint_files:
  assumes "map_of (dir_files (fst (write_checkpoint hex pc wr ck dir))) n = Some c"
  shows "map_of (dir_files dir) n = Some c \<or> to_allocvec pc ck = Inr c"
proof (cases "writer_enabled wr")
  case True
  show ?thesis
  proof (cases "to_allocvec pc ck")
    case (Inr bs)
    define files where "files = (let tmp = checkpoint_stem hex (ck_height ck) (ck_block_hash ck) @ ''.'' @ ''postcard.tmp''
      in AList.update (checkpoint_path hex (ck_height ck) (ck_block_hash ck)) bs
           (AList.delete tmp (AList.update tmp bs (dir_files dir))))"
    have "fst (write_checkpoint hex pc wr ck dir) = prune_checkpoints (Some files) (cc_keep (cw_cfg wr))"
      using True Inr by (simp add: write_checkpoint_def save_checkpoint_def files_def Let_def)
    then have "map_of (dir_files (Some files)) n = Some c" using assms prune_files by metis
    then show ?thesis
      using Inr by (auto simp: files_def dir_files_def Let_def AList.update_conv' AList.delete_conv' split: if_splits)
  qed (use True assms in \<open>auto simp: write_checkpoint_def save_checkpoint_def dir_files_def split: option.splits\<close>)
qed (use assms in \<open>simp add: write_checkpoint_def\<close>)

section \<open>The order of the names\<close>

lemma digits_value_range:
  "digits_value a s = Some n \<Longrightarrow> a * 10 ^ length s \<le> n \<and> n < (a + 1) * 10 ^ length s"
proof (induction s arbitrary: a)
  case (Cons c s)
  then obtain d where d: "digit_value c = Some d" "digits_value (a * 10 + d) s = Some n" by (auto split: option.splits)
  then have "d < 10" by (auto simp: digit_value_def Let_def split: if_splits)
  then have "(a * 10 + d + 1) * 10 ^ length s \<le> (a + 1) * 10 * 10 ^ length s" by (intro mult_right_mono) simp_all
  with Cons.IH [OF d(2)] have "n < (a + 1) * 10 * 10 ^ length s" by linarith
  moreover have "a * 10 * 10 ^ length s \<le> (a * 10 + d) * 10 ^ length s" by (intro mult_right_mono) simp_all
  with Cons.IH [OF d(2)] have "a * 10 * 10 ^ length s \<le> n" by linarith
  ultimately show ?case by (simp only: list.size power_Suc mult.assoc) simp
qed simp

lemma digit_value_less: "digit_value c = Some a \<Longrightarrow> digit_value d = Some b \<Longrightarrow> a < b \<longleftrightarrow> c < d"
  by (auto simp: digit_value_def less_char_def Let_def split: if_splits)

lemma digits_value_less:
  assumes "length s = length t" and "digits_value a s = Some m" and "digits_value a t = Some n" and "m < n"
  shows "s < t"
  using assms
proof (induction s t arbitrary: a rule: list_induct2)
  case (Cons c s d t)
  obtain x y where v: "digit_value c = Some x" "digits_value (a * 10 + x) s = Some m"
      "digit_value d = Some y" "digits_value (a * 10 + y) t = Some n"
    using Cons.prems by (auto split: option.splits)
  have "\<not> y < x"
  proof
    assume "y < x"
    then have "(a * 10 + y + 1) * 10 ^ length s \<le> (a * 10 + x) * 10 ^ length s" by (intro mult_right_mono) simp_all
    with digits_value_range [OF v(2)] digits_value_range [OF v(4)] Cons.hyps Cons.prems(3) show False by simp
  qed
  moreover have "c = d" if "x = y"
    using digit_value_less [OF v(1,3)] digit_value_less [OF v(3,1)] that by auto
  ultimately show ?case
    using v Cons.IH Cons.prems(3) digit_value_less [OF v(1,3)] by (cases "x = y") auto
qed simp

lemma less_append: "length s = length t \<Longrightarrow> s < t \<Longrightarrow> s @ u < t @ (v :: string)"
  by (induction s t rule: list_induct2) auto

lemma append_less: "s < t \<Longrightarrow> u @ s < u @ (t :: string)"
  by (induction u) auto

lemma length_digits: "n < 10 ^ Suc k \<Longrightarrow> length (digits n) \<le> Suc k"
proof (induction k arbitrary: n)
  case (Suc k)
  have "n div 10 < 10 ^ Suc k" using Suc.prems by (simp add: less_mult_imp_div_less)
  from Suc.IH [OF this] show ?case by (subst digits.simps) simp
qed (simp add: digits.simps)

lemma checkpoint_path_less:
  assumes "unat h < 10 ^ 12" and "unat h' < 10 ^ 12" and "h < h'"
  shows "checkpoint_path hex h x < checkpoint_path hex h' y"
proof -
  have "length (digits (unat h)) \<le> 12" "length (digits (unat h')) \<le> 12"
    using assms(1,2) length_digits [of "unat h" 11] length_digits [of "unat h'" 11] by simp_all
  then have len: "length (pad12 (show_u64 h)) = length (pad12 (show_u64 h'))"
    by (simp add: pad12_def show_u64_def)
  have "unat h < unat h'" using assms(3) by (simp add: word_less_nat_alt)
  then have "pad12 (show_u64 h) < pad12 (show_u64 h')"
    using digits_value_less [OF len, of 0 "unat h" "unat h'"]
    by (simp add: pad12_def show_u64_def digits_value_zeros digits_value_digits)
  from less_append [OF len this, of "''-'' @ block_hash_hex hex x @ ''.postcard''" "''-'' @ block_hash_hex hex y @ ''.postcard''"]
  show ?thesis
    by (simp add: checkpoint_path_def checkpoint_stem_def)
qed

lemma checkpoint_path_listed: "is_checkpoint_name (checkpoint_path hex h x)"
  by (simp add: is_checkpoint_name_def checkpoint_path_def checkpoint_stem_def suffix_def)

text \<open>
  C35: Listing and pruning of checkpoints: the listing is by descending height (below \<open>10 ^ 12\<close>, where the
  padding of the names suffices), and pruning keeps exactly the given number of newest checkpoints with
  their contents and touches no other file.
\<close>

theorem checkpoint_retention:
  assumes "distinct (map fst files)" and "keep > 0"
  shows "list_checkpoints_newest_first (prune_checkpoints (Some files) keep)
      = take keep (list_checkpoints_newest_first (Some files))
    \<and> (\<forall>i j h h' x y. i \<le> j \<longrightarrow> j < length (list_checkpoints_newest_first (Some files))
        \<longrightarrow> list_checkpoints_newest_first (Some files) ! i = checkpoint_path hex h x
        \<longrightarrow> list_checkpoints_newest_first (Some files) ! j = checkpoint_path hex h' y
        \<longrightarrow> unat h < 10 ^ 12 \<longrightarrow> unat h' < 10 ^ 12 \<longrightarrow> h' \<le> h)
    \<and> (\<forall>name. \<not> is_checkpoint_name name \<or> name \<in> set (list_checkpoints_newest_first (prune_checkpoints (Some files) keep))
        \<longrightarrow> map_of (dir_files (prune_checkpoints (Some files) keep)) name = map_of files name)"
proof (intro conjI allI impI)
  let ?names = "list_checkpoints_newest_first (Some files)"
  show pruned: "list_checkpoints_newest_first (prune_checkpoints (Some files) keep) = take keep ?names"
    using prune_listing [OF assms(1)] assms(2) by simp
  have desc: "sorted_wrt (\<ge>) ?names"
    by (simp add: list_checkpoints_newest_first_def sorted_wrt_rev)
  fix i j h h' x y
  assume ij: "i \<le> j" "j < length ?names" and at: "?names ! i = checkpoint_path hex h x" "?names ! j = checkpoint_path hex h' y"
    and h: "unat h < 10 ^ 12" "unat h' < 10 ^ 12"
  have "?names ! j \<le> ?names ! i"
    using desc ij sorted_wrt_nth_less [of "(\<ge>)" ?names i j] by (cases "i = j") auto
  then show "h' \<le> h" using checkpoint_path_less [OF h, of hex x y] at by (auto simp: not_le [symmetric])
next
  let ?names = "list_checkpoints_newest_first (Some files)"
  fix name assume n: "\<not> is_checkpoint_name name \<or> name \<in> set (list_checkpoints_newest_first (prune_checkpoints (Some files) keep))"
  have "distinct ?names" using assms(1) by (simp add: list_checkpoints_newest_first_def)
  then have "set (take keep ?names) \<inter> set (drop keep ?names) = {}" by (rule set_take_disj_set_drop_if_distinct) simp
  moreover have "name \<in> set (drop keep ?names) \<Longrightarrow> is_checkpoint_name name"
    by (auto dest!: in_set_dropD simp: list_checkpoints_newest_first_def)
  ultimately have out: "name \<notin> set (drop keep ?names)"
    using n prune_listing [OF assms(1), of keep] assms(2) by auto
  have "take (length ?names - keep) (rev ?names) = rev (drop keep ?names)" by (simp add: rev_drop)
  then show "map_of (dir_files (prune_checkpoints (Some files) keep)) name = map_of files name"
    using out by (auto simp: prune_checkpoints_def dir_files_def Let_def fold_delete_conv)
qed

theorem checkpoint_retention_witness:
  "list_checkpoints_newest_first (prune_checkpoints (Some [(''checkpoint-1.postcard'', [1]), (''notes'', []), (''checkpoint-2.postcard'', [2])]) 1)
    = [''checkpoint-2.postcard'']"
proof -
  let ?files = "[(''checkpoint-1.postcard'', [1]), (''notes'', []), (''checkpoint-2.postcard'', [2])] :: (string \<times> bytes) list"
  have "distinct (map fst ?files)" by simp
  from checkpoint_retention [OF this, of 1]
  have "list_checkpoints_newest_first (prune_checkpoints (Some ?files) 1) = take 1 (list_checkpoints_newest_first (Some ?files))" by simp
  also have "list_checkpoints_newest_first (Some ?files) = [''checkpoint-2.postcard'', ''checkpoint-1.postcard'']"
    by code_simp
  finally show ?thesis by simp
qed

end
