(* ===== verification/Scan_Loop.thy ===== *)
theory Scan_Loop
  imports Scan_Invariants Csv_Sink Checkpoint Block_Source
begin

text \<open>
  The scan of \<^verbatim>\<open>stats/src/scan.rs\<close> around the commit of a block: fetching and preparing batches of blocks,
  restoring the newest usable checkpoint, the loop over the batches with its rows and
  checkpoints, and the end of the run. Timing, progress output and the reserved
  capacities are left out. The world a run works on is the directory of checkpoints and
  the state of the sink; it is returned beside the result, since a failed run leaves both.
\<close>

section \<open>Configuration and surroundings\<close>

record ScanConfig =
  sn_start :: u64
  sn_blocks :: u64
  sn_buffer :: usize
  sn_source_batch_size :: usize
  sn_utxo_reserve :: usize
  sn_seen_keys_reserve :: usize
  sn_progress :: u64
  sn_utxo_hash_window :: u64
  sn_finality_depth :: u64
  sn_checkpoints :: CheckpointConfig

definition ScanConfig_default :: ScanConfig where
  "ScanConfig_default = \<lparr>sn_start = 709632, sn_blocks = 1000, sn_buffer = 10, sn_source_batch_size = 1,
     sn_utxo_reserve = 0, sn_seen_keys_reserve = 0, sn_progress = 1000, sn_utxo_hash_window = 0, sn_finality_depth = 6,
     sn_checkpoints = CheckpointConfig_default\<rparr>"

text \<open>
  The code of other crates: SHA-256, hexadecimal text, script template tests, consensus decoding, \<^verbatim>\<open>postcard\<close>,
  and the order in which the concurrent fetches of a batch complete.
\<close>

record scan_env =
  se_sha256 :: "bytes \<Rightarrow> bytes"
  se_hex :: "bytes \<Rightarrow> string"
  se_tests :: stats_tests
  se_decode :: "bytes \<Rightarrow> decoded_tx list result"
  se_postcard :: postcard
  se_arrive :: "PreparedBlockFrame result list \<Rightarrow> PreparedBlockFrame result list"

section \<open>Fetching\<close>

definition decode_raw_block :: "(bytes \<Rightarrow> decoded_tx list result) \<Rightarrow> RawBlockFrame \<Rightarrow> DecodedBlockFrame result" where
  "decode_raw_block decode frame =
     and_then (decode (rf_bytes frame)) (\<lambda>txdata.
     Inr \<lparr>df_height = rf_height frame, df_hash = rf_hash frame, df_txdata = txdata\<rparr>)"

definition prepare_raw_block :: "scan_env \<Rightarrow> RawBlockFrame \<Rightarrow> PreparedBlockFrame result" where
  "prepare_raw_block env frame = and_then (decode_raw_block (se_decode env) frame) (prepare_decoded_block (se_tests env))"

definition prepare_raw_blocks_blocking :: "scan_env \<Rightarrow> RawBlockFrame list \<Rightarrow> PreparedBlockFrame list result" where
  "prepare_raw_blocks_blocking env frames = try_map (prepare_raw_block env) frames"

definition fetch_and_prepare_batch :: "scan_env \<Rightarrow> ScanSource \<Rightarrow> u64 \<Rightarrow> u64 \<Rightarrow> PreparedBlockFrame list result" where
  "fetch_and_prepare_batch env source start_height n =
     (if src_supports_block_range_batches source
      then and_then (src_get_block_range_by_height source start_height (unat n)) (prepare_raw_blocks_blocking env)
      else let fetched = map (\<lambda>h. and_then (src_get_block_by_height source (word_of_nat h)) (prepare_raw_block env))
                           [unat start_height ..< unat (start_height + n)]
        in and_then (try_map (\<lambda>r. r) (se_arrive env fetched)) (\<lambda>prepared. Inr (sort_key pf_height prepared)))"

section \<open>Checkpoints of a run\<close>

definition make_checkpoint :: "ScanConfig \<Rightarrow> StatsScannerState \<Rightarrow> u64 \<Rightarrow> bytes \<Rightarrow> StatsCheckpoint" where
  "make_checkpoint cfg state height hash =
     \<lparr>ck_checkpoint_format_version = CHECKPOINT_FORMAT_VERSION, ck_stats_state_version = STATS_STATE_VERSION,
      ck_start_height = sn_start cfg, ck_next_height = height + 1, ck_height = height, ck_block_hash = hash,
      ck_utxo_hash_window = sn_utxo_hash_window cfg, ck_finality_depth = sn_finality_depth cfg, ck_scanner_state = state\<rparr>"

fun restore_from :: "scan_env \<Rightarrow> ScanSource \<Rightarrow> ScanConfig \<Rightarrow> ckpt_dir \<Rightarrow> string list \<Rightarrow> StatsCheckpoint option result" where
  "restore_from env source cfg dir [] = Inr None"
| "restore_from env source cfg dir (path # paths) =
     (case load_checkpoint (se_postcard env) dir path of
        Inl _ \<Rightarrow> restore_from env source cfg dir paths
      | Inr checkpoint \<Rightarrow>
          if ck_stats_state_version checkpoint \<noteq> STATS_STATE_VERSION then restore_from env source cfg dir paths
          else if ck_utxo_hash_window checkpoint \<noteq> sn_utxo_hash_window cfg then restore_from env source cfg dir paths
          else and_then (src_get_block_hash source (ck_height checkpoint)) (\<lambda>canonical_hash.
            if canonical_hash = ck_block_hash checkpoint then Inr (Some checkpoint)
            else restore_from env source cfg dir paths))"

definition restore_newest_valid_checkpoint :: "scan_env \<Rightarrow> ScanSource \<Rightarrow> ScanConfig \<Rightarrow> ckpt_dir \<Rightarrow> StatsCheckpoint option result" where
  "restore_newest_valid_checkpoint env source cfg dir =
     restore_from env source cfg dir (list_checkpoints_newest_first dir)"

section \<open>The loop\<close>

record 's scan_run =
  sr_dir :: ckpt_dir
  sr_sink :: 's
  sr_state :: StatsScannerState
  sr_writer :: CheckpointWriter
  sr_last_committed_height :: "u64 option"
  sr_last_committed_hash :: "bytes option"

definition save_run :: "scan_env \<Rightarrow> ScanConfig \<Rightarrow> u64 \<Rightarrow> bytes \<Rightarrow> 's scan_run \<Rightarrow> 's scan_run \<times> unit result" where
  "save_run env cfg height hash run =
     (let checkpoint = make_checkpoint cfg (sr_state run) height hash;
          (dir, r) = write_checkpoint (se_hex env) (se_postcard env) (sr_writer run) checkpoint (sr_dir run)
      in (run\<lparr>sr_dir := dir\<rparr>, r))"

definition scan_frame :: "scan_env \<Rightarrow> 's StatsSink \<Rightarrow> ScanConfig \<Rightarrow> PreparedBlockFrame \<Rightarrow> 's scan_run
    \<Rightarrow> 's scan_run \<times> unit result" where
  "scan_frame env sink cfg frame run =
     (case commit_frame (se_sha256 env) (se_hex env) (sn_utxo_hash_window cfg) frame (sr_state run) of
        Inl e \<Rightarrow> (run, Inl e)
      | Inr (row, state) \<Rightarrow>
          let (s, emitted) = sk_emit_block sink row (sr_sink run);
              run = run\<lparr>sr_state := state, sr_sink := s\<rparr>
          in case emitted of
               Inl e \<Rightarrow> (run, Inl e)
             | Inr _ \<Rightarrow>
                 let (due, writer) = on_committed_block (sr_writer run);
                     run = run\<lparr>sr_last_committed_height := Some (pf_height frame),
                              sr_last_committed_hash := Some (pf_hash frame), sr_writer := writer\<rparr>
                 in if due then save_run env cfg (pf_height frame) (pf_hash frame) run else (run, Inr ()))"

fun scan_frames :: "scan_env \<Rightarrow> 's StatsSink \<Rightarrow> ScanConfig \<Rightarrow> PreparedBlockFrame list \<Rightarrow> 's scan_run
    \<Rightarrow> 's scan_run \<times> unit result" where
  "scan_frames env sink cfg [] run = (run, Inr ())"
| "scan_frames env sink cfg (frame # frames) run =
     (case scan_frame env sink cfg frame run of
        (run, Inl e) \<Rightarrow> (run, Inl e)
      | (run, Inr _) \<Rightarrow> scan_frames env sink cfg frames run)"

text \<open>The loop over the batches, with one unit of fuel per height left.\<close>

fun scan_batches :: "nat \<Rightarrow> scan_env \<Rightarrow> ScanSource \<Rightarrow> 's StatsSink \<Rightarrow> ScanConfig \<Rightarrow> u64 \<Rightarrow> u64 \<Rightarrow> 's scan_run
    \<Rightarrow> 's scan_run \<times> unit result" where
  "scan_batches 0 env source sink cfg max_end next_height run =
     (if next_height \<le> max_end then (run, Inl (Error ''out of fuel'')) else (run, Inr ()))"
| "scan_batches (Suc fuel) env source sink cfg max_end next_height run =
     (if next_height \<le> max_end then
        let remaining = max_end - next_height + 1;
            batch_size = word_of_nat (max (sn_source_batch_size cfg) 1);
            this_count = min remaining batch_size
        in case fetch_and_prepare_batch env source next_height this_count of
             Inl e \<Rightarrow> (run, Inl e)
           | Inr batch \<Rightarrow>
               (case scan_frames env sink cfg batch run of
                  (run, Inl e) \<Rightarrow> (run, Inl e)
                | (run, Inr _) \<Rightarrow> scan_batches fuel env source sink cfg max_end (next_height + this_count) run)
      else (run, Inr ()))"

type_synonym 's stats_world = "ckpt_dir \<times> 's"

definition scan_finish :: "scan_env \<Rightarrow> 's StatsSink \<Rightarrow> ScanConfig \<Rightarrow> 's scan_run \<Rightarrow> 's stats_world \<times> Stats result" where
  "scan_finish env sink cfg run =
     (let (run, saved) = (if needs_final_flush (sr_writer run) then
            (case (sr_last_committed_height run, sr_last_committed_hash run) of
               (Some height, Some hash) \<Rightarrow> save_run env cfg height hash run
             | _ \<Rightarrow> (run, Inr ()))
          else (run, Inr ()))
      in case saved of
           Inl e \<Rightarrow> ((sr_dir run, sr_sink run), Inl e)
         | Inr _ \<Rightarrow>
             let (s, emitted) = sk_emit_run sink (ss_stats (sr_state run)) (sr_sink run)
             in case emitted of
                  Inl e \<Rightarrow> ((sr_dir run, s), Inl e)
                | Inr _ \<Rightarrow>
                    let (s, flushed) = sk_flush sink s
                    in case flushed of
                         Inl e \<Rightarrow> ((sr_dir run, s), Inl e)
                       | Inr _ \<Rightarrow> ((sr_dir run, s), Inr (ss_stats (sr_state run))))"

definition scan_from :: "scan_env \<Rightarrow> ScanSource \<Rightarrow> 's StatsSink \<Rightarrow> ScanConfig \<Rightarrow> u64 \<Rightarrow> u64 \<Rightarrow> StatsScannerState
    \<Rightarrow> 's stats_world \<Rightarrow> 's stats_world \<times> Stats result" where
  "scan_from env source sink cfg max_end scan_start state world =
     (if scan_start > max_end then (world, Inr (ss_stats state))
      else let run = \<lparr>sr_dir = fst world, sr_sink = snd world, sr_state = state,
                      sr_writer = CheckpointWriter_new (sn_checkpoints cfg),
                      sr_last_committed_height = None, sr_last_committed_hash = None\<rparr>;
               (run, r) = scan_batches (Suc (unat max_end - unat scan_start)) env source sink cfg max_end scan_start run
        in case r of
             Inl e \<Rightarrow> ((sr_dir run, sr_sink run), Inl e)
           | Inr _ \<Rightarrow> scan_finish env sink cfg run)"

definition scan_end :: "ScanConfig \<Rightarrow> u64 \<Rightarrow> u64" where
  "scan_end cfg tip_height =
     min (saturating_add (sn_start cfg) (saturating_sub (sn_blocks cfg) 1)) (saturating_sub tip_height (sn_finality_depth cfg))"

definition scan :: "scan_env \<Rightarrow> ScanSource \<Rightarrow> 's StatsSink \<Rightarrow> ScanConfig \<Rightarrow> 's stats_world \<Rightarrow> 's stats_world \<times> Stats result" where
  "scan env source sink cfg world =
     (case src_get_best_height source of
        Inl e \<Rightarrow> (world, Inl e)
      | Inr tip_height \<Rightarrow>
          if saturating_sub tip_height (sn_finality_depth cfg) < sn_start cfg then (world, Inr Stats_new)
          else let max_end = scan_end cfg tip_height in
            case (if cc_enabled (sn_checkpoints cfg)
                  then restore_newest_valid_checkpoint env source cfg (fst world) else Inr None) of
              Inl e \<Rightarrow> (world, Inl e)
            | Inr None \<Rightarrow>
                scan_from env source sink cfg max_end (sn_start cfg) (StatsScannerState_new (sn_utxo_hash_window cfg)) world
            | Inr (Some checkpoint) \<Rightarrow>
                let (s, rolled) = sk_rollback_to_height sink (ck_height checkpoint) (snd world)
                in case rolled of
                     Inl e \<Rightarrow> ((fst world, s), Inl e)
                   | Inr _ \<Rightarrow> scan_from env source sink cfg max_end (ck_next_height checkpoint)
                       (ck_scanner_state checkpoint) (fst world, s))"

end
