(* ===== verification/Scan_Resume.thy ===== *)
theory Scan_Resume
  imports Scan_Loop
begin

text \<open>
  A resumed scan is an uninterrupted one: over any history of runs on a directory of checkpoints, with failing
  sources and reorganised chains, a run that succeeds returns the statistics of one pass over the
  chain from the start, and the rows it leaves in the sink are determined.
\<close>

section \<open>The chain and the source\<close>

definition blocks :: "(u64 \<Rightarrow> PreparedBlockFrame) \<Rightarrow> nat \<Rightarrow> nat \<Rightarrow> PreparedBlockFrame list" where
  "blocks chain a b = map (\<lambda>h. chain (word_of_nat h)) [a ..< b]"

text \<open>Rows and state of one pass over the chain from the start up to a height, exclusive.\<close>

definition scanned :: "scan_env \<Rightarrow> u64 \<Rightarrow> u64 \<Rightarrow> (u64 \<Rightarrow> PreparedBlockFrame) \<Rightarrow> nat \<Rightarrow> BlockStats list \<Rightarrow> StatsScannerState \<Rightarrow> bool" where
  "scanned env start w chain n rows s \<longleftrightarrow> unat start \<le> n \<and>
     try_fold (commit_step (se_sha256 env) (se_hex env) w) (blocks chain (unat start) n) ([], StatsScannerState_new w) = Inr (rows, s)"

text \<open>A source may fail at any time, but what it answers is the chain.\<close>

definition honest :: "scan_env \<Rightarrow> ScanSource \<Rightarrow> (u64 \<Rightarrow> PreparedBlockFrame) \<Rightarrow> bool" where
  "honest env source chain \<longleftrightarrow> (\<forall>h. pf_height (chain h) = h)
     \<and> (\<forall>h x. src_get_block_hash source h = Inr x \<longrightarrow> x = pf_hash (chain h))
     \<and> (\<forall>h f. src_get_block_by_height source h = Inr f \<longrightarrow> prepare_raw_block env f = Inr (chain h))
     \<and> (\<forall>h n fs. src_get_block_range_by_height source h n = Inr fs \<longrightarrow> unat h + n < 2 ^ 64
          \<longrightarrow> try_map (prepare_raw_block env) fs = Inr (blocks chain (unat h) (unat h + n)))"

definition arrive_ok :: "scan_env \<Rightarrow> bool" where
  "arrive_ok env \<longleftrightarrow> (\<forall>rs. mset (se_arrive env rs) = mset rs)"

lemma blocks_append: "a \<le> b \<Longrightarrow> b \<le> c \<Longrightarrow> blocks chain a c = blocks chain a b @ blocks chain b c"
  using upt_add_eq_append [of a b "c - b"] by (simp add: blocks_def)

lemma blocks_Cons: "a < b \<Longrightarrow> blocks chain a b = chain (word_of_nat a) # blocks chain (Suc a) b"
  by (simp add: blocks_def upt_conv_Cons)

lemma try_map_all_ok: "try_map (\<lambda>r. r) rs = Inr ys \<Longrightarrow> rs = map Inr ys"
  by (induction rs arbitrary: ys) (auto simp: result_simps)

lemma blocks_heights:
  assumes honest: "honest env source chain" and bound: "b \<le> 2 ^ 64"
  shows "distinct (map pf_height (blocks chain a b))" and "sorted (map pf_height (blocks chain a b))"
proof -
  have heights: "map pf_height (blocks chain a b) = map word_of_nat [a ..< b]"
    using honest by (simp add: blocks_def honest_def comp_def)
  have small: "x < 2 ^ LENGTH(64)" if "x \<in> set [a ..< b]" for x using that bound by simp
  have "inj_on (word_of_nat :: nat \<Rightarrow> u64) (set [a ..< b])"
  proof (rule inj_onI)
    fix x y assume "x \<in> set [a ..< b]" "y \<in> set [a ..< b]" and eq: "(word_of_nat x :: u64) = word_of_nat y"
    from unat_word_of_nat_small [OF small [OF this(1)]] unat_word_of_nat_small [OF small [OF this(2)]] eq
    show "x = y" by metis
  qed
  then show "distinct (map pf_height (blocks chain a b))" by (simp add: heights distinct_map)
  have "sorted_wrt (\<lambda>x y. (word_of_nat x :: u64) \<le> word_of_nat y) [a ..< b]"
  proof (rule sorted_wrt_mono_rel [OF _ sorted_wrt_upt])
    fix x y assume "x \<in> set [a ..< b]" "y \<in> set [a ..< b]" "x < y"
    then show "(word_of_nat x :: u64) \<le> word_of_nat y"
      using small [of x] small [of y] by (simp only: word_le_nat_alt unat_word_of_nat_small)
  qed
  then show "sorted (map pf_height (blocks chain a b))" unfolding heights sorted_map .
qed

lemma fetch_batch:
  assumes honest: "honest env source chain" and arrive: "arrive_ok env" and bound: "unat h + unat n < 2 ^ 64"
    and fetched: "fetch_and_prepare_batch env source h n = Inr batch"
  shows "batch = blocks chain (unat h) (unat h + unat n)"
proof (cases "src_supports_block_range_batches source")
  case True
  then obtain fs where "src_get_block_range_by_height source h (unat n) = Inr fs" "try_map (prepare_raw_block env) fs = Inr batch"
    using fetched by (auto simp: fetch_and_prepare_batch_def prepare_raw_blocks_blocking_def result_simps)
  with honest bound show ?thesis by (auto simp: honest_def)
next
  case False
  let ?hs = "[unat h ..< unat h + unat n]"
  have last: "unat (h + n) = unat h + unat n" using bound by (simp add: unat_word_ariths)
  define rs where "rs = map (\<lambda>h. and_then (src_get_block_by_height source (word_of_nat h)) (prepare_raw_block env)) ?hs"
  obtain ps where ps: "try_map (\<lambda>r. r) (se_arrive env rs) = Inr ps" "batch = sort_key pf_height ps"
    using fetched False by (auto simp: fetch_and_prepare_batch_def result_simps Let_def last rs_def)
  have m: "mset (map Inr ps :: PreparedBlockFrame result list) = mset rs"
    unfolding try_map_all_ok [OF ps(1), symmetric] using arrive by (simp add: arrive_ok_def)
  have "and_then (src_get_block_by_height source (word_of_nat k)) (prepare_raw_block env) = Inr (chain (word_of_nat k))"
    if "k \<in> set ?hs" for k
  proof -
    let ?r = "and_then (src_get_block_by_height source (word_of_nat k)) (prepare_raw_block env)"
    have "?r \<in> set rs" using that by (auto simp: rs_def)
    then have "?r \<in> set (map Inr ps)" using m [THEN mset_eq_setD] by simp
    then obtain p where "?r = Inr p" by auto
    with honest show ?thesis by (auto simp: honest_def result_simps)
  qed
  then have rs: "rs = map Inr (blocks chain (unat h) (unat h + unat n))" by (simp add: rs_def blocks_def)
  have "image_mset projr (mset (map Inr ps :: PreparedBlockFrame result list)) = image_mset projr (mset rs)" using m by simp
  then have eq: "mset ps = mset (blocks chain (unat h) (unat h + unat n))"
    by (simp add: rs multiset.map_comp comp_def)
  have b: "unat h + unat n \<le> 2 ^ 64" using bound by simp
  have "inj_on pf_height (set ps)"
    unfolding mset_eq_setD [OF eq] using blocks_heights(1) [OF honest b] by (simp only: distinct_map)
  then show ?thesis unfolding ps(2) by (intro sort_key_inj_key_eq eq blocks_heights(2) [OF honest b])
qed

section \<open>Genuine checkpoints\<close>

definition genuine :: "scan_env \<Rightarrow> u64 \<Rightarrow> u64 \<Rightarrow> (u64 \<Rightarrow> PreparedBlockFrame) \<Rightarrow> StatsCheckpoint \<Rightarrow> bool" where
  "genuine env start w chain ck \<longleftrightarrow> ck_next_height ck = ck_height ck + 1 \<and> unat (ck_height ck) + 1 < 2 ^ 64
     \<and> unat start \<le> unat (ck_height ck)
     \<and> (\<exists>rows. scanned env start w chain (Suc (unat (ck_height ck))) rows (ck_scanner_state ck))"

text \<open>The chains a source may have shown: the hash of a block identifies all blocks up to it.\<close>

definition hash_linked :: "(u64 \<Rightarrow> PreparedBlockFrame) set \<Rightarrow> bool" where
  "hash_linked forks \<longleftrightarrow> (\<forall>A \<in> forks. \<forall>B \<in> forks. \<forall>h. pf_hash (A h) = pf_hash (B h) \<longrightarrow> (\<forall>k \<le> h. A k = B k))"

definition dir_ok :: "scan_env \<Rightarrow> u64 \<Rightarrow> u64 \<Rightarrow> (u64 \<Rightarrow> PreparedBlockFrame) set \<Rightarrow> ckpt_dir \<Rightarrow> bool" where
  "dir_ok env start w forks dir \<longleftrightarrow> (\<forall>name bs ck. map_of (dir_files dir) name = Some bs \<longrightarrow> from_bytes (se_postcard env) bs = Inr ck
     \<longrightarrow> ck_stats_state_version ck = STATS_STATE_VERSION \<longrightarrow> ck_utxo_hash_window ck = w
     \<longrightarrow> (\<exists>chain \<in> forks. ck_block_hash ck = pf_hash (chain (ck_height ck)) \<and> genuine env start w chain ck))"

lemma scanned_cong:
  assumes "scanned env start w A n rows s" and "\<And>k. k < n \<Longrightarrow> A (word_of_nat k) = B (word_of_nat k)"
  shows "scanned env start w B n rows s"
proof -
  have "blocks B (unat start) n = blocks A (unat start) n" using assms(2) by (simp add: blocks_def)
  with assms(1) show ?thesis by (simp add: scanned_def)
qed

lemma genuine_canonical:
  assumes linked: "hash_linked forks" "A \<in> forks" "B \<in> forks" and gen: "genuine env start w A ck"
    and hash: "pf_hash (A (ck_height ck)) = pf_hash (B (ck_height ck))"
  shows "genuine env start w B ck"
proof -
  have same: "\<forall>k \<le> ck_height ck. A k = B k" using linked hash unfolding hash_linked_def by blast
  have "A (word_of_nat k) = B (word_of_nat k)" if "k < Suc (unat (ck_height ck))" for k
  proof -
    have "k < 2 ^ LENGTH(64)" using that unat_bounds(4) [of "ck_height ck"] by simp
    then have "word_of_nat k \<le> ck_height ck" using that by (simp add: word_le_nat_alt unat_word_of_nat_small del: len_bit0)
    with same show ?thesis by blast
  qed
  note agree = this
  obtain rows where "scanned env start w A (Suc (unat (ck_height ck))) rows (ck_scanner_state ck)"
    using gen by (auto simp: genuine_def)
  then have "scanned env start w B (Suc (unat (ck_height ck))) rows (ck_scanner_state ck)"
    using agree by (rule scanned_cong)
  with gen show ?thesis by (auto simp: genuine_def)
qed

lemma restore_from_genuine:
  assumes honest: "honest env source chain" and chain: "chain \<in> forks" "hash_linked forks"
    and dir: "dir_ok env start w forks dir" and w: "sn_utxo_hash_window cfg = w"
    and restored: "restore_from env source cfg dir paths = Inr (Some ck)"
  shows "genuine env start w chain ck"
  using restored
proof (induction paths)
  case (Cons path paths)
  show ?case
  proof (cases "restore_from env source cfg dir paths = Inr (Some ck)")
    case True
    then show ?thesis by (rule Cons.IH)
  next
    case False
    with Cons.prems have load: "load_checkpoint (se_postcard env) dir path = Inr ck"
      and usable: "ck_stats_state_version ck = STATS_STATE_VERSION" "ck_utxo_hash_window ck = w"
      and canonical: "src_get_block_hash source (ck_height ck) = Inr (ck_block_hash ck)"
      using w by (auto simp: result_simps split: sum.splits if_splits)
    obtain bs where "map_of (dir_files dir) path = Some bs" "from_bytes (se_postcard env) bs = Inr ck"
      using load by (auto simp: load_checkpoint_def split: option.splits)
    with dir usable obtain A where A: "A \<in> forks" "ck_block_hash ck = pf_hash (A (ck_height ck))" "genuine env start w A ck"
      unfolding dir_ok_def by blast
    have "ck_block_hash ck = pf_hash (chain (ck_height ck))" using honest canonical by (simp add: honest_def)
    with genuine_canonical [OF chain(2) A(1) chain(1) A(3)] A(2) show ?thesis by simp
  qed
qed simp

lemma save_dir_ok:
  assumes pc: "postcard_ok (se_postcard env)" and dir: "dir_ok env start w forks dir"
    and ck: "\<exists>chain \<in> forks. ck_block_hash ck = pf_hash (chain (ck_height ck)) \<and> genuine env start w chain ck"
  shows "dir_ok env start w forks (fst (write_checkpoint hex (se_postcard env) wr ck dir))"
  unfolding dir_ok_def
proof (intro allI impI)
  fix name bs c
  assume "map_of (dir_files (fst (write_checkpoint hex (se_postcard env) wr ck dir))) name = Some bs"
    and c: "from_bytes (se_postcard env) bs = Inr c"
    and usable: "ck_stats_state_version c = STATS_STATE_VERSION" "ck_utxo_hash_window c = w"
  then consider "map_of (dir_files dir) name = Some bs" | "to_allocvec (se_postcard env) ck = Inr bs"
    using write_checkpoint_files by blast
  then show "\<exists>chain \<in> forks. ck_block_hash c = pf_hash (chain (ck_height c)) \<and> genuine env start w chain c"
  proof cases
    case 1
    with dir c usable show ?thesis unfolding dir_ok_def by blast
  next
    case 2
    with pc c have "c = ck" by (simp add: postcard_ok_def)
    with ck show ?thesis by simp
  qed
qed

section \<open>The loop keeps directory and state\<close>

definition emits :: "'s StatsSink \<Rightarrow> BlockStats list \<Rightarrow> 's \<Rightarrow> 's" where
  "emits sink rows s = fold (\<lambda>r s. fst (sk_emit_block sink r s)) rows s"

text \<open>A run that has committed all blocks below a height, and the rows it has emitted itself.\<close>

definition run_at :: "scan_env \<Rightarrow> u64 \<Rightarrow> u64 \<Rightarrow> (u64 \<Rightarrow> PreparedBlockFrame) \<Rightarrow> 's StatsSink \<Rightarrow> BlockStats list \<Rightarrow> 's \<Rightarrow> nat
    \<Rightarrow> 's scan_run \<Rightarrow> bool" where
  "run_at env start w chain sink rows0 s0 n run \<longleftrightarrow>
     (\<exists>rows. scanned env start w chain n (rows0 @ rows) (sr_state run) \<and> sr_sink run = emits sink rows s0)
     \<and> (sr_last_committed_height run = None \<and> sr_last_committed_hash run = None
        \<or> unat start < n \<and> sr_last_committed_height run = Some (word_of_nat (n - 1))
          \<and> sr_last_committed_hash run = Some (pf_hash (chain (word_of_nat (n - 1)))))"

lemma emits_snoc: "emits sink (rows @ [r]) s = fst (sk_emit_block sink r (emits sink rows s))"
  by (simp add: emits_def)

lemma scanned_snoc:
  assumes "scanned env start w chain n rows s"
    and "commit_frame (se_sha256 env) (se_hex env) w (chain (word_of_nat n)) s = Inr (row, s')"
  shows "scanned env start w chain (Suc n) (rows @ [row]) s'"
  using assms by (simp add: scanned_def blocks_def try_fold_append commit_step_def)

lemma make_genuine:
  assumes "scanned env start w chain (Suc k) rows s" and "unat start \<le> k" and "k + 1 < 2 ^ 64"
  shows "genuine env start w chain (make_checkpoint cfg s (word_of_nat k) hash)"
proof -
  have "unat (word_of_nat k :: u64) = k" using assms(3) by (intro unat_word_of_nat_small) simp
  with assms show ?thesis by (auto simp: genuine_def make_checkpoint_def)
qed

lemma save_run_ok:
  assumes pc: "postcard_ok (se_postcard env)" and dir: "dir_ok env start w forks (sr_dir run)" and chain: "chain \<in> forks"
    and at: "scanned env start w chain (Suc k) rows (sr_state run)" "unat start \<le> k" "k + 1 < 2 ^ 64"
    and saved: "save_run env cfg (word_of_nat k) (pf_hash (chain (word_of_nat k))) run = (run', r)"
  shows "\<exists>dir. run' = run\<lparr>sr_dir := dir\<rparr> \<and> dir_ok env start w forks dir"
proof -
  let ?ck = "make_checkpoint cfg (sr_state run) (word_of_nat k) (pf_hash (chain (word_of_nat k)))"
  have "\<exists>chain \<in> forks. ck_block_hash ?ck = pf_hash (chain (ck_height ?ck)) \<and> genuine env start w chain ?ck"
    using chain make_genuine [OF at] by (intro bexI [of _ chain]) (simp_all add: make_checkpoint_def)
  from save_dir_ok [OF pc dir this, of "se_hex env" "sr_writer run"] saved show ?thesis
    by (auto simp: save_run_def Let_def split: prod.splits)
qed

lemma scan_frame_ok:
  assumes pc: "postcard_ok (se_postcard env)" and chain: "chain \<in> forks" "honest env source chain"
    and w: "sn_utxo_hash_window cfg = w" and n: "unat start \<le> n" "n + 1 < 2 ^ 64"
    and run: "run_at env start w chain sink rows0 s0 n run" "dir_ok env start w forks (sr_dir run)"
    and step: "scan_frame env sink cfg (chain (word_of_nat n)) run = (run', r)"
  shows "dir_ok env start w forks (sr_dir run') \<and> (is_ok r \<longrightarrow> run_at env start w chain sink rows0 s0 (Suc n) run')"
proof (cases "commit_frame (se_sha256 env) (se_hex env) w (chain (word_of_nat n)) (sr_state run)")
  case (Inl e)
  with step w run(2) show ?thesis by (auto simp: scan_frame_def)
next
  case (Inr p)
  obtain row state where p: "p = (row, state)" by (cases p)
  obtain rows where rows: "scanned env start w chain n (rows0 @ rows) (sr_state run)" "sr_sink run = emits sink rows s0"
    using run(1) by (auto simp: run_at_def)
  have next_rows: "scanned env start w chain (Suc n) (rows0 @ rows @ [row]) state"
    using scanned_snoc [OF rows(1)] Inr p by simp
  obtain s emitted where emit: "sk_emit_block sink row (sr_sink run) = (s, emitted)" by (cases "sk_emit_block sink row (sr_sink run)")
  obtain due writer where due: "on_committed_block (sr_writer run) = (due, writer)" by (cases "on_committed_block (sr_writer run)")
  define run1 where "run1 = run\<lparr>sr_state := state, sr_sink := s, sr_last_committed_height := Some (word_of_nat n),
    sr_last_committed_hash := Some (pf_hash (chain (word_of_nat n))), sr_writer := writer\<rparr>"
  have "pf_height (chain (word_of_nat n)) = word_of_nat n" using chain(2) by (simp add: honest_def)
  then have step': "scan_frame env sink cfg (chain (word_of_nat n)) run = (case emitted of
      Inl e \<Rightarrow> (run\<lparr>sr_state := state, sr_sink := s\<rparr>, Inl e)
    | Inr _ \<Rightarrow> if due then save_run env cfg (word_of_nat n) (pf_hash (chain (word_of_nat n))) run1 else (run1, Inr ()))"
    using Inr p emit due w by (simp add: scan_frame_def run1_def split: sum.split)
  have at: "run_at env start w chain sink rows0 s0 (Suc n) run1"
    using next_rows rows(2) emit n(1) by (auto simp: run_at_def run1_def emits_snoc intro!: exI [of _ "rows @ [row]"])
  have dir: "dir_ok env start w forks (sr_dir run1)" using run(2) by (simp add: run1_def)
  have st: "scanned env start w chain (Suc n) (rows0 @ rows @ [row]) (sr_state run1)" using next_rows by (simp add: run1_def)
  show ?thesis
  proof (cases "is_ok emitted \<and> due")
    case True
    then have "save_run env cfg (word_of_nat n) (pf_hash (chain (word_of_nat n))) run1 = (run', r)"
      using step step' by (auto simp: is_ok_iff)
    from save_run_ok [OF pc dir chain(1) st n this] at show ?thesis by (auto simp: run_at_def)
  next
    case False
    with step step' run(2) at dir show ?thesis by (auto simp: is_ok_iff split: sum.splits)
  qed
qed

lemma scan_frames_ok:
  assumes pc: "postcard_ok (se_postcard env)" and chain: "chain \<in> forks" "honest env source chain"
    and w: "sn_utxo_hash_window cfg = w" and b: "b < 2 ^ 64"
    and "unat start \<le> a" "a \<le> b" "run_at env start w chain sink rows0 s0 a run" "dir_ok env start w forks (sr_dir run)"
    and "scan_frames env sink cfg (blocks chain a b) run = (run', r)"
  shows "dir_ok env start w forks (sr_dir run') \<and> (is_ok r \<longrightarrow> run_at env start w chain sink rows0 s0 b run')"
  using assms(6-)
proof (induction "b - a" arbitrary: a run)
  case 0
  then show ?case by (auto simp: blocks_def)
next
  case (Suc d)
  then have ab: "a < b" by simp
  obtain run1 r1 where 1: "scan_frame env sink cfg (chain (word_of_nat a)) run = (run1, r1)"
    by (cases "scan_frame env sink cfg (chain (word_of_nat a)) run")
  have ok: "dir_ok env start w forks (sr_dir run1)" "is_ok r1 \<Longrightarrow> run_at env start w chain sink rows0 s0 (Suc a) run1"
    using scan_frame_ok [OF pc chain w Suc.prems(1) _ Suc.prems(3,4) 1] ab b by simp_all
  have "scan_frames env sink cfg (blocks chain a b) run
      = (case r1 of Inl e \<Rightarrow> (run1, Inl e) | Inr _ \<Rightarrow> scan_frames env sink cfg (blocks chain (Suc a) b) run1)"
    using 1 by (simp add: blocks_Cons [OF ab] split: sum.split)
  with Suc.prems(5) Suc.hyps(1) [of "Suc a" run1] Suc.hyps(2) Suc.prems(1) ab ok show ?case
    by (auto simp: is_ok_iff split: sum.splits)
qed

lemma batch_count:
  assumes "next_height \<le> max_end" and "unat max_end + 1 < 2 ^ 64" and "c = min (max_end - next_height + 1) batch_size"
  shows "unat next_height + unat (c :: u64) \<le> Suc (unat max_end)" and "unat (next_height + c) = unat next_height + unat c"
proof -
  have "unat (max_end - next_height + 1) = unat max_end - unat next_height + 1"
    using assms(1,2) by (simp add: unat_word_ariths word_le_nat_alt unat_sub)
  moreover have "unat c \<le> unat (max_end - next_height + 1)" using assms(3) by (simp add: word_le_nat_alt [symmetric])
  ultimately show le: "unat next_height + unat c \<le> Suc (unat max_end)" using assms(1) by (simp add: word_le_nat_alt)
  then show "unat (next_height + c) = unat next_height + unat c" using assms(2) by (simp add: unat_word_ariths)
qed

lemma scan_batches_ok:
  assumes pc: "postcard_ok (se_postcard env)" and chain: "chain \<in> forks" "honest env source chain" and arrive: "arrive_ok env"
    and w: "sn_utxo_hash_window cfg = w" and bound: "unat max_end + 1 < 2 ^ 64"
    and "unat start \<le> unat next_height" "unat next_height \<le> Suc (unat max_end)"
    "run_at env start w chain sink rows0 s0 (unat next_height) run" "dir_ok env start w forks (sr_dir run)"
    "scan_batches fuel env source sink cfg max_end next_height run = (run', r)"
  shows "dir_ok env start w forks (sr_dir run') \<and> (is_ok r \<longrightarrow> run_at env start w chain sink rows0 s0 (Suc (unat max_end)) run')"
  using assms(7-)
proof (induction fuel arbitrary: next_height run)
  case 0
  then have "\<not> next_height \<le> max_end \<Longrightarrow> unat next_height = Suc (unat max_end)" by (simp add: word_le_nat_alt)
  with 0 show ?case by (auto simp: is_ok_iff split: if_splits)
next
  case (Suc fuel)
  show ?case
  proof (cases "next_height \<le> max_end")
    case False
    then have "unat next_height = Suc (unat max_end)" using Suc.prems(2) by (simp add: word_le_nat_alt)
    with Suc.prems False show ?thesis by auto
  next
    case True
    define c where "c = min (max_end - next_height + 1) (word_of_nat (max (sn_source_batch_size cfg) 1))"
    note count = batch_count [OF True bound c_def]
    have step: "scan_batches (Suc fuel) env source sink cfg max_end next_height run
        = (case fetch_and_prepare_batch env source next_height c of Inl e \<Rightarrow> (run, Inl e)
           | Inr batch \<Rightarrow> (case scan_frames env sink cfg batch run of (run, Inl e) \<Rightarrow> (run, Inl e)
             | (run, Inr _) \<Rightarrow> scan_batches fuel env source sink cfg max_end (next_height + c) run))"
      unfolding c_def scan_batches.simps Let_def using True by (simp only: if_True)
    show ?thesis
    proof (cases "fetch_and_prepare_batch env source next_height c")
      case (Inl e)
      with Suc.prems(4,5) step show ?thesis by (auto simp: is_ok_iff)
    next
      case (Inr batch)
      have below: "unat next_height + unat c < 2 ^ 64" using count(1) bound by simp
      have batch: "batch = blocks chain (unat next_height) (unat next_height + unat c)"
        by (rule fetch_batch [OF chain(2) arrive below Inr])
      obtain run1 r1 where 1: "scan_frames env sink cfg batch run = (run1, r1)" by (cases "scan_frames env sink cfg batch run")
      have ok: "dir_ok env start w forks (sr_dir run1)"
          "is_ok r1 \<Longrightarrow> run_at env start w chain sink rows0 s0 (unat next_height + unat c) run1"
        using scan_frames_ok [OF pc chain w below Suc.prems(1) _ Suc.prems(3,4) 1 [unfolded batch]] by simp_all
      show ?thesis
        using Suc.IH [of "next_height + c" run1] Suc.prems(1,5) step Inr 1 ok count
        by (auto simp: is_ok_iff split: sum.splits)
    qed
  qed
qed

section \<open>A whole run\<close>

definition finish_sink :: "'s StatsSink \<Rightarrow> Stats \<Rightarrow> 's \<Rightarrow> 's" where
  "finish_sink sink stats s = fst (sk_flush sink (fst (sk_emit_run sink stats s)))"

lemma scan_finish_ok:
  assumes pc: "postcard_ok (se_postcard env)" and chain: "chain \<in> forks" and bound: "e + 1 < 2 ^ 64" "unat start \<le> e"
    and run: "run_at env start w chain sink rows0 s0 (Suc e) run" "dir_ok env start w forks (sr_dir run)"
    and fin: "scan_finish env sink cfg run = ((dir', s'), r)"
  shows "dir_ok env start w forks dir'
    \<and> (\<forall>stats. r = Inr stats \<longrightarrow> stats = ss_stats (sr_state run) \<and> s' = finish_sink sink stats (sr_sink run))"
proof -
  define saved where "saved = (if needs_final_flush (sr_writer run) then
      (case (sr_last_committed_height run, sr_last_committed_hash run) of
         (Some height, Some hash) \<Rightarrow> save_run env cfg height hash run
       | _ \<Rightarrow> (run, Inr ())) else (run, Inr ()))"
  obtain run1 r1 where 1: "saved = (run1, r1)" by (cases saved)
  obtain rows where rows: "scanned env start w chain (Suc e) (rows0 @ rows) (sr_state run)" using run(1) by (auto simp: run_at_def)
  have saved_ok: "save_run env cfg (word_of_nat e) (pf_hash (chain (word_of_nat e))) run = (run1, r1) \<Longrightarrow>
      \<exists>dir. run1 = run\<lparr>sr_dir := dir\<rparr> \<and> dir_ok env start w forks dir"
    by (rule save_run_ok [OF pc run(2) chain rows bound(2,1)])
  have "\<exists>dir. run1 = run\<lparr>sr_dir := dir\<rparr> \<and> dir_ok env start w forks dir"
    using run 1 saved_ok unfolding saved_def run_at_def by (auto split: if_splits intro: exI [of _ "sr_dir run"])
  then obtain dir where dir: "run1 = run\<lparr>sr_dir := dir\<rparr>" "dir_ok env start w forks dir" by blast
  have "scan_finish env sink cfg run = (case r1 of Inl e \<Rightarrow> ((sr_dir run1, sr_sink run1), Inl e)
      | Inr _ \<Rightarrow> (let (s, emitted) = sk_emit_run sink (ss_stats (sr_state run1)) (sr_sink run1)
         in case emitted of Inl e \<Rightarrow> ((sr_dir run1, s), Inl e)
            | Inr _ \<Rightarrow> (let (s, flushed) = sk_flush sink s
               in case flushed of Inl e \<Rightarrow> ((sr_dir run1, s), Inl e) | Inr _ \<Rightarrow> ((sr_dir run1, s), Inr (ss_stats (sr_state run1))))))"
    unfolding scan_finish_def saved_def [symmetric] by (simp only: 1 Let_def prod.case)
  with fin dir show ?thesis
    by (auto simp: finish_sink_def Let_def split: sum.splits prod.splits)
qed

lemma scan_from_ok:
  assumes pc: "postcard_ok (se_postcard env)" and chain: "chain \<in> forks" "honest env source chain" and arrive: "arrive_ok env"
    and w: "sn_utxo_hash_window cfg = w" and bound: "unat max_end + 1 < 2 ^ 64" and dir: "dir_ok env start w forks dir"
    and at: "unat start \<le> unat scan_start" "scanned env start w chain (unat scan_start) rows0 state"
    and run: "scan_from env source sink cfg max_end scan_start state (dir, s0) = ((dir', s'), r)"
  shows "dir_ok env start w forks dir'
    \<and> (\<forall>stats. r = Inr stats \<longrightarrow> (\<exists>rows s. scanned env start w chain (max (unat scan_start) (Suc (unat max_end))) (rows0 @ rows) s
         \<and> stats = ss_stats s
         \<and> s' = (if scan_start \<le> max_end then finish_sink sink stats (emits sink rows s0) else s0)
         \<and> (scan_start > max_end \<longrightarrow> rows = [])))"
proof (cases "scan_start > max_end")
  case True
  then have "max (unat scan_start) (Suc (unat max_end)) = unat scan_start" by (simp add: word_less_nat_alt)
  with True run dir at(2) show ?thesis by (auto simp: scan_from_def intro!: exI [of _ "[]"])
next
  case False
  let ?run = "\<lparr>sr_dir = dir, sr_sink = s0, sr_state = state, sr_writer = CheckpointWriter_new (sn_checkpoints cfg),
    sr_last_committed_height = None, sr_last_committed_hash = None\<rparr>"
  have top: "max (unat scan_start) (Suc (unat max_end)) = Suc (unat max_end)" and le: "unat scan_start \<le> Suc (unat max_end)"
    using False by (simp_all add: word_less_nat_alt)
  obtain run1 r1 where 1: "scan_batches (Suc (unat max_end - unat scan_start)) env source sink cfg max_end scan_start ?run = (run1, r1)"
    by (cases "scan_batches (Suc (unat max_end - unat scan_start)) env source sink cfg max_end scan_start ?run")
  have "run_at env start w chain sink rows0 s0 (unat scan_start) ?run"
    using at(2) by (auto simp: run_at_def emits_def intro!: exI [of _ "[]"])
  from scan_batches_ok [OF pc chain arrive w bound at(1) le this _ 1] dir
  have ok: "dir_ok env start w forks (sr_dir run1)" "is_ok r1 \<Longrightarrow> run_at env start w chain sink rows0 s0 (Suc (unat max_end)) run1"
    by simp_all
  show ?thesis
  proof (cases r1)
    case (Inl e)
    with False run 1 ok(1) show ?thesis by (auto simp: scan_from_def simp del: scan_batches.simps)
  next
    case (Inr u)
    then have at1: "run_at env start w chain sink rows0 s0 (Suc (unat max_end)) run1" using ok(2) by (simp add: is_ok_iff)
    have "scan_finish env sink cfg run1 = ((dir', s'), r)"
      using False run 1 Inr by (simp add: scan_from_def del: scan_batches.simps)
    moreover have "unat start \<le> unat max_end" using at(1) False by (simp add: word_less_nat_alt)
    ultimately have fin: "dir_ok env start w forks dir'"
        "\<And>stats. r = Inr stats \<Longrightarrow> stats = ss_stats (sr_state run1) \<and> s' = finish_sink sink stats (sr_sink run1)"
      using scan_finish_ok [OF pc chain(1) bound _ at1 ok(1)] by blast+
    obtain rows where "scanned env start w chain (Suc (unat max_end)) (rows0 @ rows) (sr_state run1)" "sr_sink run1 = emits sink rows s0"
      using at1 by (auto simp: run_at_def)
    with fin False show ?thesis unfolding top by (auto intro!: exI [of _ rows] exI [of _ "sr_state run1"])
  qed
qed

definition restored :: "scan_env \<Rightarrow> ScanSource \<Rightarrow> ScanConfig \<Rightarrow> ckpt_dir \<Rightarrow> StatsCheckpoint option result" where
  "restored env source cfg dir =
     (if cc_enabled (sn_checkpoints cfg) then restore_newest_valid_checkpoint env source cfg dir else Inr None)"

text \<open>The height after the last block the result covers, and the rows that were there before the run.\<close>

definition scan_limit :: "ScanConfig \<Rightarrow> u64 \<Rightarrow> StatsCheckpoint option \<Rightarrow> nat" where
  "scan_limit cfg tip ck = (case ck of
     None \<Rightarrow> Suc (unat (scan_end cfg tip))
   | Some c \<Rightarrow> max (Suc (unat (ck_height c))) (Suc (unat (scan_end cfg tip))))"

definition resumed_rows :: "u64 \<Rightarrow> StatsCheckpoint option \<Rightarrow> nat" where
  "resumed_rows start ck = (case ck of None \<Rightarrow> 0 | Some c \<Rightarrow> Suc (unat (ck_height c)) - unat start)"

definition resumed_sink :: "'s StatsSink \<Rightarrow> StatsCheckpoint option \<Rightarrow> 's \<Rightarrow> 's" where
  "resumed_sink sink ck s = (case ck of None \<Rightarrow> s | Some c \<Rightarrow> fst (sk_rollback_to_height sink (ck_height c) s))"

lemma commit_steps_length:
  "try_fold (commit_step sha256 hex w) frames (rows0, s) = Inr (rows, s') \<Longrightarrow> length rows = length rows0 + length frames"
  by (induction frames arbitrary: rows0 s) (fastforce simp: commit_step_def result_simps)+

lemma scanned_length: "scanned env start w chain n rows s \<Longrightarrow> length rows = n - unat start"
  using commit_steps_length by (fastforce simp: scanned_def blocks_def)

lemma scan_end_ge: "sn_start cfg \<le> saturating_sub tip (sn_finality_depth cfg) \<Longrightarrow> unat (sn_start cfg) \<le> unat (scan_end cfg tip)"
proof -
  assume "sn_start cfg \<le> saturating_sub tip (sn_finality_depth cfg)"
  moreover have "sn_start cfg \<le> saturating_add (sn_start cfg) (saturating_sub (sn_blocks cfg) 1)"
    using unat_saturating_add [of "sn_start cfg"] unat_bounds(4) [of "sn_start cfg"] by (simp add: word_le_nat_alt)
  ultimately show ?thesis by (simp add: scan_end_def word_le_nat_alt [symmetric])
qed

lemma scan_end_le: "unat (scan_end cfg tip) \<le> unat tip"
proof -
  have "unat (scan_end cfg tip) \<le> unat (saturating_sub tip (sn_finality_depth cfg))"
    by (simp add: scan_end_def word_le_nat_alt [symmetric])
  then show ?thesis by (simp add: unat_saturating_sub)
qed

text \<open>The sink after a run that emitted the given rows; a run without new blocks does not even flush.\<close>

definition sink_after :: "'s StatsSink \<Rightarrow> Stats \<Rightarrow> BlockStats list \<Rightarrow> 's \<Rightarrow> 's" where
  "sink_after sink stats rows s = (if rows = [] then s else finish_sink sink stats (emits sink rows s))"

lemma scan_continues:
  assumes pc: "postcard_ok (se_postcard env)" and chain: "chain \<in> forks" "honest env source chain" and arrive: "arrive_ok env"
    and w: "sn_utxo_hash_window cfg = w" and bound: "unat max_end + 1 < 2 ^ 64" and dir: "dir_ok env start w forks dir"
    and at: "unat start \<le> unat scan_start" "scanned env start w chain (unat scan_start) rows0 state"
    and run: "scan_from env source sink cfg max_end scan_start state (dir, s0) = ((dir', s'), r)"
  shows "dir_ok env start w forks dir' \<and> (\<forall>stats. r = Inr stats \<longrightarrow>
    (\<exists>rows s. scanned env start w chain (max (unat scan_start) (Suc (unat max_end))) rows s \<and> stats = ss_stats s
       \<and> s' = sink_after sink stats (drop (length rows0) rows) s0))"
proof (intro conjI allI impI)
  note ok = scan_from_ok [OF pc chain arrive w bound dir at run]
  from ok show "dir_ok env start w forks dir'" by blast
  fix stats assume "r = Inr stats"
  with ok obtain rows s where 1: "scanned env start w chain (max (unat scan_start) (Suc (unat max_end))) (rows0 @ rows) s"
      "stats = ss_stats s" "s' = (if scan_start \<le> max_end then finish_sink sink stats (emits sink rows s0) else s0)"
      "scan_start > max_end \<Longrightarrow> rows = []"
    by blast
  have "rows = [] \<longleftrightarrow> \<not> scan_start \<le> max_end"
  proof (cases "scan_start \<le> max_end")
    case True
    then have "length (rows0 @ rows) > length rows0"
      using scanned_length [OF 1(1)] scanned_length [OF at(2)] at(1) by (simp add: word_le_nat_alt)
    with True show ?thesis by auto
  qed (use 1(4) in auto)
  with 1 show "\<exists>rows s. scanned env start w chain (max (unat scan_start) (Suc (unat max_end))) rows s \<and> stats = ss_stats s
      \<and> s' = sink_after sink stats (drop (length rows0) rows) s0"
    by (intro exI [of _ "rows0 @ rows"] exI [of _ s]) (simp add: sink_after_def)
qed

lemma scan_restored:
  assumes "src_get_best_height source = Inr tip" and "start \<le> saturating_sub tip (sn_finality_depth cfg)"
    and "sn_start cfg = start" "sn_utxo_hash_window cfg = w"
  shows "scan env source sink cfg (dir, s0) = (case restored env source cfg dir of
      Inl e \<Rightarrow> ((dir, s0), Inl e)
    | Inr None \<Rightarrow> scan_from env source sink cfg (scan_end cfg tip) start (StatsScannerState_new w) (dir, s0)
    | Inr (Some c) \<Rightarrow> (case sk_rollback_to_height sink (ck_height c) s0 of
        (s, Inl e) \<Rightarrow> ((dir, s), Inl e)
      | (s, Inr _) \<Rightarrow> scan_from env source sink cfg (scan_end cfg tip) (ck_next_height c) (ck_scanner_state c) (dir, s)))"
  using assms by (auto simp: scan_def restored_def Let_def not_less split: sum.split option.split prod.split)

lemma scan_resumes:
  assumes pc: "postcard_ok (se_postcard env)" and arrive: "arrive_ok env"
    and chain: "hash_linked forks" "chain \<in> forks" "honest env source chain"
    and cfg: "sn_start cfg = start" "sn_utxo_hash_window cfg = w"
    and dir: "dir_ok env start w forks dir"
    and tip: "src_get_best_height source = Inr tip" "unat tip + 1 < 2 ^ 64" "start \<le> saturating_sub tip (sn_finality_depth cfg)"
    and run: "scan env source sink cfg (dir, s0) = ((dir', s'), r)"
  shows "dir_ok env start w forks dir' \<and> (\<forall>stats. r = Inr stats \<longrightarrow>
    (\<exists>ck rows s. restored env source cfg dir = Inr ck \<and> scanned env start w chain (scan_limit cfg tip ck) rows s
       \<and> stats = ss_stats s
       \<and> s' = sink_after sink stats (drop (resumed_rows start ck) rows) (resumed_sink sink ck s0)))"
proof -
  let ?e = "scan_end cfg tip"
  have e: "unat ?e + 1 < 2 ^ 64" "unat start \<le> unat ?e"
    using scan_end_le [of cfg tip] scan_end_ge [of cfg tip] tip(2,3) cfg(1) by simp_all
  note from_ok = scan_continues [OF pc chain(2,3) arrive cfg(2) e(1)]
  note scan = scan_restored [OF tip(1,3) cfg, of env sink dir s0]
  show ?thesis
  proof (cases "restored env source cfg dir")
    case (Inl x)
    with scan run dir show ?thesis by auto
  next
    case (Inr ck)
    show ?thesis
    proof (cases ck)
      case None
      have at: "scanned env start w chain (unat start) [] (StatsScannerState_new w)" by (simp add: scanned_def blocks_def)
      have f: "scan_from env source sink cfg ?e start (StatsScannerState_new w) (dir, s0) = ((dir', s'), r)"
        using scan run Inr None by simp
      have "max (unat start) (Suc (unat ?e)) = scan_limit cfg tip ck" "length [] = resumed_rows start ck" "resumed_sink sink ck s0 = s0"
        using None e(2) by (simp_all add: scan_limit_def resumed_rows_def resumed_sink_def)
      then show ?thesis using from_ok [OF dir order_refl at f] Inr by auto
    next
      case (Some c)
      have "restore_from env source cfg dir (list_checkpoints_newest_first dir) = Inr (Some c)"
        using Inr Some by (auto simp: restored_def restore_newest_valid_checkpoint_def split: if_splits)
      from restore_from_genuine [OF chain(3,2,1) dir cfg(2) this]
      obtain rows0 where gen: "ck_next_height c = ck_height c + 1" "unat (ck_height c) + 1 < 2 ^ 64" "unat start \<le> unat (ck_height c)"
          "scanned env start w chain (Suc (unat (ck_height c))) rows0 (ck_scanner_state c)"
        by (auto simp: genuine_def)
      have next_height: "unat (ck_next_height c) = Suc (unat (ck_height c))" using gen(1,2) by (simp add: unat_word_ariths)
      have len: "length rows0 = resumed_rows start ck" using scanned_length [OF gen(4)] Some by (simp add: resumed_rows_def)
      obtain s1 r1 where 1: "sk_rollback_to_height sink (ck_height c) s0 = (s1, r1)"
        by (cases "sk_rollback_to_height sink (ck_height c) s0")
      show ?thesis
      proof (cases r1)
        case (Inl x)
        with scan run dir Inr Some 1 show ?thesis by auto
      next
        case (Inr u)
        with scan run \<open>restored env source cfg dir = Inr ck\<close> Some 1
        have f: "scan_from env source sink cfg ?e (ck_next_height c) (ck_scanner_state c) (dir, s1) = ((dir', s'), r)" by simp
        have start: "unat start \<le> unat (ck_next_height c)" using gen(3) next_height by simp
        have at: "scanned env start w chain (unat (ck_next_height c)) rows0 (ck_scanner_state c)" using gen(4) next_height by simp
        have "resumed_sink sink ck s0 = s1" using Some 1 by (simp add: resumed_sink_def)
        moreover have "max (unat (ck_next_height c)) (Suc (unat ?e)) = scan_limit cfg tip ck"
          using Some next_height by (simp add: scan_limit_def)
        ultimately show ?thesis using from_ok [OF dir start at f] len \<open>restored env source cfg dir = Inr ck\<close> by auto
      qed
    qed
  qed
qed

end
