(* ===== verification/Resume_Runs.thy ===== *)
theory Resume_Runs
  imports Scan_Resume
begin

text \<open>
  Histories of statistics runs: what a run returns after any history on the same directory of checkpoints, what it
  leaves in a sink that keeps the contract of \<open>row_sink\<close>, and that a run with a complete source
  succeeds. The CSV sink and the fan-out over it are instances.
\<close>

section \<open>The rows a run leaves in its sink\<close>

context row_sink
begin

lemma emits_rows:
  assumes "sink_ok s" and "list_all row_ok rows"
  shows "sink_ok (emits sink rows s) \<and> sink_rows (emits sink rows s) = sink_rows s @ map row_line rows"
  using assms
proof (induction rows arbitrary: s)
  case (Cons r rows)
  then obtain s' where "sk_emit_block sink r s = (s', Inr ())" "sink_ok s'" "sink_rows s' = sink_rows s @ [row_line r]"
    using emit_block [of s r] by auto
  with Cons.IH [of s'] Cons.prems show ?case by (simp add: emits_def)
qed (simp add: emits_def)

lemma finish_rows:
  assumes "sink_ok s"
  shows "sink_ok (finish_sink sink stats s) \<and> sink_rows (finish_sink sink stats s) = sink_rows s"
proof -
  obtain s1 where 1: "sk_emit_run sink stats s = (s1, Inr ())" "sink_ok s1" "sink_rows s1 = sink_rows s"
    using emit_run [OF assms] by blast
  with flush [OF 1(2)] show ?thesis by (auto simp: finish_sink_def)
qed

lemma sink_after_rows:
  assumes "sink_ok s" and "list_all row_ok rows"
  shows "sink_ok (sink_after sink stats rows s) \<and> sink_rows (sink_after sink stats rows s) = sink_rows s @ map row_line rows"
  using emits_rows [OF assms] finish_rows [of "emits sink rows s" stats] assms(1) by (simp add: sink_after_def)

lemma resumed_sink_rows:
  assumes "sink_ok s"
  shows "sink_ok (resumed_sink sink ck s)
    \<and> sink_rows (resumed_sink sink ck s) = (case ck of None \<Rightarrow> sink_rows s | Some c \<Rightarrow> filter (kept (ck_height c)) (sink_rows s))"
proof (cases ck)
  case (Some c)
  with rollback [OF assms, of "ck_height c"] show ?thesis by (auto simp: resumed_sink_def)
qed (use assms in \<open>simp add: resumed_sink_def\<close>)

end

section \<open>Rows are plain text\<close>

definition hex_plain :: "(bytes \<Rightarrow> string) \<Rightarrow> bool" where
  "hex_plain hex \<longleftrightarrow> (\<forall>bs. LF \<notin> set (hex bs))"

lemma commit_frame_row:
  assumes "commit_frame sha256 hex w frame s = Inr (row, s')"
  shows "bk_height row = pf_height frame" and "hex_plain hex \<Longrightarrow> row_plain row"
proof -
  obtain s1 b1 where 1: "fold (commit_prepared_tx sha256 (ss_last_id s)) (pf_txs frame) (s, PerBlock_default) = (s1, b1)"
    by (cases "fold (commit_prepared_tx sha256 (ss_last_id s)) (pf_txs frame) (s, PerBlock_default)")
  obtain h u where 2: "finalize_block hex (ss_utxo_hash s1) = (h, u)" by (cases "finalize_block hex (ss_utxo_hash s1)")
  have row: "bk_height row = pf_height frame" "bk_block_hash row = block_hash_hex hex (pf_hash frame)" "bk_utxo_hash row = h"
    using assms 1 2 by (auto simp: commit_frame_def measure_sorted_uid_encoding_def and_then_eq_Inr drain_into_def
      refresh_classes_def BlockStats_new_def Let_def)
  then show "bk_height row = pf_height frame" by simp
  assume hex: "hex_plain hex"
  have "h = [] \<or> (\<exists>acc. h = hex acc)"
    using 2 by (auto simp: finalize_block_def Let_def split: if_splits prod.splits)
  with row hex show "row_plain row" by (auto simp: row_plain_def hex_plain_def block_hash_hex_def)
qed

lemma commit_steps_plain:
  assumes "hex_plain hex" and "try_fold (commit_step sha256 hex w) frames (rows0, s) = Inr (rows, s')" and "list_all row_plain rows0"
  shows "list_all row_plain rows"
  using assms(2,3)
proof (induction frames arbitrary: rows0 s)
  case (Cons frame frames)
  obtain row s1 where 1: "commit_frame sha256 hex w frame s = Inr (row, s1)"
      "try_fold (commit_step sha256 hex w) frames (rows0 @ [row], s1) = Inr (rows, s')"
    using Cons.prems(1) by (auto simp: commit_step_def [of sha256 hex w frame] and_then_eq_Inr)
  from Cons.IH [OF 1(2)] commit_frame_row(2) [OF 1(1) assms(1)] Cons.prems(2) show ?case by simp
qed simp

lemma scanned_plain: "hex_plain (se_hex env) \<Longrightarrow> scanned env start w chain n rows s \<Longrightarrow> list_all row_plain rows"
  unfolding scanned_def using commit_steps_plain by fastforce

section \<open>Histories\<close>

text \<open>
  The directories that runs with one start height and hash window leave behind, whatever happened to them: each run has its
  own configuration, chain, state of the sink, and a source that may fail at any call.
\<close>

inductive stats_history :: "scan_env \<Rightarrow> 's StatsSink \<Rightarrow> u64 \<Rightarrow> u64 \<Rightarrow> (u64 \<Rightarrow> PreparedBlockFrame) set \<Rightarrow> ckpt_dir \<Rightarrow> bool"
  for env sink start w forks where
  new: "stats_history env sink start w forks None"
| run: "stats_history env sink start w forks dir \<Longrightarrow> chain \<in> forks \<Longrightarrow> honest env source chain
    \<Longrightarrow> sn_start cfg = start \<Longrightarrow> sn_utxo_hash_window cfg = w
    \<Longrightarrow> (\<And>tip. src_get_best_height source = Inr tip \<Longrightarrow> unat tip + 1 < 2 ^ 64)
    \<Longrightarrow> scan env source sink cfg (dir, s) = ((dir', s'), r)
    \<Longrightarrow> stats_history env sink start w forks dir'"

lemma history_dir_ok:
  assumes "stats_history env sink start w forks dir"
    and env: "postcard_ok (se_postcard env)" "arrive_ok env" "hash_linked forks"
  shows "dir_ok env start w forks dir"
  using assms(1)
proof induction
  case new
  then show ?case by (simp add: dir_ok_def dir_files_def)
next
  case (run dir chain source cfg s dir' s' r)
  show ?case
  proof (cases "\<exists>tip. src_get_best_height source = Inr tip \<and> start \<le> saturating_sub tip (sn_finality_depth cfg)")
    case True
    then obtain tip where "src_get_best_height source = Inr tip" "start \<le> saturating_sub tip (sn_finality_depth cfg)" by blast
    with scan_resumes [OF env(1,2,3) run(2-5) run.IH _ run(6) _ run(7)] show ?thesis by blast
  next
    case False
    then have "dir' = dir" using run(4,7) by (cases "src_get_best_height source") (auto simp: scan_def not_le)
    with run.IH show ?thesis by simp
  qed
qed

section \<open>A complete source\<close>

definition complete :: "ScanSource \<Rightarrow> u64 \<Rightarrow> bool" where
  "complete source tip \<longleftrightarrow> src_get_best_height source = Inr tip
     \<and> (\<forall>h \<le> tip. is_ok (src_get_block_hash source h) \<and> is_ok (src_get_block_by_height source h))
     \<and> (\<forall>h n. unat h + n \<le> Suc (unat tip) \<longrightarrow> is_ok (src_get_block_range_by_height source h n))"

definition serializes :: "scan_env \<Rightarrow> ScanConfig \<Rightarrow> (u64 \<Rightarrow> PreparedBlockFrame) \<Rightarrow> bool" where
  "serializes env cfg chain \<longleftrightarrow> (\<forall>n rows s. scanned env (sn_start cfg) (sn_utxo_hash_window cfg) chain (Suc n) rows s
     \<longrightarrow> is_ok (to_allocvec (se_postcard env) (make_checkpoint cfg s (word_of_nat n) (pf_hash (chain (word_of_nat n))))))"

definition chain_outputs :: "(u64 \<Rightarrow> PreparedBlockFrame) \<Rightarrow> nat \<Rightarrow> nat \<Rightarrow> nat" where
  "chain_outputs chain a b = sum_list (map frame_outputs (blocks chain a b))"

lemma chain_outputs_mono: "a \<le> b \<Longrightarrow> b \<le> c \<Longrightarrow> chain_outputs chain a b \<le> chain_outputs chain a c"
  by (simp add: chain_outputs_def blocks_append [of a b c])

lemma try_map_live: "(\<And>r. r \<in> set rs \<Longrightarrow> is_ok r) \<Longrightarrow> is_ok (try_map (\<lambda>r. r) rs)"
proof (induction rs)
  case (Cons r rs)
  then obtain y ys where "r = Inr y" "try_map (\<lambda>r. r) rs = Inr ys" by (fastforce simp: is_ok_iff)
  then show ?case by (simp add: is_ok_iff)
qed (simp add: is_ok_iff)

lemma fetch_live:
  assumes honest: "honest env source chain" and arrive: "arrive_ok env" and complete: "complete source tip"
    and bound: "unat h + unat n \<le> Suc (unat tip)" "Suc (unat tip) < 2 ^ 64"
  shows "fetch_and_prepare_batch env source h n = Inr (blocks chain (unat h) (unat h + unat n))"
proof -
  have "is_ok (fetch_and_prepare_batch env source h n)"
  proof (cases "src_supports_block_range_batches source")
    case True
    obtain fs where "src_get_block_range_by_height source h (unat n) = Inr fs"
      using complete bound(1) unfolding complete_def is_ok_iff by blast
    with True honest bound show ?thesis
      by (auto simp: fetch_and_prepare_batch_def prepare_raw_blocks_blocking_def honest_def is_ok_iff)
  next
    case False
    define rs where "rs = map (\<lambda>h. and_then (src_get_block_by_height source (word_of_nat h)) (prepare_raw_block env))
      [unat h ..< unat (h + n)]"
    have last: "unat (h + n) = unat h + unat n" using bound by (simp add: unat_word_ariths)
    have "is_ok r" if r: "r \<in> set rs" for r
    proof -
      obtain k where k: "r = and_then (src_get_block_by_height source (word_of_nat k)) (prepare_raw_block env)" "k \<le> unat tip"
        using r bound(1) by (auto simp: rs_def last)
      then have "(word_of_nat k :: u64) \<le> tip"
        using bound(2) unat_word_of_nat_small [of k, where 'a = 64] by (simp add: word_le_nat_alt)
      then obtain f where "src_get_block_by_height source (word_of_nat k) = Inr f"
        using complete by (auto simp: complete_def is_ok_iff)
      with honest k(1) show ?thesis by (auto simp: honest_def is_ok_iff)
    qed
    moreover have "set (se_arrive env rs) = set rs" using arrive by (auto simp: arrive_ok_def dest: mset_eq_setD)
    ultimately have "is_ok (try_map (\<lambda>r. r) (se_arrive env rs))" by (intro try_map_live) simp
    with False show ?thesis by (auto simp: fetch_and_prepare_batch_def rs_def Let_def is_ok_iff)
  qed
  then obtain batch where batch: "fetch_and_prepare_batch env source h n = Inr batch" by (auto simp: is_ok_iff)
  have "unat h + unat n < 2 ^ 64" using bound by simp
  from fetch_batch [OF honest arrive this batch] batch show ?thesis by simp
qed

lemma commit_live:
  assumes "scanned env start w chain n rows s" and "chain_outputs chain (unat start) (Suc n) < 2 ^ 60"
  shows "\<exists>row s'. commit_frame (se_sha256 env) (se_hex env) w (chain (word_of_nat n)) s = Inr (row, s')"
proof -
  have n: "unat start \<le> n" using assms(1) by (simp add: scanned_def)
  have "is_ok (try_fold (commit_step (se_sha256 env) (se_hex env) w) (blocks chain (unat start) (Suc n)) ([], StatsScannerState_new w))"
    using commit_run [OF scan_ok_new, of w "blocks chain (unat start) (Suc n)" "se_sha256 env" "se_hex env" w "[]"] assms(2)
    by (auto simp: chain_outputs_def StatsScannerState_new_def is_ok_iff)
  moreover have "blocks chain (unat start) (Suc n) = blocks chain (unat start) n @ [chain (word_of_nat n)]"
    using n by (simp add: blocks_def)
  ultimately have "is_ok (commit_step (se_sha256 env) (se_hex env) w (chain (word_of_nat n)) (rows, s))"
    using assms(1) by (auto simp: scanned_def try_fold_append is_ok_iff and_then_eq_Inr)
  then show ?thesis by (auto simp: commit_step_def is_ok_iff and_then_eq_Inr)
qed

lemma save_run_live:
  "is_ok (to_allocvec (se_postcard env) (make_checkpoint cfg (sr_state run) height hash)) \<Longrightarrow> is_ok (snd (save_run env cfg height hash run))"
  by (auto simp: save_run_def write_checkpoint_def save_checkpoint_def Let_def is_ok_iff split: prod.splits)

section \<open>A run with a complete source succeeds\<close>

context row_sink
begin

lemma scan_frame_live:
  assumes honest: "honest env source chain" and w: "sn_start cfg = start" "sn_utxo_hash_window cfg = w"
    and rows_ok: "\<And>n rows s. scanned env start w chain n rows s \<Longrightarrow> list_all row_ok rows"
    and ser: "serializes env cfg chain" and s0: "sink_ok s0"
    and bound: "chain_outputs chain (unat start) (Suc n) < 2 ^ 60"
    and run: "run_at env start w chain sink rows0 s0 n run"
  shows "is_ok (snd (scan_frame env sink cfg (chain (word_of_nat n)) run))"
proof -
  obtain rows where rows: "scanned env start w chain n (rows0 @ rows) (sr_state run)" "sr_sink run = emits sink rows s0"
    using run by (auto simp: run_at_def)
  obtain row state where c: "commit_frame (se_sha256 env) (se_hex env) w (chain (word_of_nat n)) (sr_state run) = Inr (row, state)"
    using commit_live [OF rows(1) bound] by blast
  have next_rows: "scanned env start w chain (Suc n) ((rows0 @ rows) @ [row]) state" by (rule scanned_snoc [OF rows(1) c])
  have "list_all row_ok ((rows0 @ rows) @ [row])" by (rule rows_ok [OF next_rows])
  then have ok: "list_all row_ok rows" "row_ok row" by simp_all
  have "sink_ok (sr_sink run)" using emits_rows [OF s0 ok(1)] rows(2) by simp
  then obtain s1 where 1: "sk_emit_block sink row (sr_sink run) = (s1, Inr ())" using emit_block [OF _ ok(2)] by blast
  have h: "pf_height (chain (word_of_nat n)) = word_of_nat n" using honest by (simp add: honest_def)
  have "is_ok (to_allocvec (se_postcard env) (make_checkpoint cfg state (word_of_nat n) (pf_hash (chain (word_of_nat n)))))"
    using ser next_rows w by (auto simp: serializes_def)
  then have saved: "is_ok (snd (save_run env cfg (word_of_nat n) (pf_hash (chain (word_of_nat n))) r))" if "sr_state r = state" for r :: "'s scan_run"
    using that by (intro save_run_live) simp
  then show ?thesis
    using c 1 h w(2) by (auto simp: scan_frame_def Let_def is_ok_iff [of "Inr _"] split: prod.split)
qed

lemma scan_frames_live:
  assumes pc: "postcard_ok (se_postcard env)" and chain: "chain \<in> forks" "honest env source chain"
    and w: "sn_start cfg = start" "sn_utxo_hash_window cfg = w"
    and rows_ok: "\<And>n rows s. scanned env start w chain n rows s \<Longrightarrow> list_all row_ok rows"
    and ser: "serializes env cfg chain" and s0: "sink_ok s0"
    and bound: "chain_outputs chain (unat start) b < 2 ^ 60" "b < 2 ^ 64"
    and "unat start \<le> a" "a \<le> b" "run_at env start w chain sink rows0 s0 a run" "dir_ok env start w forks (sr_dir run)"
  shows "is_ok (snd (scan_frames env sink cfg (blocks chain a b) run))"
  using assms(11-)
proof (induction "b - a" arbitrary: a run)
  case 0
  then show ?case by (simp add: blocks_def is_ok_iff)
next
  case (Suc d)
  then have ab: "a < b" by simp
  obtain run1 r1 where 1: "scan_frame env sink cfg (chain (word_of_nat a)) run = (run1, r1)"
    by (cases "scan_frame env sink cfg (chain (word_of_nat a)) run")
  have "chain_outputs chain (unat start) (Suc a) < 2 ^ 60"
    using chain_outputs_mono [of "unat start" "Suc a" b chain] Suc.prems(1) ab bound(1) by simp
  from scan_frame_live [OF chain(2) w rows_ok ser s0 this Suc.prems(3)] 1 have "is_ok r1" by simp
  moreover have "dir_ok env start w forks (sr_dir run1)" "is_ok r1 \<Longrightarrow> run_at env start w chain sink rows0 s0 (Suc a) run1"
    using scan_frame_ok [OF pc chain w(2) Suc.prems(1) _ Suc.prems(3,4) 1] ab bound(2) by simp_all
  ultimately have "is_ok (snd (scan_frames env sink cfg (blocks chain (Suc a) b) run1))" "\<exists>u. r1 = Inr u"
    using Suc.hyps Suc.prems(1) ab by (auto simp: is_ok_iff)
  with 1 show ?case by (auto simp: blocks_Cons [OF ab])
qed

lemma scan_batches_live:
  assumes pc: "postcard_ok (se_postcard env)" and chain: "chain \<in> forks" "honest env source chain" and arrive: "arrive_ok env"
    and w: "sn_start cfg = start" "sn_utxo_hash_window cfg = w"
    and rows_ok: "\<And>n rows s. scanned env start w chain n rows s \<Longrightarrow> list_all row_ok rows"
    and ser: "serializes env cfg chain" and s0: "sink_ok s0" and complete: "complete source tip"
    and bound: "chain_outputs chain (unat start) (Suc (unat max_end)) < 2 ^ 60" "max_end \<le> tip" "Suc (unat tip) < 2 ^ 64"
      "sn_source_batch_size cfg < 2 ^ 64"
    and "unat start \<le> unat next_height" "unat next_height \<le> Suc (unat max_end)"
      "run_at env start w chain sink rows0 s0 (unat next_height) run" "dir_ok env start w forks (sr_dir run)"
      "Suc (unat max_end) - unat next_height \<le> fuel"
  shows "is_ok (snd (scan_batches fuel env source sink cfg max_end next_height run))"
  using assms(15-)
proof (induction fuel arbitrary: next_height run)
  case 0
  then show ?case by (simp add: is_ok_iff word_le_nat_alt)
next
  case (Suc fuel)
  have e: "unat max_end + 1 < 2 ^ 64" "unat max_end \<le> unat tip" using bound(2,3) by (simp_all add: word_le_nat_alt)
  show ?case
  proof (cases "next_height \<le> max_end")
    case False
    then show ?thesis by (simp add: is_ok_iff)
  next
    case True
    define c where "c = min (max_end - next_height + 1) (word_of_nat (max (sn_source_batch_size cfg) 1))"
    note n = batch_count [OF True e(1) c_def]
    have below: "unat next_height + unat c \<le> Suc (unat tip)" using n(1) e(2) by simp
    note fetched = fetch_live [OF chain(2) arrive complete below bound(3)]
    have "unat (word_of_nat (max (sn_source_batch_size cfg) 1) :: u64) = max (sn_source_batch_size cfg) 1"
      using bound(4) by (intro unat_word_of_nat_small) simp
    moreover have "unat (max_end - next_height + 1) = unat max_end - unat next_height + 1"
      using True e(1) by (simp add: unat_word_ariths word_le_nat_alt unat_sub)
    ultimately have pos: "unat c > 0" by (auto simp: c_def min_def)
    obtain run1 r1 where 1: "scan_frames env sink cfg (blocks chain (unat next_height) (unat next_height + unat c)) run = (run1, r1)"
      by (cases "scan_frames env sink cfg (blocks chain (unat next_height) (unat next_height + unat c)) run")
    have outs: "chain_outputs chain (unat start) (unat next_height + unat c) < 2 ^ 60"
      using chain_outputs_mono [of "unat start" "unat next_height + unat c" "Suc (unat max_end)" chain] n(1) Suc.prems(1) bound(1) by simp
    have b: "unat next_height + unat c < 2 ^ 64" using below bound(3) by simp
    from scan_frames_live [OF pc chain w rows_ok ser s0 outs b Suc.prems(1) _ Suc.prems(3,4)] 1 have "is_ok r1" by simp
    moreover have "dir_ok env start w forks (sr_dir run1)"
        "is_ok r1 \<Longrightarrow> run_at env start w chain sink rows0 s0 (unat next_height + unat c) run1"
      using scan_frames_ok [OF pc chain w(2) b Suc.prems(1) _ Suc.prems(3,4) 1] by simp_all
    ultimately have "is_ok (snd (scan_batches fuel env source sink cfg max_end (next_height + c) run1))" "\<exists>u. r1 = Inr u"
      using Suc.IH [of "next_height + c" run1] Suc.prems(1,5) n pos by (auto simp: is_ok_iff)
    moreover have "scan_batches (Suc fuel) env source sink cfg max_end next_height run
        = (case fetch_and_prepare_batch env source next_height c of Inl e \<Rightarrow> (run, Inl e)
           | Inr batch \<Rightarrow> (case scan_frames env sink cfg batch run of (run, Inl e) \<Rightarrow> (run, Inl e)
             | (run, Inr _) \<Rightarrow> scan_batches fuel env source sink cfg max_end (next_height + c) run))"
      unfolding c_def scan_batches.simps Let_def using True by (simp only: if_True)
    ultimately show ?thesis using fetched 1 by auto
  qed
qed

end

text \<open>The source knows the heights of the checkpoints; otherwise the restore fails with the source's error.\<close>

definition dir_answered :: "scan_env \<Rightarrow> ScanSource \<Rightarrow> ckpt_dir \<Rightarrow> bool" where
  "dir_answered env source dir \<longleftrightarrow> (\<forall>name bs ck. map_of (dir_files dir) name = Some bs \<longrightarrow> from_bytes (se_postcard env) bs = Inr ck
     \<longrightarrow> is_ok (src_get_block_hash source (ck_height ck)))"

lemma restore_from_live:
  assumes "dir_answered env source dir"
  shows "is_ok (restore_from env source cfg dir paths)"
proof (induction paths)
  case (Cons path paths)
  have "is_ok (src_get_block_hash source (ck_height ck))" if "load_checkpoint (se_postcard env) dir path = Inr ck" for ck
    using assms that by (auto simp: load_checkpoint_def dir_answered_def split: option.splits)
  with Cons show ?case by (fastforce simp: is_ok_iff split: sum.split)
qed (simp add: is_ok_iff)

context row_sink
begin

lemma scan_finish_live:
  assumes honest: "honest env source chain" and w: "sn_start cfg = start" "sn_utxo_hash_window cfg = w"
    and rows_ok: "\<And>n rows s. scanned env start w chain n rows s \<Longrightarrow> list_all row_ok rows"
    and ser: "serializes env cfg chain" and s0: "sink_ok s0"
    and run: "run_at env start w chain sink rows0 s0 (Suc e) run"
  shows "is_ok (snd (scan_finish env sink cfg run))"
proof -
  obtain rows where rows: "scanned env start w chain (Suc e) (rows0 @ rows) (sr_state run)" "sr_sink run = emits sink rows s0"
    using run by (auto simp: run_at_def)
  have "list_all row_ok (rows0 @ rows)" by (rule rows_ok [OF rows(1)])
  then have sink: "sink_ok (sr_sink run)" using emits_rows [OF s0, of rows] rows(2) by simp
  define saved where "saved = (if needs_final_flush (sr_writer run) then
      (case (sr_last_committed_height run, sr_last_committed_hash run) of
         (Some height, Some hash) \<Rightarrow> save_run env cfg height hash run
       | _ \<Rightarrow> (run, Inr ())) else (run, Inr ()))"
  have "is_ok (snd (save_run env cfg (word_of_nat e) (pf_hash (chain (word_of_nat e))) run))"
    using ser rows(1) w by (intro save_run_live) (auto simp: serializes_def)
  then have ok: "is_ok (snd saved)" using run by (auto simp: saved_def run_at_def is_ok_iff)
  have same: "sr_sink (fst saved) = sr_sink run"
    by (auto simp: saved_def save_run_def Let_def split: option.split prod.split)
  obtain run1 where 1: "saved = (run1, Inr ())" using ok by (cases saved) (auto simp: is_ok_iff)
  then have "sink_ok (sr_sink run1)" using same sink by simp
  then obtain s1 where 2: "sk_emit_run sink (ss_stats (sr_state run1)) (sr_sink run1) = (s1, Inr ())" "sink_ok s1"
    using emit_run by blast
  then obtain s2 where 3: "sk_flush sink s1 = (s2, Inr ())" using flush by blast
  show ?thesis
    unfolding scan_finish_def saved_def [symmetric] using 1 2 3 by (simp add: is_ok_iff)
qed

lemma scan_from_live:
  assumes pc: "postcard_ok (se_postcard env)" and chain: "chain \<in> forks" "honest env source chain" and arrive: "arrive_ok env"
    and w: "sn_start cfg = start" "sn_utxo_hash_window cfg = w"
    and rows_ok: "\<And>n rows s. scanned env start w chain n rows s \<Longrightarrow> list_all row_ok rows"
    and ser: "serializes env cfg chain" and s0: "sink_ok s0" and complete: "complete source tip"
    and bound: "chain_outputs chain (unat start) (Suc (unat max_end)) < 2 ^ 60" "max_end \<le> tip" "Suc (unat tip) < 2 ^ 64"
      "sn_source_batch_size cfg < 2 ^ 64"
    and dir: "dir_ok env start w forks dir"
    and at: "unat start \<le> unat scan_start" "scanned env start w chain (unat scan_start) rows0 state"
  shows "is_ok (snd (scan_from env source sink cfg max_end scan_start state (dir, s0)))"
proof (cases "scan_start > max_end")
  case True
  then show ?thesis by (simp add: scan_from_def is_ok_iff)
next
  case False
  let ?run = "\<lparr>sr_dir = dir, sr_sink = s0, sr_state = state, sr_writer = CheckpointWriter_new (sn_checkpoints cfg),
    sr_last_committed_height = None, sr_last_committed_hash = None\<rparr>"
  let ?fuel = "Suc (unat max_end - unat scan_start)"
  have le: "unat scan_start \<le> Suc (unat max_end)" and e: "unat max_end + 1 < 2 ^ 64"
    using False bound(2,3) by (simp_all add: word_less_nat_alt word_le_nat_alt)
  obtain run1 r1 where 1: "scan_batches ?fuel env source sink cfg max_end scan_start ?run = (run1, r1)"
    by (cases "scan_batches ?fuel env source sink cfg max_end scan_start ?run")
  have run: "run_at env start w chain sink rows0 s0 (unat scan_start) ?run"
    using at(2) by (auto simp: run_at_def emits_def intro!: exI [of _ "[]"])
  have ok: "is_ok r1"
    using scan_batches_live [OF pc chain arrive w rows_ok ser s0 complete bound at(1) le run, where fuel = ?fuel] dir 1
    by (simp del: scan_batches.simps)
  have "run_at env start w chain sink rows0 s0 (Suc (unat max_end)) run1"
    using scan_batches_ok [OF pc chain arrive w(2) e at(1) le run _ 1] dir ok by simp
  from scan_finish_live [OF chain(2) w rows_ok ser s0 this] False 1 ok show ?thesis
    by (auto simp: scan_from_def is_ok_iff simp del: scan_batches.simps)
qed

lemma scan_live:
  assumes pc: "postcard_ok (se_postcard env)" and arrive: "arrive_ok env"
    and chain: "hash_linked forks" "chain \<in> forks" "honest env source chain"
    and w: "sn_start cfg = start" "sn_utxo_hash_window cfg = w"
    and rows_ok: "\<And>n rows s. scanned env start w chain n rows s \<Longrightarrow> list_all row_ok rows"
    and ser: "serializes env cfg chain" and s0: "sink_ok s0" and complete: "complete source tip"
    and bound: "chain_outputs chain (unat start) (Suc (unat tip)) < 2 ^ 60" "Suc (unat tip) < 2 ^ 64" "sn_source_batch_size cfg < 2 ^ 64"
    and dir: "dir_ok env start w forks dir" "dir_answered env source dir"
  shows "is_ok (snd (scan env source sink cfg (dir, s0)))"
proof (cases "start \<le> saturating_sub tip (sn_finality_depth cfg)")
  case False
  then have "saturating_sub tip (sn_finality_depth cfg) < sn_start cfg" using w(1) by (simp add: not_le)
  then show ?thesis using complete by (simp add: scan_def complete_def is_ok_iff)
next
  case True
  let ?e = "scan_end cfg tip"
  have tip: "src_get_best_height source = Inr tip" using complete by (simp add: complete_def)
  have e: "?e \<le> tip" "unat start \<le> unat ?e"
    using scan_end_le [of cfg tip] scan_end_ge [of cfg tip] True w(1) by (simp_all add: word_le_nat_alt)
  have outs: "chain_outputs chain (unat start) (Suc (unat ?e)) < 2 ^ 60"
    using chain_outputs_mono [of "unat start" "Suc (unat ?e)" "Suc (unat tip)" chain] e bound(1) by (simp add: word_le_nat_alt)
  have from_live: "is_ok (snd (scan_from env source sink cfg ?e st state (dir, s1)))"
    if "sink_ok s1" "unat start \<le> unat st" "scanned env start w chain (unat st) rows0 state" for s1 st rows0 state
    by (rule scan_from_live [OF pc chain(2,3) arrive w _ ser that(1) complete outs e(1) bound(2,3) dir(1) that(2,3)]) (erule rows_ok)
  obtain ck where ck: "restored env source cfg dir = Inr ck"
    using restore_from_live [OF dir(2), of cfg "list_checkpoints_newest_first dir"]
    by (cases "cc_enabled (sn_checkpoints cfg)") (auto simp: restored_def restore_newest_valid_checkpoint_def is_ok_iff)
  show ?thesis
  proof (cases ck)
    case None
    have "scanned env start w chain (unat start) [] (StatsScannerState_new w)" by (simp add: scanned_def blocks_def)
    from from_live [OF s0 order_refl this] ck None show ?thesis unfolding scan_restored [OF tip True w] by simp
  next
    case (Some c)
    have "restore_from env source cfg dir (list_checkpoints_newest_first dir) = Inr (Some c)"
      using ck Some by (auto simp: restored_def restore_newest_valid_checkpoint_def split: if_splits)
    from restore_from_genuine [OF chain(3,2,1) dir(1) w(2) this]
    obtain rows0 where gen: "ck_next_height c = ck_height c + 1" "unat (ck_height c) + 1 < 2 ^ 64" "unat start \<le> unat (ck_height c)"
        "scanned env start w chain (Suc (unat (ck_height c))) rows0 (ck_scanner_state c)"
      by (auto simp: genuine_def)
    have next_height: "unat (ck_next_height c) = Suc (unat (ck_height c))" using gen(1,2) by (simp add: unat_word_ariths)
    obtain s1 where 1: "sk_rollback_to_height sink (ck_height c) s0 = (s1, Inr ())" "sink_ok s1" using rollback [OF s0] by blast
    have "unat start \<le> unat (ck_next_height c)" "scanned env start w chain (unat (ck_next_height c)) rows0 (ck_scanner_state c)"
      using gen next_height by simp_all
    from from_live [OF 1(2) this] ck Some 1 show ?thesis unfolding scan_restored [OF tip True w] by simp
  qed
qed

end

end
