(* ===== verification/Resume_Properties.thy ===== *)
theory Resume_Properties
  imports Resume_Runs
begin

text \<open>
  The properties of statistics runs with checkpoints, for the sink the program builds: a fan-out over one CSV file.
  A chain of empty blocks with a source, and a serializer of its checkpoints, show that the
  assumptions hold together.
\<close>

section \<open>The sink of the program\<close>

definition program_sink :: "spill \<Rightarrow> string \<Rightarrow> csv_state list StatsSink" where
  "program_sink spill path = Fanout [StatsCsvSink spill path]"

definition program_ok :: "csv_state list \<Rightarrow> bool" where
  "program_ok ss \<longleftrightarrow> (\<exists>s. ss = [s] \<and> csv_ok s)"

definition program_rows :: "csv_state list \<Rightarrow> string list" where
  "program_rows ss = csv_rows (hd ss)"

interpretation program: row_sink "program_sink spill path" program_ok program_rows csv_line row_plain keep_line
proof
  fix ss r assume "program_ok ss" and r: "row_plain r"
  then obtain s where s: "ss = [s]" "csv_ok s" by (auto simp: program_ok_def)
  from csv.emit_block [OF s(2) r, of spill path] s(1)
  show "\<exists>s'. sk_emit_block (program_sink spill path) r ss = (s', Inr ()) \<and> program_ok s' \<and> program_rows s' = program_rows ss @ [csv_line r]"
    by (auto simp: program_sink_def Fanout_def fanout_single program_ok_def program_rows_def)
next
  fix ss st assume "program_ok ss"
  then obtain s where s: "ss = [s]" "csv_ok s" by (auto simp: program_ok_def)
  from csv.emit_run [OF s(2), of spill path st] s(1)
  show "\<exists>s'. sk_emit_run (program_sink spill path) st ss = (s', Inr ()) \<and> program_ok s' \<and> program_rows s' = program_rows ss"
    by (auto simp: program_sink_def Fanout_def fanout_single program_ok_def program_rows_def)
next
  fix ss h assume "program_ok ss"
  then obtain s where s: "ss = [s]" "csv_ok s" by (auto simp: program_ok_def)
  from csv.rollback [OF s(2), of spill path h] s(1)
  show "\<exists>s'. sk_rollback_to_height (program_sink spill path) h ss = (s', Inr ()) \<and> program_ok s'
      \<and> program_rows s' = filter (keep_line h) (program_rows ss)"
    by (auto simp: program_sink_def Fanout_def fanout_single program_ok_def program_rows_def)
next
  fix ss assume "program_ok ss"
  then obtain s where s: "ss = [s]" "csv_ok s" by (auto simp: program_ok_def)
  from csv.flush [OF s(2), of spill path] s(1)
  show "\<exists>s'. sk_flush (program_sink spill path) ss = (s', Inr ()) \<and> program_ok s' \<and> program_rows s' = program_rows ss"
    by (auto simp: program_sink_def Fanout_def fanout_single program_ok_def program_rows_def)
qed (rule csv_line_height)

section \<open>A chain of empty blocks\<close>

definition empty_chain :: "u64 \<Rightarrow> PreparedBlockFrame" where
  "empty_chain h = \<lparr>pf_height = h, pf_hash = to_be_bytes h, pf_txs = []\<rparr>"

definition empty_frame :: "u64 \<Rightarrow> RawBlockFrame" where
  "empty_frame h = \<lparr>rf_height = h, rf_hash = to_be_bytes h, rf_bytes = [], rf_spent_txouts = None\<rparr>"

definition empty_source :: "u64 \<Rightarrow> ScanSource" where
  "empty_source tip = \<lparr>src_get_block_hash = (\<lambda>h. Inr (to_be_bytes h)), src_get_block_raw = (\<lambda>_. Inr []),
     src_get_block_spent_txouts = (\<lambda>_. Inr None), src_get_blocks_spent_txouts = (\<lambda>hs. Inr (map (\<lambda>_. None) hs)),
     src_get_best_height = Inr tip,
     src_get_block_range_by_height = (\<lambda>h n. Inr (map (\<lambda>k. empty_frame (word_of_nat k)) [unat h ..< unat h + n])),
     src_get_block_by_height = (\<lambda>h. Inr (empty_frame h)), src_supports_block_range_batches = False\<rparr>"

definition empty_cfg :: "u64 \<Rightarrow> ScanConfig" where
  "empty_cfg n = ScanConfig_default\<lparr>sn_start := 5, sn_blocks := n, sn_source_batch_size := 2,
     sn_checkpoints := \<lparr>cc_every = 1, cc_keep = 10, cc_enabled = True\<rparr>\<rparr>"

definition empty_checkpoint :: "u64 \<Rightarrow> StatsCheckpoint" where
  "empty_checkpoint h = make_checkpoint (empty_cfg 0) (StatsScannerState_new 0) h (to_be_bytes h)"

definition empty_postcard :: postcard where
  "empty_postcard =
     \<lparr>to_allocvec = (\<lambda>c. if c = empty_checkpoint (ck_height c) then Inr (to_be_bytes (ck_height c)) else Inl (Error ''unsupported'')),
      from_bytes = (\<lambda>bs. if length bs = 8 then Inr (empty_checkpoint (from_be_bytes bs)) else Inl (Error ''unsupported''))\<rparr>"

definition empty_env :: scan_env where
  "empty_env = \<lparr>se_sha256 = (\<lambda>_. replicate 32 1), se_hex = (\<lambda>_. ''00''), se_tests = documented_stats_tests,
     se_decode = (\<lambda>_. Inr []), se_postcard = empty_postcard, se_arrive = rev\<rparr>"

lemma empty_postcard_ok: "postcard_ok empty_postcard"
  unfolding postcard_ok_def
proof (intro allI impI)
  fix c bs assume "to_allocvec empty_postcard c = Inr bs"
  then have "c = empty_checkpoint (ck_height c)" "bs = to_be_bytes (ck_height c)"
    by (auto simp: empty_postcard_def split: if_splits)
  then show "from_bytes empty_postcard bs = Inr c" by (simp add: empty_postcard_def length_to_be_bytes from_to_be_bytes)
qed

lemma empty_env_ok: "arrive_ok empty_env" "hex_plain (se_hex empty_env)" "se_postcard empty_env = empty_postcard"
  by (simp_all add: arrive_ok_def empty_env_def hex_plain_def)

lemma empty_honest: "honest empty_env (empty_source tip) empty_chain"
proof -
  have p: "prepare_raw_block empty_env (empty_frame h) = Inr (empty_chain h)" for h
    by (simp add: prepare_raw_block_def decode_raw_block_def prepare_decoded_block_def empty_env_def empty_frame_def empty_chain_def)
  have "try_map (prepare_raw_block empty_env) (map (\<lambda>k. empty_frame (word_of_nat k)) ks)
      = Inr (map (\<lambda>k. empty_chain (word_of_nat k)) ks)" for ks
    by (induction ks) (simp_all add: p)
  with p show ?thesis by (simp add: honest_def empty_source_def blocks_def) (simp add: empty_chain_def)
qed

lemma empty_complete: "complete (empty_source tip) tip"
  by (simp add: complete_def empty_source_def is_ok_iff)

lemma empty_commit: "\<exists>row. commit_frame sha256 hex 0 (empty_chain h) (StatsScannerState_new 0) = Inr (row, StatsScannerState_new 0)"
  by (simp add: commit_frame_def empty_chain_def StatsScannerState_new_def RollingUtxoHash_new_def finalize_block_def ru_enabled_def
    measure_sorted_uid_encoding_def measure_sorted_uid_stream_def PerBlock_default_def Let_def drain_into_def)


lemma empty_steps:
  "try_fold (commit_step sha256 hex 0) (map (\<lambda>h. empty_chain (word_of_nat h)) hs) (rows0, StatsScannerState_new 0) = Inr (rows, s)
    \<Longrightarrow> s = StatsScannerState_new 0"
proof (induction hs arbitrary: rows0)
  case (Cons h hs)
  obtain row where "commit_frame sha256 hex 0 (empty_chain (word_of_nat h)) (StatsScannerState_new 0) = Inr (row, StatsScannerState_new 0)"
    using empty_commit by blast
  with Cons.prems Cons.IH [of "rows0 @ [row]"] show ?case
    by (simp add: commit_step_def [of sha256 hex 0 "empty_chain (word_of_nat h)"])
qed simp

lemma empty_scanned: "scanned env start 0 empty_chain n rows s \<Longrightarrow> s = StatsScannerState_new 0"
  by (auto simp: scanned_def blocks_def intro: empty_steps)

lemma empty_serializes: "serializes empty_env (empty_cfg n) empty_chain"
proof -
  have "make_checkpoint (empty_cfg n) (StatsScannerState_new 0) h (to_be_bytes h) = empty_checkpoint h" for h
    by (simp add: empty_checkpoint_def make_checkpoint_def empty_cfg_def)
  moreover have "ck_height (empty_checkpoint h) = h" for h by (simp add: empty_checkpoint_def make_checkpoint_def)
  ultimately show ?thesis
    by (auto simp: serializes_def empty_cfg_def ScanConfig_default_def empty_env_def empty_postcard_def empty_chain_def is_ok_iff
      dest: empty_scanned)
qed

lemma empty_outputs: "chain_outputs empty_chain a b = 0"
  by (simp add: chain_outputs_def blocks_def frame_outputs_def empty_chain_def comp_def)

lemma empty_cfg_fields [simp]: "sn_start (empty_cfg n) = 5" "sn_utxo_hash_window (empty_cfg n) = 0"
    "sn_source_batch_size (empty_cfg n) = 2" "sn_finality_depth (empty_cfg n) = 6"
  by (simp_all add: empty_cfg_def ScanConfig_default_def)

lemma empty_answered: "dir_answered env (empty_source tip) dir"
  by (simp add: dir_answered_def empty_source_def is_ok_iff)

section \<open>Properties\<close>

text \<open>
  C30: A run of the statistics program with a complete source succeeds, whatever runs with the same start and
  window came before it on the directory of checkpoints: no panic, no exhausted fuel,
  for every batch size, order of arrival and buffering of the file.
\<close>

theorem stats_scan_succeeds:
  assumes "postcard_ok (se_postcard env)" and "arrive_ok env" and "hex_plain (se_hex env)" and "hash_linked forks"
    and "stats_history env (program_sink spill path) (sn_start cfg) (sn_utxo_hash_window cfg) forks dir"
    and "chain \<in> forks" and "honest env source chain" and "complete source tip" and "dir_answered env source dir"
    and "serializes env cfg chain" and "program_ok s0"
    and "chain_outputs chain (unat (sn_start cfg)) (Suc (unat tip)) < 2 ^ 60" and "Suc (unat tip) < 2 ^ 64"
    and "sn_source_batch_size cfg < 2 ^ 64"
  shows "is_ok (snd (scan env source (program_sink spill path) cfg (dir, s0)))"
  using history_dir_ok [OF assms(5,1,2,4)] assms scanned_plain [OF assms(3)]
  by (intro program.scan_live [OF assms(1,2,4,6,7) refl refl]) auto

theorem stats_scan_succeeds_witness:
  "is_ok (snd (scan empty_env (empty_source 20) (program_sink (\<lambda>_ _. 0) ''stats.csv'') (empty_cfg 4) (None, [csv_append (\<lambda>_ _. 0) []])))"
proof (rule stats_scan_succeeds [where forks = "{empty_chain}" and chain = empty_chain and tip = 20])
  show "stats_history empty_env (program_sink (\<lambda>_ _. 0) ''stats.csv'') (sn_start (empty_cfg 4)) (sn_utxo_hash_window (empty_cfg 4)) {empty_chain} None"
    by (rule stats_history.new)
qed (simp_all add: empty_postcard_ok empty_env_ok hash_linked_def empty_honest empty_complete empty_answered empty_serializes
    program_ok_def csv_append_new empty_outputs)



text \<open>
  C29: The rows a run leaves in the CSV file: those that were there, rolled back to the height of the restored checkpoint if there is
  one, followed by the rows of the blocks scanned now. So when the file held the
  rows of the chain up to the checkpoint, it holds exactly the rows of one pass from the start, in order; when nothing
  is restored the old rows stay and the run's rows come after them.
\<close>

theorem csv_resume_rows:
  assumes "postcard_ok (se_postcard env)" and "arrive_ok env" and "hex_plain (se_hex env)" and "hash_linked forks"
    and "stats_history env (program_sink spill path) (sn_start cfg) (sn_utxo_hash_window cfg) forks dir"
    and "chain \<in> forks" and "honest env source chain"
    and "src_get_best_height source = Inr tip" and "unat tip + 1 < 2 ^ 64" and "sn_start cfg \<le> saturating_sub tip (sn_finality_depth cfg)"
    and "program_ok s0" and "scan env source (program_sink spill path) cfg (dir, s0) = ((dir', s'), Inr stats)"
  shows "\<exists>ck rows s. restored env source cfg dir = Inr ck
    \<and> scanned env (sn_start cfg) (sn_utxo_hash_window cfg) chain (scan_limit cfg tip ck) rows s
    \<and> program_rows s' = (case ck of None \<Rightarrow> program_rows s0 | Some c \<Rightarrow> filter (keep_line (ck_height c)) (program_rows s0))
        @ map csv_line (drop (resumed_rows (sn_start cfg) ck) rows)
    \<and> (ck = None \<and> program_rows s0 = []
        \<or> (\<exists>c. ck = Some c \<and> filter (keep_line (ck_height c)) (program_rows s0) = map csv_line (take (resumed_rows (sn_start cfg) ck) rows))
       \<longrightarrow> program_rows s' = map csv_line rows)"
proof -
  let ?sink = "program_sink spill path"
  obtain ck rows s where 1: "restored env source cfg dir = Inr ck"
      "scanned env (sn_start cfg) (sn_utxo_hash_window cfg) chain (scan_limit cfg tip ck) rows s"
      "s' = sink_after ?sink stats (drop (resumed_rows (sn_start cfg) ck) rows) (resumed_sink ?sink ck s0)"
    using scan_resumes [OF assms(1,2,4,6,7) refl refl history_dir_ok [OF assms(5,1,2,4)] assms(8,9,10,12)] by blast
  have "list_all row_plain (drop (resumed_rows (sn_start cfg) ck) rows)"
    using scanned_plain [OF assms(3) 1(2)] by (auto simp: list_all_iff dest: in_set_dropD)
  then have rows: "program_rows s' = (case ck of None \<Rightarrow> program_rows s0 | Some c \<Rightarrow> filter (keep_line (ck_height c)) (program_rows s0))
      @ map csv_line (drop (resumed_rows (sn_start cfg) ck) rows)"
    unfolding 1(3) using program.resumed_sink_rows [OF assms(11)] program.sink_after_rows by auto
  moreover have "program_rows s' = map csv_line rows"
    if "ck = None \<and> program_rows s0 = []
        \<or> (\<exists>c. ck = Some c \<and> filter (keep_line (ck_height c)) (program_rows s0) = map csv_line (take (resumed_rows (sn_start cfg) ck) rows))"
    using that rows by (auto simp: resumed_rows_def map_append [symmetric] simp del: map_append)
  ultimately show ?thesis using 1(1,2) by blast
qed

theorem csv_resume_rows_witness:
  "\<exists>dir' s' stats ck rows s.
     scan empty_env (empty_source 20) (program_sink (\<lambda>_ _. 0) ''stats.csv'') (empty_cfg 4) (None, [csv_append (\<lambda>_ _. 0) []]) = ((dir', s'), Inr stats)
   \<and> scanned empty_env 5 0 empty_chain (scan_limit (empty_cfg 4) 20 ck) rows s \<and> program_rows s' = map csv_line rows"
proof -
  let ?sink = "program_sink (\<lambda>_ _. 0) ''stats.csv''" and ?s0 = "[csv_append (\<lambda>_ _. 0) []]"
  have linked: "hash_linked {empty_chain}" by (simp add: hash_linked_def)
  have pc: "postcard_ok (se_postcard empty_env)" by (simp add: empty_env_ok empty_postcard_ok)
  have new: "stats_history empty_env ?sink (sn_start (empty_cfg 4)) (sn_utxo_hash_window (empty_cfg 4)) {empty_chain} None"
    by (rule stats_history.new)
  have sink: "program_ok ?s0" "program_rows ?s0 = []" by (simp_all add: program_ok_def program_rows_def csv_append_new)
  have "is_ok (snd (scan empty_env (empty_source 20) ?sink (empty_cfg 4) (None, ?s0)))"
    using history_dir_ok [OF new pc empty_env_ok(1) linked] scanned_plain [OF empty_env_ok(2)] sink(1)
    by (intro program.scan_live [OF pc empty_env_ok(1) linked _ empty_honest, where tip = 20])
      (simp_all add: empty_complete empty_answered empty_serializes empty_outputs)
  then obtain dir' s' stats where run: "scan empty_env (empty_source 20) ?sink (empty_cfg 4) (None, ?s0) = ((dir', s'), Inr stats)"
    by (cases "scan empty_env (empty_source 20) ?sink (empty_cfg 4) (None, ?s0)") (auto simp: is_ok_iff)
  have none: "restored empty_env (empty_source 20) (empty_cfg 4) None = Inr None"
    by (simp add: restored_def restore_newest_valid_checkpoint_def list_checkpoints_newest_first_def)
  have "\<exists>ck rows s. scanned empty_env 5 0 empty_chain (scan_limit (empty_cfg 4) 20 ck) rows s \<and> program_rows s' = map csv_line rows"
    using csv_resume_rows [OF pc empty_env_ok(1,2) linked new _ empty_honest _ _ _ sink(1) run] sink(2) none
    by (auto simp: empty_source_def saturating_sub_def resumed_rows_def)
  with run show ?thesis by blast
qed

end
