(* ===== verification/Spec2Isabelle.thy ===== *)
theory Spec2Isabelle
  imports Leb128 Full_Run Undo_Payload Multi_Source Resume_Properties
begin

text \<open>
  A verification of the light-block indexer, the light server and the chain statistics of this repository.

  \<^bold>\<open>The program.\<close> An indexer reads finalized blocks from a node, keeps the P2TR
  outputs that can be silent payments, numbers them with UIDs, and writes one
  stored block per height to a file archive beside a key-value database with
  the live outpoints. A server answers height-range requests from that
  archive: it reads the stored block, applies cut-through and reuse filters, and
  sends packed light blocks in a range frame. A client follows the ranges. A separate
  scanner counts outputs and spends over a range of blocks: it keeps the UTXO set in
  memory, emits one row of statistics per block, prices encodings of the spent UIDs, and
  reports a rolling hash of the UTXO changes.

  \<^bold>\<open>The theories and the code they model\<close> (paths under \<^verbatim>\<open>src/\<close>):

  \<^item> \<^verbatim>\<open>Prelude\<close>: results (\<open>error + 'a\<close>), the \<open>?\<close> operator as \<open>and_then\<close>, fallible maps
    and folds, checked and saturating words, byte orders; their lemmas.
  \<^item> \<^verbatim>\<open>Bits\<close>, \<^verbatim>\<open>Elias_Delta\<close>, \<^verbatim>\<open>Leb128\<close>, \<^verbatim>\<open>Spent_Ids\<close>: \<^verbatim>\<open>light-server/src/codec\<close> and the spent-UID
    stream of \<^verbatim>\<open>index.rs\<close>. Round trips, encoder domain, sorted results.
  \<^item> \<^verbatim>\<open>Helper\<close>, \<^verbatim>\<open>Range\<close>: \<^verbatim>\<open>helper.rs\<close> and \<^verbatim>\<open>range.rs\<close>; the range parser accepts exactly the frames.
  \<^item> \<^verbatim>\<open>Skip_Bitmap\<close>, \<^verbatim>\<open>Tagged_Hash\<close>, \<^verbatim>\<open>Light_Block\<close>, \<^verbatim>\<open>Stored_Response\<close>: the block model, its validators and
    the filtered responses of \<^verbatim>\<open>index.rs\<close> and \<^verbatim>\<open>tagged_hash.rs\<close>. The validator is
    characterised by a declarative predicate; a filtered response is exactly the
    kept part of the stored block.
  \<^item> \<^verbatim>\<open>Light_Wire\<close>: the Cap'n Proto messages of \<^verbatim>\<open>index.rs\<close>; archived bytes to served bytes.
  \<^item> \<^verbatim>\<open>P2tr_Indexer\<close>, \<^verbatim>\<open>P2tr_Invariants\<close>, \<^verbatim>\<open>P2tr_Properties\<close>: \<^verbatim>\<open>p2tr_indexer.rs\<close>. The state
    invariant, success on well-formed blocks, UID assignment, refinement of an
    abstract map of live outputs, transparency of the candidate cache.
  \<^item> \<^verbatim>\<open>Script_Classify\<close>, \<^verbatim>\<open>Sp_Tweak\<close>: \<^verbatim>\<open>script_classify.rs\<close> and \<^verbatim>\<open>sp_tweak.rs\<close>; the scan point against BIP352.
  \<^item> \<^verbatim>\<open>Index_Store\<close>, \<^verbatim>\<open>Store_Mirror\<close>: \<^verbatim>\<open>index_store.rs\<close> as an implementation of an abstract spend
    index (locale \<open>spend_index\<close>), and that it follows the indexer.
  \<^item> \<^verbatim>\<open>Decimal\<close>, \<^verbatim>\<open>File_Archive\<close>, \<^verbatim>\<open>Profile\<close>, \<^verbatim>\<open>Json_Wire\<close>, \<^verbatim>\<open>Server\<close>: \<^verbatim>\<open>storage\<close>, \<^verbatim>\<open>profile.rs\<close>, \<^verbatim>\<open>json_wire.rs\<close> and
    \<^verbatim>\<open>server.rs\<close>. Atomic block writes, marking of spent outputs, range requests and
    the client that reaches the tip (locale \<open>served_archive\<close>).
  \<^item> \<^verbatim>\<open>Block_Source\<close>, \<^verbatim>\<open>Light_Indexer\<close>: \<^verbatim>\<open>core/src/block.rs\<close>, \<^verbatim>\<open>core/src/source.rs\<close> and
    \<^verbatim>\<open>light-server/src/bin/light_indexer.rs\<close>: frame decoding, chunk validation, the catch-up pass and
    the rounds of the run command.
  \<^item> \<^verbatim>\<open>Catch_Up\<close>, \<^verbatim>\<open>Indexer_Run\<close>, \<^verbatim>\<open>Restart\<close>, \<^verbatim>\<open>Full_Run\<close>: a pass ends and moves on (a loop rule for the
    chunk loop); the run command as a state machine of starts, rounds, failures and
    restarts (\<open>history\<close>); the committed tip is never ahead of the archive; the database
    is at all times that of one in-order run with the whole index in memory.
  \<^item> \<^verbatim>\<open>Undo_Payload\<close>: the decoder of the spent outputs of a block in \<^verbatim>\<open>core/src/block.rs\<close>; it accepts
    exactly the canonical encodings.
  \<^item> \<^verbatim>\<open>Multi_Source\<close>: \<^verbatim>\<open>sources/src/multi.rs\<close>; a call alone tries every source in turn, concurrent calls (\<open>multi_step\<close>) need not.
  \<^item> \<^verbatim>\<open>Stats_Script\<close>, \<^verbatim>\<open>Log2_Hist\<close>, \<^verbatim>\<open>Utxo_Hash\<close>: \<^verbatim>\<open>stats/src/script.rs\<close>, \<^verbatim>\<open>transaction.rs\<close>, \<^verbatim>\<open>histogram.rs\<close> and
    \<^verbatim>\<open>utxo_hash.rs\<close>: script types, the class of a P2TR spend against BIP341, percentile bounds,
    the accumulator of a window of blocks.
  \<^item> \<^verbatim>\<open>Codec_Cost\<close>, \<^verbatim>\<open>Uid_Stream\<close>, \<^verbatim>\<open>Stats_Rows\<close>: \<^verbatim>\<open>stats/src/block.rs\<close>: the prices of the encodings against
    the encoders themselves, the measurement of a block's spent UIDs, run counters, block counters and rows.
  \<^item> \<^verbatim>\<open>Stats_Scan\<close>, \<^verbatim>\<open>Scan_Invariants\<close>: \<^verbatim>\<open>stats/src/scan.rs\<close>: preparation and commit of a block, packed UTXO
    entries; the scan does not panic, its totals are the sums of its rows, and its UTXO map refines
    the set of unspent outputs.
  \<^item> \<^verbatim>\<open>Csv_Sink\<close>, \<^verbatim>\<open>Checkpoint\<close>: \<^verbatim>\<open>stats/src/sinks.rs\<close>, \<^verbatim>\<open>sinks/csv.rs\<close>, \<^verbatim>\<open>sinks/fanout.rs\<close> and \<^verbatim>\<open>checkpoint.rs\<close>: the contract of
    a sink (locale \<open>row_sink\<close>) and the CSV sink as an instance; listing and pruning of checkpoints.
  \<^item> \<^verbatim>\<open>Scan_Loop\<close>, \<^verbatim>\<open>Scan_Resume\<close>, \<^verbatim>\<open>Resume_Runs\<close>, \<^verbatim>\<open>Resume_Properties\<close>: the whole \<^verbatim>\<open>scan\<close> function with its batches, checkpoints
    and errors; genuine checkpoints as an invariant of the directory over histories of runs (\<open>stats_history\<close>), so that a
    resumed run equals an uninterrupted one; the rows left in the file; success with a complete source.

  \<^bold>\<open>Loops and bounds.\<close> Loops over lists are folds or structural recursion. The chunk loop
  of a catch-up pass takes one unit of fuel per height; it is shown that this
  never runs out. The sync client and the batch loop of the statistics scan take one unit of fuel per block. \<open>usize\<close> is a natural number with the
  64-bit bound written out where the code checks it; other integers are words.

  \<^bold>\<open>Parameters.\<close> SHA-256, the curve operations, script template tests and consensus
  decoding of the bitcoin crates, packed Cap'n Proto serialization, serde_json,
  RocksDB, hexadecimal text and HTTP header checks are arguments of the definitions; what is
  relied on is a named predicate (\<open>sha256_ok\<close>, \<open>script_tests_ok\<close>, \<open>db_ok\<close>, \<open>light_transport\<close>,
  \<open>stored_transport\<close>, \<open>web_ok\<close>, \<open>source_ok\<close>, \<open>stats_tests_ok\<close>, \<open>postcard_ok\<close>, \<open>arrive_ok\<close>, \<open>honest\<close>), and each has a concrete instance.

  \<^bold>\<open>Not modelled.\<close> Argument parsing, logging and timing, the network clients, generated code, console
  tools, and \<^verbatim>\<open>prevout_store.rs\<close>, which no crate declares as a module.
\<close>

end
